(* ===== verification/Prelude.thy ===== *)
theory Prelude
  imports Main "HOL-Library.Word" "HOL-Library.Sublist"
begin

unbundle bit_operations_syntax

text \<open>
  Shared vocabulary of the development: the machine types of the kernel, bounds-checked table
  reads, and the computations of the kernel's stateful code.

  The C++ code reports failures by throwing. A member function that may throw is modelled as a
  function from a state to a pair of a result and a state: \<open>Inr v\<close> is a normal return, \<open>Inl e\<close> an
  exception, and in both cases the state is the one the code leaves behind, since a throw does not
  undo what has been written before it.
\<close>

section \<open>Machine types\<close>

type_synonym u8 = "8 word"
type_synonym u16 = "16 word"
type_synonym u32 = "32 word"
type_synonym u64 = "64 word"

named_theorems comp_simps \<open>unfolding of computations that may throw\<close>
named_theorems inv_intros \<open>preservation of the components' invariants\<close>

section \<open>Tables with a bounds check\<close>

text \<open>
  \<open>tbl xs i\<close> reads a C array with a signed index: \<open>None\<close> is a read outside the array, which the
  language leaves undefined.
\<close>

definition tbl :: "'a list \<Rightarrow> int \<Rightarrow> 'a option" where
  "tbl xs i = (if 0 \<le> i \<and> i < int (length xs) then Some (xs ! nat i) else None)"

lemma tbl_Some_iff: "tbl xs i = Some v \<longleftrightarrow> 0 \<le> i \<and> i < int (length xs) \<and> v = xs ! nat i"
  by (auto simp: tbl_def)

lemma tbl_None_iff: "tbl xs i = None \<longleftrightarrow> i < 0 \<or> int (length xs) \<le> i"
  by (auto simp: tbl_def)

section \<open>Computations that may throw\<close>

type_synonym ('s, 'e, 'a) comp = "'s \<Rightarrow> ('e + 'a) \<times> 's"

definition ret :: "'a \<Rightarrow> ('s, 'e, 'a) comp" where
  "ret v s = (Inr v, s)"

definition throw :: "'e \<Rightarrow> ('s, 'e, 'a) comp" where
  "throw e s = (Inl e, s)"

definition andThen :: "('s, 'e, 'a) comp \<Rightarrow> ('a \<Rightarrow> ('s, 'e, 'b) comp) \<Rightarrow> ('s, 'e, 'b) comp" where
  "andThen m f s = (case m s of (Inl e, t) \<Rightarrow> (Inl e, t) | (Inr v, t) \<Rightarrow> f v t)"

definition guardE :: "bool \<Rightarrow> 'e \<Rightarrow> ('s, 'e, unit) comp" where
  "guardE b e = (if b then ret () else throw e)"

lemma ret_run [simp]: "ret v s = (Inr v, s)"
  by (simp add: ret_def)

lemma throw_run [simp]: "throw e s = (Inl e, s)"
  by (simp add: throw_def)

lemma guardE_run [simp]: "guardE b e s = (if b then (Inr (), s) else (Inl e, s))"
  by (simp add: guardE_def)

lemma andThen_ret [simp]: "andThen (ret v) f = f v"
  by (rule ext) (simp add: andThen_def)

lemma andThen_throw [simp]: "andThen (throw e) f = throw e"
  by (rule ext) (simp add: andThen_def)

lemma andThen_Inr_iff [comp_simps]:
  "andThen m f s = (Inr w, t) \<longleftrightarrow> (\<exists>v u. m s = (Inr v, u) \<and> f v u = (Inr w, t))"
  by (auto simp: andThen_def split: prod.splits sum.splits)

lemma andThen_Inl_iff [comp_simps]:
  "andThen m f s = (Inl e, t) \<longleftrightarrow>
     m s = (Inl e, t) \<or> (\<exists>v u. m s = (Inr v, u) \<and> f v u = (Inl e, t))"
  by (auto simp: andThen_def split: prod.splits sum.splits)

lemma andThen_InrI: "m s = (Inr v, u) \<Longrightarrow> andThen m f s = f v u"
  by (simp add: andThen_def)

lemma andThen_InlI: "m s = (Inl e, u) \<Longrightarrow> andThen m f s = (Inl e, u)"
  by (simp add: andThen_def)

text \<open>An invariant of a state that a computation keeps, whether it returns or throws.\<close>

definition keeps :: "('s \<Rightarrow> bool) \<Rightarrow> ('s, 'e, 'a) comp \<Rightarrow> bool" where
  "keeps I m \<longleftrightarrow> (\<forall>s. I s \<longrightarrow> I (snd (m s)))"

lemma keepsD: "keeps I m \<Longrightarrow> I s \<Longrightarrow> I (snd (m s))"
  by (simp add: keeps_def)

lemma keepsE: "keeps I m \<Longrightarrow> I s \<Longrightarrow> m s = (r, t) \<Longrightarrow> I t"
  by (metis keepsD snd_conv)

lemma keeps_ret [inv_intros]: "keeps I (ret v)"
  by (simp add: keeps_def)

lemma keeps_throw [inv_intros]: "keeps I (throw e)"
  by (simp add: keeps_def)

lemma keeps_guardE [inv_intros]: "keeps I (guardE b e)"
  by (simp add: keeps_def)

lemma keeps_andThen [inv_intros]:
  "keeps I m \<Longrightarrow> (\<And>v. keeps I (f v)) \<Longrightarrow> keeps I (andThen m f)"
  by (auto simp: keeps_def andThen_def split: prod.splits sum.splits)

lemma keeps_if [inv_intros]: "(b \<Longrightarrow> keeps I m) \<Longrightarrow> (\<not> b \<Longrightarrow> keeps I n) \<Longrightarrow> keeps I (if b then m else n)"
  by simp

section \<open>Loops over a list of values\<close>

fun for_each :: "('x \<Rightarrow> ('s, 'e, unit) comp) \<Rightarrow> 'x list \<Rightarrow> ('s, 'e, unit) comp" where
  "for_each f [] = ret ()"
| "for_each f (x # xs) = andThen (f x) (\<lambda>_. for_each f xs)"

lemma for_each_append: "for_each f (xs @ ys) = andThen (for_each f xs) (\<lambda>_. for_each f ys)"
  by (induction xs) (auto simp: fun_eq_iff andThen_def split: prod.splits sum.splits)

lemma for_each_inv:
  assumes "\<And>x s t. x \<in> set xs \<Longrightarrow> I s \<Longrightarrow> f x s = (Inr (), t) \<Longrightarrow> I t"
    and "I s" "for_each f xs s = (Inr (), t)"
  shows "I t"
  using assms
proof (induction xs arbitrary: s)
  case (Cons x xs)
  from Cons.prems(3) obtain u where u: "f x s = (Inr (), u)" "for_each f xs u = (Inr (), t)"
    by (auto simp: andThen_Inr_iff)
  show ?case
  proof (rule Cons.IH[OF _ _ u(2)])
    show "I u" by (rule Cons.prems(1)[OF _ Cons.prems(2) u(1)]) simp
  qed (use Cons.prems(1) in auto)
qed simp

text \<open>The 32-bit values from \<open>a\<close> up to but not including \<open>b\<close>: what a loop
  \<open>for(x = a; x < b; x++)\<close> runs through.\<close>

definition range32 :: "u32 \<Rightarrow> u32 \<Rightarrow> u32 list" where
  "range32 a b = map (\<lambda>i. a + of_nat i) [0..<unat b - unat a]"

lemma length_range32 [simp]: "length (range32 a b) = unat b - unat a"
  by (simp add: range32_def)

lemma range32_empty [simp]: "b \<le> a \<Longrightarrow> range32 a b = []"
  by (simp add: range32_def word_le_nat_alt)

lemma range32_nth: "i < unat b - unat a \<Longrightarrow> range32 a b ! i = a + of_nat i"
  by (simp add: range32_def)

lemma u32_bound: "unat (b :: u32) < 2 ^ 32"
proof -
  have "unat b < 2 ^ LENGTH(32)" by (rule unsigned_less)
  then show ?thesis by simp
qed

lemma u32_less_succ: "x + 1 \<noteq> 0 \<Longrightarrow> x < (x + 1 :: u32)"
proof -
  assume nz: "x + 1 \<noteq> 0"
  have "unat x + 1 < 2 ^ 32"
  proof (rule ccontr)
    assume "\<not> unat x + 1 < 2 ^ 32"
    then have "unat x + 1 = 2 ^ 32" using u32_bound[of x] by simp
    then have "unat (x + 1) = 0" by (simp add: unat_word_ariths)
    then show False using nz by (simp add: unsigned_eq_0_iff)
  qed
  then show ?thesis by (simp add: word_less_nat_alt unat_word_ariths)
qed

lemma unat_range32: "i < unat (b :: u32) - unat (a :: u32) \<Longrightarrow> unat (a + of_nat i) = unat a + i"
proof -
  assume i: "i < unat b - unat a"
  then have "unat a + i < 2 ^ 32" using u32_bound[of b] by simp
  then show ?thesis by (simp add: unat_word_ariths unat_of_nat mod_simps)
qed

lemma set_range32: "set (range32 a b) = {x. a \<le> x \<and> x < b}"
proof (intro set_eqI iffI)
  fix x assume "x \<in> set (range32 a b)"
  then obtain i where i: "i < unat b - unat a" "x = a + of_nat i" by (auto simp: range32_def)
  with unat_range32[OF i(1)] show "x \<in> {x. a \<le> x \<and> x < b}"
    by (auto simp: word_le_nat_alt word_less_nat_alt)
next
  fix x assume "x \<in> {x. a \<le> x \<and> x < b}"
  then have "unat a \<le> unat x" "unat x < unat b" by (auto simp: word_le_nat_alt word_less_nat_alt)
  moreover have "x = a + of_nat (unat x - unat a)" using calculation(1) by (simp add: of_nat_diff)
  ultimately show "x \<in> set (range32 a b)" by (auto simp: range32_def intro!: image_eqI[of _ _ "unat x - unat a"])
qed

lemma distinct_range32: "distinct (range32 a b)"
  unfolding range32_def distinct_map
proof (intro conjI distinct_upt inj_onI)
  fix i j assume "i \<in> set [0..<unat b - unat a]" "j \<in> set [0..<unat b - unat a]"
    and e: "a + of_nat i = a + of_nat j"
  then have "unat a + i = unat a + j"
    using unat_range32[of i b a] unat_range32[of j b a] by (metis add_0 atLeastLessThan_iff set_upt)
  then show "i = j" by simp
qed

lemma range32_append: "a \<le> b \<Longrightarrow> b \<le> c \<Longrightarrow> range32 a c = range32 a b @ range32 b c"
proof (rule nth_equalityI)
  assume le: "a \<le> b" "b \<le> c"
  then have u: "unat a \<le> unat b" "unat b \<le> unat c" by (simp_all add: word_le_nat_alt)
  then show "length (range32 a c) = length (range32 a b @ range32 b c)" by simp
  fix i assume "i < length (range32 a c)"
  then show "range32 a c ! i = (range32 a b @ range32 b c) ! i"
    using u by (cases "i < unat b - unat a") (auto simp: range32_nth nth_append of_nat_diff)
qed

lemma range32_Cons: "a < b \<Longrightarrow> range32 a b = a # range32 (a + 1) b"
proof -
  assume l: "a < b"
  have "unat (a + 1) = unat a + 1"
    using l u32_bound[of b] by (auto simp: word_less_nat_alt unat_word_ariths)
  then show ?thesis using l
    by (simp add: range32_def word_less_nat_alt upt_rec[of 0] map_upt_Suc[symmetric] del: upt_Suc)
       (auto simp: list_eq_iff_nth_eq nth_Cons algebra_simps split: nat.splits)
qed

lemma sorted_range32: "sorted_wrt (<) (range32 a b)"
  unfolding sorted_wrt_iff_nth_less
proof (intro allI impI)
  fix i j assume "i < j" "j < length (range32 a b)"
  then show "range32 a b ! i < range32 a b ! j"
    using unat_range32[of i b a] unat_range32[of j b a] by (simp add: range32_nth word_less_nat_alt)
qed

text \<open>The first and the last element of a range with a property.\<close>

lemma filter_sorted_bounds:
  fixes xs :: "u32 list"
  assumes "sorted_wrt (<) xs" "filter P xs \<noteq> []"
  shows "hd (filter P xs) \<in> set xs" "P (hd (filter P xs))" "last (filter P xs) \<in> set xs" "P (last (filter P xs))"
    "x \<in> set xs \<Longrightarrow> P x \<Longrightarrow> hd (filter P xs) \<le> x \<and> x \<le> last (filter P xs)"
proof -
  let ?f = "filter P xs"
  have m: "hd ?f \<in> set ?f" "last ?f \<in> set ?f" using assms(2) by (rule hd_in_set, rule last_in_set)
  then show "hd ?f \<in> set xs" "P (hd ?f)" "last ?f \<in> set xs" "P (last ?f)" by auto
  have so: "sorted_wrt (<) ?f" using assms(1) by (rule sorted_wrt_filter)
  assume "x \<in> set xs" "P x"
  then have "x \<in> set ?f" by simp
  then obtain i where i: "i < length ?f" "?f ! i = x" unfolding in_set_conv_nth by blast
  have "?f ! 0 \<le> ?f ! i" using so i(1) by (cases "i = 0") (auto simp: sorted_wrt_iff_nth_less less_imp_le)
  moreover have "?f ! i \<le> ?f ! (length ?f - 1)"
    using so i(1) by (cases "i = length ?f - 1") (auto simp: sorted_wrt_iff_nth_less less_imp_le)
  ultimately show "hd ?f \<le> x \<and> x \<le> last ?f" using i(2) assms(2) by (simp add: hd_conv_nth last_conv_nth)
qed

end
