(* ===== verification/Calendar.thy ===== *)
theory Calendar
  imports Prelude
begin

text \<open>
  The calendar library \<open>libmcpp/cal/mdate.cpp\<close>: dates, their validity, adding and subtracting
  days, months and years, comparison, differences and the day of the week.

  A date is the struct \<open>mdate\<close>; \<open>int\<close> fields are HOL integers. Functions that write through a
  pointer return the new date beside their result. Every read of a month table is bounds-checked:
  \<open>None\<close> is a read outside the table, undefined in C++.
  The lemmas compare every operation with one specification, the number of days \<open>day_number\<close>
  that precede a date in the library's calendar (a leap year every four years).
\<close>

section \<open>Dates and their validity\<close>

record mdate =
  dayOfMonth :: int
  month :: int
  year :: int
  dayOfWeek :: int

definition FRIDAY :: int where "FRIDAY = 4"

definition seedDate :: mdate where
  "seedDate = \<lparr>dayOfMonth = 15, month = 8, year = 1947, dayOfWeek = FRIDAY\<rparr>"

definition mdate_NoOfDaysInMonth_NLY :: "int list" where
  "mdate_NoOfDaysInMonth_NLY = [0, 31, 28, 31, 30, 31, 30, 31, 31, 30, 31, 30, 31]"

definition mdate_NoOfDaysInMonth_LY :: "int list" where
  "mdate_NoOfDaysInMonth_LY = [0, 31, 29, 31, 30, 31, 30, 31, 31, 30, 31, 30, 31]"

text \<open>\<open>year % 4 == 0\<close> has the same truth value in C++ and in HOL for every sign of the year.\<close>

definition IS_LEAP_YEAR :: "int \<Rightarrow> bool" where
  "IS_LEAP_YEAR y \<longleftrightarrow> y mod 4 = 0"

definition mdate_GetDaysInMonth_1 :: "int \<Rightarrow> int \<Rightarrow> int option" where
  "mdate_GetDaysInMonth_1 m y =
     (if IS_LEAP_YEAR y then tbl mdate_NoOfDaysInMonth_LY m else tbl mdate_NoOfDaysInMonth_NLY m)"

definition mdate_GetDaysInMonth :: "mdate \<Rightarrow> int option" where
  "mdate_GetDaysInMonth d =
     (if IS_LEAP_YEAR (year d) then tbl mdate_NoOfDaysInMonth_LY (month d)
      else tbl mdate_NoOfDaysInMonth_NLY (month d))"

definition mdate_IsValidMonth :: "int \<Rightarrow> bool" where
  "mdate_IsValidMonth m \<longleftrightarrow> m \<ge> 1 \<and> m \<le> 12"

definition mdate_IsValidYear :: "int \<Rightarrow> bool" where
  "mdate_IsValidYear y \<longleftrightarrow> y > 0 \<and> y < 10000"

definition mdate_IsValidDayOfMonth :: "mdate \<Rightarrow> bool option" where
  "mdate_IsValidDayOfMonth d =
     (if dayOfMonth d < 1 then Some False
      else map_option (\<lambda>n. \<not> dayOfMonth d > n) (mdate_GetDaysInMonth d))"

definition mdate_IsValidDayOfWeek :: "int \<Rightarrow> bool" where
  "mdate_IsValidDayOfWeek w \<longleftrightarrow> w \<ge> 0 \<and> w \<le> 6"

definition mdate_IsValid :: "mdate \<Rightarrow> bool option" where
  "mdate_IsValid d =
     (if mdate_IsValidYear (year d)
      then if mdate_IsValidMonth (month d)
           then case mdate_IsValidDayOfMonth d of None \<Rightarrow> None
                | Some b \<Rightarrow> if b then Some True else Some False
           else Some False
      else Some False)"

definition mdate_Set :: "mdate \<Rightarrow> int \<Rightarrow> int \<Rightarrow> int \<Rightarrow> (bool \<times> mdate) option" where
  "mdate_Set date d m y =
     (let date' = date\<lparr>dayOfMonth := d, month := m, year := y\<rparr>
      in map_option (\<lambda>b. (b, date')) (mdate_IsValid date'))"

definition mdate_Copy :: "mdate \<Rightarrow> mdate \<Rightarrow> mdate" where
  "mdate_Copy d1 d2 = d1\<lparr>dayOfMonth := dayOfMonth d2, month := month d2, year := year d2,
     dayOfWeek := dayOfWeek d2\<rparr>"

definition mdate_GetSeedDate :: "mdate \<Rightarrow> mdate" where
  "mdate_GetSeedDate d1 = mdate_Copy d1 seedDate"

definition mdate_Normalize :: "mdate \<Rightarrow> mdate \<Rightarrow> mdate" where
  "mdate_Normalize src dest =
     dest\<lparr>dayOfMonth := dayOfMonth src, month := month src - 1, year := year src\<rparr>"

section \<open>The calendar's specification\<close>

text \<open>The length of a month as a total function, and the days before a date.\<close>

definition month_len :: "int \<Rightarrow> int \<Rightarrow> int" where
  "month_len m y =
     (if m = 2 then if IS_LEAP_YEAR y then 29 else 28
      else if m = 4 \<or> m = 6 \<or> m = 9 \<or> m = 11 then 30 else 31)"

definition leap_extra :: "int \<Rightarrow> int" where
  "leap_extra y = (if IS_LEAP_YEAR y then 1 else 0)"

definition days_before_month :: "int \<Rightarrow> int \<Rightarrow> int" where
  "days_before_month m y =
     (if m \<le> 1 then 0 else if m = 2 then 31
      else (if m = 3 then 59 else if m = 4 then 90 else if m = 5 then 120 else if m = 6 then 151
            else if m = 7 then 181 else if m = 8 then 212 else if m = 9 then 243
            else if m = 10 then 273 else if m = 11 then 304 else 334) + leap_extra y)"

definition days_before_year :: "int \<Rightarrow> int" where
  "days_before_year y = 365 * (y - 1) + (y - 1) div 4"

definition day_number :: "mdate \<Rightarrow> int" where
  "day_number d = days_before_year (year d) + days_before_month (month d) (year d) + dayOfMonth d"

definition proper_date :: "mdate \<Rightarrow> bool" where
  "proper_date d \<longleftrightarrow>
     1 \<le> month d \<and> month d \<le> 12 \<and> 1 \<le> dayOfMonth d \<and> dayOfMonth d \<le> month_len (month d) (year d)"

lemma month_cases:
  assumes "1 \<le> (m::int)" "m \<le> 12"
  obtains "m = 1" | "m = 2" | "m = 3" | "m = 4" | "m = 5" | "m = 6" | "m = 7" | "m = 8"
    | "m = 9" | "m = 10" | "m = 11" | "m = 12"
proof -
  have "m = 1 \<or> m = 2 \<or> m = 3 \<or> m = 4 \<or> m = 5 \<or> m = 6 \<or> m = 7 \<or> m = 8 \<or> m = 9
    \<or> m = 10 \<or> m = 11 \<or> m = 12"
    using assms by presburger
  then show ?thesis using that by blast
qed

lemma GetDaysInMonth_1_eq:
  assumes "1 \<le> m" "m \<le> 12"
  shows "mdate_GetDaysInMonth_1 m y = Some (month_len m y)"
  using assms
  by (cases rule: month_cases)
    (simp_all add: mdate_GetDaysInMonth_1_def tbl_def mdate_NoOfDaysInMonth_LY_def
      mdate_NoOfDaysInMonth_NLY_def month_len_def)

lemma GetDaysInMonth_1_None: "13 \<le> m \<or> m < 0 \<Longrightarrow> mdate_GetDaysInMonth_1 m y = None"
  by (auto simp: mdate_GetDaysInMonth_1_def tbl_def mdate_NoOfDaysInMonth_LY_def
      mdate_NoOfDaysInMonth_NLY_def)

lemma GetDaysInMonth_1_zero: "mdate_GetDaysInMonth_1 0 y = Some 0"
  by (simp add: mdate_GetDaysInMonth_1_def tbl_def mdate_NoOfDaysInMonth_LY_def
      mdate_NoOfDaysInMonth_NLY_def)

lemma GetDaysInMonth_1_cases:
  assumes "mdate_GetDaysInMonth_1 m y = Some k"
  shows "m = 0 \<and> k = 0 \<or> 1 \<le> m \<and> m \<le> 12 \<and> k = month_len m y"
proof (cases "1 \<le> m \<and> m \<le> 12")
  case True
  then show ?thesis using assms GetDaysInMonth_1_eq by simp
next
  case False
  then have "m = 0 \<or> 13 \<le> m \<or> m < 0" by linarith
  then show ?thesis using assms GetDaysInMonth_1_None GetDaysInMonth_1_zero by auto
qed

lemma GetDaysInMonth_eq: "mdate_GetDaysInMonth d = mdate_GetDaysInMonth_1 (month d) (year d)"
  by (simp add: mdate_GetDaysInMonth_def mdate_GetDaysInMonth_1_def)

lemma month_len_bounds: "28 \<le> month_len m y" "month_len m y \<le> 31"
  by (simp_all add: month_len_def)

lemma days_before_month_Suc:
  assumes "1 \<le> m" "m < 12"
  shows "days_before_month (m + 1) y = days_before_month m y + month_len m y"
proof -
  have "1 \<le> m" "m \<le> 12" using assms by simp_all
  then show ?thesis using assms(2)
    by (cases rule: month_cases) (simp_all add: days_before_month_def month_len_def leap_extra_def)
qed

lemma days_before_month_1 [simp]: "days_before_month 1 y = 0"
  by (simp add: days_before_month_def)

lemma days_before_month_12: "days_before_month 12 y + 31 = 365 + leap_extra y"
  by (simp add: days_before_month_def)

lemma days_before_year_Suc: "days_before_year (y + 1) = days_before_year y + 365 + leap_extra y"
proof -
  have "y div 4 = (y - 1) div 4 + (if y mod 4 = 0 then 1 else 0)" by presburger
  then show ?thesis by (simp add: days_before_year_def leap_extra_def IS_LEAP_YEAR_def)
qed

lemma IsValid_iff:
  "mdate_IsValid d = Some True \<longleftrightarrow> 0 < year d \<and> year d < 10000 \<and> proper_date d"
  by (auto simp: mdate_IsValid_def mdate_IsValidYear_def mdate_IsValidMonth_def
      mdate_IsValidDayOfMonth_def GetDaysInMonth_eq GetDaysInMonth_1_eq proper_date_def
      split: if_splits option.splits)

lemma IsValid_defined: "mdate_IsValid d \<noteq> None"
  by (auto simp: mdate_IsValid_def mdate_IsValidYear_def mdate_IsValidMonth_def
      mdate_IsValidDayOfMonth_def GetDaysInMonth_eq GetDaysInMonth_1_eq)

section \<open>Adding to a date\<close>

text \<open>
  The loop of \<open>mdate_AddDays\<close>: as long as the days left do not fit into the month, the rest of the
  month is used up and the date is put on day 0 of the next month.
\<close>

function AddDays_loop :: "int \<Rightarrow> int \<Rightarrow> int \<Rightarrow> int \<Rightarrow> (int \<times> int \<times> int) option" where
  "AddDays_loop days d m y =
     (if days > 0 then
        case mdate_GetDaysInMonth_1 m y of None \<Rightarrow> None
        | Some daysInMonth \<Rightarrow>
          if d + days > daysInMonth
          then AddDays_loop (days - (daysInMonth - d)) 0
                 (if m + 1 > 12 then 1 else m + 1) (if m + 1 > 12 then y + 1 else y)
          else Some (d + days, m, y)
      else Some (d, m, y))"
  by pat_completeness auto
termination
proof (relation "measures [\<lambda>(days, d, m, y). if d = 0 then 0 else 1, \<lambda>(days, d, m, y). nat days,
    \<lambda>(days, d, m, y). if m = 0 then 1 else 0]", goal_cases)
  case 1
  show ?case by simp
next
  case (2 days d m y n)
  then have "m = 0 \<and> n = 0 \<or> 28 \<le> n"
    using GetDaysInMonth_1_cases month_len_bounds(1) by fastforce
  with 2 show ?case by auto
qed

declare AddDays_loop.simps [simp del]

definition mdate_AddDays :: "mdate \<Rightarrow> int \<Rightarrow> (bool \<times> mdate) option" where
  "mdate_AddDays date days =
     (case mdate_IsValid date of None \<Rightarrow> None
      | Some valid \<Rightarrow>
        if \<not> valid then Some (False, date)
        else if days < 0 then Some (False, date)
        else if days = 0 then Some (True, date)
        else map_option (\<lambda>(d, m, y). (True, date\<lparr>dayOfMonth := d, month := m, year := y\<rparr>))
               (AddDays_loop days (dayOfMonth date) (month date) (year date)))"

definition mdate_AddWeeks :: "mdate \<Rightarrow> int \<Rightarrow> (bool \<times> mdate) option" where
  "mdate_AddWeeks date weeks = mdate_AddDays date (weeks * 7)"

text \<open>
  \<open>mdate_AddMonths\<close> divides only non-negative numbers, where C++ and HOL division agree.
\<close>

definition mdate_AddMonths :: "mdate \<Rightarrow> int \<Rightarrow> (bool \<times> mdate) option" where
  "mdate_AddMonths date months =
     (case mdate_IsValid date of None \<Rightarrow> None
      | Some valid \<Rightarrow>
        if \<not> valid then Some (False, date)
        else if months < 0 then Some (False, date)
        else if months = 0 then Some (True, date)
        else let y = year date + (month date + months - 1) div 12;
                 m = (month date + months - 1) mod 12 + 1
             in map_option (\<lambda>daysInMonth.
                  (True, date\<lparr>dayOfMonth := (if dayOfMonth date > daysInMonth then daysInMonth
                                             else dayOfMonth date),
                             month := m, year := y\<rparr>))
                  (mdate_GetDaysInMonth_1 m y))"

definition clip_February :: "mdate \<Rightarrow> int \<Rightarrow> (bool \<times> mdate) option" where
  "clip_February date y =
     (if month date = 2
      then map_option (\<lambda>daysInMonth.
             (True, date\<lparr>dayOfMonth := (if dayOfMonth date > daysInMonth then daysInMonth
                                        else dayOfMonth date), year := y\<rparr>))
             (mdate_GetDaysInMonth_1 (month date) y)
      else Some (True, date\<lparr>year := y\<rparr>))"

definition mdate_AddYears :: "mdate \<Rightarrow> int \<Rightarrow> (bool \<times> mdate) option" where
  "mdate_AddYears date years =
     (case mdate_IsValid date of None \<Rightarrow> None
      | Some valid \<Rightarrow>
        if \<not> valid then Some (False, date)
        else if years < 0 then Some (False, date)
        else if years = 0 then Some (True, date)
        else clip_February date (year date + years))"

text \<open>The loop counts: its result is a proper date, as many days later as asked.\<close>

definition num3 :: "int \<Rightarrow> int \<Rightarrow> int \<Rightarrow> int" where
  "num3 d m y = days_before_year y + days_before_month m y + d"

lemma num3_next_month:
  assumes "1 \<le> m" "m \<le> 12"
  shows "num3 0 (if m + 1 > 12 then 1 else m + 1) (if m + 1 > 12 then y + 1 else y) =
         num3 (month_len m y) m y"
proof (cases "m = 12")
  case True
  then show ?thesis
    using days_before_year_Suc[of y] days_before_month_12[of y]
    by (simp add: num3_def month_len_def)
next
  case False
  then show ?thesis using assms days_before_month_Suc[of m y] by (simp add: num3_def)
qed

lemma AddDays_loop_correct:
  assumes "0 < days" "1 \<le> m" "m \<le> 12" "0 \<le> d" "d \<le> month_len m y"
  shows "\<exists>d' m' y'. AddDays_loop days d m y = Some (d', m', y') \<and>
           1 \<le> m' \<and> m' \<le> 12 \<and> 1 \<le> d' \<and> d' \<le> month_len m' y' \<and> y \<le> y' \<and>
           num3 d' m' y' = num3 d m y + days"
  using assms
proof (induction days d m y rule: AddDays_loop.induct)
  case (1 days d m y)
  let ?n = "month_len m y" and ?m = "if m + 1 > 12 then 1 else m + 1"
    and ?y = "if m + 1 > 12 then y + 1 else y"
  have dim: "mdate_GetDaysInMonth_1 m y = Some ?n" using 1 by (simp add: GetDaysInMonth_1_eq)
  note unf = AddDays_loop.simps[of days d m y]
  show ?case
  proof (cases "d + days > ?n")
    case True
    have "\<exists>d' m' y'. AddDays_loop (days - (?n - d)) 0 ?m ?y = Some (d', m', y') \<and>
           1 \<le> m' \<and> m' \<le> 12 \<and> 1 \<le> d' \<and> d' \<le> month_len m' y' \<and> ?y \<le> y' \<and>
           num3 d' m' y' = num3 0 ?m ?y + (days - (?n - d))"
      using 1 True dim month_len_bounds(1)[of ?m ?y] by (intro "1.IH") auto
    then show ?thesis
      using unf 1 True dim num3_next_month[of m y] by (auto simp: num3_def split: if_splits)
  next
    case False
    then show ?thesis using unf 1 dim by (auto simp: num3_def)
  qed
qed

lemma day_number_num3: "day_number d = num3 (dayOfMonth d) (month d) (year d)"
  by (simp add: day_number_def num3_def)

lemma AddDays_valid:
  assumes "mdate_IsValid date = Some True" "0 \<le> days"
  obtains date' where "mdate_AddDays date days = Some (True, date')" "proper_date date'"
    "year date \<le> year date'" "day_number date' = day_number date + days"
    "dayOfWeek date' = dayOfWeek date"
proof (cases "days = 0")
  case True
  then show ?thesis using that assms by (simp add: mdate_AddDays_def IsValid_iff)
next
  case False
  then obtain d m y where "AddDays_loop days (dayOfMonth date) (month date) (year date) = Some (d, m, y)"
    "1 \<le> m" "m \<le> 12" "1 \<le> d" "d \<le> month_len m y" "year date \<le> y"
    "num3 d m y = day_number date + days"
    using AddDays_loop_correct[of days "month date" "dayOfMonth date" "year date"] assms
    by (auto simp: IsValid_iff proper_date_def day_number_num3)
  then show ?thesis using False assms
    by (intro that[of "date\<lparr>dayOfMonth := d, month := m, year := y\<rparr>"])
      (auto simp: mdate_AddDays_def proper_date_def day_number_num3)
qed

section \<open>Subtracting from a date\<close>

text \<open>The loop of \<open>mdate_SubtractDays\<close>: whole months are given back from the end.\<close>

function SubtractDays_loop :: "int \<Rightarrow> int \<Rightarrow> int \<Rightarrow> int \<Rightarrow> (int \<times> int \<times> int) option" where
  "SubtractDays_loop days d m y =
     (if days > 0 then
        if days \<ge> d then
          case mdate_GetDaysInMonth_1 (if m - 1 < 1 then 12 else m - 1) (if m - 1 < 1 then y - 1 else y)
          of None \<Rightarrow> None
          | Some daysInMonth \<Rightarrow>
              SubtractDays_loop (days - d) daysInMonth
                (if m - 1 < 1 then 12 else m - 1) (if m - 1 < 1 then y - 1 else y)
        else Some (d - days, m, y)
      else Some (d, m, y))"
  by pat_completeness auto
termination
proof (relation "measures [\<lambda>(days, d, m, y). if d \<ge> 28 then 0 else 1, \<lambda>(days, d, m, y). nat days]",
    goal_cases)
  case 1
  show ?case by simp
next
  case (2 days d m y n)
  then have "28 \<le> n"
    using GetDaysInMonth_1_cases[OF 2(3)] month_len_bounds(1) by (auto split: if_splits)
  with 2 show ?case by auto
qed

declare SubtractDays_loop.simps [simp del]

definition mdate_SubtractDays :: "mdate \<Rightarrow> int \<Rightarrow> (bool \<times> mdate) option" where
  "mdate_SubtractDays date days =
     (case mdate_IsValid date of None \<Rightarrow> None
      | Some valid \<Rightarrow>
        if \<not> valid then Some (False, date)
        else if days < 0 then Some (False, date)
        else if days = 0 then Some (True, date)
        else map_option (\<lambda>(d, m, y). (True, date\<lparr>dayOfMonth := d, month := m, year := y\<rparr>))
               (SubtractDays_loop days (dayOfMonth date) (month date) (year date)))"

definition mdate_SubtractWeeks :: "mdate \<Rightarrow> int \<Rightarrow> (bool \<times> mdate) option" where
  "mdate_SubtractWeeks date weeks = mdate_SubtractDays date (weeks * 7)"

definition mdate_SubtractMonths :: "mdate \<Rightarrow> int \<Rightarrow> (bool \<times> mdate) option" where
  "mdate_SubtractMonths date months =
     (case mdate_IsValid date of None \<Rightarrow> None
      | Some valid \<Rightarrow>
        if \<not> valid then Some (False, date)
        else if months < 0 then Some (False, date)
        else if months = 0 then Some (True, date)
        else let norMonths = months mod 12;
                 m0 = 12 - norMonths + month date;
                 m = (if m0 = 0 then 12 else m0);
                 y0 = year date - months div 12;
                 y = (if m - norMonths < 1 then y0 - 1 else y0)
             in map_option (\<lambda>daysInMonth.
                  (True, date\<lparr>dayOfMonth := (if dayOfMonth date > daysInMonth then daysInMonth
                                             else dayOfMonth date),
                             month := m, year := y\<rparr>))
                  (mdate_GetDaysInMonth_1 m y))"

definition mdate_SubtractYears :: "mdate \<Rightarrow> int \<Rightarrow> (bool \<times> mdate) option" where
  "mdate_SubtractYears date years =
     (case mdate_IsValid date of None \<Rightarrow> None
      | Some valid \<Rightarrow>
        if \<not> valid then Some (False, date)
        else if years < 0 then Some (False, date)
        else if years = 0 then Some (True, date)
        else if year date - years \<le> 0 then Some (False, date)
        else clip_February date (year date - years))"

lemma num3_prev_month:
  assumes "1 \<le> m" "m \<le> 12"
  shows "num3 (month_len (if m - 1 < 1 then 12 else m - 1) (if m - 1 < 1 then y - 1 else y))
           (if m - 1 < 1 then 12 else m - 1) (if m - 1 < 1 then y - 1 else y) = num3 0 m y"
proof (cases "m = 1")
  case True
  then show ?thesis
    using days_before_year_Suc[of "y - 1"] days_before_month_12[of "y - 1"]
    by (simp add: num3_def month_len_def)
next
  case False
  then show ?thesis using assms days_before_month_Suc[of "m - 1" y] by (simp add: num3_def)
qed

lemma SubtractDays_loop_correct:
  assumes "0 \<le> days" "1 \<le> m" "m \<le> 12" "1 \<le> d" "d \<le> month_len m y"
  shows "\<exists>d' m' y'. SubtractDays_loop days d m y = Some (d', m', y') \<and>
           1 \<le> m' \<and> m' \<le> 12 \<and> 1 \<le> d' \<and> d' \<le> month_len m' y' \<and> y' \<le> y \<and>
           num3 d' m' y' = num3 d m y - days"
  using assms
proof (induction days d m y rule: SubtractDays_loop.induct)
  case (1 days d m y)
  let ?m = "if m - 1 < 1 then 12 else m - 1" and ?y = "if m - 1 < 1 then y - 1 else y"
  have dim: "mdate_GetDaysInMonth_1 ?m ?y = Some (month_len ?m ?y)"
    using 1 by (intro GetDaysInMonth_1_eq) auto
  note unf = SubtractDays_loop.simps[of days d m y]
  show ?case
  proof (cases "days > 0 \<and> days \<ge> d")
    case True
    have "\<exists>d' m' y'. SubtractDays_loop (days - d) (month_len ?m ?y) ?m ?y = Some (d', m', y') \<and>
           1 \<le> m' \<and> m' \<le> 12 \<and> 1 \<le> d' \<and> d' \<le> month_len m' y' \<and> y' \<le> ?y \<and>
           num3 d' m' y' = num3 (month_len ?m ?y) ?m ?y - (days - d)"
      using 1 True dim month_len_bounds(1)[of ?m ?y] by (intro "1.IH") auto
    then show ?thesis
      using unf 1 True dim num3_prev_month[of m y] by (auto simp: num3_def split: if_splits)
  next
    case False
    then show ?thesis using unf 1 by (auto simp: num3_def)
  qed
qed

lemma SubtractDays_valid:
  assumes "mdate_IsValid date = Some True" "0 \<le> days"
  obtains date' where "mdate_SubtractDays date days = Some (True, date')" "proper_date date'"
    "year date' \<le> year date" "day_number date' = day_number date - days"
    "dayOfWeek date' = dayOfWeek date"
proof (cases "days = 0")
  case True
  then show ?thesis using that assms by (simp add: mdate_SubtractDays_def IsValid_iff)
next
  case False
  then obtain d m y where
    "SubtractDays_loop days (dayOfMonth date) (month date) (year date) = Some (d, m, y)"
    "1 \<le> m" "m \<le> 12" "1 \<le> d" "d \<le> month_len m y" "y \<le> year date"
    "num3 d m y = day_number date - days"
    using SubtractDays_loop_correct[of days "month date" "dayOfMonth date" "year date"] assms
    by (auto simp: IsValid_iff proper_date_def day_number_num3)
  then show ?thesis using False assms
    by (intro that[of "date\<lparr>dayOfMonth := d, month := m, year := y\<rparr>"])
      (auto simp: mdate_SubtractDays_def proper_date_def day_number_num3)
qed

section \<open>Comparison and difference\<close>

definition mdate_IsGreater :: "mdate \<Rightarrow> mdate \<Rightarrow> bool" where
  "mdate_IsGreater a b =
     (if year a > year b then True else if year a < year b then False
      else if month a > month b then True else if month a < month b then False
      else if dayOfMonth a > dayOfMonth b then True else False)"

definition mdate_IsLesser :: "mdate \<Rightarrow> mdate \<Rightarrow> bool" where
  "mdate_IsLesser a b =
     (if year a < year b then True else if year a > year b then False
      else if month a < month b then True else if month a > month b then False
      else if dayOfMonth a < dayOfMonth b then True else False)"

definition mdate_IsEqual :: "mdate \<Rightarrow> mdate \<Rightarrow> bool" where
  "mdate_IsEqual a b \<longleftrightarrow> year a = year b \<and> month a = month b \<and> dayOfMonth a = dayOfMonth b"

definition mdate_IsNotEqual :: "mdate \<Rightarrow> mdate \<Rightarrow> bool" where
  "mdate_IsNotEqual a b \<longleftrightarrow> year a \<noteq> year b \<or> month a \<noteq> month b \<or> dayOfMonth a \<noteq> dayOfMonth b"

text \<open>
  The month loop of \<open>mdate_SameYearDateDifference\<close> stops at the month of the later date; a month
  counter that runs past December reads outside the table.
\<close>

function sum_months :: "int \<Rightarrow> int \<Rightarrow> int \<Rightarrow> int \<Rightarrow> int option" where
  "sum_months m stop y res =
     (if m \<noteq> stop then
        case mdate_GetDaysInMonth_1 m y of None \<Rightarrow> None
        | Some n \<Rightarrow> sum_months (m + 1) stop y (res + n)
      else Some res)"
  by pat_completeness auto
termination
proof (relation "measure (\<lambda>(m, stop, y, res). nat (13 - m))", goal_cases)
  case 1
  show ?case by simp
next
  case (2 m stop y res n)
  then show ?case using GetDaysInMonth_1_cases[OF 2(2)] by auto
qed

declare sum_months.simps [simp del]

definition mdate_SameYearDateDifference :: "mdate \<Rightarrow> mdate \<Rightarrow> int option" where
  "mdate_SameYearDateDifference a b =
     (if mdate_IsEqual a b then Some 0
      else if year a \<noteq> year b then Some (- 1)
      else if month a = month b then Some (dayOfMonth a - dayOfMonth b)
      else case mdate_GetDaysInMonth b of None \<Rightarrow> None
        | Some n \<Rightarrow> map_option (\<lambda>res. res + dayOfMonth a)
                      (sum_months (month b + 1) (month a) (year b) (n - dayOfMonth b)))"

text \<open>
  The year loop counts up to the later year. A counter that starts beyond it would run until the
  \<open>int\<close> overflows, which is undefined: \<open>None\<close>.
\<close>

function sum_years :: "int \<Rightarrow> int \<Rightarrow> int \<Rightarrow> int option" where
  "sum_years y stop res =
     (if y \<noteq> stop
      then if y > stop then None
           else sum_years (y + 1) stop (if IS_LEAP_YEAR y then res + 366 else res + 365)
      else Some res)"
  by pat_completeness auto
termination by (relation "measure (\<lambda>(y, stop, res). nat (stop - y))") auto

declare sum_years.simps [simp del]

definition some_mdate :: mdate where
  "some_mdate = \<lparr>dayOfMonth = 0, month = 0, year = 0, dayOfWeek = 0\<rparr>"

text \<open>
  The local \<open>mdate d\<close> of \<open>mdate_DateDifference\<close> starts uninitialised and is set before it is used;
  \<open>some_mdate\<close> stands for its first content, of which only the day of the week survives unread.
\<close>

definition mdate_DateDifference :: "mdate \<Rightarrow> mdate \<Rightarrow> int option" where
  "mdate_DateDifference a b =
     (if mdate_IsEqual a b then Some 0
      else
        let (date1, date2, switchSign) =
              (if mdate_IsLesser a b then (b, a, - 1) else (a, b, 1 :: int))
        in
        map_option (\<lambda>res. res * switchSign)
          (if year date1 = year date2 then
             if month date1 = month date2 then Some (dayOfMonth date1 - dayOfMonth date2)
             else mdate_SameYearDateDifference date1 date2
           else
             case sum_years (year date2 + 1) (year date1) 0 of None \<Rightarrow> None
             | Some years \<Rightarrow>
               (case mdate_Set some_mdate 31 12 (year date2) of None \<Rightarrow> None
                | Some (_, dec31) \<Rightarrow>
                  (case mdate_SameYearDateDifference dec31 date2 of None \<Rightarrow> None
                   | Some before \<Rightarrow>
                     (case mdate_Set dec31 1 1 (year date1) of None \<Rightarrow> None
                      | Some (_, jan1) \<Rightarrow>
                        map_option (\<lambda>after. years + before + after + 1)
                          (mdate_SameYearDateDifference date1 jan1))))))"

lemma sum_months_correct:
  "1 \<le> m \<Longrightarrow> m \<le> stop \<Longrightarrow> stop \<le> 12 \<Longrightarrow>
   sum_months m stop y res = Some (res + days_before_month stop y - days_before_month m y)"
proof (induction m stop y res rule: sum_months.induct)
  case (1 m stop y res)
  then show ?case
    using sum_months.simps[of m stop y res] GetDaysInMonth_1_eq[of m y] days_before_month_Suc[of m y]
    by (cases "m = stop") auto
qed

lemma sum_years_correct:
  "y \<le> stop \<Longrightarrow> sum_years y stop res = Some (res + days_before_year stop - days_before_year y)"
proof (induction y stop res rule: sum_years.induct)
  case (1 y stop res)
  then show ?case
    using sum_years.simps[of y stop res] days_before_year_Suc[of y]
    by (cases "y = stop") (auto simp: leap_extra_def)
qed

lemma days_before_month_le:
  assumes "1 \<le> m" "m \<le> m'" "m' \<le> 12"
  shows "days_before_month m y \<le> days_before_month m' y"
  using assms(2) assms(3)
proof (induction m' rule: int_ge_induct)
  case base
  show ?case by simp
next
  case (step i)
  then show ?case
    using days_before_month_Suc[of i y] month_len_bounds(1)[of i y] assms(1) by simp
qed

lemma days_before_month_mono:
  assumes "1 \<le> m" "m < m'" "m' \<le> 12"
  shows "days_before_month m y + month_len m y \<le> days_before_month m' y"
  using days_before_month_le[of "m + 1" m' y] days_before_month_Suc[of m y] assms by simp

lemma days_in_year:
  assumes "proper_date d"
  shows "1 \<le> days_before_month (month d) (year d) + dayOfMonth d"
    "days_before_month (month d) (year d) + dayOfMonth d \<le> 365 + leap_extra (year d)"
proof -
  have m: "1 \<le> month d" "month d \<le> 12" and d: "1 \<le> dayOfMonth d" "dayOfMonth d \<le> month_len (month d) (year d)"
    using assms by (auto simp: proper_date_def)
  have "0 \<le> days_before_month (month d) (year d)"
    by (simp add: days_before_month_def leap_extra_def)
  then show "1 \<le> days_before_month (month d) (year d) + dayOfMonth d" using d by simp
  have "days_before_month (month d) (year d) + month_len (month d) (year d) \<le> 365 + leap_extra (year d)"
    using m by (cases rule: month_cases)
      (simp_all add: days_before_month_def month_len_def leap_extra_def)
  then show "days_before_month (month d) (year d) + dayOfMonth d \<le> 365 + leap_extra (year d)"
    using d by simp
qed

lemma days_before_year_mono:
  assumes "y < y'"
  shows "days_before_year y + 365 + leap_extra y \<le> days_before_year y'"
proof -
  have "(y' - 1) div 4 \<ge> y div 4" using assms by (intro zdiv_mono1) auto
  then show ?thesis using assms days_before_year_Suc[of y] by (simp add: days_before_year_def)
qed

lemma IsLesser_iff:
  assumes "proper_date a" "proper_date b"
  shows "mdate_IsLesser a b \<longleftrightarrow> day_number a < day_number b"
proof -
  have year_lt: "day_number c < day_number e" if "year c < year e" "proper_date c" "proper_date e" for c e
    using that days_before_year_mono[of "year c" "year e"] days_in_year[of c] days_in_year[of e]
    by (simp add: day_number_def)
  have month_lt: "day_number c < day_number e"
    if "year c = year e" "month c < month e" "proper_date c" "proper_date e" for c e
    using that days_before_month_mono[of "month c" "month e" "year c"]
    by (simp add: day_number_def proper_date_def)
  consider "year a < year b" | "year b < year a" | "year a = year b" "month a < month b"
    | "year a = year b" "month b < month a" | "year a = year b" "month a = month b"
    by linarith
  then show ?thesis
    using year_lt[of a b] year_lt[of b a] month_lt[of a b] month_lt[of b a] assms
    by cases (auto simp: mdate_IsLesser_def day_number_def)
qed

lemma IsGreater_iff_IsLesser: "mdate_IsGreater a b \<longleftrightarrow> mdate_IsLesser b a"
  by (auto simp: mdate_IsGreater_def mdate_IsLesser_def)

lemma IsEqual_iff:
  assumes "proper_date a" "proper_date b"
  shows "mdate_IsEqual a b \<longleftrightarrow> day_number a = day_number b"
proof
  show "mdate_IsEqual a b \<Longrightarrow> day_number a = day_number b"
    by (simp add: mdate_IsEqual_def day_number_def)
next
  assume "day_number a = day_number b"
  then have "\<not> mdate_IsLesser a b" "\<not> mdate_IsLesser b a" using assms by (simp_all add: IsLesser_iff)
  then show "mdate_IsEqual a b"
    unfolding mdate_IsLesser_def mdate_IsEqual_def by (smt (verit))
qed

lemma SameYear_correct:
  assumes "proper_date a" "proper_date b" "year a = year b" "day_number b \<le> day_number a"
  shows "mdate_SameYearDateDifference a b = Some (day_number a - day_number b)"
proof (cases "mdate_IsEqual a b \<or> month a = month b")
  case True
  then show ?thesis
    using assms by (auto simp: mdate_SameYearDateDifference_def mdate_IsEqual_def day_number_def)
next
  case False
  have "\<not> mdate_IsLesser a b" using IsLesser_iff assms by simp
  then have "month b < month a" using False assms(3) by (auto simp: mdate_IsLesser_def split: if_splits)
  then show ?thesis
    using False assms sum_months_correct[of "month b + 1" "month a" "year b"]
      days_before_month_Suc[of "month b" "year b"]
    by (auto simp: mdate_SameYearDateDifference_def GetDaysInMonth_eq GetDaysInMonth_1_eq
        proper_date_def day_number_def)
qed

lemma mdate_Set_valid:
  assumes "mdate_IsValid (date\<lparr>dayOfMonth := d, month := m, year := y\<rparr>) = Some True"
  shows "mdate_Set date d m y = Some (True, date\<lparr>dayOfMonth := d, month := m, year := y\<rparr>)"
  using assms by (simp add: mdate_Set_def)

lemma DateDifference_ordered:
  assumes a: "mdate_IsValid a = Some True" and b: "mdate_IsValid b = Some True"
    and "day_number b < day_number a"
  shows "mdate_DateDifference a b = Some (day_number a - day_number b)"
proof -
  have p: "proper_date a" "proper_date b" and y: "0 < year a" "year a < 10000" "0 < year b" "year b < 10000"
    using a b by (simp_all add: IsValid_iff)
  have ne: "\<not> mdate_IsEqual a b" "\<not> mdate_IsLesser a b"
    using assms p by (simp_all add: IsEqual_iff IsLesser_iff)
  show ?thesis
  proof (cases "year a = year b")
    case True
    then show ?thesis
      using ne p assms(3) SameYear_correct[of a b]
      by (auto simp: mdate_DateDifference_def day_number_def)
  next
    case False
    define d31 where "d31 = some_mdate\<lparr>dayOfMonth := 31, month := 12, year := year b\<rparr>"
    define j1 where "j1 = d31\<lparr>dayOfMonth := 1, month := 1, year := year a\<rparr>"
    have lt: "year b < year a" using ne(2) False by (auto simp: mdate_IsLesser_def split: if_splits)
    have pd: "proper_date d31" "proper_date j1"
      by (auto simp: d31_def j1_def proper_date_def month_len_def)
    have s: "mdate_Set some_mdate 31 12 (year b) = Some (True, d31)"
      "mdate_Set d31 1 1 (year a) = Some (True, j1)"
      using y pd mdate_Set_valid[where date = some_mdate and d = 31 and m = 12 and y = "year b"]
        mdate_Set_valid[where date = d31 and d = 1 and m = 1 and y = "year a"]
      by (auto simp: IsValid_iff simp flip: d31_def j1_def)
        (auto simp: d31_def j1_def)
    have "mdate_SameYearDateDifference d31 b = Some (day_number d31 - day_number b)"
      using pd p days_in_year(2)[OF p(2)] days_before_month_12[of "year b"]
      by (intro SameYear_correct) (auto simp: d31_def day_number_def)
    moreover have "mdate_SameYearDateDifference a j1 = Some (day_number a - day_number j1)"
      using pd p days_in_year(1)[OF p(1)]
      by (intro SameYear_correct) (auto simp: j1_def day_number_def)
    moreover have "sum_years (year b + 1) (year a) 0 =
        Some (days_before_year (year a) - days_before_year (year b + 1))"
      using lt sum_years_correct[of "year b + 1" "year a" 0] by simp
    moreover have "day_number d31 = days_before_year (year b + 1)" "day_number j1 = days_before_year (year a) + 1"
      using days_before_year_Suc[of "year b"] days_before_month_12[of "year b"]
      by (simp_all add: d31_def j1_def day_number_def)
    ultimately show ?thesis using ne False s by (simp add: mdate_DateDifference_def)
  qed
qed

lemma DateDifference_swap:
  assumes "mdate_IsLesser a b"
  shows "mdate_DateDifference a b = map_option uminus (mdate_DateDifference b a)"
proof -
  have "\<not> mdate_IsLesser b a" "\<not> mdate_IsEqual a b" "\<not> mdate_IsEqual b a"
    using assms by (auto simp: mdate_IsLesser_def mdate_IsEqual_def split: if_splits)
  then show ?thesis using assms
    by (simp add: mdate_DateDifference_def option.map_comp comp_def)
qed

lemma DateDifference_valid:
  assumes a: "mdate_IsValid a = Some True" and b: "mdate_IsValid b = Some True"
  shows "mdate_DateDifference a b = Some (day_number a - day_number b)"
proof -
  have p: "proper_date a" "proper_date b" using a b by (simp_all add: IsValid_iff)
  consider "day_number a = day_number b" | "day_number b < day_number a" | "day_number a < day_number b"
    by linarith
  then show ?thesis
  proof cases
    case 1
    then show ?thesis using p by (simp add: mdate_DateDifference_def IsEqual_iff)
  next
    case 2
    then show ?thesis using a b by (simp add: DateDifference_ordered)
  next
    case 3
    then have "mdate_IsLesser a b" using p by (simp add: IsLesser_iff)
    then show ?thesis using 3 a b by (simp add: DateDifference_swap DateDifference_ordered)
  qed
qed

section \<open>The day of the week and names\<close>

definition mdate_SetDayOfWeek :: "mdate \<Rightarrow> (bool \<times> mdate) option" where
  "mdate_SetDayOfWeek date =
     (case mdate_IsValid date of None \<Rightarrow> None
      | Some valid \<Rightarrow>
        if \<not> valid then Some (False, date)
        else if mdate_IsEqual date seedDate
        then Some (True, date\<lparr>dayOfWeek := dayOfWeek seedDate\<rparr>)
        else case mdate_DateDifference date seedDate of None \<Rightarrow> None
          | Some days \<Rightarrow>
            let res = (if days \<ge> 0 then (dayOfWeek seedDate + days) mod 7
                       else let r = (- days) mod 7
                            in if r \<le> dayOfWeek seedDate then dayOfWeek seedDate - r
                               else 7 - (r - dayOfWeek seedDate))
            in Some (True, date\<lparr>dayOfWeek := res\<rparr>))"

definition mdate_SeedDateDifference :: "mdate \<Rightarrow> (bool \<times> int) option" where
  "mdate_SeedDateDifference dt =
     (case mdate_IsValid dt of None \<Rightarrow> None
      | Some valid \<Rightarrow>
        if \<not> valid then Some (False, 0)
        else if mdate_IsEqual dt seedDate then Some (True, 0)
        else map_option (\<lambda>days. (True, days)) (mdate_DateDifference dt seedDate))"

definition mdate_szMonths :: "string list" where
  "mdate_szMonths = [''NA'', ''January'', ''February'', ''March'', ''April'', ''May'', ''June'',
     ''July'', ''August'', ''September'', ''October'', ''November'', ''December'']"

definition mdate_szDays :: "string list" where
  "mdate_szDays = [''Monday'', ''Tuesday'', ''Wednesday'', ''Thursday'', ''Friday'', ''Saturday'',
     ''Sunday'', ''NA'']"

definition mdate_GetMonthName :: "mdate \<Rightarrow> string option" where
  "mdate_GetMonthName date =
     (if month date \<ge> 1 \<and> month date \<le> 12 then tbl mdate_szMonths (month date)
      else tbl mdate_szMonths 0)"

definition mdate_GetDayName :: "mdate \<Rightarrow> string option" where
  "mdate_GetDayName date =
     (if dayOfWeek date \<ge> 0 \<and> dayOfWeek date \<le> 6 then tbl mdate_szDays (dayOfWeek date)
      else tbl mdate_szDays 7)"

lemma seedDate_valid: "mdate_IsValid seedDate = Some True"
  by (simp add: IsValid_iff seedDate_def proper_date_def month_len_def)

lemma weekday_from_Friday:
  fixes n :: int
  shows "(if n \<ge> 0 then (4 + n) mod 7
          else let r = (- n) mod 7 in if r \<le> 4 then 4 - r else 7 - (r - 4)) = (4 + n) mod 7"
proof (cases "n \<ge> 0")
  case False
  define r where "r = (- n) mod 7"
  have r: "0 \<le> r" "r < 7" by (simp_all add: r_def)
  have "(4 + n) mod 7 = (4 - r) mod 7" by (simp add: r_def mod_simps)
  moreover have "(4 - r) mod 7 = (if r \<le> 4 then 4 - r else 11 - r)" using r by presburger
  ultimately show ?thesis using False by (simp add: Let_def flip: r_def)
qed simp

lemma SetDayOfWeek_valid:
  assumes "mdate_IsValid date = Some True"
  shows "mdate_SetDayOfWeek date =
    Some (True, date\<lparr>dayOfWeek := (4 + (day_number date - day_number seedDate)) mod 7\<rparr>)"
proof (cases "mdate_IsEqual date seedDate")
  case True
  then have "day_number date = day_number seedDate" by (simp add: mdate_IsEqual_def day_number_def)
  then show ?thesis using True assms
    by (simp add: mdate_SetDayOfWeek_def) (simp add: seedDate_def FRIDAY_def)
next
  case False
  have "dayOfWeek seedDate = 4" by (simp add: seedDate_def FRIDAY_def)
  then show ?thesis
    using False assms weekday_from_Friday[of "day_number date - day_number seedDate"]
    by (auto simp: mdate_SetDayOfWeek_def DateDifference_valid seedDate_valid Let_def)
qed

end
