(* ===== verification/CalendarProperties.thy ===== *)
theory CalendarProperties
  imports Calendar
begin

text \<open>
  What the calendar library promises: arithmetic on dates is arithmetic on day numbers, the
  difference of two dates and the day of the week follow from it, and month arithmetic keeps a
  date valid when it goes forward but not when it goes backward.
\<close>

lemma proper_date_unique:
  assumes "proper_date a" "proper_date b" "day_number a = day_number b" "dayOfWeek a = dayOfWeek b"
  shows "a = b"
proof -
  have "mdate_IsEqual a b" using assms by (simp add: IsEqual_iff)
  then show ?thesis using assms(4) by (cases a, cases b) (simp add: mdate_IsEqual_def)
qed

lemma AddMonths_result:
  assumes v: "mdate_IsValid date = Some True" and p: "0 < months"
  defines "n \<equiv> month date + months - 1"
  defines "m' \<equiv> n mod 12 + 1" and "y' \<equiv> year date + n div 12"
  shows "mdate_AddMonths date months = Some (True, date\<lparr>dayOfMonth := min (dayOfMonth date) (month_len m' y'),
           month := m', year := y'\<rparr>)"
proof -
  have m: "1 \<le> m'" "m' \<le> 12" by (simp_all add: m'_def)
  show ?thesis
    using v p m by (simp add: mdate_AddMonths_def Let_def GetDaysInMonth_1_eq min_def
        flip: n_def m'_def y'_def)
qed



text \<open>C26: Subtracting the days again gives the date back, as long as the sum stays within the
  years the library accepts.\<close>

theorem SubtractDays_undoes_AddDays:
  assumes "mdate_IsValid date = Some True" "0 \<le> days"
    and "mdate_AddDays date days = Some (True, later)" "year later < 10000"
  shows "mdate_SubtractDays later days = Some (True, date)"
proof -
  have later: "proper_date later" "year date \<le> year later" "day_number later = day_number date + days"
    "dayOfWeek later = dayOfWeek date"
    using AddDays_valid[OF assms(1,2)] assms(3) by auto
  then have "mdate_IsValid later = Some True" using assms(1,4) by (simp add: IsValid_iff)
  then obtain prev where prev: "mdate_SubtractDays later days = Some (True, prev)" "proper_date prev"
    "day_number prev = day_number later - days" "dayOfWeek prev = dayOfWeek later"
    using SubtractDays_valid assms(2) by blast
  have "prev = date"
    using proper_date_unique[of prev date] prev later assms(1) by (simp add: IsValid_iff)
  then show ?thesis using prev by simp
qed

theorem SubtractDays_undoes_AddDays_witness:
  "mdate_SubtractDays \<lparr>dayOfMonth = 5, month = 9, year = 1947, dayOfWeek = 4\<rparr> 21 = Some (True, seedDate)"
proof -
  have "mdate_AddDays seedDate 21 =
      Some (True, \<lparr>dayOfMonth = 5, month = 9, year = 1947, dayOfWeek = 4\<rparr>)"
    by code_simp
  then show ?thesis
    using SubtractDays_undoes_AddDays[of seedDate 21] seedDate_valid by simp
qed

text \<open>The difference of two valid dates is the number of days between them, whichever is the
  later one and however many leap years lie between.\<close>

theorem DateDifference_is_day_difference:
  assumes "mdate_IsValid a = Some True" "mdate_IsValid b = Some True"
  shows "mdate_DateDifference a b = Some (day_number a - day_number b)"
  using assms by (rule DateDifference_valid)

text \<open>The day of the week of a valid date is counted from Friday, 15 August 1947: seven days
  further is the same day, and a date before the seed date is counted backwards correctly.\<close>

theorem SetDayOfWeek_counts_from_seed:
  assumes "mdate_IsValid date = Some True"
  shows "mdate_SetDayOfWeek date =
    Some (True, date\<lparr>dayOfWeek := (4 + (day_number date - day_number seedDate)) mod 7\<rparr>)"
  using assms by (rule SetDayOfWeek_valid)

text \<open>Adding months to a valid date counts the months, and clips the day to the length of the
  month it lands in, so the result always has a day that exists.\<close>

theorem AddMonths_counts_months:
  assumes "mdate_IsValid date = Some True" "0 < months"
  shows "\<exists>date'. mdate_AddMonths date months = Some (True, date') \<and> proper_date date' \<and>
           12 * year date' + month date' = 12 * year date + month date + months \<and>
           dayOfMonth date' = min (dayOfMonth date) (month_len (month date') (year date'))"
proof -
  have "0 \<le> (month date + months - 1) mod 12" "(month date + months - 1) mod 12 < 12" by simp_all
  moreover have "1 \<le> dayOfMonth date" using assms(1) by (simp add: IsValid_iff proper_date_def)
  ultimately show ?thesis
    using AddMonths_result[OF assms] month_len_bounds(1)
    by (auto simp: proper_date_def min_def algebra_simps intro: order_trans[of 1 28])
qed

text \<open>Going backward is wrong unless the months reach across a year's end: for a number of months whose
  remainder modulo 12 is smaller than the month of the date, the new month is computed past December
  and the month table is read outside its bounds.\<close>

theorem SubtractMonths_leaves_table:
  assumes "mdate_IsValid date = Some True" "0 < months"
    and "months mod 12 < month date"
  shows "mdate_SubtractMonths date months = None"
  using assms
  by (auto simp: mdate_SubtractMonths_def Let_def GetDaysInMonth_1_None split: option.splits if_splits)

end
