(* ===== verification/PageMap.thy ===== *)
theory PageMap
  imports Prelude
begin

text \<open>
  Physical memory pages and page tables, \<open>memory/MemManager.cpp\<close>: the bitmap of physical pages,
  the bitmap of the kernel's page pool, the blocks of kernel stacks, the page-fault handler
  \<open>AllocatePage\<close> that extends the page tables of a user process, and the translation
  \<open>GetFlatAddress\<close>.

  The bitmaps are lists of words; the kernel's page directory and its page tables are functions of
  the entry's index (1024 and \<open>2^20\<close> entries). The page tables of user processes live in physical
  memory, which is a function from (word-aligned) physical addresses to words; the code reaches it
  through pointers \<open>address - GLOBAL_DATA_SEGMENT_BASE\<close>, which the segment maps back to the
  physical address. An access outside an array is the fault \<open>OutsideArray\<close>, where C++ has undefined
  behaviour. Locks, messages and TLB flushes have no counterpart.
\<close>

section \<open>State\<close>

record mem_manager =
  m_uiNoOfPages :: nat
  m_uiNoOfResvPages :: nat
  m_uiPageMap :: "u32 list"
  m_uiPageMapSize :: nat
  m_uiResvSize :: nat
  m_uiKernelHeapSize :: nat
  m_uiKernelPagePoolMap :: "u32 list"
  m_uiKernelPagePoolMapSize :: nat
  m_uiKernelPagePoolStartPage :: nat
  m_uiPDEBase :: "nat \<Rightarrow> u32"
  m_uiPTEBase :: "nat \<Rightarrow> u32"
  m_iNoOfKernelProcessStackBlocks :: nat
  m_bAllocationMapForKernelProcessStackBlock :: "bool list"
  phys :: "u32 \<Rightarrow> u32"

datatype mem_fault =
    OutOfMemoryPages        \<comment> \<open>\<open>upan::exception\<close>: out of memory pages\<close>
  | OutOfKernelPoolPages    \<comment> \<open>\<open>upan::exception\<close>: out of memory pages in kernel pool\<close>
  | NoFreeStackBlocks       \<comment> \<open>\<open>upan::exception\<close>: no free stack blocks for kernel process\<close>
  | OutsideArray            \<comment> \<open>undefined behaviour: an array is accessed outside its bounds\<close>
  | Halted                  \<comment> \<open>the handler stops the machine\<close>
  | StartupArgsTooLarge     \<comment> \<open>\<open>upan::exception\<close>: the startup arguments do not fit their pages\<close>

datatype ReturnCode = Success | Failure | DupDealloc

definition PAGE_SIZE :: u32 where "PAGE_SIZE = 4096"
definition PAGE_TABLE_ENTRIES :: nat where "PAGE_TABLE_ENTRIES = 1024"
definition PROCESS_KERNEL_STACK_PAGES :: nat where "PROCESS_KERNEL_STACK_PAGES = 8"
definition KERNEL_PROCESS_PDE_ID :: nat where "KERNEL_PROCESS_PDE_ID = 1022"
definition PROCESS_STACK_PDE_ID :: u32 where "PROCESS_STACK_PDE_ID = 1022"
definition PROCESS_GUI_FRAMEBUFFER_PDE_ID :: u32 where "PROCESS_GUI_FRAMEBUFFER_PDE_ID = 1021"
definition PROCESS_HEAP_START_ADDRESS :: u32 where "PROCESS_HEAP_START_ADDRESS = 0x80000000"

section \<open>The page bitmaps\<close>

text \<open>The inner loop: shift the entry right until its lowest bit is clear.\<close>

function scan_entry :: "u32 \<Rightarrow> nat \<Rightarrow> nat option" where
  "scan_entry uiPageMapEntry uiPageOffset =
     (if uiPageOffset < 32
      then if uiPageMapEntry AND 1 = 0 then Some uiPageOffset
           else scan_entry (drop_bit 1 uiPageMapEntry) (Suc uiPageOffset)
      else None)"
  by pat_completeness auto
termination by (relation "measure (\<lambda>(e, off). 32 - off)") auto

text \<open>The outer loop over the map's words from \<open>pos\<close> to \<open>n\<close>.\<close>

function scan_map :: "u32 list \<Rightarrow> nat \<Rightarrow> nat \<Rightarrow> (nat \<times> nat) option" where
  "scan_map pmap pos n =
     (if pos < n
      then if (pmap ! pos) AND 0xFFFFFFFF \<noteq> 0xFFFFFFFF
           then case scan_entry (pmap ! pos) 0 of
                  Some off \<Rightarrow> Some (pos, off)
                | None \<Rightarrow> scan_map pmap (Suc pos) n
           else scan_map pmap (Suc pos) n
      else None)"
  by pat_completeness auto
termination by (relation "measure (\<lambda>(pmap, pos, n). n - pos)") auto

declare scan_entry.simps [simp del] scan_map.simps [simp del]

definition set_page_bit :: "u32 list \<Rightarrow> nat \<Rightarrow> nat \<Rightarrow> u32 list" where
  "set_page_bit pmap pos off = pmap[pos := (pmap ! pos) OR push_bit off 1]"

definition clear_page_bit :: "u32 list \<Rightarrow> nat \<Rightarrow> nat \<Rightarrow> u32 list" where
  "clear_page_bit pmap pos off = pmap[pos := (pmap ! pos) AND NOT (push_bit off 1)]"

definition AllocatePhysicalPage :: "(mem_manager, mem_fault, nat) comp" where
  "AllocatePhysicalPage s =
     (case scan_map (m_uiPageMap s) (m_uiResvSize s) (m_uiPageMapSize s) of
        None \<Rightarrow> throw OutOfMemoryPages s
      | Some (pos, off) \<Rightarrow>
          (Inr (pos * 4 * 8 + off), s\<lparr>m_uiPageMap := set_page_bit (m_uiPageMap s) pos off\<rparr>))"

definition DeAllocatePhysicalPage :: "nat \<Rightarrow> (mem_manager, mem_fault, unit) comp" where
  "DeAllocatePhysicalPage uiPageNumber s =
     (let off = uiPageNumber mod (8 * 4); pos = uiPageNumber div (8 * 4)
      in if pos < length (m_uiPageMap s)
         then (Inr (), s\<lparr>m_uiPageMap := clear_page_bit (m_uiPageMap s) pos off\<rparr>)
         else throw OutsideArray s)"

definition MarkPageAsAllocated :: "nat \<Rightarrow> (mem_manager, mem_fault, ReturnCode) comp" where
  "MarkPageAsAllocated uiPageNumber s =
     (let pos = uiPageNumber div 32
      in if pos \<ge> m_uiPageMapSize s then (Inr Success, s)
         else let off = uiPageNumber mod 32
              in if drop_bit off (m_uiPageMap s ! pos) AND 1 \<noteq> 0 then (Inr Failure, s)
                 else (Inr Success, s\<lparr>m_uiPageMap := set_page_bit (m_uiPageMap s) pos off\<rparr>))"

text \<open>
  The kernel's page pool. The subtraction of the pool's first page is on 32-bit unsigned numbers.
\<close>

definition AllocatePageForKernel :: "(mem_manager, mem_fault, nat) comp" where
  "AllocatePageForKernel s =
     (case scan_map (m_uiKernelPagePoolMap s) 0 (m_uiKernelPagePoolMapSize s) of
        None \<Rightarrow> throw OutOfKernelPoolPages s
      | Some (i, off) \<Rightarrow>
          (Inr (i * 4 * 8 + off + m_uiKernelPagePoolStartPage s),
           s\<lparr>m_uiKernelPagePoolMap := set_page_bit (m_uiKernelPagePoolMap s) i off\<rparr>))"

definition DeAllocatePageForKernel :: "nat \<Rightarrow> (mem_manager, mem_fault, unit) comp" where
  "DeAllocatePageForKernel uiPageNumber s =
     (let n = unat (word_of_nat uiPageNumber - word_of_nat (m_uiKernelPagePoolStartPage s) :: u32);
          pos = n div (8 * 4); off = n mod (8 * 4)
      in if pos < length (m_uiKernelPagePoolMap s)
         then (Inr (), s\<lparr>m_uiKernelPagePoolMap := clear_page_bit (m_uiKernelPagePoolMap s) pos off\<rparr>)
         else throw OutsideArray s)"

text \<open>\<open>DisplayNoOfFreePages\<close> counts the clear bits of the map above the reserved words.\<close>

fun count_free_bits :: "u32 \<Rightarrow> nat \<Rightarrow> nat" where
  "count_free_bits e 0 = 0"
| "count_free_bits e (Suc n) = (if e AND 1 = 0 then 1 else 0) + count_free_bits (drop_bit 1 e) n"

definition DisplayNoOfFreePages :: "mem_manager \<Rightarrow> nat" where
  "DisplayNoOfFreePages s =
     sum_list (map (\<lambda>pos. if (m_uiPageMap s ! pos) AND 0xFFFFFFFF \<noteq> 0xFFFFFFFF
                          then count_free_bits (m_uiPageMap s ! pos) 32 else 0)
                [m_uiResvSize s ..< m_uiPageMapSize s])"

subsection \<open>What a bitmap says about a page\<close>

definition page_used :: "u32 list \<Rightarrow> nat \<Rightarrow> bool" where
  "page_used pmap p \<longleftrightarrow> bit (pmap ! (p div 32)) (p mod 32)"

lemma and_all_ones [simp]: "(w :: u32) AND 0xFFFFFFFF = w"
proof -
  have "(0xFFFFFFFF :: u32) = - 1" by simp
  then show ?thesis by (metis and.right_neutral)
qed

lemma and_1_eq_0_iff: "(w :: u32) AND 1 = 0 \<longleftrightarrow> \<not> bit w 0"
  by (simp add: and_one_eq bit_0 even_iff_mod_2_eq_zero)

lemma drop_and_1_iff: "drop_bit n (w :: u32) AND 1 = 0 \<longleftrightarrow> \<not> bit w n"
  by (simp add: and_1_eq_0_iff bit_drop_bit_eq)

lemma scan_entry_Some:
  assumes "scan_entry e off = Some k"
  shows "off \<le> k \<and> k < 32 \<and> \<not> bit e (k - off) \<and> (\<forall>j < k - off. bit e j)"
  using assms
proof (induction e off rule: scan_entry.induct)
  case (1 e off)
  show ?case
  proof (cases "off < 32 \<and> bit e 0")
    case True
    then have "scan_entry (drop_bit 1 e) (Suc off) = Some k"
      using 1(2) scan_entry.simps[of e off] by (simp add: and_1_eq_0_iff)
    then have IH: "Suc off \<le> k \<and> k < 32 \<and> \<not> bit (drop_bit 1 e) (k - Suc off) \<and>
        (\<forall>j < k - Suc off. bit (drop_bit 1 e) j)"
      using 1(1) True by (simp add: and_1_eq_0_iff)
    have "bit e j" if "j < k - off" for j
      using IH True that by (cases j) (auto simp: bit_drop_bit_eq)
    then show ?thesis using IH by (auto simp: bit_drop_bit_eq Suc_diff_Suc)
  next
    case False
    then show ?thesis
      using 1(2) scan_entry.simps[of e off] by (auto simp: and_1_eq_0_iff split: if_splits)
  qed
qed

lemma scan_entry_None:
  assumes "scan_entry e off = None"
  shows "\<forall>j < 32 - off. bit e j"
  using assms
proof (induction e off rule: scan_entry.induct)
  case (1 e off)
  show ?case
  proof (cases "off < 32")
    case True
    then have b: "bit e 0" and "scan_entry (drop_bit 1 e) (Suc off) = None"
      using 1(2) scan_entry.simps[of e off] by (auto simp: and_1_eq_0_iff split: if_splits)
    then have IH: "\<forall>j < 32 - Suc off. bit (drop_bit 1 e) j"
      using 1(1) True by (simp add: and_1_eq_0_iff)
    show ?thesis
    proof (intro allI impI)
      fix j assume "j < 32 - off"
      then show "bit e j" using IH b by (cases j) (auto simp: bit_drop_bit_eq)
    qed
  qed simp
qed

lemma all_ones_iff: "(e :: u32) = 0xFFFFFFFF \<longleftrightarrow> (\<forall>j < 32. bit e j)"
proof -
  have "(0xFFFFFFFF :: u32) = - 1" by simp
  then show ?thesis by (auto simp: bit_eq_iff)
qed

lemma scan_map_Some:
  assumes "scan_map pmap pos n = Some (q, off)"
  shows "pos \<le> q \<and> q < n \<and> off < 32 \<and> \<not> bit (pmap ! q) off \<and>
    (\<forall>r. pos \<le> r \<and> r < q \<longrightarrow> pmap ! r = 0xFFFFFFFF) \<and> (\<forall>j < off. bit (pmap ! q) j)"
  using assms
proof (induction pmap pos n rule: scan_map.induct)
  case (1 pmap pos n)
  show ?case
  proof (cases "scan_map pmap (Suc pos) n = Some (q, off) \<and> pmap ! pos = 0xFFFFFFFF \<and> pos < n")
    case True
    then have "Suc pos \<le> q \<and> q < n \<and> off < 32 \<and> \<not> bit (pmap ! q) off \<and>
      (\<forall>r. Suc pos \<le> r \<and> r < q \<longrightarrow> pmap ! r = 0xFFFFFFFF) \<and> (\<forall>j < off. bit (pmap ! q) j)"
      using 1 by simp
    then show ?thesis using True by (metis Suc_leD Suc_leI order_le_less)
  next
    case False
    then have "pos < n" "pmap ! pos \<noteq> 0xFFFFFFFF"
      using 1(3) scan_map.simps[of pmap pos n] by (auto split: if_splits)
    moreover from this obtain k where "scan_entry (pmap ! pos) 0 = Some k"
      using scan_entry_None[of "pmap ! pos" 0] by (auto simp: all_ones_iff)
    ultimately show ?thesis
      using 1(3) scan_map.simps[of pmap pos n] scan_entry_Some[of "pmap ! pos" 0 k]
      by (auto simp: le_antisym)
  qed
qed

lemma scan_map_None:
  assumes "scan_map pmap pos n = None" "pos \<le> r" "r < n"
  shows "pmap ! r = 0xFFFFFFFF"
  using assms
proof (induction pmap pos n rule: scan_map.induct)
  case (1 pmap pos n)
  have e: "scan_entry (pmap ! pos) 0 \<noteq> None" if "pmap ! pos \<noteq> 0xFFFFFFFF"
    using that scan_entry_None[of "pmap ! pos" 0] by (auto simp: all_ones_iff)
  then have "pmap ! pos = 0xFFFFFFFF" "scan_map pmap (Suc pos) n = None"
    using 1(3-5) scan_map.simps[of pmap pos n] by (auto split: if_splits option.splits)
  then show ?case using 1 by (cases "r = pos") auto
qed

lemma bit_set_entry: "j < 32 \<Longrightarrow> bit ((w :: u32) OR 2 ^ off) j \<longleftrightarrow> bit w j \<or> j = off"
  by (auto simp: bit_or_iff bit_exp_iff)

lemma bit_clear_entry: "j < 32 \<Longrightarrow> bit ((w :: u32) AND NOT (2 ^ off)) j \<longleftrightarrow> bit w j \<and> j \<noteq> off"
  by (auto simp: bit_and_iff bit_not_iff bit_exp_iff)

lemma length_page_bit [simp]:
  "length (set_page_bit m p f) = length m" "length (clear_page_bit m p f) = length m"
  by (simp_all add: set_page_bit_def clear_page_bit_def)

lemma page_used_set:
  assumes "pos < length m" "off < 32"
  shows "page_used (set_page_bit m pos off) q \<longleftrightarrow> page_used m q \<or> q = pos * 32 + off"
proof -
  have "q = pos * 32 + off \<longleftrightarrow> q div 32 = pos \<and> q mod 32 = off" using assms(2) by auto
  then show ?thesis using assms
    by (cases "q div 32 = pos") (auto simp: page_used_def set_page_bit_def bit_set_entry)
qed

lemma page_used_clear:
  assumes "pos < length m" "off < 32"
  shows "page_used (clear_page_bit m pos off) q \<longleftrightarrow> page_used m q \<and> q \<noteq> pos * 32 + off"
proof -
  have "q = pos * 32 + off \<longleftrightarrow> q div 32 = pos \<and> q mod 32 = off" using assms(2) by auto
  then show ?thesis using assms
    by (cases "q div 32 = pos") (auto simp: page_used_def clear_page_bit_def bit_clear_entry)
qed

lemma set_then_clear:
  assumes "\<not> bit (m ! pos) off" "off < 32"
  shows "clear_page_bit (set_page_bit m pos off) pos off = m"
proof (cases "pos < length m")
  case True
  have "((m ! pos) OR 2 ^ off) AND NOT (2 ^ off) = m ! pos"
    using assms by (intro bit_word_eqI) (auto simp: bit_set_entry bit_clear_entry)
  then show ?thesis using True by (simp add: set_page_bit_def clear_page_bit_def)
qed (simp add: set_page_bit_def clear_page_bit_def list_update_beyond)

section \<open>The well-formed page manager\<close>

text \<open>
  The maps have room for the words the manager records, the kernel's own pages are reserved, and
  physical memory has at most \<open>2^20\<close> pages, the most a 32-bit address can name
  (\<open>BuildRawPageMap\<close> checks the map against its 128 KB).
\<close>

definition mem_wf :: "mem_manager \<Rightarrow> bool" where
  "mem_wf s \<longleftrightarrow>
     m_uiPageMapSize s \<le> length (m_uiPageMap s) \<and> length (m_uiPageMap s) \<le> 32768 \<and>
     m_uiKernelPagePoolMapSize s \<le> length (m_uiKernelPagePoolMap s) \<and>
     length (m_uiKernelPagePoolMap s) \<le> 2048 \<and>
     m_uiKernelPagePoolStartPage s < 2 ^ 20 \<and> 0 < m_uiResvSize s"

text \<open>A physical page that \<open>AllocatePhysicalPage\<close> may hand out.\<close>

definition allocatable :: "mem_manager \<Rightarrow> nat \<Rightarrow> bool" where
  "allocatable s p \<longleftrightarrow> m_uiResvSize s * 32 \<le> p \<and> p < m_uiPageMapSize s * 32 \<and> \<not> page_used (m_uiPageMap s) p"

lemma AllocatePhysicalPage_Inr:
  assumes "AllocatePhysicalPage s = (Inr p, t)" "mem_wf s"
  shows "allocatable s p \<and>
    t = s\<lparr>m_uiPageMap := set_page_bit (m_uiPageMap s) (p div 32) (p mod 32)\<rparr> \<and>
    (\<forall>q. allocatable s q \<longrightarrow> p \<le> q)"
proof -
  obtain pos off where sc: "scan_map (m_uiPageMap s) (m_uiResvSize s) (m_uiPageMapSize s) = Some (pos, off)"
    and p: "p = pos * 32 + off" and t: "t = s\<lparr>m_uiPageMap := set_page_bit (m_uiPageMap s) pos off\<rparr>"
    using assms by (auto simp: AllocatePhysicalPage_def split: option.splits)
  have f: "m_uiResvSize s \<le> pos" "pos < m_uiPageMapSize s" "off < 32" "\<not> bit (m_uiPageMap s ! pos) off"
    and before: "\<And>r. m_uiResvSize s \<le> r \<Longrightarrow> r < pos \<Longrightarrow> m_uiPageMap s ! r = 0xFFFFFFFF"
      "\<And>j. j < off \<Longrightarrow> bit (m_uiPageMap s ! pos) j"
    using scan_map_Some[OF sc] by auto
  have dm: "p div 32 = pos" "p mod 32 = off" using p f(3) by auto
  have "p \<le> q" if "allocatable s q" for q
  proof (rule ccontr)
    assume "\<not> p \<le> q"
    then have "q div 32 < pos \<or> q div 32 = pos \<and> q mod 32 < off"
      using dm by (metis div_le_mono less_le_not_le linorder_le_less_linear mult_div_mod_eq
          nat_add_left_cancel_less order_le_less)
    moreover have "m_uiResvSize s \<le> q div 32" using that by (auto simp: allocatable_def)
    ultimately have "page_used (m_uiPageMap s) q"
      using before all_ones_iff[of "m_uiPageMap s ! (q div 32)"] by (auto simp: page_used_def)
    then show False using that by (simp add: allocatable_def)
  qed
  then show ?thesis
    using f dm t p by (auto simp: allocatable_def page_used_def)
qed

lemma AllocatePhysicalPage_Inl:
  assumes "AllocatePhysicalPage s = (Inl e, t)"
  shows "e = OutOfMemoryPages \<and> t = s \<and> (\<forall>p. \<not> allocatable s p)"
proof -
  have sc: "scan_map (m_uiPageMap s) (m_uiResvSize s) (m_uiPageMapSize s) = None"
    and r: "e = OutOfMemoryPages" "t = s"
    using assms by (auto simp: AllocatePhysicalPage_def split: option.splits)
  have "page_used (m_uiPageMap s) p" if "m_uiResvSize s * 32 \<le> p" "p < m_uiPageMapSize s * 32" for p
    using scan_map_None[OF sc, of "p div 32"] that all_ones_iff[of "m_uiPageMap s ! (p div 32)"]
    by (auto simp: page_used_def)
  then show ?thesis using r by (auto simp: allocatable_def)
qed

lemma AllocatePhysicalPage_used:
  assumes "AllocatePhysicalPage s = (Inr p, t)" "mem_wf s"
  shows "page_used (m_uiPageMap t) q \<longleftrightarrow> page_used (m_uiPageMap s) q \<or> q = p"
  using AllocatePhysicalPage_Inr[OF assms] assms(2)
  by (auto simp: page_used_set allocatable_def mem_wf_def)

lemma mem_wf_alloc: "AllocatePhysicalPage s = (r, t) \<Longrightarrow> mem_wf s \<Longrightarrow> mem_wf t"
  by (auto simp: AllocatePhysicalPage_def mem_wf_def split: option.splits)

lemma DeAllocatePhysicalPage_used:
  assumes "DeAllocatePhysicalPage p s = (Inr u, t)"
  shows "page_used (m_uiPageMap t) q \<longleftrightarrow> page_used (m_uiPageMap s) q \<and> q \<noteq> p"
  using assms by (auto simp: DeAllocatePhysicalPage_def Let_def page_used_clear split: if_splits)

lemma mem_wf_dealloc: "DeAllocatePhysicalPage p s = (r, t) \<Longrightarrow> mem_wf s \<Longrightarrow> mem_wf t"
  by (auto simp: DeAllocatePhysicalPage_def mem_wf_def Let_def split: if_splits)

lemma alloc_dealloc_id:
  assumes "AllocatePhysicalPage s = (Inr p, t)" "mem_wf s"
  shows "DeAllocatePhysicalPage p t = (Inr (), s)"
proof -
  have a: "allocatable s p" "t = s\<lparr>m_uiPageMap := set_page_bit (m_uiPageMap s) (p div 32) (p mod 32)\<rparr>"
    using AllocatePhysicalPage_Inr[OF assms] by auto
  then show ?thesis using assms(2)
    by (auto simp: DeAllocatePhysicalPage_def Let_def allocatable_def page_used_def set_then_clear mem_wf_def)
qed

section \<open>Building the maps\<close>

text \<open>
  \<open>BuildRawPageMap\<close> clears the words of the map and reserves the kernel's; the map lies in the 128 KB
  from \<open>MEM_PAGE_MAP_START\<close>, whose old content is that of the record.
\<close>

definition BuildRawPageMap :: "u32 \<Rightarrow> mem_manager \<Rightarrow> bool \<times> mem_manager" where
  "BuildRawPageMap RAM_SIZE s =
     (let sz = unat RAM_SIZE div 4096 div 8 div 4;
          resv = 0x8000000 div 4096 div 8 div 4;
          s1 = s\<lparr>m_uiPageMapSize := sz, m_uiResvSize := resv, m_uiNoOfResvPages := 0x8000000 div 4096,
                 m_uiKernelHeapSize := 0x3000000 div 4096 div 8 div 4\<rparr>
      in if sz * 4 > 0x1420000 - 0x1400000 then (False, s1)
         else let cleared = map (\<lambda>i. if i < sz then (m_uiPageMap s ! i) AND 0 else m_uiPageMap s ! i)
                              [0 ..< length (m_uiPageMap s)];
                  reserved = map (\<lambda>i. if i < resv then (cleared ! i) OR 0xFFFFFFFF else cleared ! i)
                              [0 ..< length (m_uiPageMap s)]
              in (True, s1\<lparr>m_uiPageMap := reserved\<rparr>))"

definition BuildPagePoolMap :: "mem_manager \<Rightarrow> bool \<times> mem_manager" where
  "BuildPagePoolMap s =
     (let sz = 0x1000000 div 4096 div 8 div 4;
          s1 = s\<lparr>m_uiKernelPagePoolMapSize := sz,
                 m_uiKernelPagePoolStartPage := (0x4000000 + 0x3000000) div 4096\<rparr>
      in if sz * 4 > (0x1533000 - 0x1531000 :: nat) then (False, s1)
         else (True, s1\<lparr>m_uiKernelPagePoolMap :=
                map (\<lambda>i. if i < sz then (m_uiKernelPagePoolMap s ! i) AND 0 else m_uiKernelPagePoolMap s ! i)
                  [0 ..< length (m_uiKernelPagePoolMap s)]\<rparr>))"

text \<open>
  \<open>BuildPageTable\<close>: the directory's entries point to the 1024 consecutive page tables from
  \<open>MEM_PTE_START\<close>, and the page tables map every page of the RAM but page 0 to itself.
\<close>

definition BuildPageTable :: "u32 \<Rightarrow> u32 \<Rightarrow> mem_manager \<Rightarrow> bool \<times> mem_manager" where
  "BuildPageTable GLOBAL_DATA_SEGMENT_BASE RAM_SIZE s =
     (let n = unat RAM_SIZE div 4096; s1 = s\<lparr>m_uiNoOfPages := n\<rparr>
      in if (n div 1024) * 4 > 0x1421000 - 0x1420000 then (False, s1)
         else if n * 4 > 0x1400000 - 0x1000000 then (False, s1)
         else (True, s1\<lparr>
           m_uiPDEBase := (\<lambda>i. if i < PAGE_TABLE_ENTRIES
             then ((0x1000000 + GLOBAL_DATA_SEGMENT_BASE + word_of_nat i * 4096) AND 0xFFFFF000) OR 3
             else 0),
           m_uiPTEBase := (\<lambda>i. if i = 0 then 0
             else if i < n then ((word_of_nat i * PAGE_SIZE) AND 0xFFFFF000) OR 3 else 0),
           m_iNoOfKernelProcessStackBlocks := PAGE_TABLE_ENTRIES div PROCESS_KERNEL_STACK_PAGES,
           m_bAllocationMapForKernelProcessStackBlock :=
             replicate (PAGE_TABLE_ENTRIES div PROCESS_KERNEL_STACK_PAGES) False\<rparr>))"

section \<open>Kernel stacks\<close>

text \<open>
  The page-table entries of the kernel stacks start at the page table of directory entry
  \<open>KERNEL_PROCESS_PDE_ID\<close>, which is a part of the kernel's page tables.
\<close>

definition stack_pte :: "nat \<Rightarrow> nat \<Rightarrow> nat" where
  "stack_pte block i = KERNEL_PROCESS_PDE_ID * PAGE_TABLE_ENTRIES + block * PROCESS_KERNEL_STACK_PAGES + i"

fun find_free_block :: "bool list \<Rightarrow> nat \<Rightarrow> nat \<Rightarrow> nat option" where
  "find_free_block bs i 0 = None"
| "find_free_block bs i (Suc n) = (if \<not> bs ! i then Some i else find_free_block bs (Suc i) n)"

definition GetFreeKernelProcessStackBlockID :: "(mem_manager, mem_fault, nat option) comp" where
  "GetFreeKernelProcessStackBlockID s =
     (case find_free_block (m_bAllocationMapForKernelProcessStackBlock s) 0
             (m_iNoOfKernelProcessStackBlocks s) of
        None \<Rightarrow> (Inr None, s)
      | Some i \<Rightarrow> (Inr (Some i), s\<lparr>m_bAllocationMapForKernelProcessStackBlock :=
                       (m_bAllocationMapForKernelProcessStackBlock s)[i := True]\<rparr>))"

fun map_stack_pages :: "nat \<Rightarrow> nat \<Rightarrow> nat \<Rightarrow> (mem_manager, mem_fault, unit) comp" where
  "map_stack_pages block i 0 = ret ()"
| "map_stack_pages block i (Suc n) =
     andThen AllocatePhysicalPage (\<lambda>p.
     andThen (\<lambda>s. (Inr (), s\<lparr>m_uiPTEBase := (m_uiPTEBase s)
               (stack_pte block i := ((word_of_nat p * PAGE_SIZE) AND 0xFFFFF000) OR 3)\<rparr>)) (\<lambda>_.
     map_stack_pages block (Suc i) n))"

definition AllocateKernelStack :: "(mem_manager, mem_fault, nat) comp" where
  "AllocateKernelStack =
     andThen GetFreeKernelProcessStackBlockID (\<lambda>blk.
     case blk of None \<Rightarrow> throw NoFreeStackBlocks
     | Some b \<Rightarrow> andThen (map_stack_pages b 0 PROCESS_KERNEL_STACK_PAGES) (\<lambda>_. ret b))"

fun free_stack_pages :: "nat \<Rightarrow> nat \<Rightarrow> nat \<Rightarrow> (mem_manager, mem_fault, unit) comp" where
  "free_stack_pages block i 0 = ret ()"
| "free_stack_pages block i (Suc n) =
     andThen (\<lambda>s. DeAllocatePhysicalPage
                (unat (((m_uiPTEBase s (stack_pte block i)) AND 0xFFFFF000) div PAGE_SIZE)) s) (\<lambda>_.
     free_stack_pages block (Suc i) n)"

definition DeAllocateKernelStack :: "int \<Rightarrow> (mem_manager, mem_fault, unit) comp" where
  "DeAllocateKernelStack stackBlockId s =
     (if stackBlockId < 0 \<or> stackBlockId \<ge> int (m_iNoOfKernelProcessStackBlocks s) then (Inr (), s)
      else andThen (free_stack_pages (nat stackBlockId) 0 PROCESS_KERNEL_STACK_PAGES) (\<lambda>_ t.
             (Inr (), t\<lparr>m_bAllocationMapForKernelProcessStackBlock :=
                (m_bAllocationMapForKernelProcessStackBlock t)[nat stackBlockId := False]\<rparr>)) s)"

section \<open>Page faults and translation\<close>

definition InitPage :: "nat \<Rightarrow> mem_manager \<Rightarrow> mem_manager" where
  "InitPage uiPage s = s\<lparr>phys := (\<lambda>a. if drop_bit 12 a = (word_of_nat uiPage :: u32) then 0 else phys s a)\<rparr>"

definition pde_index :: "u32 \<Rightarrow> u32" where "pde_index a = drop_bit 22 a AND 0x3FF"
definition pte_index :: "u32 \<Rightarrow> u32" where "pte_index a = drop_bit 12 a AND 0x3FF"

text \<open>
  One level of the walk: install a fresh zeroed page in the entry at \<open>entry\<close> when it is not present.
  The entry is written first, then the page is cleared, as in the code.
\<close>

definition install_page :: "u32 \<Rightarrow> (mem_manager, mem_fault, nat) comp" where
  "install_page entry =
     andThen AllocatePhysicalPage (\<lambda>p s.
       (Inr p, InitPage p (s\<lparr>phys := (phys s)
          (entry := ((word_of_nat p * PAGE_SIZE) AND 0xFFFFF000) OR 7)\<rparr>)))"

text \<open>
  \<open>AllocatePage\<close>: the flags of the faulting process (is it a kernel process, is its allocator
  running) and its page directory come from the process table. A fault of a kernel process stops the
  machine.
\<close>

definition AllocatePage :: "bool \<Rightarrow> bool \<Rightarrow> u32 \<Rightarrow> u32 \<Rightarrow> (mem_manager, mem_fault, ReturnCode) comp" where
  "AllocatePage isKernel dmmOn uiPDEAddress uiFaultyAddress s =
     (let pdeIndex = pde_index uiFaultyAddress in
      if isKernel then throw Halted s
      else if (pdeIndex \<noteq> PROCESS_STACK_PDE_ID \<or> pdeIndex \<noteq> PROCESS_GUI_FRAMEBUFFER_PDE_ID \<or> dmmOn) \<and>
              (uiFaultyAddress < PROCESS_HEAP_START_ADDRESS \<or>
               (uiFaultyAddress \<ge> PROCESS_HEAP_START_ADDRESS \<and> \<not> dmmOn) \<or>
               (pdeIndex = PROCESS_STACK_PDE_ID \<and> dmmOn) \<or>
               pdeIndex = PROCESS_GUI_FRAMEBUFFER_PDE_ID)
      then (Inr Failure, s)
      else
        let pde = uiPDEAddress + 4 * pdeIndex;
            finish = (\<lambda>table t.
              let pte = table + 4 * pte_index uiFaultyAddress; page = phys t pte in
              if page AND 1 = 0 then andThen (install_page pte) (\<lambda>_. ret Success) t
              else if page AND 7 = 7 then (Inr Success, t)
              else (Inr Failure, t))
        in if phys s pde AND 1 = 0
           then andThen (install_page pde) (\<lambda>p. finish (word_of_nat p * PAGE_SIZE)) s
           else if phys s pde AND 7 = 7 then finish (phys s pde AND 0xFFFFF000) s
           else (Inr Failure, s))"

definition DeAllocatePage :: "u32 \<Rightarrow> (mem_manager, mem_fault, ReturnCode) comp" where
  "DeAllocatePage uiAddress s =
     (let v = unat (uiAddress div PAGE_SIZE) in
      if m_uiPTEBase s v AND 1 = 0 then (Inr DupDealloc, s)
      else let p = unat ((m_uiPTEBase s v AND 0xFFFFF000) div PAGE_SIZE)
           in andThen (DeAllocatePhysicalPage p) (\<lambda>_. ret Success)
                (s\<lparr>m_uiPTEBase := (m_uiPTEBase s)(v := m_uiPTEBase s v AND 2)\<rparr>))"

definition GetFlatAddress :: "u32 \<Rightarrow> u32 \<Rightarrow> mem_manager \<Rightarrow> u32" where
  "GetFlatAddress uiPDEAddress uiVirtualAddress s =
     (let pde = phys s (uiPDEAddress + 4 * pde_index uiVirtualAddress) in
      if pde AND 1 = 0 then 0
      else let pte = phys s ((pde AND 0xFFFFF000) + 4 * pte_index uiVirtualAddress) in
           if pte AND 1 = 0 then 0
           else (pte AND 0xFFFFF000) + (uiVirtualAddress AND 0xFFF))"

subsection \<open>Frames and entries\<close>

lemma word_masks: "(0xFFFFF000 :: u32) = NOT (mask 12)" "(0xFFF :: u32) = mask 12" "(0x3FF :: u32) = mask 10"
  "(7 :: u32) = mask 3"
  by (simp_all add: mask_eq_exp_minus_1)

lemma frame_push: "word_of_nat p * PAGE_SIZE = (push_bit 12 (word_of_nat p) :: u32)"
  by (simp add: PAGE_SIZE_def push_bit_eq_mult mult.commute)

lemma frame_aligned [simp]: "(push_bit 12 w :: u32) AND 0xFFFFF000 = push_bit 12 w"
  unfolding word_masks by (rule bit_word_eqI) (auto simp: bit_simps)

lemma frame_offset [simp]: "(push_bit 12 w :: u32) AND 0xFFF = 0"
  unfolding word_masks by (rule bit_word_eqI) (auto simp: bit_simps)

lemma entry_frame [simp]: "((push_bit 12 w :: u32) OR 7) AND 0xFFFFF000 = push_bit 12 w"
  unfolding word_masks by (rule bit_word_eqI) (auto simp: bit_simps)

lemma entry_present [simp]: "((w :: u32) OR 7) AND 1 \<noteq> 0" "((w :: u32) OR 7) AND 7 = 7"
  unfolding word_masks by (simp add: and_1_eq_0_iff bit_simps, rule bit_word_eqI, auto simp: bit_simps)

lemma entry_number: "drop_bit 12 ((push_bit 12 w :: u32) OR 7) = drop_bit 12 (push_bit 12 w :: u32)"
  unfolding word_masks by (rule bit_word_eqI) (auto simp: bit_simps)

lemma frame_number:
  assumes "p < 2 ^ 20"
  shows "drop_bit 12 (push_bit 12 (word_of_nat p) :: u32) = word_of_nat p"
proof -
  have u: "unat (word_of_nat p :: u32) = p" using assms by (simp add: unat_of_nat)
  then have "unat (push_bit 12 (word_of_nat p) :: u32) = p * 4096"
    using assms by (simp add: push_bit_eq_mult unat_word_ariths)
  then have "unat (drop_bit 12 (push_bit 12 (word_of_nat p) :: u32)) = p"
    by (simp add: drop_bit_eq_div unat_div)
  then show ?thesis using u by (simp add: word_unat_eq_iff)
qed

lemma masked_number: "drop_bit 12 ((w :: u32) AND 0xFFFFF000) = drop_bit 12 w"
  unfolding word_masks by (rule bit_word_eqI) (auto simp: bit_simps dest: bit_imp_le_length)

lemma index_bound: "pde_index a \<le> 1023" "pte_index a \<le> 1023"
  by (simp_all add: pde_index_def pte_index_def word_and_le1)

text \<open>An entry of a page-aligned table lies in the table's page, and distinct indexes are distinct words.\<close>

lemma entry_page:
  assumes "(t :: u32) AND 0xFFF = 0" "i \<le> 1023"
  shows "drop_bit 12 (t + 4 * i) = drop_bit 12 t"
proof -
  have i: "unat i \<le> 1023" using assms(2) by (simp add: word_le_nat_alt)
  have "unat (take_bit 12 t) = take_bit 12 (unat t)" by (rule unsigned_take_bit_eq)
  moreover have "take_bit 12 t = 0" using assms(1) by (simp only: word_masks take_bit_eq_mask)
  ultimately have t: "unat t mod 4096 = 0" by (simp add: take_bit_eq_mod)
  then obtain k where k: "unat t = 4096 * k" by (metis mod_0_imp_dvd dvdE)
  have "unat t < 2 ^ 32" using unsigned_less[of t] by simp
  then have le: "unat t + 4 * unat i < 2 ^ 32" using k i by simp
  then have "unat (4 * i) = 4 * unat i" by (simp add: unat_word_ariths)
  then have "unat (t + 4 * i) = unat t + 4 * unat i" using le by (simp add: unat_word_ariths)
  then have "unat (drop_bit 12 (t + 4 * i)) = unat (drop_bit 12 t)"
    using k i by (simp add: drop_bit_eq_div unat_div)
  then show ?thesis by (simp add: word_unat_eq_iff)
qed

lemma entry_inj:
  assumes "t + 4 * i = t + 4 * j" "i \<le> 1023" "(j :: u32) \<le> 1023"
  shows "i = j"
proof -
  have ij: "unat i \<le> 1023" "unat j \<le> 1023" using assms(2,3) by (simp_all add: word_le_nat_alt)
  have "4 * i = 4 * j" using assms(1) by simp
  then have "unat (4 * i) = unat (4 * j)" by simp
  then have "unat i = unat j" using ij by (simp add: unat_word_ariths)
  then show ?thesis by (simp add: word_unat_eq_iff)
qed

subsection \<open>Page tables that do not share pages\<close>

definition pde :: "u32 \<Rightarrow> mem_manager \<Rightarrow> u32 \<Rightarrow> u32" where
  "pde c s i = phys s (c + 4 * i)"

definition pte :: "u32 \<Rightarrow> mem_manager \<Rightarrow> u32 \<Rightarrow> u32" where
  "pte c s a = phys s ((pde c s (pde_index a) AND 0xFFFFF000) + 4 * pte_index a)"

definition mapped :: "u32 \<Rightarrow> u32 \<Rightarrow> mem_manager \<Rightarrow> bool" where
  "mapped c a s \<longleftrightarrow> pde c s (pde_index a) AND 1 \<noteq> 0 \<and> pte c s a AND 1 \<noteq> 0"

text \<open>
  The invariant of a process's page tables: the directory is page-aligned; the directory's page and
  the page of every present page table are allocated in the bitmap, and they are all different.
\<close>

definition tables_ok :: "u32 \<Rightarrow> mem_manager \<Rightarrow> bool" where
  "tables_ok c s \<longleftrightarrow>
     c AND 0xFFF = 0 \<and> page_used (m_uiPageMap s) (unat (drop_bit 12 c)) \<and>
     (\<forall>i \<le> 1023. pde c s i AND 1 \<noteq> 0 \<longrightarrow>
        page_used (m_uiPageMap s) (unat (drop_bit 12 (pde c s i))) \<and>
        drop_bit 12 (pde c s i) \<noteq> drop_bit 12 c \<and>
        (\<forall>j \<le> 1023. pde c s j AND 1 \<noteq> 0 \<and> drop_bit 12 (pde c s j) = drop_bit 12 (pde c s i) \<longrightarrow> i = j))"

lemma GetFlatAddress_mapped:
  "GetFlatAddress c a s =
     (if mapped c a s then (pte c s a AND 0xFFFFF000) + (a AND 0xFFF) else 0)"
  by (auto simp: GetFlatAddress_def mapped_def pte_def pde_def Let_def)

lemma install_page_Inr:
  assumes "install_page e s = (Inr p, t)" "mem_wf s"
  shows "allocatable s p \<and> p < 2 ^ 20 \<and> mem_wf t \<and>
    phys t = (\<lambda>a. if drop_bit 12 a = (word_of_nat p :: u32) then 0
                  else if a = e then (push_bit 12 (word_of_nat p)) OR 7 else phys s a) \<and>
    (\<forall>q. page_used (m_uiPageMap t) q \<longleftrightarrow> page_used (m_uiPageMap s) q \<or> q = p) \<and>
    m_uiResvSize t = m_uiResvSize s \<and> m_uiPageMapSize t = m_uiPageMapSize s"
proof -
  obtain u where a: "AllocatePhysicalPage s = (Inr p, u)"
    and t: "t = InitPage p (u\<lparr>phys := (phys u)(e := (push_bit 12 (word_of_nat p)) OR 7)\<rparr>)"
    using assms(1) by (auto simp: install_page_def andThen_Inr_iff frame_push)
  note al = AllocatePhysicalPage_Inr[OF a assms(2)]
  have "p < 2 ^ 20" using al assms(2) by (auto simp: allocatable_def mem_wf_def)
  moreover have "mem_wf t" using mem_wf_alloc[OF a assms(2)] t by (simp add: mem_wf_def InitPage_def)
  ultimately show ?thesis
    using al t AllocatePhysicalPage_used[OF a assms(2)] by (auto simp: InitPage_def)
qed

lemma unat_page: "p < 2 ^ 20 \<Longrightarrow> unat (word_of_nat p :: u32) = p"
  by (simp add: unat_of_nat)

lemma used_not_fresh:
  assumes "page_used m (unat (w :: u32))" "\<not> page_used m p" "p < 2 ^ 20"
  shows "w \<noteq> word_of_nat p"
  using assms by (auto simp: unat_page)

text \<open>A present page table's entries lie in its page.\<close>

lemma table_entry_page:
  "drop_bit 12 ((w AND 0xFFFFF000) + 4 * pte_index a) = drop_bit 12 (w :: u32)"
proof -
  have "(w AND 0xFFFFF000) AND 0xFFF = 0"
    unfolding word_masks by (rule bit_word_eqI) (auto simp: bit_simps)
  then show ?thesis using entry_page[OF _ index_bound(2)] by (simp only: masked_number)
qed

text \<open>Installing a page table in an empty directory entry.\<close>

lemma install_table:
  assumes ok: "tables_ok c s" and wf: "mem_wf s" and i: "i \<le> 1023"
    and np: "pde c s i AND 1 = 0" and run: "install_page (c + 4 * i) s = (Inr p, t)"
  shows "tables_ok c t" "mem_wf t" "pde c t i = push_bit 12 (word_of_nat p) OR 7"
    "p < 2 ^ 20" "allocatable s p"
    "\<And>a. drop_bit 12 a = (word_of_nat p :: u32) \<Longrightarrow> phys t a = 0"
    "\<And>a. mapped c a s \<Longrightarrow> mapped c a t \<and> GetFlatAddress c a t = GetFlatAddress c a s"
proof -
  note ip = install_page_Inr[OF run wf]
  then have ph: "phys t = (\<lambda>a. if drop_bit 12 a = (word_of_nat p :: u32) then 0
                  else if a = c + 4 * i then push_bit 12 (word_of_nat p) OR 7 else phys s a)"
    and p: "p < 2 ^ 20" and al: "allocatable s p" and wt: "mem_wf t"
    and used: "\<And>q. page_used (m_uiPageMap t) q \<longleftrightarrow> page_used (m_uiPageMap s) q \<or> q = p"
    by auto
  have free: "\<not> page_used (m_uiPageMap s) p" using al by (simp add: allocatable_def)
  have c: "c AND 0xFFF = 0" "page_used (m_uiPageMap s) (unat (drop_bit 12 c))"
    using ok by (auto simp: tables_ok_def)
  have cp: "drop_bit 12 (c + 4 * k) = drop_bit 12 c" if "k \<le> 1023" for k
    using that c(1) by (rule entry_page[rotated])
  have cne: "drop_bit 12 c \<noteq> (word_of_nat p :: u32)" using c(2) free p by (rule used_not_fresh)
  have d: "pde c t k = (if k = i then push_bit 12 (word_of_nat p) OR 7 else pde c s k)"
    if "k \<le> 1023" for k
    using that cp cne entry_inj[of c k i] i by (auto simp: pde_def ph)
  show pdei: "pde c t i = push_bit 12 (word_of_nat p) OR 7" using d i by simp
  have num: "drop_bit 12 (pde c t i) = word_of_nat p"
    using pdei p by (simp add: entry_number frame_number)
  have old: "drop_bit 12 (pde c s k) \<noteq> word_of_nat p \<and> drop_bit 12 (pde c s k) \<noteq> drop_bit 12 c \<and>
      page_used (m_uiPageMap s) (unat (drop_bit 12 (pde c s k)))"
    if "k \<le> 1023" "pde c s k AND 1 \<noteq> 0" for k
    using that ok used_not_fresh[OF _ free p] unfolding tables_ok_def by blast
  show "tables_ok c t"
    unfolding tables_ok_def
  proof (intro conjI allI impI)
    show "c AND 0xFFF = 0" "page_used (m_uiPageMap t) (unat (drop_bit 12 c))" using c used by auto
  next
    fix k assume k: "k \<le> 1023" "pde c t k AND 1 \<noteq> 0"
    show "page_used (m_uiPageMap t) (unat (drop_bit 12 (pde c t k)))"
      using old[of k] k d[of k] num used p by (cases "k = i") (auto simp: unat_page)
    show "drop_bit 12 (pde c t k) \<noteq> drop_bit 12 c"
      using old[of k] k d[of k] num cne by (cases "k = i") auto
    fix j assume j: "j \<le> 1023" "pde c t j AND 1 \<noteq> 0 \<and> drop_bit 12 (pde c t j) = drop_bit 12 (pde c t k)"
    show "k = j"
    proof (cases "k = i \<or> j = i")
      case True
      then show ?thesis using old[of k] old[of j] d[of k] d[of j] k j num by metis
    next
      case False
      then show ?thesis using ok d[of k] d[of j] k j unfolding tables_ok_def by metis
    qed
  qed
  show "mem_wf t" "p < 2 ^ 20" "allocatable s p" using wt p al .
  show "phys t a = 0" if "drop_bit 12 a = (word_of_nat p :: u32)" for a using that ph by simp
  show "mapped c a t \<and> GetFlatAddress c a t = GetFlatAddress c a s" if m: "mapped c a s" for a
  proof -
    let ?k = "pde_index a"
    have k: "?k \<le> 1023" "pde c s ?k AND 1 \<noteq> 0" "?k \<noteq> i"
      using index_bound(1) m np by (auto simp: mapped_def)
    have same: "pde c t ?k = pde c s ?k" using d k by simp
    have "drop_bit 12 ((pde c s ?k AND 0xFFFFF000) + 4 * pte_index a) = drop_bit 12 (pde c s ?k)"
      by (rule table_entry_page)
    then have "pte c t a = pte c s a"
      using old[OF k(1,2)] cp[OF i] same by (auto simp: pte_def ph)
    then show ?thesis using m same by (simp add: mapped_def GetFlatAddress_mapped)
  qed
qed

text \<open>Installing a frame in an empty entry of a present page table.\<close>

lemma install_frame:
  assumes ok: "tables_ok c s" and wf: "mem_wf s" and pr: "pde c s (pde_index v) AND 1 \<noteq> 0"
    and np: "pte c s v AND 1 = 0"
    and run: "install_page ((pde c s (pde_index v) AND 0xFFFFF000) + 4 * pte_index v) s = (Inr p, t)"
  shows "tables_ok c t" "mem_wf t" "mapped c v t"
    "GetFlatAddress c v t = push_bit 12 (word_of_nat p) + (v AND 0xFFF)"
    "p < 2 ^ 20" "allocatable s p"
    "\<And>a. drop_bit 12 a = (word_of_nat p :: u32) \<Longrightarrow> phys t a = 0"
    "\<And>a. mapped c a s \<Longrightarrow> mapped c a t \<and> GetFlatAddress c a t = GetFlatAddress c a s"
proof -
  let ?i = "pde_index v"
  let ?e = "(pde c s ?i AND 0xFFFFF000) + 4 * pte_index v"
  note ip = install_page_Inr[OF run wf]
  then have ph: "phys t = (\<lambda>a. if drop_bit 12 a = (word_of_nat p :: u32) then 0
                  else if a = ?e then push_bit 12 (word_of_nat p) OR 7 else phys s a)"
    and p: "p < 2 ^ 20" and al: "allocatable s p" and wt: "mem_wf t"
    and used: "\<And>q. page_used (m_uiPageMap t) q \<longleftrightarrow> page_used (m_uiPageMap s) q \<or> q = p"
    by auto
  have free: "\<not> page_used (m_uiPageMap s) p" using al by (simp add: allocatable_def)
  have c: "c AND 0xFFF = 0" "page_used (m_uiPageMap s) (unat (drop_bit 12 c))"
    using ok by (auto simp: tables_ok_def)
  have cne: "drop_bit 12 c \<noteq> (word_of_nat p :: u32)" using c(2) free p by (rule used_not_fresh)
  have old: "drop_bit 12 (pde c s k) \<noteq> word_of_nat p \<and> drop_bit 12 (pde c s k) \<noteq> drop_bit 12 c \<and>
      page_used (m_uiPageMap s) (unat (drop_bit 12 (pde c s k)))"
    if "k \<le> 1023" "pde c s k AND 1 \<noteq> 0" for k
    using that ok used_not_fresh[OF _ free p] unfolding tables_ok_def by blast
  have eT: "drop_bit 12 ?e = drop_bit 12 (pde c s ?i)" by (rule table_entry_page)
  have d: "pde c t k = pde c s k" if "k \<le> 1023" for k
    using that entry_page[OF c(1) that] cne eT old[OF index_bound(1) pr] by (auto simp: pde_def ph)
  show "tables_ok c t"
    using ok unfolding tables_ok_def by (simp add: d used)
  show "mem_wf t" "p < 2 ^ 20" "allocatable s p" using wt p al .
  show "phys t a = 0" if "drop_bit 12 a = (word_of_nat p :: u32)" for a using that ph by simp
  have "pte c t v = push_bit 12 (word_of_nat p) OR 7"
    using d[OF index_bound(1)] eT old[OF index_bound(1) pr] by (simp add: pte_def ph)
  then show "mapped c v t" "GetFlatAddress c v t = push_bit 12 (word_of_nat p) + (v AND 0xFFF)"
    using pr d[OF index_bound(1)] by (simp_all add: mapped_def GetFlatAddress_mapped)
  show "mapped c a t \<and> GetFlatAddress c a t = GetFlatAddress c a s" if m: "mapped c a s" for a
  proof -
    let ?k = "pde_index a"
    let ?f = "(pde c s ?k AND 0xFFFFF000) + 4 * pte_index a"
    have k: "?k \<le> 1023" "pde c s ?k AND 1 \<noteq> 0" using index_bound(1) m by (auto simp: mapped_def)
    have f: "drop_bit 12 ?f = drop_bit 12 (pde c s ?k)" by (rule table_entry_page)
    have "?f \<noteq> ?e"
    proof
      assume fe: "?f = ?e"
      then have "?k = ?i" using f eT k pr index_bound(1) ok unfolding tables_ok_def by metis
      then have "pte c s a = pte c s v" using fe by (simp add: pte_def)
      then show False using m np by (simp add: mapped_def)
    qed
    then have "pte c t a = pte c s a" using old[OF k] f d[OF k(1)] by (simp add: pte_def ph)
    then show ?thesis using m d[OF k(1)] by (simp add: mapped_def GetFlatAddress_mapped)
  qed
qed

subsection \<open>The page-fault handler\<close>

lemma AllocatePage_user:
  "AllocatePage isKernel dmmOn c v s =
     (if isKernel then throw Halted s
      else if v < PROCESS_HEAP_START_ADDRESS \<or> \<not> dmmOn \<or> pde_index v = PROCESS_STACK_PDE_ID
              \<or> pde_index v = PROCESS_GUI_FRAMEBUFFER_PDE_ID
      then (Inr Failure, s)
      else
        let finish = (\<lambda>table t.
              let e = table + 4 * pte_index v; page = phys t e in
              if page AND 1 = 0 then andThen (install_page e) (\<lambda>_. ret Success) t
              else if page AND 7 = 7 then (Inr Success, t)
              else (Inr Failure, t))
        in if pde c s (pde_index v) AND 1 = 0
           then andThen (install_page (c + 4 * pde_index v)) (\<lambda>p. finish (push_bit 12 (word_of_nat p))) s
           else if pde c s (pde_index v) AND 7 = 7 then finish (pde c s (pde_index v) AND 0xFFFFF000) s
           else (Inr Failure, s))"
proof -
  have "((pde_index v \<noteq> PROCESS_STACK_PDE_ID \<or> pde_index v \<noteq> PROCESS_GUI_FRAMEBUFFER_PDE_ID \<or> dmmOn) \<and>
         (v < PROCESS_HEAP_START_ADDRESS \<or> (v \<ge> PROCESS_HEAP_START_ADDRESS \<and> \<not> dmmOn) \<or>
          (pde_index v = PROCESS_STACK_PDE_ID \<and> dmmOn) \<or> pde_index v = PROCESS_GUI_FRAMEBUFFER_PDE_ID))
      \<longleftrightarrow> (v < PROCESS_HEAP_START_ADDRESS \<or> \<not> dmmOn \<or> pde_index v = PROCESS_STACK_PDE_ID
              \<or> pde_index v = PROCESS_GUI_FRAMEBUFFER_PDE_ID)"
    by (auto simp: PROCESS_STACK_PDE_ID_def PROCESS_GUI_FRAMEBUFFER_PDE_ID_def)
  then show ?thesis unfolding AllocatePage_def Let_def frame_push pde_def by simp
qed

lemma and_7_present: "(w :: u32) AND 7 = 7 \<Longrightarrow> w AND 1 \<noteq> 0"
proof -
  assume "w AND 7 = 7"
  then have "bit (w AND 7) 0" by (simp add: bit_0)
  then show "w AND 1 \<noteq> 0" by (simp add: and_1_eq_0_iff bit_and_iff)
qed

lemma page_fault_step:
  assumes run: "AllocatePage isKernel dmmOn c v s = (Inr Success, t)"
    and ok: "tables_ok c s" and wf: "mem_wf s"
  shows "tables_ok c t \<and> mem_wf t \<and> mapped c v t \<and>
    (\<forall>a. mapped c a s \<longrightarrow> mapped c a t \<and> GetFlatAddress c a t = GetFlatAddress c a s) \<and>
    (\<not> mapped c v s \<longrightarrow> (\<exists>p. allocatable s p \<and>
       GetFlatAddress c v t = push_bit 12 (word_of_nat p) + (v AND 0xFFF) \<and>
       (\<forall>a. drop_bit 12 a = (word_of_nat p :: u32) \<longrightarrow> phys t a = 0)))"
proof -
  let ?i = "pde_index v"
  show ?thesis
  proof (cases "pde c s ?i AND 1 = 0")
    case True
    then obtain p u where ip: "install_page (c + 4 * ?i) s = (Inr p, u)"
      and fin: "(let e = push_bit 12 (word_of_nat p) + 4 * pte_index v; page = phys u e in
          if page AND 1 = 0 then andThen (install_page e) (\<lambda>_. ret Success) u
          else if page AND 7 = 7 then (Inr Success, u) else (Inr Failure, u)) = (Inr Success, t)"
      using run by (auto simp: AllocatePage_user Let_def andThen_Inr_iff split: if_splits)
    note A = install_table[OF ok wf index_bound(1) True ip]
    let ?F = "push_bit 12 (word_of_nat p) :: u32"
    have tab: "pde c u ?i AND 0xFFFFF000 = ?F" using A(3) by simp
    have num: "drop_bit 12 (?F + 4 * pte_index v) = (word_of_nat p :: u32)"
      using entry_page[OF frame_offset index_bound(2)] frame_number[OF A(4)] by simp
    then have z: "phys u (?F + 4 * pte_index v) = 0" by (rule A(6))
    then have zp: "pte c u v AND 1 = 0" using tab by (simp add: pte_def)
    have pr: "pde c u ?i AND 1 \<noteq> 0" using A(3) by simp
    obtain q where iq: "install_page (?F + 4 * pte_index v) u = (Inr q, t)"
      using fin z by (auto simp: Let_def andThen_Inr_iff)
    note B = install_frame[OF A(1,2) pr zp iq[folded tab]]
    have nm: "\<not> mapped c v s" using True by (simp add: mapped_def)
    have "allocatable s q"
      using B(6) install_page_Inr[OF ip wf] unfolding allocatable_def by metis
    then show ?thesis using A B nm by metis
  next
    case False
    then have seven: "pde c s ?i AND 7 = 7"
      and fin: "(let e = (pde c s ?i AND 0xFFFFF000) + 4 * pte_index v; page = phys s e in
          if page AND 1 = 0 then andThen (install_page e) (\<lambda>_. ret Success) s
          else if page AND 7 = 7 then (Inr Success, s) else (Inr Failure, s)) = (Inr Success, t)"
      using run by (auto simp: AllocatePage_user Let_def split: if_splits)
    show ?thesis
    proof (cases "pte c s v AND 1 = 0")
      case True
      then obtain q where iq: "install_page ((pde c s ?i AND 0xFFFFF000) + 4 * pte_index v) s = (Inr q, t)"
        using fin by (auto simp: Let_def pte_def andThen_Inr_iff)
      have nm: "\<not> mapped c v s" using True by (simp add: mapped_def)
      then show ?thesis using install_frame[OF ok wf False True iq] by metis
    next
      case nz: False
      then have "t = s" using fin by (auto simp: Let_def pte_def split: if_splits)
      then show ?thesis using ok wf nz False by (simp add: mapped_def)
    qed
  qed
qed

section \<open>Kernel stack blocks\<close>

lemma find_free_block_Some:
  "find_free_block bs i n = Some k \<Longrightarrow> i \<le> k \<and> k < i + n \<and> \<not> bs ! k \<and> (\<forall>j. i \<le> j \<and> j < k \<longrightarrow> bs ! j)"
  by (induction bs i n rule: find_free_block.induct)
    (auto split: if_splits simp: less_Suc_eq_le, metis Suc_leI le_neq_implies_less)

lemma find_free_block_None:
  "find_free_block bs i n = None \<Longrightarrow> i \<le> j \<Longrightarrow> j < i + n \<Longrightarrow> bs ! j"
  by (induction bs i n rule: find_free_block.induct)
    (auto split: if_splits, metis Suc_leI le_neq_implies_less)

lemma entry3_frame: "((push_bit 12 w :: u32) OR 3) AND 0xFFFFF000 = push_bit 12 w"
proof -
  have three: "(3 :: u32) = mask 2" by (simp add: mask_eq_exp_minus_1)
  show ?thesis unfolding three word_masks by (intro bit_word_eqI) (auto simp: bit_simps)
qed

lemma entry3_page:
  assumes "p < 2 ^ 20"
  shows "unat ((((push_bit 12 (word_of_nat p) :: u32) OR 3) AND 0xFFFFF000) div PAGE_SIZE) = p"
proof -
  have "(push_bit 12 (word_of_nat p) :: u32) div PAGE_SIZE = drop_bit 12 (push_bit 12 (word_of_nat p))"
    by (simp add: PAGE_SIZE_def drop_bit_eq_div)
  then show ?thesis using frame_number[OF assms] assms by (simp add: entry3_frame unat_page)
qed

lemma page_maps_equal:
  assumes "length m = length n" "\<And>q. q < length m * 32 \<Longrightarrow> page_used m q \<longleftrightarrow> page_used n q"
  shows "m = n"
proof (rule nth_equalityI)
  fix k assume k: "k < length m"
  show "m ! k = n ! k"
  proof (rule bit_word_eqI)
    fix j assume "j < LENGTH(32)"
    then have "j < 32" by simp
    then show "bit (m ! k) j = bit (n ! k) j"
      using assms(2)[of "k * 32 + j"] k by (simp add: page_used_def)
  qed
qed (rule assms(1))

lemma stack_pte_inj: "stack_pte b i = stack_pte b j \<longleftrightarrow> i = j"
  by (simp add: stack_pte_def)

text \<open>Mapping \<open>n\<close> pages from index \<open>i\<close> of a block takes \<open>n\<close> distinct free pages.\<close>

definition maps_pages :: "nat \<Rightarrow> nat \<Rightarrow> nat list \<Rightarrow> mem_manager \<Rightarrow> mem_manager \<Rightarrow> bool" where
  "maps_pages b i ps s t \<longleftrightarrow>
     distinct ps \<and> (\<forall>p \<in> set ps. allocatable s p \<and> p < 2 ^ 20) \<and> mem_wf t \<and>
     length (m_uiPageMap t) = length (m_uiPageMap s) \<and>
     m_uiPageMapSize t = m_uiPageMapSize s \<and> m_uiResvSize t = m_uiResvSize s \<and>
     (\<forall>q. page_used (m_uiPageMap t) q \<longleftrightarrow> page_used (m_uiPageMap s) q \<or> q \<in> set ps) \<and>
     (\<forall>k < length ps. m_uiPTEBase t (stack_pte b (i + k)) = push_bit 12 (word_of_nat (ps ! k)) OR 3) \<and>
     m_bAllocationMapForKernelProcessStackBlock t = m_bAllocationMapForKernelProcessStackBlock s \<and>
     m_iNoOfKernelProcessStackBlocks t = m_iNoOfKernelProcessStackBlocks s"

lemma map_stack_pages_blocks:
  "map_stack_pages b i n s = (r, t) \<Longrightarrow>
     m_bAllocationMapForKernelProcessStackBlock t = m_bAllocationMapForKernelProcessStackBlock s"
proof (induction b i n arbitrary: s r t rule: map_stack_pages.induct)
  case (2 b i n)
  then show ?case
    by (auto simp: andThen_def AllocatePhysicalPage_def split: prod.splits sum.splits option.splits)
qed simp

lemma map_stack_pages_Inr:
  assumes "map_stack_pages b i n s = (Inr u, t)" "mem_wf s"
  shows "\<exists>ps. length ps = n \<and> maps_pages b i ps s t \<and>
    (\<forall>e. (\<forall>k < n. e \<noteq> stack_pte b (i + k)) \<longrightarrow> m_uiPTEBase t e = m_uiPTEBase s e)"
  using assms
proof (induction n arbitrary: i s)
  case 0
  then show ?case by (auto simp: maps_pages_def)
next
  case (Suc n)
  obtain p s1 where a: "AllocatePhysicalPage s = (Inr p, s1)"
    and rest: "map_stack_pages b (Suc i) n (s1\<lparr>m_uiPTEBase := (m_uiPTEBase s1)
        (stack_pte b i := push_bit 12 (word_of_nat p) OR 3)\<rparr>) = (Inr u, t)"
    using Suc.prems(1) by (auto simp: andThen_Inr_iff frame_push)
  let ?s2 = "s1\<lparr>m_uiPTEBase := (m_uiPTEBase s1)(stack_pte b i := push_bit 12 (word_of_nat p) OR 3)\<rparr>"
  note al = AllocatePhysicalPage_Inr[OF a Suc.prems(2)]
  note us = AllocatePhysicalPage_used[OF a Suc.prems(2)]
  have "mem_wf ?s2" using mem_wf_alloc[OF a Suc.prems(2)] by (simp add: mem_wf_def)
  then obtain ps where ps: "length ps = n" "maps_pages b (Suc i) ps ?s2 t"
    "\<And>e. (\<forall>k < n. e \<noteq> stack_pte b (Suc i + k)) \<Longrightarrow> m_uiPTEBase t e = m_uiPTEBase ?s2 e"
    using Suc.IH[OF rest] by blast
  have p: "p < 2 ^ 20" "p \<notin> set ps"
    using al Suc.prems(2) ps(2) us by (auto simp: allocatable_def mem_wf_def maps_pages_def)
  have pte0: "m_uiPTEBase t (stack_pte b i) = push_bit 12 (word_of_nat p) OR 3"
    using ps(3)[of "stack_pte b i"] by (auto simp: stack_pte_inj)
  note M = ps(2)[unfolded maps_pages_def]
  have s1: "s1 = s\<lparr>m_uiPageMap := set_page_bit (m_uiPageMap s) (p div 32) (p mod 32)\<rparr>" using al by simp
  have fresh: "allocatable s q \<and> q < 2 ^ 20" if "q \<in> set ps" for q
  proof -
    have "allocatable ?s2 q" "q < 2 ^ 20" using M that by auto
    then show ?thesis using us[of q] by (simp add: allocatable_def s1)
  qed
  have used: "page_used (m_uiPageMap t) q \<longleftrightarrow> page_used (m_uiPageMap s) q \<or> q \<in> set (p # ps)" for q
    using M us[of q] by auto
  have pte: "m_uiPTEBase t (stack_pte b (i + k)) = push_bit 12 (word_of_nat ((p # ps) ! k)) OR 3"
    if "k < length (p # ps)" for k
    using M pte0 that by (cases k) auto
  have frame: "mem_wf t" "length (m_uiPageMap t) = length (m_uiPageMap s)"
      "m_uiPageMapSize t = m_uiPageMapSize s" "m_uiResvSize t = m_uiResvSize s"
      "m_bAllocationMapForKernelProcessStackBlock t = m_bAllocationMapForKernelProcessStackBlock s"
      "m_iNoOfKernelProcessStackBlocks t = m_iNoOfKernelProcessStackBlocks s"
    using M by (simp_all add: s1)
  have new: "distinct (p # ps)" "\<And>q. q \<in> set (p # ps) \<Longrightarrow> allocatable s q" "\<And>q. q \<in> set (p # ps) \<Longrightarrow> q < 2 ^ 20"
    using p M fresh al by auto
  have "maps_pages b i (p # ps) s t"
    unfolding maps_pages_def
    by (intro conjI allI ballI impI; (erule new pte | rule frame used new(1)))
  moreover have "m_uiPTEBase t e = m_uiPTEBase s e" if "\<forall>k < Suc n. e \<noteq> stack_pte b (i + k)" for e
  proof -
    have "\<forall>k < n. e \<noteq> stack_pte b (Suc i + k)" using that by auto
    then have "m_uiPTEBase t e = m_uiPTEBase ?s2 e" by (rule ps(3))
    moreover have "e \<noteq> stack_pte b i" using that[rule_format, of 0] by simp
    ultimately show ?thesis by (simp add: s1)
  qed
  ultimately show ?case using ps(1) by (metis length_Cons)
qed

lemma free_stack_pages_run:
  assumes "\<And>k. k < length ps \<Longrightarrow> m_uiPTEBase s (stack_pte b (i + k)) = push_bit 12 (word_of_nat (ps ! k)) OR 3"
    and "\<And>p. p \<in> set ps \<Longrightarrow> p < 2 ^ 20 \<and> p < length (m_uiPageMap s) * 32"
  shows "\<exists>m. free_stack_pages b i (length ps) s = (Inr (), s\<lparr>m_uiPageMap := m\<rparr>) \<and>
    length m = length (m_uiPageMap s) \<and>
    (\<forall>q. page_used m q \<longleftrightarrow> page_used (m_uiPageMap s) q \<and> q \<notin> set ps)"
  using assms
proof (induction ps arbitrary: i s)
  case Nil
  have "s = s\<lparr>m_uiPageMap := m_uiPageMap s\<rparr>" by simp
  then show ?case by (auto intro!: exI[of _ "m_uiPageMap s"])
next
  case (Cons p ps)
  have p: "p < 2 ^ 20" "p div 32 < length (m_uiPageMap s)" using Cons.prems(2)[of p] by auto
  have e: "m_uiPTEBase s (stack_pte b i) = push_bit 12 (word_of_nat p) OR 3" using Cons.prems(1)[of 0] by simp
  let ?m = "clear_page_bit (m_uiPageMap s) (p div 32) (p mod 32)"
  let ?s = "s\<lparr>m_uiPageMap := ?m\<rparr>"
  have d: "DeAllocatePhysicalPage (unat (((m_uiPTEBase s (stack_pte b i)) AND 0xFFFFF000) div PAGE_SIZE)) s = (Inr (), ?s)"
    using p unfolding e by (simp add: entry3_page DeAllocatePhysicalPage_def)
  have "\<exists>m. free_stack_pages b (Suc i) (length ps) ?s = (Inr (), ?s\<lparr>m_uiPageMap := m\<rparr>) \<and>
    length m = length (m_uiPageMap ?s) \<and>
    (\<forall>q. page_used m q \<longleftrightarrow> page_used (m_uiPageMap ?s) q \<and> q \<notin> set ps)"
    by (intro Cons.IH) (use Cons.prems(1)[of "Suc _"] Cons.prems(2) in auto)
  then show ?case
    using p by (auto simp: andThen_def d page_used_clear)
qed

lemma AllocateKernelStack_Inr:
  assumes "AllocateKernelStack s = (Inr b, t)" "mem_wf s"
  obtains ps where "length ps = PROCESS_KERNEL_STACK_PAGES"
    "maps_pages b 0 ps (s\<lparr>m_bAllocationMapForKernelProcessStackBlock :=
        (m_bAllocationMapForKernelProcessStackBlock s)[b := True]\<rparr>) t"
    "b < m_iNoOfKernelProcessStackBlocks s"
    "\<not> m_bAllocationMapForKernelProcessStackBlock s ! b"
proof -
  let ?s = "s\<lparr>m_bAllocationMapForKernelProcessStackBlock :=
      (m_bAllocationMapForKernelProcessStackBlock s)[b := True]\<rparr>"
  have f: "find_free_block (m_bAllocationMapForKernelProcessStackBlock s) 0
             (m_iNoOfKernelProcessStackBlocks s) = Some b"
    and m: "map_stack_pages b 0 PROCESS_KERNEL_STACK_PAGES ?s = (Inr (), t)"
    using assms(1)
    by (auto simp: AllocateKernelStack_def andThen_Inr_iff GetFreeKernelProcessStackBlockID_def
        split: option.splits)
  have "mem_wf ?s" using assms(2) by (simp add: mem_wf_def)
  then show ?thesis using map_stack_pages_Inr[OF m] find_free_block_Some[OF f] that by auto
qed

end
