(* ===== verification/PageProperties.thy ===== *)
theory PageProperties
  imports PageMap
begin

text \<open>
  What the page manager promises. The two bitmaps, of physical pages and of the kernel's page pool,
  are two providers of one interface, the locale \<open>page_pool\<close>; what a client of either may rely on when it
  takes several pages is proved once. Then the page-fault handler and the kernel stacks.
\<close>

section \<open>Pools of pages\<close>

fun take_pages :: "('s, 'e, nat) comp \<Rightarrow> nat \<Rightarrow> ('s, 'e, nat list) comp" where
  "take_pages take_one 0 = ret []"
| "take_pages take_one (Suc n) =
     andThen take_one (\<lambda>p. andThen (take_pages take_one n) (\<lambda>ps. ret (p # ps)))"

locale page_pool =
  fixes take_one :: "('s, 'e, nat) comp"
    and give :: "nat \<Rightarrow> ('s, 'e, unit) comp"
    and free :: "'s \<Rightarrow> nat \<Rightarrow> bool"
    and wf :: "'s \<Rightarrow> bool"
  assumes take_free: "take_one s = (Inr p, t) \<Longrightarrow> wf s \<Longrightarrow>
      free s p \<and> wf t \<and> (\<forall>q. free t q \<longleftrightarrow> free s q \<and> q \<noteq> p)"
    and take_fails: "take_one s = (Inl e, t) \<Longrightarrow> wf s \<Longrightarrow> t = s \<and> (\<forall>p. \<not> free s p)"
    and give_back: "take_one s = (Inr p, t) \<Longrightarrow> wf s \<Longrightarrow> give p t = (Inr (), s)"
    and finite_free: "wf s \<Longrightarrow> finite {p. free s p}"
begin

lemma take_pages_Inr:
  assumes "take_pages take_one n s = (Inr ps, t)" "wf s"
  shows "length ps = n \<and> distinct ps \<and> (\<forall>p \<in> set ps. free s p) \<and> wf t \<and>
    (\<forall>q. free t q \<longleftrightarrow> free s q \<and> q \<notin> set ps)"
  using assms
proof (induction n arbitrary: s ps)
  case (Suc n)
  then obtain p s' qs where "take_one s = (Inr p, s')" "take_pages take_one n s' = (Inr qs, t)" "ps = p # qs"
    by (auto simp: andThen_Inr_iff)
  then show ?case using take_free[of s p s'] Suc.IH[of s' qs] Suc.prems(2) by auto
qed simp

lemma take_pages_defined_iff:
  assumes "wf s"
  shows "(\<exists>ps t. take_pages take_one n s = (Inr ps, t)) \<longleftrightarrow> n \<le> card {p. free s p}"
  using assms
proof (induction n arbitrary: s)
  case (Suc n)
  show ?case
  proof (cases "take_one s")
    case (Pair r s')
    show ?thesis
    proof (cases r)
      case (Inl e)
      then show ?thesis using take_fails Pair Suc.prems by (auto simp: andThen_def)
    next
      case (Inr p)
      then have f: "free s p" "wf s'" "{q. free s' q} = {q. free s q} - {p}"
        using take_free Pair Suc.prems by auto
      then have "card {q. free s q} = Suc (card {q. free s' q})"
        using finite_free[OF Suc.prems] by (metis card_Suc_Diff1 mem_Collect_eq)
      moreover have "(\<exists>ps t. take_pages take_one (Suc n) s = (Inr ps, t)) \<longleftrightarrow>
          (\<exists>ps t. take_pages take_one n s' = (Inr ps, t))"
        using Inr Pair by (auto simp: andThen_def split: prod.splits sum.splits)
      ultimately show ?thesis using Suc.IH[OF f(2)] by simp
    qed
  qed
qed simp

end

lemma finite_allocatable: "finite {p. allocatable s p}"
  by (rule finite_subset[of _ "{..< m_uiPageMapSize s * 32}"]) (auto simp: allocatable_def)

interpretation pp: page_pool AllocatePhysicalPage DeAllocatePhysicalPage allocatable mem_wf
proof (unfold_locales, goal_cases)
  case (1 s p t)
  then show ?case
    using AllocatePhysicalPage_Inr[OF 1] AllocatePhysicalPage_used[OF 1] mem_wf_alloc[OF 1]
    by (auto simp: allocatable_def)
next
  case (2 s e t)
  then show ?case using AllocatePhysicalPage_Inl by blast
next
  case (3 s p t)
  then show ?case by (rule alloc_dealloc_id)
qed (rule finite_allocatable)

text \<open>A page of the kernel's pool that may be handed out.\<close>

definition pool_free :: "mem_manager \<Rightarrow> nat \<Rightarrow> bool" where
  "pool_free s p \<longleftrightarrow> m_uiKernelPagePoolStartPage s \<le> p \<and>
     p < m_uiKernelPagePoolStartPage s + m_uiKernelPagePoolMapSize s * 32 \<and>
     \<not> page_used (m_uiKernelPagePoolMap s) (p - m_uiKernelPagePoolStartPage s)"

lemma AllocatePageForKernel_Inr:
  assumes "AllocatePageForKernel s = (Inr p, t)"
  obtains i off where "p = m_uiKernelPagePoolStartPage s + (i * 32 + off)" "off < 32"
    "i < m_uiKernelPagePoolMapSize s" "\<not> bit (m_uiKernelPagePoolMap s ! i) off"
    "t = s\<lparr>m_uiKernelPagePoolMap := set_page_bit (m_uiKernelPagePoolMap s) i off\<rparr>"
  using assms
  by (auto simp: AllocatePageForKernel_def algebra_simps split: option.splits dest!: scan_map_Some)

lemma AllocatePageForKernel_Inl:
  assumes "AllocatePageForKernel s = (Inl e, t)"
  shows "e = OutOfKernelPoolPages \<and> t = s \<and> (\<forall>p. \<not> pool_free s p)"
proof -
  have sc: "scan_map (m_uiKernelPagePoolMap s) 0 (m_uiKernelPagePoolMapSize s) = None"
    and r: "e = OutOfKernelPoolPages" "t = s"
    using assms by (auto simp: AllocatePageForKernel_def split: option.splits)
  have "page_used (m_uiKernelPagePoolMap s) k" if "k < m_uiKernelPagePoolMapSize s * 32" for k
    using scan_map_None[OF sc, of "k div 32"] that all_ones_iff[of "m_uiKernelPagePoolMap s ! (k div 32)"]
    by (auto simp: page_used_def)
  then show ?thesis using r by (auto simp: pool_free_def)
qed

lemma page_in_pool: "off < 32 \<Longrightarrow> (i * 32 + off) div 32 = i \<and> (i * 32 + off) mod 32 = (off :: nat)"
  by simp

lemma DeAllocatePageForKernel_page:
  assumes "mem_wf s" "i < m_uiKernelPagePoolMapSize s" "off < 32"
    and "\<not> bit (m_uiKernelPagePoolMap s ! i) off"
  shows "DeAllocatePageForKernel (m_uiKernelPagePoolStartPage s + (i * 32 + off))
           (s\<lparr>m_uiKernelPagePoolMap := set_page_bit (m_uiKernelPagePoolMap s) i off\<rparr>) = (Inr (), s)"
proof -
  define k where "k = i * 32 + off"
  have i: "i < length (m_uiKernelPagePoolMap s)" using assms by (auto simp: mem_wf_def)
  have "k < 2 ^ 32" using assms by (auto simp: mem_wf_def k_def)
  then have "unat (word_of_nat (m_uiKernelPagePoolStartPage s + k) -
      word_of_nat (m_uiKernelPagePoolStartPage s) :: u32) = k"
    by (simp add: unat_of_nat)
  moreover have "k div 32 = i" "k mod 32 = off" using page_in_pool[OF assms(3), of i] k_def by simp_all
  ultimately show ?thesis
    using assms i by (simp add: DeAllocatePageForKernel_def set_then_clear Let_def flip: k_def)
qed

interpretation kp: page_pool AllocatePageForKernel DeAllocatePageForKernel pool_free mem_wf
proof (unfold_locales, goal_cases)
  case (1 s p t)
  then obtain i off where r: "p = m_uiKernelPagePoolStartPage s + (i * 32 + off)" "off < 32"
    "i < m_uiKernelPagePoolMapSize s" "\<not> bit (m_uiKernelPagePoolMap s ! i) off"
    "t = s\<lparr>m_uiKernelPagePoolMap := set_page_bit (m_uiKernelPagePoolMap s) i off\<rparr>"
    using AllocatePageForKernel_Inr by metis
  moreover have "i < length (m_uiKernelPagePoolMap s)" using r 1 by (simp add: mem_wf_def)
  moreover have "page_used (m_uiKernelPagePoolMap s) (i * 32 + off) \<longleftrightarrow> bit (m_uiKernelPagePoolMap s ! i) off"
    using page_in_pool[OF r(2), of i] by (simp add: page_used_def)
  ultimately show ?case using 1(2) by (auto simp: pool_free_def page_used_set mem_wf_def)
next
  case (2 s e t)
  then show ?case using AllocatePageForKernel_Inl by blast
next
  case (3 s p t)
  then show ?case using AllocatePageForKernel_Inr DeAllocatePageForKernel_page by metis
next
  case (4 s)
  show ?case
    by (rule finite_subset[of _ "{..< m_uiKernelPagePoolStartPage s + m_uiKernelPagePoolMapSize s * 32}"])
      (auto simp: pool_free_def)
qed

lemma map_stack_pages_Inl:
  "map_stack_pages b i n s = (Inl e, t) \<Longrightarrow> \<not> allocatable t p"
proof (induction b i n arbitrary: s rule: map_stack_pages.induct)
  case (2 b i n)
  then show ?case using AllocatePhysicalPage_Inl by (fastforce simp: andThen_Inl_iff)
qed simp

text \<open>Whether the pages suffice does not depend on the page tables.\<close>

lemma AllocatePhysicalPage_PTE:
  "AllocatePhysicalPage (s\<lparr>m_uiPTEBase := f\<rparr>) = map_prod id (m_uiPTEBase_update (\<lambda>_. f)) (AllocatePhysicalPage s)"
  by (simp add: AllocatePhysicalPage_def split: option.split)

lemma map_stack_pages_take:
  "fst (map_stack_pages b i n (s\<lparr>m_uiPTEBase := f\<rparr>)) =
     map_sum id (\<lambda>_. ()) (fst (take_pages AllocatePhysicalPage n s))"
proof (induction n arbitrary: i s f)
  case (Suc n)
  show ?case
    by (cases "AllocatePhysicalPage s")
      (auto simp: andThen_def AllocatePhysicalPage_PTE Suc split: sum.splits prod.splits
        intro: sym dest!: arg_cong[where f = fst])
qed simp

lemma AllocateKernelStack_take:
  assumes "find_free_block (m_bAllocationMapForKernelProcessStackBlock s) 0
             (m_iNoOfKernelProcessStackBlocks s) = Some b"
  shows "fst (AllocateKernelStack s) = map_sum id (\<lambda>_. b) (fst (take_pages AllocatePhysicalPage
     PROCESS_KERNEL_STACK_PAGES (s\<lparr>m_bAllocationMapForKernelProcessStackBlock :=
        (m_bAllocationMapForKernelProcessStackBlock s)[b := True]\<rparr>)))"
proof -
  let ?s = "s\<lparr>m_bAllocationMapForKernelProcessStackBlock :=
        (m_bAllocationMapForKernelProcessStackBlock s)[b := True]\<rparr>"
  have "fst (map_stack_pages b 0 PROCESS_KERNEL_STACK_PAGES ?s) =
      map_sum id (\<lambda>_. ()) (fst (take_pages AllocatePhysicalPage PROCESS_KERNEL_STACK_PAGES ?s))"
    using map_stack_pages_take[of b 0 PROCESS_KERNEL_STACK_PAGES "m_uiPTEBase ?s" ?s] by simp
  then show ?thesis
    using assms
    by (cases "map_stack_pages b 0 PROCESS_KERNEL_STACK_PAGES ?s";
        cases "fst (take_pages AllocatePhysicalPage PROCESS_KERNEL_STACK_PAGES ?s)")
      (auto simp: AllocateKernelStack_def GetFreeKernelProcessStackBlockID_def andThen_def)
qed

section \<open>Properties\<close>

text \<open>A machine with two words of page map, the first of them the kernel's own, for the examples.\<close>

definition demo_mem :: mem_manager where
  "demo_mem = \<lparr>m_uiNoOfPages = 64, m_uiNoOfResvPages = 32, m_uiPageMap = [0xFFFFFFFF, 0x1F],
     m_uiPageMapSize = 2, m_uiResvSize = 1, m_uiKernelHeapSize = 0,
     m_uiKernelPagePoolMap = [0x3], m_uiKernelPagePoolMapSize = 1,
     m_uiKernelPagePoolStartPage = 1000, m_uiPDEBase = (\<lambda>_. 0), m_uiPTEBase = (\<lambda>_. 0),
     m_iNoOfKernelProcessStackBlocks = 2,
     m_bAllocationMapForKernelProcessStackBlock = [True, False], phys = (\<lambda>_. 0)\<rparr>"

lemma demo_mem_wf: "mem_wf demo_mem" "mem_wf (demo_mem\<lparr>m_uiPageMap := [0xFFFFFFFF, x]\<rparr>)"
  by (simp_all add: demo_mem_def mem_wf_def)

text \<open>C24: \<open>AllocatePhysicalPage\<close> returns the lowest page that is free and not reserved, and
  marks that page and no other; it throws, changing nothing, exactly when no page is left.\<close>

theorem AllocatePhysicalPage_lowest_free:
  assumes "mem_wf s"
  shows "case AllocatePhysicalPage s of
      (Inr p, t) \<Rightarrow> allocatable s p \<and> (\<forall>q < p. \<not> allocatable s q) \<and>
        (\<forall>q. page_used (m_uiPageMap t) q \<longleftrightarrow> page_used (m_uiPageMap s) q \<or> q = p) \<and> mem_wf t
    | (Inl e, t) \<Rightarrow> e = OutOfMemoryPages \<and> t = s \<and> (\<forall>p. \<not> allocatable s p)"
proof (cases "AllocatePhysicalPage s")
  case (Pair r t)
  show ?thesis
  proof (cases r)
    case (Inl e)
    then show ?thesis using Pair AllocatePhysicalPage_Inl[of s e t] by simp
  next
    case (Inr p)
    then show ?thesis
      using Pair AllocatePhysicalPage_Inr[of s p t] AllocatePhysicalPage_used[of s p t] mem_wf_alloc[of s _ t] assms
      by auto
  qed
qed

theorem AllocatePhysicalPage_lowest_free_witness:
  "allocatable demo_mem 37 \<and> \<not> allocatable demo_mem 36"
proof -
  have "fst (AllocatePhysicalPage demo_mem) = Inr 37" by code_simp
  then obtain t where "AllocatePhysicalPage demo_mem = (Inr 37, t)" by (cases "AllocatePhysicalPage demo_mem") auto
  then show ?thesis using AllocatePhysicalPage_lowest_free[OF demo_mem_wf(1)] by simp
qed

text \<open>C27: The kernel's page pool never hands out a page twice: taking \<open>n\<close> pages succeeds exactly when
  \<open>n\<close> pages of the pool are free, and gives \<open>n\<close> different free pages.\<close>

theorem kernel_page_pool_accounts:
  assumes "mem_wf s"
  shows "((\<exists>ps t. take_pages AllocatePageForKernel n s = (Inr ps, t)) \<longleftrightarrow> n \<le> card {p. pool_free s p}) \<and>
    (\<forall>ps t. take_pages AllocatePageForKernel n s = (Inr ps, t) \<longrightarrow>
      length ps = n \<and> distinct ps \<and> (\<forall>p \<in> set ps. pool_free s p \<and> \<not> pool_free t p))"
  using kp.take_pages_defined_iff[OF assms] kp.take_pages_Inr[OF _ assms] by auto

theorem kernel_page_pool_accounts_witness:
  "distinct [1002, 1003, 1004 :: nat] \<and> pool_free demo_mem 1002 \<and> pool_free demo_mem 1003 \<and> pool_free demo_mem 1004"
proof -
  have "fst (take_pages AllocatePageForKernel 3 demo_mem) = Inr [1002, 1003, 1004]" by code_simp
  then obtain t where "take_pages AllocatePageForKernel 3 demo_mem = (Inr [1002, 1003, 1004], t)"
    by (cases "take_pages AllocatePageForKernel 3 demo_mem") auto
  then have "\<forall>p \<in> set [1002, 1003, 1004]. pool_free demo_mem p" "distinct [1002, 1003, 1004 :: nat]"
    using kernel_page_pool_accounts[OF demo_mem_wf(1), of 3] by blast+
  then show ?thesis by simp
qed

text \<open>C22: A page fault that \<open>AllocatePage\<close> answers with success leaves the faulting address
  translated; when it was not translated before, it is now backed by a page that was free and is
  all zero. Every address the process could already reach keeps its translation, and the page tables
  stay disjoint.\<close>

theorem page_fault_maps_page:
  assumes "AllocatePage isKernel dmmOn c v s = (Inr Success, t)" "tables_ok c s" "mem_wf s"
  shows "tables_ok c t \<and> mapped c v t \<and>
    (\<forall>a. mapped c a s \<longrightarrow> mapped c a t \<and> GetFlatAddress c a t = GetFlatAddress c a s) \<and>
    (\<not> mapped c v s \<longrightarrow> (\<exists>p. allocatable s p \<and>
       GetFlatAddress c v t = push_bit 12 (word_of_nat p) + (v AND 0xFFF) \<and>
       (\<forall>a. drop_bit 12 a = (word_of_nat p :: u32) \<longrightarrow> phys t a = 0)))"
  using page_fault_step[OF assms] by blast

theorem page_fault_maps_page_witness:
  "mapped 0x24000 0x80000000 (snd (AllocatePage False True 0x24000 0x80000000 demo_mem)) \<and>
   (\<exists>p. allocatable demo_mem p \<and>
      GetFlatAddress 0x24000 0x80000000 (snd (AllocatePage False True 0x24000 0x80000000 demo_mem)) =
        push_bit 12 (word_of_nat p) + (0x80000000 AND 0xFFF))"
proof -
  have "fst (AllocatePage False True 0x24000 0x80000000 demo_mem) = Inr Success" by code_simp
  then obtain t where t: "AllocatePage False True 0x24000 0x80000000 demo_mem = (Inr Success, t)"
    by (cases "AllocatePage False True 0x24000 0x80000000 demo_mem") auto
  have "page_used (m_uiPageMap demo_mem) 36" by code_simp
  then have "tables_ok 0x24000 demo_mem"
    by (simp add: tables_ok_def pde_def) (simp add: demo_mem_def)
  moreover have "\<not> mapped 0x24000 0x80000000 demo_mem"
    by (simp add: mapped_def pde_def) (simp add: demo_mem_def)
  ultimately show ?thesis using page_fault_maps_page[OF t _ demo_mem_wf(1)] t by fastforce
qed

text \<open>A fault in the area of the user stack is never served, whatever the flags: the guard that
  should let it pass is a disjunction that is always true, so a process cannot grow its stack.\<close>

theorem stack_fault_refused:
  assumes "pde_index v = PROCESS_STACK_PDE_ID"
  shows "AllocatePage False dmmOn c v s = (Inr Failure, s)"
  using assms by (simp add: AllocatePage_user)

text \<open>Giving back a kernel stack undoes its allocation: the page map and the map of stack blocks
  are what they were.\<close>

theorem kernel_stack_round_trip:
  assumes "AllocateKernelStack s = (Inr b, t)" "mem_wf s"
    and "m_iNoOfKernelProcessStackBlocks s \<le> length (m_bAllocationMapForKernelProcessStackBlock s)"
  shows "\<exists>u. DeAllocateKernelStack (int b) t = (Inr (), u) \<and> m_uiPageMap u = m_uiPageMap s \<and>
    m_bAllocationMapForKernelProcessStackBlock u = m_bAllocationMapForKernelProcessStackBlock s"
proof -
  obtain ps where ps: "length ps = PROCESS_KERNEL_STACK_PAGES"
    and M: "maps_pages b 0 ps (s\<lparr>m_bAllocationMapForKernelProcessStackBlock :=
        (m_bAllocationMapForKernelProcessStackBlock s)[b := True]\<rparr>) t"
    and b: "b < m_iNoOfKernelProcessStackBlocks s" "\<not> m_bAllocationMapForKernelProcessStackBlock s ! b"
    using AllocateKernelStack_Inr[OF assms(1,2)] by blast
  have bound: "p < 2 ^ 20 \<and> p < length (m_uiPageMap t) * 32" if "p \<in> set ps" for p
  proof -
    have "p < 2 ^ 20" "p < m_uiPageMapSize s * 32" "length (m_uiPageMap t) = length (m_uiPageMap s)"
      using M that by (auto simp: maps_pages_def allocatable_def)
    then show ?thesis using assms(2) by (auto simp: mem_wf_def)
  qed
  have pte: "m_uiPTEBase t (stack_pte b (0 + k)) = push_bit 12 (word_of_nat (ps ! k)) OR 3"
    if "k < length ps" for k
    using M that by (simp add: maps_pages_def)
  obtain m where m: "free_stack_pages b 0 (length ps) t = (Inr (), t\<lparr>m_uiPageMap := m\<rparr>)"
    "length m = length (m_uiPageMap t)" "\<And>q. page_used m q \<longleftrightarrow> page_used (m_uiPageMap t) q \<and> q \<notin> set ps"
    using free_stack_pages_run[OF pte bound] by blast
  have "m = m_uiPageMap s"
    using M m(2,3) by (intro page_maps_equal) (auto simp: maps_pages_def allocatable_def)
  moreover have "(m_bAllocationMapForKernelProcessStackBlock s)[b := False] =
      m_bAllocationMapForKernelProcessStackBlock s"
    using b assms(3) by (metis (full_types) list_update_id)
  ultimately show ?thesis
    using m(1) M b(1) by (simp add: DeAllocateKernelStack_def andThen_def maps_pages_def flip: ps)
qed

text \<open>When the pages run out while a kernel stack is being built, nothing is given back: the
  stack block stays taken although no stack was returned, and not a single page is left.\<close>

theorem kernel_stack_leak:
  assumes "AllocateKernelStack s = (Inl OutOfMemoryPages, t)" "mem_wf s"
  shows "\<exists>b. \<not> m_bAllocationMapForKernelProcessStackBlock s ! b \<and>
    m_bAllocationMapForKernelProcessStackBlock t =
      (m_bAllocationMapForKernelProcessStackBlock s)[b := True] \<and> (\<forall>p. \<not> allocatable t p)"
proof -
  obtain b where f: "find_free_block (m_bAllocationMapForKernelProcessStackBlock s) 0
             (m_iNoOfKernelProcessStackBlocks s) = Some b"
    and m: "map_stack_pages b 0 PROCESS_KERNEL_STACK_PAGES (s\<lparr>m_bAllocationMapForKernelProcessStackBlock :=
      (m_bAllocationMapForKernelProcessStackBlock s)[b := True]\<rparr>) = (Inl OutOfMemoryPages, t)"
    using assms(1)
    by (auto simp: AllocateKernelStack_def andThen_Inl_iff GetFreeKernelProcessStackBlockID_def
        split: option.splits)
  have "\<not> allocatable t p" for p
    using map_stack_pages_Inl[OF m] by (simp add: mem_wf_def)
  then show ?thesis using map_stack_pages_blocks[OF m] find_free_block_Some[OF f] by auto
qed

end
