(* ===== verification/KernelHeap.thy ===== *)
theory KernelHeap
  imports Prelude
begin

text \<open>
  The dynamic memory manager \<open>memory/DMM.cpp\<close>: the free-list allocator of the kernel heap and of the
  heap of user processes.

  Memory is a function from 32-bit addresses to bytes and every field of a tracker
  \<open>AllocationUnitTracker\<close> is read and written through it, in the order of the code: block sizes are
  arbitrary, so trackers are unaligned and the tracker of an aligned block may overlap the one it
  was carved from. A walk of the free list is a \<open>partial_function\<close>: \<open>None\<close> says that it does not end.
\<close>

section \<open>Memory\<close>

type_synonym bytes = "u32 \<Rightarrow> u8"

definition rd32 :: "bytes \<Rightarrow> u32 \<Rightarrow> u32" where
  "rd32 m a = ucast (m a) OR push_bit 8 (ucast (m (a + 1))) OR push_bit 16 (ucast (m (a + 2)))
     OR push_bit 24 (ucast (m (a + 3)))"

definition wr32 :: "u32 \<Rightarrow> u32 \<Rightarrow> bytes \<Rightarrow> bytes" where
  "wr32 a v m = m(a := ucast v, a + 1 := ucast (drop_bit 8 v), a + 2 := ucast (drop_bit 16 v),
     a + 3 := ucast (drop_bit 24 v))"

lemma rd32_wr32_same [simp]: "rd32 (wr32 a v m) a = v"
proof -
  have "rd32 (wr32 a v m) a = ucast (ucast v :: u8) OR push_bit 8 (ucast (ucast (drop_bit 8 v) :: u8))
      OR push_bit 16 (ucast (ucast (drop_bit 16 v) :: u8)) OR push_bit 24 (ucast (ucast (drop_bit 24 v) :: u8))"
    by (simp add: rd32_def wr32_def)
  also have "\<dots> = v"
  proof (rule bit_word_eqI)
    fix n assume "n < LENGTH(32)"
    then consider "n < 8" | "8 \<le> n" "n < 16" | "16 \<le> n" "n < 24" | "24 \<le> n" "n < 32" by fastforce
    then show "bit (ucast (ucast v :: u8) OR push_bit 8 (ucast (ucast (drop_bit 8 v) :: u8))
      OR push_bit 16 (ucast (ucast (drop_bit 16 v) :: u8))
      OR push_bit 24 (ucast (ucast (drop_bit 24 v) :: u8)) :: u32) n = bit v n"
      by cases (auto simp: bit_simps)
  qed
  finally show ?thesis .
qed

definition far4 :: "u32 \<Rightarrow> u32 \<Rightarrow> bool" where
  "far4 a b \<longleftrightarrow> 4 \<le> b - a \<and> 4 \<le> a - b"

lemma rd32_wr32_far:
  assumes "far4 a b"
  shows "rd32 (wr32 a v m) b = rd32 m b"
proof -
  have "a + i \<noteq> b + j" if "i < 4" "j < 4" for i j :: u32
  proof
    assume "a + i = b + j"
    then have "b - a = i - j" "a - b = j - i" by (simp_all add: algebra_simps)
    moreover have "i - j < 4 \<or> j - i < 4" using that by unat_arith
    ultimately show False using assms by (auto simp: far4_def)
  qed
  note ne = this[of 0 0] this[of 0 1] this[of 0 2] this[of 0 3] this[of 1 0] this[of 1 1] this[of 1 2]
    this[of 1 3] this[of 2 0] this[of 2 1] this[of 2 2] this[of 2 3] this[of 3 0] this[of 3 1]
    this[of 3 2] this[of 3 3]
  show ?thesis using ne by (simp add: rd32_def wr32_def)
qed

section \<open>Allocation unit trackers\<close>

text \<open>The packed struct's fields lie at offsets 0, 4, 8, 12 and 16; the last is a union.\<close>

definition sizeof_AUT :: u32 where "sizeof_AUT = 20"

definition uiAllocatedAddress :: "bytes \<Rightarrow> u32 \<Rightarrow> u32" where "uiAllocatedAddress m p = rd32 m p"
definition uiReturnAddress :: "bytes \<Rightarrow> u32 \<Rightarrow> u32" where "uiReturnAddress m p = rd32 m (p + 4)"
definition uiSize :: "bytes \<Rightarrow> u32 \<Rightarrow> u32" where "uiSize m p = rd32 m (p + 8)"
definition uiCheckSum :: "bytes \<Rightarrow> u32 \<Rightarrow> u32" where "uiCheckSum m p = rd32 m (p + 12)"
definition uiNextAUTAddress :: "bytes \<Rightarrow> u32 \<Rightarrow> u32" where "uiNextAUTAddress m p = rd32 m (p + 16)"
definition uiByteStuffForAlign :: "bytes \<Rightarrow> u32 \<Rightarrow> u32" where
  "uiByteStuffForAlign m p = uiNextAUTAddress m p"

definition set_uiAllocatedAddress :: "u32 \<Rightarrow> u32 \<Rightarrow> bytes \<Rightarrow> bytes" where
  "set_uiAllocatedAddress p v = wr32 p v"
definition set_uiReturnAddress :: "u32 \<Rightarrow> u32 \<Rightarrow> bytes \<Rightarrow> bytes" where
  "set_uiReturnAddress p v = wr32 (p + 4) v"
definition set_uiSize :: "u32 \<Rightarrow> u32 \<Rightarrow> bytes \<Rightarrow> bytes" where "set_uiSize p v = wr32 (p + 8) v"
definition set_uiCheckSum :: "u32 \<Rightarrow> u32 \<Rightarrow> bytes \<Rightarrow> bytes" where "set_uiCheckSum p v = wr32 (p + 12) v"
definition set_uiNextAUTAddress :: "u32 \<Rightarrow> u32 \<Rightarrow> bytes \<Rightarrow> bytes" where
  "set_uiNextAUTAddress p v = wr32 (p + 16) v"

definition calculateCheckSum :: "bytes \<Rightarrow> u32 \<Rightarrow> u32" where
  "calculateCheckSum m p =
     uiAllocatedAddress m p XOR uiSize m p XOR uiReturnAddress m p XOR uiNextAUTAddress m p"

definition updateCheckSum :: "u32 \<Rightarrow> bytes \<Rightarrow> bytes" where
  "updateCheckSum p m = set_uiCheckSum p (calculateCheckSum m p) m"

text \<open>Trackers whose structs do not overlap.\<close>

definition far :: "u32 \<Rightarrow> u32 \<Rightarrow> bool" where
  "far p q \<longleftrightarrow> 20 \<le> q - p \<and> 20 \<le> p - q"

lemma far_sym: "far p q \<longleftrightarrow> far q p"
  by (auto simp: far_def)

lemma uint_neg:
  fixes d :: u32
  assumes "uint d \<noteq> 0"
  shows "uint (- d) = 2 ^ 32 - uint d"
proof -
  have "uint d mod 2 ^ 32 = uint d" using uint_lt2p[of d] by (intro mod_pos_pos_trivial) auto
  then show ?thesis using assms by (simp add: uint_word_ariths zmod_zminus1_eq_if)
qed

lemma far_shift:
  assumes "20 \<le> d" "20 \<le> - d" "i \<le> 16" "(j :: u32) \<le> 16"
  shows "4 \<le> d + j - i"
proof -
  have "uint d \<noteq> 0" using assms(1) by (auto simp: uint_0_iff)
  then have "uint (- d) = 2 ^ 32 - uint d" by (rule uint_neg)
  then have d: "20 \<le> uint d" "uint d \<le> 2 ^ 32 - 20" using assms(1,2) by (simp_all add: word_le_def)
  have ij: "uint i \<le> 16" "uint j \<le> 16" using assms(3,4) by (simp_all add: word_le_def)
  have nn: "0 \<le> uint i" "0 \<le> uint j" by simp_all
  have "uint (d + j - i) = (uint d + uint j - uint i) mod 2 ^ 32" by (simp add: uint_word_ariths mod_simps)
  also have "\<dots> = uint d + uint j - uint i"
    using d ij nn by (intro mod_pos_pos_trivial) linarith+
  finally have "4 \<le> uint (d + j - i)" using d ij nn by linarith
  then show ?thesis by (simp add: word_le_def)
qed

lemma far_fields:
  assumes "far p q" "i \<le> 16" "j \<le> 16"
  shows "far4 (p + i) (q + j)"
proof -
  have "(q + j) - (p + i) = (q - p) + j - i" "(p + i) - (q + j) = (p - q) + i - j"
    by (simp_all add: algebra_simps)
  moreover have "4 \<le> (q - p) + j - i"
    using far_shift[of "q - p" i j] assms by (simp add: far_def)
  moreover have "4 \<le> (p - q) + i - j"
    using far_shift[of "p - q" j i] assms by (simp add: far_def)
  ultimately show ?thesis unfolding far4_def by (simp only:)
qed

lemmas getters = uiAllocatedAddress_def uiReturnAddress_def uiSize_def uiCheckSum_def
  uiNextAUTAddress_def uiByteStuffForAlign_def
lemmas setters = set_uiAllocatedAddress_def set_uiReturnAddress_def set_uiSize_def
  set_uiCheckSum_def set_uiNextAUTAddress_def

lemma same_struct_fields:
  "far4 (p :: u32) (p + 4)" "far4 p (p + 8)" "far4 p (p + 12)" "far4 p (p + 16)"
  "far4 (p + 4) p" "far4 (p + 4) (p + 8)" "far4 (p + 4) (p + 12)" "far4 (p + 4) (p + 16)"
  "far4 (p + 8) p" "far4 (p + 8) (p + 4)" "far4 (p + 8) (p + 12)" "far4 (p + 8) (p + 16)"
  "far4 (p + 12) p" "far4 (p + 12) (p + 4)" "far4 (p + 12) (p + 8)" "far4 (p + 12) (p + 16)"
  "far4 (p + 16) p" "far4 (p + 16) (p + 4)" "far4 (p + 16) (p + 8)" "far4 (p + 16) (p + 12)"
  by (simp_all add: far4_def)

lemma get_set_same [simp]:
  "uiAllocatedAddress (set_uiAllocatedAddress p v m) p = v"
  "uiAllocatedAddress (set_uiReturnAddress p v m) p = uiAllocatedAddress m p"
  "uiAllocatedAddress (set_uiSize p v m) p = uiAllocatedAddress m p"
  "uiAllocatedAddress (set_uiCheckSum p v m) p = uiAllocatedAddress m p"
  "uiAllocatedAddress (set_uiNextAUTAddress p v m) p = uiAllocatedAddress m p"
  "uiReturnAddress (set_uiAllocatedAddress p v m) p = uiReturnAddress m p"
  "uiReturnAddress (set_uiReturnAddress p v m) p = v"
  "uiReturnAddress (set_uiSize p v m) p = uiReturnAddress m p"
  "uiReturnAddress (set_uiCheckSum p v m) p = uiReturnAddress m p"
  "uiReturnAddress (set_uiNextAUTAddress p v m) p = uiReturnAddress m p"
  "uiSize (set_uiAllocatedAddress p v m) p = uiSize m p"
  "uiSize (set_uiReturnAddress p v m) p = uiSize m p"
  "uiSize (set_uiSize p v m) p = v"
  "uiSize (set_uiCheckSum p v m) p = uiSize m p"
  "uiSize (set_uiNextAUTAddress p v m) p = uiSize m p"
  "uiCheckSum (set_uiCheckSum p v m) p = v"
  "uiNextAUTAddress (set_uiAllocatedAddress p v m) p = uiNextAUTAddress m p"
  "uiNextAUTAddress (set_uiReturnAddress p v m) p = uiNextAUTAddress m p"
  "uiNextAUTAddress (set_uiSize p v m) p = uiNextAUTAddress m p"
  "uiNextAUTAddress (set_uiCheckSum p v m) p = uiNextAUTAddress m p"
  "uiNextAUTAddress (set_uiNextAUTAddress p v m) p = v"
  by (simp_all add: getters setters rd32_wr32_far same_struct_fields)

text \<open>The five fields of a tracker as one value, to state what writes elsewhere leave alone.\<close>

definition aut_fields :: "bytes \<Rightarrow> u32 \<Rightarrow> u32 list" where
  "aut_fields m p = [uiAllocatedAddress m p, uiReturnAddress m p, uiSize m p, uiCheckSum m p, uiNextAUTAddress m p]"

lemma fields_wr32_far:
  assumes "far p q" "i \<le> 16"
  shows "aut_fields (wr32 (p + i) v m) q = aut_fields m q"
  using far_fields[OF assms, of 0] far_fields[OF assms, of 4] far_fields[OF assms, of 8]
    far_fields[OF assms, of 12] far_fields[OF assms, of 16]
  by (simp add: aut_fields_def getters rd32_wr32_far)

lemma fields_set_far [simp]:
  assumes "far p q"
  shows "aut_fields (set_uiAllocatedAddress p v m) q = aut_fields m q"
    "aut_fields (set_uiReturnAddress p v m) q = aut_fields m q"
    "aut_fields (set_uiSize p v m) q = aut_fields m q"
    "aut_fields (set_uiCheckSum p v m) q = aut_fields m q"
    "aut_fields (set_uiNextAUTAddress p v m) q = aut_fields m q"
    "aut_fields (updateCheckSum p m) q = aut_fields m q"
  using fields_wr32_far[OF assms, of 0] fields_wr32_far[OF assms, of 4] fields_wr32_far[OF assms, of 8]
    fields_wr32_far[OF assms, of 12] fields_wr32_far[OF assms, of 16]
  by (simp_all add: setters updateCheckSum_def)

lemma fields_eqD:
  assumes "aut_fields m p = aut_fields n p"
  shows "uiAllocatedAddress m p = uiAllocatedAddress n p" "uiReturnAddress m p = uiReturnAddress n p"
    "uiSize m p = uiSize n p" "uiCheckSum m p = uiCheckSum n p"
    "uiNextAUTAddress m p = uiNextAUTAddress n p" "calculateCheckSum m p = calculateCheckSum n p"
  using assms by (simp_all add: aut_fields_def calculateCheckSum_def)

section \<open>The kernel heap's operations\<close>

record kheap =
  mem :: bytes
  uiAUTAddress :: u32       \<comment> \<open>\<open>GetKernelAUTAddress()\<close>: the first free block, or 0\<close>
  uiHeapStartAddress :: u32 \<comment> \<open>\<open>GetKernelHeapStartAddr()\<close>\<close>
  dmm_alloc_count :: u32

datatype dmm_error = BadAlign | HeapCorrupted | OutOfMemory | BadAddressDealloc | DoubleDelete

datatype dmm_status = DMM_SUCCESS | DMM_BAD_DEALLOC | DMM_FAILURE

definition MEM_KERNEL_HEAP_SIZE :: u32 where "MEM_KERNEL_HEAP_SIZE = 0x3000000"

definition DMM_GetByteStuffForAlign :: "u32 \<Rightarrow> u32 \<Rightarrow> u32" where
  "DMM_GetByteStuffForAlign uiAddress uiAlignNumber =
     (if uiAlignNumber \<noteq> 0
      then let uiAlignMod = uiAddress mod uiAlignNumber
           in if uiAlignMod \<noteq> 0 then uiAlignNumber - uiAlignMod else 0
      else 0)"

definition IsPowerOfTwo :: "u32 \<Rightarrow> bool" where
  "IsPowerOfTwo n \<longleftrightarrow> n AND (n - 1) = 0"

definition DMM_CheckAlignNumber :: "u32 \<Rightarrow> bool" where
  "DMM_CheckAlignNumber uiAlignNumber \<longleftrightarrow> uiAlignNumber = 0 \<or> IsPowerOfTwo uiAlignNumber"

text \<open>The first use of the heap makes the whole of it one free block.\<close>

definition init_heap :: "kheap \<Rightarrow> kheap" where
  "init_heap s =
     (if uiAUTAddress s = 0
      then let p = uiHeapStartAddress s
           in s\<lparr>mem := updateCheckSum p (set_uiNextAUTAddress p 0 (set_uiReturnAddress p 0
                  (set_uiSize p MEM_KERNEL_HEAP_SIZE (set_uiAllocatedAddress p p (mem s))))),
                uiAUTAddress := p\<rparr>
      else s)"

definition link_prev :: "u32 \<Rightarrow> u32 \<Rightarrow> kheap \<Rightarrow> kheap" where
  "link_prev prevAut next s =
     (if prevAut = 0 then s\<lparr>uiAUTAddress := next\<rparr>
      else s\<lparr>mem := set_uiNextAUTAddress prevAut next (mem s)\<rparr>)"

text \<open>Carving \<open>size\<close> bytes from the free block at \<open>uiAddress\<close>; the rest becomes a free block again
  if it is large enough.\<close>

definition carve :: "u32 \<Rightarrow> u32 \<Rightarrow> u32 \<Rightarrow> u32 \<Rightarrow> u32 \<Rightarrow> u32 \<Rightarrow> kheap \<Rightarrow> u32 \<times> kheap" where
  "carve prevAut uiAddress uiMaxSize uiNext stuff sz s =
     (let allocAUT = uiAddress + stuff;
          s1 = s\<lparr>mem := set_uiNextAUTAddress allocAUT stuff (set_uiSize allocAUT sz
                 (set_uiReturnAddress allocAUT (uiAddress + sizeof_AUT + stuff)
                 (set_uiAllocatedAddress allocAUT uiAddress (mem s))))\<rparr>;
          uiRemaining = uiMaxSize - sz;
          s2 = (if uiRemaining > sizeof_AUT + 1
                then let freeAUT = uiAddress + sz;
                         m = set_uiNextAUTAddress freeAUT uiNext (set_uiSize freeAUT uiRemaining
                              (set_uiReturnAddress freeAUT 0
                              (set_uiAllocatedAddress freeAUT freeAUT (mem s1))));
                         t = link_prev prevAut (uiAllocatedAddress m freeAUT) (s1\<lparr>mem := m\<rparr>)
                     in t\<lparr>mem := updateCheckSum freeAUT (mem t)\<rparr>
                else link_prev prevAut uiNext
                       (s1\<lparr>mem := set_uiSize allocAUT (uiSize (mem s1) allocAUT + uiRemaining) (mem s1)\<rparr>));
          s3 = (if prevAut \<noteq> 0 then s2\<lparr>mem := updateCheckSum prevAut (mem s2)\<rparr> else s2);
          s4 = s3\<lparr>mem := updateCheckSum allocAUT (mem s3)\<rparr>
      in (uiReturnAddress (mem s4) allocAUT, s4))"

partial_function (option) alloc_walk ::
    "u32 \<Rightarrow> u32 \<Rightarrow> u32 \<Rightarrow> u32 \<Rightarrow> kheap \<Rightarrow> ((dmm_error + u32) \<times> kheap) option" where
  "alloc_walk uiSizeInBytes uiAlignNumber aut prevAut s =
     (if aut \<noteq> 0
      then let uiAddress = uiAllocatedAddress (mem s) aut;
               uiMaxSize = uiSize (mem s) aut;
               uiNext = uiNextAUTAddress (mem s) aut;
               stuff = DMM_GetByteStuffForAlign (uiAddress + sizeof_AUT) uiAlignNumber;
               sz = uiSizeInBytes + sizeof_AUT + stuff
           in if calculateCheckSum (mem s) aut \<noteq> uiCheckSum (mem s) aut then Some (Inl HeapCorrupted, s)
              else if sz \<le> uiMaxSize
                   then Some (case carve prevAut uiAddress uiMaxSize uiNext stuff sz s of (r, t) \<Rightarrow> (Inr r, t))
                   else alloc_walk uiSizeInBytes uiAlignNumber uiNext aut s
      else Some (Inl OutOfMemory, s))"

definition DMM_AllocateForKernel :: "u32 \<Rightarrow> u32 \<Rightarrow> kheap \<Rightarrow> ((dmm_error + u32) \<times> kheap) option" where
  "DMM_AllocateForKernel uiSizeInBytes uiAlignNumber s =
     (let s0 = s\<lparr>dmm_alloc_count := dmm_alloc_count s + 1\<rparr> in
      if \<not> DMM_CheckAlignNumber uiAlignNumber then Some (Inl BadAlign, s0)
      else let s1 = init_heap s0
           in alloc_walk uiSizeInBytes uiAlignNumber (uiAUTAddress s1) 0 s1)"

definition DMM_DeAllocateForKernel :: "u32 \<Rightarrow> (kheap, dmm_error, dmm_status) comp" where
  "DMM_DeAllocateForKernel uiAddress s =
     (if uiAddress = 0 then (Inr DMM_SUCCESS, s)
      else if uiAddress \<le> uiHeapStartAddress s then (Inr DMM_BAD_DEALLOC, s)
      else
        let freeAUT = uiAddress - sizeof_AUT;
            uiAllocated = uiAddress - sizeof_AUT - uiByteStuffForAlign (mem s) freeAUT;
            sz = uiSize (mem s) freeAUT
        in if calculateCheckSum (mem s) freeAUT \<noteq> uiCheckSum (mem s) freeAUT
           then throw BadAddressDealloc s
           else if uiReturnAddress (mem s) freeAUT = 0 then throw DoubleDelete s
           else (Inr DMM_SUCCESS,
                 s\<lparr>mem := updateCheckSum uiAllocated
                     (set_uiNextAUTAddress uiAllocated (uiAUTAddress s)
                     (set_uiSize uiAllocated sz (set_uiReturnAddress uiAllocated 0
                     (set_uiAllocatedAddress uiAllocated uiAllocated (mem s))))),
                   uiAUTAddress := uiAllocated\<rparr>))"

definition DMM_GetAllocSizeForKernel :: "u32 \<Rightarrow> kheap \<Rightarrow> dmm_status \<times> u32" where
  "DMM_GetAllocSizeForKernel uiAddress s =
     (if uiAddress = 0 \<or> uiAddress < sizeof_AUT \<or> uiAddress = uiHeapStartAddress s
      then (DMM_FAILURE, 0)
      else (DMM_SUCCESS, uiSize (mem s) (uiAddress - sizeof_AUT)))"

text \<open>\<open>DMM_KernelHeapAllocSize\<close> adds up the chain of trackers that starts at the heap's first byte.\<close>

partial_function (option) heap_chain_size :: "bytes \<Rightarrow> u32 \<Rightarrow> u32 \<Rightarrow> u32 option" where
  "heap_chain_size m aut acc =
     (if aut \<noteq> 0 then heap_chain_size m (uiNextAUTAddress m aut) (acc + uiSize m aut) else Some acc)"

definition DMM_KernelHeapAllocSize :: "kheap \<Rightarrow> u32 option" where
  "DMM_KernelHeapAllocSize s = heap_chain_size (mem s) (uiHeapStartAddress s) 0"

section \<open>Reading trackers after writes\<close>

lemma get_set_far [simp]:
  assumes "far q p"
  shows
    "uiAllocatedAddress (set_uiAllocatedAddress q v m) p = uiAllocatedAddress m p"
    "uiAllocatedAddress (set_uiReturnAddress q v m) p = uiAllocatedAddress m p"
    "uiAllocatedAddress (set_uiSize q v m) p = uiAllocatedAddress m p"
    "uiAllocatedAddress (set_uiNextAUTAddress q v m) p = uiAllocatedAddress m p"
    "uiAllocatedAddress (updateCheckSum q m) p = uiAllocatedAddress m p"
    "uiReturnAddress (set_uiAllocatedAddress q v m) p = uiReturnAddress m p"
    "uiReturnAddress (set_uiReturnAddress q v m) p = uiReturnAddress m p"
    "uiReturnAddress (set_uiSize q v m) p = uiReturnAddress m p"
    "uiReturnAddress (set_uiNextAUTAddress q v m) p = uiReturnAddress m p"
    "uiReturnAddress (updateCheckSum q m) p = uiReturnAddress m p"
    "uiSize (set_uiAllocatedAddress q v m) p = uiSize m p"
    "uiSize (set_uiReturnAddress q v m) p = uiSize m p"
    "uiSize (set_uiSize q v m) p = uiSize m p"
    "uiSize (set_uiNextAUTAddress q v m) p = uiSize m p"
    "uiSize (updateCheckSum q m) p = uiSize m p"
    "uiNextAUTAddress (set_uiAllocatedAddress q v m) p = uiNextAUTAddress m p"
    "uiNextAUTAddress (set_uiReturnAddress q v m) p = uiNextAUTAddress m p"
    "uiNextAUTAddress (set_uiSize q v m) p = uiNextAUTAddress m p"
    "uiNextAUTAddress (set_uiNextAUTAddress q v m) p = uiNextAUTAddress m p"
    "uiNextAUTAddress (updateCheckSum q m) p = uiNextAUTAddress m p"
  using fields_set_far[OF assms] by (auto simp: aut_fields_def)

definition hdr_ok :: "bytes \<Rightarrow> u32 \<Rightarrow> bool" where
  "hdr_ok m p \<longleftrightarrow> calculateCheckSum m p = uiCheckSum m p"

lemma updateCheckSum_same [simp]:
  "uiAllocatedAddress (updateCheckSum p m) p = uiAllocatedAddress m p"
  "uiReturnAddress (updateCheckSum p m) p = uiReturnAddress m p"
  "uiSize (updateCheckSum p m) p = uiSize m p"
  "uiNextAUTAddress (updateCheckSum p m) p = uiNextAUTAddress m p"
  "hdr_ok (updateCheckSum p m) p"
  by (simp_all add: updateCheckSum_def hdr_ok_def calculateCheckSum_def)

lemma hdr_ok_far [simp]:
  assumes "far q p"
  shows "hdr_ok (set_uiAllocatedAddress q v m) p = hdr_ok m p"
    "hdr_ok (set_uiReturnAddress q v m) p = hdr_ok m p"
    "hdr_ok (set_uiSize q v m) p = hdr_ok m p"
    "hdr_ok (set_uiNextAUTAddress q v m) p = hdr_ok m p"
    "hdr_ok (updateCheckSum q m) p = hdr_ok m p"
  using fields_set_far[OF assms] by (auto simp: hdr_ok_def aut_fields_def calculateCheckSum_def)

section \<open>The heap's invariant\<close>

text \<open>
  Blocks are described by natural numbers: a free block is \<open>(address, size)\<close>, an allocated block
  \<open>(address, size, stuffing)\<close> with its tracker \<open>stuffing\<close> bytes after its address.
  \<open>seg m p F q\<close>: following the free list from \<open>p\<close> visits the blocks \<open>F\<close> and arrives at \<open>q\<close>.
\<close>

abbreviation w32 :: "nat \<Rightarrow> u32" where "w32 n \<equiv> word_of_nat n"

fun seg :: "bytes \<Rightarrow> u32 \<Rightarrow> (nat \<times> nat) list \<Rightarrow> u32 \<Rightarrow> bool" where
  "seg m p [] q \<longleftrightarrow> p = q"
| "seg m p ((a, n) # F) q \<longleftrightarrow>
     p = w32 a \<and> p \<noteq> 0 \<and> uiAllocatedAddress m p = p \<and> uiReturnAddress m p = 0 \<and> uiSize m p = w32 n \<and>
     hdr_ok m p \<and> seg m (uiNextAUTAddress m p) F q"

definition alloc_hdr :: "bytes \<Rightarrow> nat \<times> nat \<times> nat \<Rightarrow> bool" where
  "alloc_hdr m blk \<longleftrightarrow> (case blk of (a, n, st) \<Rightarrow>
     st + 20 \<le> n \<and> uiAllocatedAddress m (w32 (a + st)) = w32 a \<and>
     uiReturnAddress m (w32 (a + st)) = w32 (a + st + 20) \<and> uiSize m (w32 (a + st)) = w32 n \<and>
     uiByteStuffForAlign m (w32 (a + st)) = w32 st \<and> hdr_ok m (w32 (a + st)))"

definition extent :: "nat \<times> nat \<times> nat \<Rightarrow> nat \<times> nat" where
  "extent blk = (case blk of (a, n, st) \<Rightarrow> (a, n))"

definition sep :: "nat \<times> nat \<Rightarrow> nat \<times> nat \<Rightarrow> bool" where
  "sep x y \<longleftrightarrow> fst x + snd x \<le> fst y \<or> fst y + snd y \<le> fst x"

definition within :: "nat \<Rightarrow> nat \<Rightarrow> nat \<times> nat \<Rightarrow> bool" where
  "within lo hi x \<longleftrightarrow> lo \<le> fst x \<and> 20 \<le> snd x \<and> fst x + snd x \<le> hi"

definition heap_lo :: "kheap \<Rightarrow> nat" where "heap_lo s = unat (uiHeapStartAddress s)"
definition heap_hi :: "kheap \<Rightarrow> nat" where "heap_hi s = heap_lo s + 0x3000000"

text \<open>
  The free blocks \<open>F\<close> and the allocated blocks \<open>A\<close> are disjoint and fill the heap, the free list runs
  through exactly the free blocks, and every allocated block has its tracker.
\<close>

definition heap_inv :: "kheap \<Rightarrow> (nat \<times> nat) list \<Rightarrow> (nat \<times> nat \<times> nat) list \<Rightarrow> bool" where
  "heap_inv s F A \<longleftrightarrow>
     0 < heap_lo s \<and> heap_hi s + 20 \<le> 2 ^ 32 \<and>
     seg (mem s) (uiAUTAddress s) F 0 \<and> (\<forall>x \<in> set A. alloc_hdr (mem s) x) \<and>
     (\<forall>x \<in> set (F @ map extent A). within (heap_lo s) (heap_hi s) x) \<and>
     sorted_wrt sep (F @ map extent A) \<and>
     sum_list (map snd (F @ map extent A)) = 0x3000000"

lemma sep_sym: "sep x y \<longleftrightarrow> sep y x"
  by (auto simp: sep_def)

lemma seg_append: "seg m p (F @ G) q \<longleftrightarrow> (\<exists>r. seg m p F r \<and> seg m r G q)"
  by (induction m p F q rule: seg.induct) auto

lemma seg_cong:
  "(\<And>a n. (a, n) \<in> set F \<Longrightarrow> aut_fields m' (w32 a) = aut_fields m (w32 a)) \<Longrightarrow> seg m' p F q \<longleftrightarrow> seg m p F q"
proof (induction m p F q rule: seg.induct)
  case (2 m p a n F q)
  have f: "aut_fields m' (w32 a) = aut_fields m (w32 a)" by (rule 2(2)[of a n]) simp
  have "seg m' (uiNextAUTAddress m p) F q \<longleftrightarrow> seg m (uiNextAUTAddress m p) F q"
  proof (rule 2(1))
    fix b k assume "(b, k) \<in> set F"
    then show "aut_fields m' (w32 b) = aut_fields m (w32 b)" by (intro 2(2)[of b k]) simp
  qed
  then show ?case using fields_eqD[OF f] by (auto simp: hdr_ok_def)
qed simp

lemma alloc_hdr_cong:
  "aut_fields m' (w32 (a + st)) = aut_fields m (w32 (a + st)) \<Longrightarrow> alloc_hdr m' (a, n, st) = alloc_hdr m (a, n, st)"
  using fields_eqD[of m' "w32 (a + st)" m] by (auto simp: alloc_hdr_def hdr_ok_def uiByteStuffForAlign_def)

lemma unat_w32: "n < 2 ^ 32 \<Longrightarrow> unat (w32 n) = n"
  by (simp add: unat_of_nat)

lemma w32_unat: "unat x = n \<Longrightarrow> x = w32 n"
  by auto

lemma far_nat:
  assumes "a + 20 \<le> b" "b + 20 \<le> 2 ^ 32"
  shows "far (w32 a) (w32 b)" "far (w32 b) (w32 a)"
proof -
  have 1: "w32 b - w32 a = w32 (b - a)" using assms by (simp add: of_nat_diff)
  have u: "unat (w32 (b - a)) = b - a" using assms by (intro unat_w32) simp
  then have ge: "20 \<le> w32 b - w32 a" unfolding 1 using assms by (simp add: word_le_nat_alt)
  have "uint (w32 (b - a)) = int (b - a)" using u by (simp add: uint_nat)
  moreover have "w32 a - w32 b = - w32 (b - a)" by (metis 1 minus_diff_eq)
  ultimately have "uint (w32 a - w32 b) = 2 ^ 32 - int (b - a)"
    using assms uint_neg[of "w32 (b - a)"] by simp
  then have "20 \<le> w32 a - w32 b" using assms by (simp add: word_le_def)
  then show "far (w32 a) (w32 b)" "far (w32 b) (w32 a)" using ge by (auto simp: far_def)
qed

text \<open>Trackers inside separate blocks do not overlap.\<close>

lemma far_blocks:
  assumes "sep (a, n) (b, k)" "i + 20 \<le> n" "j + 20 \<le> k" "a + n + 20 \<le> 2 ^ 32" "b + k + 20 \<le> 2 ^ 32"
  shows "far (w32 (a + i)) (w32 (b + j))"
  using assms far_nat[of "a + i" "b + j"] far_nat[of "b + j" "a + i"] by (auto simp: sep_def)

section \<open>Carving a block\<close>

text \<open>What carving does to the trackers: \<open>h\<close> is the new block's tracker, \<open>f\<close> that of the rest.\<close>

lemma carve_mem:
  assumes run: "carve prev a n nx st k s = (r, t)"
    and far: "prev \<noteq> 0 \<Longrightarrow> far (a + st) prev" "prev \<noteq> 0 \<Longrightarrow> n - k > 21 \<Longrightarrow> far (a + k) prev"
      "n - k > 21 \<Longrightarrow> far (a + st) (a + k)"
  defines "big \<equiv> n - k > 21"
  shows "r = a + 20 + st \<and> uiHeapStartAddress t = uiHeapStartAddress s \<and>
    uiAllocatedAddress (mem t) (a + st) = a \<and> uiReturnAddress (mem t) (a + st) = a + 20 + st \<and>
    uiSize (mem t) (a + st) = (if big then k else n) \<and> uiByteStuffForAlign (mem t) (a + st) = st \<and>
    hdr_ok (mem t) (a + st) \<and>
    (big \<longrightarrow> uiAllocatedAddress (mem t) (a + k) = a + k \<and> uiReturnAddress (mem t) (a + k) = 0 \<and>
       uiSize (mem t) (a + k) = n - k \<and> uiNextAUTAddress (mem t) (a + k) = nx \<and> hdr_ok (mem t) (a + k)) \<and>
    uiAUTAddress t = (if prev = 0 then if big then a + k else nx else uiAUTAddress s) \<and>
    (prev \<noteq> 0 \<longrightarrow> uiAllocatedAddress (mem t) prev = uiAllocatedAddress (mem s) prev \<and>
       uiReturnAddress (mem t) prev = uiReturnAddress (mem s) prev \<and>
       uiSize (mem t) prev = uiSize (mem s) prev \<and>
       uiNextAUTAddress (mem t) prev = (if big then a + k else nx) \<and> hdr_ok (mem t) prev) \<and>
    (\<forall>p. far (a + st) p \<and> (big \<longrightarrow> far (a + k) p) \<and> (prev \<noteq> 0 \<longrightarrow> far prev p)
       \<longrightarrow> aut_fields (mem t) p = aut_fields (mem s) p)"
proof -
  have fs: "prev \<noteq> 0 \<Longrightarrow> far prev (a + st)" "prev \<noteq> 0 \<Longrightarrow> big \<Longrightarrow> far prev (a + k)"
    "big \<Longrightarrow> far (a + k) (a + st)" "prev \<noteq> 0 \<Longrightarrow> big \<Longrightarrow> far (a + k) prev" "big \<Longrightarrow> far (a + st) (a + k)"
    using far by (auto simp: big_def far_sym)
  have kn: "k + (n - k) = n" by simp
  show ?thesis
    by (cases big; cases "prev = 0")
      (use run far fs kn in \<open>auto simp: carve_def Let_def link_prev_def sizeof_AUT_def big_def
        uiByteStuffForAlign_def\<close>)
qed

lemma w32_add: "w32 a + w32 b = w32 (a + b)"
  by simp

lemma w32_diff: "k \<le> n \<Longrightarrow> w32 n - w32 k = w32 (n - k)"
  by (simp add: of_nat_diff)

lemma w32_less: "a < 2 ^ 32 \<Longrightarrow> b < 2 ^ 32 \<Longrightarrow> w32 a < w32 b \<longleftrightarrow> a < b"
  by (simp add: word_less_nat_alt unat_w32)

lemma w32_le: "a < 2 ^ 32 \<Longrightarrow> b < 2 ^ 32 \<Longrightarrow> w32 a \<le> w32 b \<longleftrightarrow> a \<le> b"
  by (simp add: word_le_nat_alt unat_w32)

definition prev_of :: "(nat \<times> nat) list \<Rightarrow> u32" where
  "prev_of F = (if F = [] then 0 else w32 (fst (last F)))"

lemma seg_prev:
  assumes "seg m p F q" "F \<noteq> []"
  shows "prev_of F \<noteq> 0"
proof -
  obtain H b l where F: "F = H @ [(b, l)]" using assms(2) by (metis rev_exhaust surj_pair)
  then show ?thesis using assms(1) by (auto simp: prev_of_def seg_append)
qed

text \<open>Replacing a block by its parts keeps the blocks apart and their total size.\<close>

lemma sep_parts:
  "sep (a, n) x \<Longrightarrow> k \<le> n \<Longrightarrow> sep (a + k, n - k) x" "sep (a, n) x \<Longrightarrow> k \<le> n \<Longrightarrow> sep (a, k) x"
  "sep x (a, n) \<Longrightarrow> k \<le> n \<Longrightarrow> sep x (a + k, n - k)" "sep x (a, n) \<Longrightarrow> k \<le> n \<Longrightarrow> sep x (a, k)"
  "sep (a + k, n - k) (a, k)"
  by (auto simp: sep_def)

lemma layout_split:
  assumes "sorted_wrt sep (F1 @ (a, n) # F2 @ A)" "k \<le> n"
  shows "sorted_wrt sep (F1 @ (a + k, n - k) # F2 @ (a, k) # A)"
    "sorted_wrt sep (F1 @ F2 @ (a, n) # A)"
proof -
  have b: "\<And>x. x \<in> set F2 \<Longrightarrow> sep x (a, n)" using assms(1) sep_sym by (auto simp: sorted_wrt_append)
  then show "sorted_wrt sep (F1 @ F2 @ (a, n) # A)" using assms(1) by (auto simp: sorted_wrt_append)
  show "sorted_wrt sep (F1 @ (a + k, n - k) # F2 @ (a, k) # A)"
  proof -
    have "\<forall>x \<in> set F1. sep x (a, n)" "\<forall>x \<in> set F2 \<union> set A. sep (a, n) x"
      using assms(1) by (auto simp: sorted_wrt_append)
    then have "\<forall>x \<in> set F1. sep x (a + k, n - k) \<and> sep x (a, k)"
      "\<forall>x \<in> set F2 \<union> set A. sep (a + k, n - k) x \<and> sep (a, k) x" "\<forall>x \<in> set F2. sep x (a, k)"
      using sep_parts(1-4)[OF _ assms(2)] b by blast+
    then show ?thesis using assms(1) sep_parts(5) by (auto simp: sorted_wrt_append)
  qed
qed

lemma carve_inv:
  assumes inv: "heap_inv s (F1 @ (a, n) # F2) A"
    and st: "st + 20 \<le> k" "k \<le> n"
    and run: "carve (prev_of F1) (w32 a) (w32 n) (uiNextAUTAddress (mem s) (w32 a)) (w32 st) (w32 k) s = (r, t)"
  defines "big \<equiv> n - k > 21"
  defines "G \<equiv> (if big then [(a + k, n - k)] else [])" and "k' \<equiv> (if big then k else n)"
  shows "r = w32 (a + st + 20) \<and> heap_lo t = heap_lo s \<and> heap_inv t (F1 @ G @ F2) ((a, k', st) # A)"
proof -
  let ?m = "mem s" and ?M = "mem t"
  let ?nx = "uiNextAUTAddress ?m (w32 a)"
  have lo: "0 < heap_lo s" "heap_hi s + 20 \<le> 2 ^ 32"
    and sg: "seg ?m (uiAUTAddress s) F1 (w32 a)" "seg ?m ?nx F2 0" "w32 a \<noteq> 0"
    and ah: "\<And>x. x \<in> set A \<Longrightarrow> alloc_hdr ?m x"
    and wi: "\<And>x. x \<in> set (F1 @ (a, n) # F2 @ map extent A) \<Longrightarrow> within (heap_lo s) (heap_hi s) x"
    and so: "sorted_wrt sep (F1 @ (a, n) # F2 @ map extent A)"
    and su: "sum_list (map snd (F1 @ (a, n) # F2 @ map extent A)) = 0x3000000"
    using inv by (auto simp: heap_inv_def seg_append)
  have wa: "within (heap_lo s) (heap_hi s) (a, n)" using wi by simp
  have sepx: "sep (a, n) x" if "x \<in> set (F1 @ F2 @ map extent A)" for x
    using so that sep_sym by (auto simp: sorted_wrt_append)
  have farF: "far (w32 (a + i)) (w32 b)" if "(b, l) \<in> set (F1 @ F2)" "i + 20 \<le> n" for b l i
    using far_blocks[of a n b l i 0] sepx[of "(b, l)"] wi[of "(b, l)"] wa that lo
    by (auto simp: within_def)
  have farA: "far (w32 (a + i)) (w32 (b + j))" if "(b, l, j) \<in> set A" "i + 20 \<le> n" for b l j i
  proof -
    have e: "(b, l) \<in> set (map extent A)" using that(1) by (force simp: extent_def)
    have j: "j + 20 \<le> l" using ah[OF that(1)] by (simp add: alloc_hdr_def)
    show ?thesis
      using far_blocks[of a n b l i j] sepx[of "(b, l)"] wi[of "(b, l)"] wa that(2) lo e j
      by (auto simp: within_def)
  qed
  have farL: "far (prev_of F1) (w32 (b + j))" if "F1 \<noteq> []" "(b, l, j) \<in> set A" for b l j
  proof -
    have l1: "last F1 \<in> set F1" using that(1) by simp
    have e: "(b, l) \<in> set (map extent A)" using that(2) by (force simp: extent_def)
    have j: "j + 20 \<le> l" using ah[OF that(2)] by (simp add: alloc_hdr_def)
    have "sep (last F1) (b, l)" using so l1 e by (auto simp: sorted_wrt_append)
    then show ?thesis
      using far_blocks[of "fst (last F1)" "snd (last F1)" b l 0 j] wi[of "last F1"] wi[of "(b, l)"] l1 e lo that(1) j
      by (auto simp: within_def prev_of_def)
  qed
  have farP: "far (prev_of F1) (w32 b)" if "F1 \<noteq> []" "(b, l) \<in> set (butlast F1 @ F2)" for b l
  proof -
    have F1: "F1 = butlast F1 @ [last F1]" using that(1) by simp
    have "sorted_wrt sep (butlast F1 @ last F1 # (a, n) # F2 @ map extent A)"
      using so F1 by (metis append.assoc append_Cons append_Nil)
    then have "sep (last F1) (b, l) \<or> sep (b, l) (last F1)" using that(2) by (auto simp: sorted_wrt_append)
    then have "sep (last F1) (b, l)" using sep_sym by blast
    moreover have "last F1 \<in> set F1" "(b, l) \<in> set (F1 @ F2)"
      using that F1 by (auto dest: in_set_butlastD)
    ultimately show ?thesis
      using far_blocks[of "fst (last F1)" "snd (last F1)" b l 0 0] wi[of "last F1"] wi[of "(b, l)"] lo that(1)
      by (auto simp: within_def prev_of_def)
  qed
  have bounds: "n < 2 ^ 32" "a + n < 2 ^ 32" "k < 2 ^ 32" using wa lo st by (auto simp: within_def)
  have bigw: "w32 n - w32 k > 21 \<longleftrightarrow> big"
  proof -
    have "unat (w32 n - w32 k) = n - k" using st bounds unat_w32[of "n - k"] by (simp only: w32_diff)
    then show ?thesis by (simp add: big_def word_less_nat_alt)
  qed
  have lastF: "F1 \<noteq> [] \<Longrightarrow> (fst (last F1), snd (last F1)) \<in> set (F1 @ F2)" by simp
  have prev0: "prev_of F1 = 0 \<longleftrightarrow> F1 = []" using seg_prev[OF sg(1)] by (auto simp: prev_of_def)
  have pre: "prev_of F1 \<noteq> 0 \<Longrightarrow> far (w32 a + w32 st) (prev_of F1)"
    "prev_of F1 \<noteq> 0 \<Longrightarrow> w32 n - w32 k > 21 \<Longrightarrow> far (w32 a + w32 k) (prev_of F1)"
    "w32 n - w32 k > 21 \<Longrightarrow> far (w32 a + w32 st) (w32 a + w32 k)"
    using farF[of "fst (last F1)" "snd (last F1)" st] farF[of "fst (last F1)" "snd (last F1)" k] lastF prev0
      st bigw far_nat(1)[of "a + st" "a + k"] bounds wa lo
    by (auto simp: prev_of_def big_def within_def)
  note cm = carve_mem[OF run pre, unfolded bigw]
  have keep: "aut_fields ?M p = aut_fields ?m p"
    if "far (w32 (a + st)) p" "big \<Longrightarrow> far (w32 (a + k)) p" "F1 \<noteq> [] \<Longrightarrow> far (prev_of F1) p" for p
    using cm that prev0 by auto
  have k20: "big \<Longrightarrow> k + 20 \<le> n" by (simp add: big_def)
  have keepF: "aut_fields ?M (w32 b) = aut_fields ?m (w32 b)" if "(b, l) \<in> set (butlast F1 @ F2)" for b l
    using that farF[of b l st] farF[of b l k] farP st k20 in_set_butlastD
    by (intro keep) (fastforce)+
  have keepA: "aut_fields ?M (w32 (b + j)) = aut_fields ?m (w32 (b + j))" if "(b, l, j) \<in> set A" for b l j
    using that farA[of b l j st] farA[of b l j k] farL st k20 by (intro keep) auto
  have segG: "seg ?M (if big then w32 (a + k) else ?nx) (G @ F2) 0"
  proof -
    have "seg ?M ?nx F2 0" using sg(2) seg_cong[of F2 ?M ?m] keepF by auto
    moreover have "w32 (a + k) \<noteq> 0" if big
    proof -
      have "unat (w32 (a + k)) = a + k" using bounds st by (intro unat_w32) auto
      then show ?thesis using wa lo by (auto simp: within_def)
    qed
    moreover have "uiAllocatedAddress ?M (w32 (a + k)) = w32 (a + k) \<and> uiReturnAddress ?M (w32 (a + k)) = 0 \<and>
        uiSize ?M (w32 (a + k)) = w32 (n - k) \<and> uiNextAUTAddress ?M (w32 (a + k)) = ?nx \<and>
        hdr_ok ?M (w32 (a + k))" if big
      using cm that unfolding w32_add w32_diff[OF st(2)] by blast
    ultimately show ?thesis by (simp add: G_def)
  qed
  have segF: "seg ?M (uiAUTAddress t) F1 (if big then w32 (a + k) else ?nx)"
  proof (cases "F1 = []")
    case True
    then show ?thesis using cm prev0 by auto
  next
    case False
    define H b l where "H = butlast F1" and "b = fst (last F1)" and "l = snd (last F1)"
    have F1: "F1 = H @ [(b, l)]" using False by (simp add: H_def b_def l_def)
    have pv: "prev_of F1 = w32 b" using False by (simp add: prev_of_def b_def)
    have "seg ?m (uiAUTAddress s) H (w32 b)"
      and hb: "w32 b \<noteq> 0" "uiAllocatedAddress ?m (w32 b) = w32 b" "uiReturnAddress ?m (w32 b) = 0"
        "uiSize ?m (w32 b) = w32 l"
      using sg(1) by (auto simp: F1 seg_append)
    moreover have "seg ?M (uiAUTAddress s) H (w32 b) \<longleftrightarrow> seg ?m (uiAUTAddress s) H (w32 b)"
      using keepF by (intro seg_cong) (auto simp: H_def)
    ultimately show ?thesis using cm pv hb by (auto simp: F1 seg_append)
  qed
  have hd: "alloc_hdr ?M (a, k', st)"
    using cm st by (auto simp: alloc_hdr_def k'_def ac_simps)
  have "within (heap_lo s) (heap_hi s) x" if xin: "x \<in> set (F1 @ G @ F2 @ (a, k') # map extent A)" for x
  proof -
    consider "x \<in> set (F1 @ (a, n) # F2 @ map extent A)" | "x = (a, k')" | "x = (a + k, n - k)" big
      using xin by (auto simp: G_def split: if_splits)
    then show ?thesis
      using wi wa st by cases (simp, auto simp: k'_def within_def big_def)
  qed
  moreover have "sorted_wrt sep (F1 @ G @ F2 @ (a, k') # map extent A)"
    using layout_split[OF so st(2)] by (auto simp: G_def k'_def)
  moreover have "sum_list (map snd (F1 @ G @ F2 @ (a, k') # map extent A)) = 0x3000000"
    using su st by (auto simp: G_def k'_def)
  moreover have "alloc_hdr ?M x" if "x \<in> set A" for x
    using keepA ah[OF that] that alloc_hdr_cong by (cases x) blast
  moreover have "seg ?M (uiAUTAddress t) (F1 @ G @ F2) 0"
    using segF segG unfolding seg_append by blast
  moreover have lt: "heap_lo t = heap_lo s" using cm by (simp add: heap_lo_def)
  moreover have "heap_hi t = heap_hi s" using lt by (simp add: heap_hi_def)
  ultimately have "heap_inv t (F1 @ G @ F2) ((a, k', st) # A)"
    using lo hd by (simp add: heap_inv_def extent_def)
  then show ?thesis using cm by (simp add: heap_lo_def ac_simps)
qed

section \<open>First fit\<close>

text \<open>Alignment stuffing and fit, on the natural numbers that describe a block.\<close>

definition stuffing :: "u32 \<Rightarrow> nat \<Rightarrow> nat" where
  "stuffing al a =
     (if al \<noteq> 0 \<and> (a + 20) mod unat al \<noteq> 0 then unat al - (a + 20) mod unat al else 0)"

definition need :: "u32 \<Rightarrow> u32 \<Rightarrow> nat \<Rightarrow> nat" where
  "need sz al a = unat sz + 20 + stuffing al a"

definition fits :: "u32 \<Rightarrow> u32 \<Rightarrow> nat \<times> nat \<Rightarrow> bool" where
  "fits sz al b \<longleftrightarrow> need sz al (fst b) \<le> snd b"

lemma stuffing_bound: "stuffing al a \<le> unat al"
  by (simp add: stuffing_def)


lemma GetByteStuff_nat:
  assumes "a + 20 < 2 ^ 32"
  shows "DMM_GetByteStuffForAlign (w32 a + sizeof_AUT) al = w32 (stuffing al a)"
proof -
  have u: "unat (w32 a + 20) = a + 20"
    using assms unat_w32[of "a + 20"] by (simp add: ac_simps)
  have m: "unat ((w32 a + 20) mod al) = (a + 20) mod unat al" by (simp add: unat_mod_distrib u)
  show ?thesis
  proof (cases "al \<noteq> 0 \<and> (a + 20) mod unat al \<noteq> 0")
    case True
    then have "(w32 a + 20) mod al \<noteq> 0" using m by (auto simp: word_unat_eq_iff)
    moreover have "(a + 20) mod unat al \<le> unat al"
      using True by (simp add: less_imp_le word_unat_eq_iff)
    then have "unat (al - (w32 a + 20) mod al) = unat al - (a + 20) mod unat al"
      by (simp add: unat_sub word_le_nat_alt m)
    then have "al - (w32 a + 20) mod al = w32 (unat al - (a + 20) mod unat al)"
      by (rule w32_unat)
    ultimately show ?thesis using True by (simp add: DMM_GetByteStuffForAlign_def Let_def sizeof_AUT_def stuffing_def)
  next
    case False
    then have "al \<noteq> 0 \<Longrightarrow> (w32 a + 20) mod al = 0" using m by (auto simp: word_unat_eq_iff)
    then show ?thesis using False
      by (auto simp: DMM_GetByteStuffForAlign_def Let_def sizeof_AUT_def stuffing_def)
  qed
qed

lemma need_w32: "sz + sizeof_AUT + w32 (stuffing al a) = w32 (need sz al a)"
  by (simp add: need_def sizeof_AUT_def)

lemma alloc_walk_run:
  assumes lay: "\<forall>b \<in> set F2. within lo hi b" "hi + 20 \<le> 2 ^ 32"
    and nov: "unat sz + 20 + unat al < 2 ^ 32"
    and sg: "seg (mem s) p F2 0"
  shows "(\<forall>b \<in> set F2. \<not> fits sz al b) \<and> alloc_walk sz al p (prev_of F1) s = Some (Inl OutOfMemory, s) \<or>
    (\<exists>G1 a n G2. F2 = G1 @ (a, n) # G2 \<and> (\<forall>b \<in> set G1. \<not> fits sz al b) \<and> fits sz al (a, n) \<and>
       alloc_walk sz al p (prev_of F1) s =
         Some (case carve (prev_of (F1 @ G1)) (w32 a) (w32 n) (uiNextAUTAddress (mem s) (w32 a))
             (w32 (stuffing al a)) (w32 (need sz al a)) s of (r, t) \<Rightarrow> (Inr r, t)))"
  using lay sg
proof (induction F2 arbitrary: F1 p)
  case Nil
  then show ?case by (subst alloc_walk.simps) simp
next
  case (Cons x F2)
  obtain a n where x: "x = (a, n)" by fastforce
  have p: "p = w32 a" "p \<noteq> 0" "uiAllocatedAddress (mem s) p = p" "uiSize (mem s) p = w32 n"
    "hdr_ok (mem s) p" "seg (mem s) (uiNextAUTAddress (mem s) p) F2 0"
    using Cons.prems(3) by (auto simp: x)
  have b: "a + 20 < 2 ^ 32" "n < 2 ^ 32" using Cons.prems(1,2) by (auto simp: x within_def)
  have nd: "need sz al a < 2 ^ 32" using nov stuffing_bound[of al a] by (simp add: need_def)
  have fit: "w32 (need sz al a) \<le> w32 n \<longleftrightarrow> fits sz al x"
    using nd b by (simp add: w32_le fits_def x)
  have st: "DMM_GetByteStuffForAlign (p + sizeof_AUT) al = w32 (stuffing al a)"
    using GetByteStuff_nat[OF b(1)] p(1) by simp
  have step: "alloc_walk sz al p (prev_of F1) s =
      (if fits sz al x
       then Some (case carve (prev_of F1) p (w32 n) (uiNextAUTAddress (mem s) p) (w32 (stuffing al a))
              (w32 (need sz al a)) s of (r, t) \<Rightarrow> (Inr r, t))
       else alloc_walk sz al (uiNextAUTAddress (mem s) p) p s)"
    by (subst alloc_walk.simps)
      (use p(2,3,4,5) st fit in \<open>simp add: Let_def need_w32 hdr_ok_def\<close>)
  show ?case
  proof (cases "fits sz al x")
    case True
    then show ?thesis using step p(1)
      by (intro disjI2 exI[of _ "[]"] exI[of _ a] exI[of _ n] exI[of _ F2]) (simp add: x)
  next
    case False
    have pv: "prev_of (F1 @ [x]) = p" by (simp add: prev_of_def x p(1))
    have w: "alloc_walk sz al p (prev_of F1) s = alloc_walk sz al (uiNextAUTAddress (mem s) p) (prev_of (F1 @ [x])) s"
      using step False pv by simp
    have lay: "\<forall>b \<in> set F2. within lo hi b" using Cons.prems(1) by simp
    from Cons.IH[of "uiNextAUTAddress (mem s) p" "F1 @ [x]", OF lay Cons.prems(2) p(6)]
    show ?thesis
    proof (elim disjE exE conjE)
      assume "\<forall>b \<in> set F2. \<not> fits sz al b"
        "alloc_walk sz al (uiNextAUTAddress (mem s) p) (prev_of (F1 @ [x])) s = Some (Inl OutOfMemory, s)"
      then show ?thesis using w False by (intro disjI1) simp
    next
      fix G1 c k G2
      assume "F2 = G1 @ (c, k) # G2" "\<forall>b \<in> set G1. \<not> fits sz al b" "fits sz al (c, k)"
        "alloc_walk sz al (uiNextAUTAddress (mem s) p) (prev_of (F1 @ [x])) s =
          Some (case carve (prev_of ((F1 @ [x]) @ G1)) (w32 c) (w32 k) (uiNextAUTAddress (mem s) (w32 c))
             (w32 (stuffing al c)) (w32 (need sz al c)) s of (r, t) \<Rightarrow> (Inr r, t))"
      then show ?thesis using w False
        by (intro disjI2 exI[of _ "x # G1"] exI[of _ c] exI[of _ k] exI[of _ G2]) simp
    qed
  qed
qed

section \<open>Allocation\<close>

definition rest_block :: "nat \<Rightarrow> nat \<Rightarrow> nat \<Rightarrow> (nat \<times> nat) list" where
  "rest_block a n k = (if n - k > 21 then [(a + k, n - k)] else [])"

definition granted :: "nat \<Rightarrow> nat \<Rightarrow> nat" where
  "granted n k = (if n - k > 21 then k else n)"


lemma heap_inv_cong:
  "mem t = mem s \<Longrightarrow> uiAUTAddress t = uiAUTAddress s \<Longrightarrow> uiHeapStartAddress t = uiHeapStartAddress s \<Longrightarrow>
    heap_inv t F A = heap_inv s F A"
  by (simp add: heap_inv_def heap_lo_def heap_hi_def)

lemma heap_inv_free_head: "heap_inv s F A \<Longrightarrow> uiAUTAddress s = 0 \<longleftrightarrow> F = []"
  by (cases F) (auto simp: heap_inv_def)


lemma heap_inv_within_alloc:
  "heap_inv s F A \<Longrightarrow> (a, n, st) \<in> set A \<Longrightarrow> within (heap_lo s) (heap_hi s) (a, n) \<and> alloc_hdr (mem s) (a, n, st)"
  by (force simp: heap_inv_def extent_def)

lemma walk_inv:
  assumes inv: "heap_inv s F A" and nov: "unat sz + 20 + unat al < 2 ^ 32"
  obtains (none) "\<forall>b \<in> set F. \<not> fits sz al b"
      "alloc_walk sz al (uiAUTAddress s) 0 s = Some (Inl OutOfMemory, s)"
    | (found) F1 a n F2 t where "F = F1 @ (a, n) # F2" "\<forall>b \<in> set F1. \<not> fits sz al b"
      "fits sz al (a, n)"
      "alloc_walk sz al (uiAUTAddress s) 0 s = Some (Inr (w32 (a + stuffing al a + 20)), t)"
      "heap_lo t = heap_lo s"
      "heap_inv t (F1 @ rest_block a n (need sz al a) @ F2)
         ((a, granted n (need sz al a), stuffing al a) # A)"
proof -
  have lay: "\<forall>b \<in> set F. within (heap_lo s) (heap_hi s) b" "heap_hi s + 20 \<le> 2 ^ 32"
    and sg: "seg (mem s) (uiAUTAddress s) F 0"
    using inv by (auto simp: heap_inv_def)
  have p0: "prev_of [] = 0" by (simp add: prev_of_def)
  from alloc_walk_run[OF lay nov sg, of "[]"] show thesis
  proof (elim disjE exE conjE)
    assume "\<forall>b \<in> set F. \<not> fits sz al b"
      "alloc_walk sz al (uiAUTAddress s) (prev_of []) s = Some (Inl OutOfMemory, s)"
    then show thesis using none p0 by simp
  next
    fix F1 a n F2
    assume F: "F = F1 @ (a, n) # F2" "\<forall>b \<in> set F1. \<not> fits sz al b" and ft: "fits sz al (a, n)"
      and w: "alloc_walk sz al (uiAUTAddress s) (prev_of []) s =
        Some (case carve (prev_of ([] @ F1)) (w32 a) (w32 n) (uiNextAUTAddress (mem s) (w32 a))
          (w32 (stuffing al a)) (w32 (need sz al a)) s of (r, t) \<Rightarrow> (Inr r, t))"
    obtain r t where c: "carve (prev_of F1) (w32 a) (w32 n) (uiNextAUTAddress (mem s) (w32 a))
        (w32 (stuffing al a)) (w32 (need sz al a)) s = (r, t)" by fastforce
    have "stuffing al a + 20 \<le> need sz al a" "need sz al a \<le> n"
      using ft by (auto simp: need_def fits_def)
    from carve_inv[OF inv[unfolded F(1)] this c] show thesis
      using found[OF F ft] w c p0 by (simp add: rest_block_def granted_def)
  qed
qed

lemma init_heap_id: "uiAUTAddress s \<noteq> 0 \<Longrightarrow> init_heap s = s"
  by (simp add: init_heap_def)

lemma init_heap_inv:
  assumes "uiAUTAddress s = 0" "0 < heap_lo s" "heap_hi s + 20 \<le> 2 ^ 32"
  shows "heap_inv (init_heap s) [(heap_lo s, 0x3000000)] []"
proof -
  define p where "p = uiHeapStartAddress s"
  have w: "w32 (heap_lo s) = p" "p \<noteq> 0" using assms(2) by (auto simp: heap_lo_def p_def)
  let ?t = "init_heap s"
  have t: "uiAUTAddress ?t = p" "heap_lo ?t = heap_lo s" "heap_hi ?t = heap_hi s"
    "mem ?t = updateCheckSum p (set_uiNextAUTAddress p 0 (set_uiReturnAddress p 0
                  (set_uiSize p MEM_KERNEL_HEAP_SIZE (set_uiAllocatedAddress p p (mem s)))))"
    using assms(1) by (simp_all add: init_heap_def Let_def heap_lo_def heap_hi_def p_def)
  have "seg (mem ?t) (uiAUTAddress ?t) [(heap_lo s, 0x3000000)] 0"
    unfolding t using w by (simp add: MEM_KERNEL_HEAP_SIZE_def)
  then show ?thesis unfolding heap_inv_def using assms t(2,3) by (simp del: seg.simps add: within_def heap_hi_def)
qed

text \<open>The bookkeeping counter does not matter to the heap.\<close>

definition bump :: "kheap \<Rightarrow> kheap" where
  "bump s = s\<lparr>dmm_alloc_count := dmm_alloc_count s + 1\<rparr>"

lemma bump_simps [simp]:
  "mem (bump s) = mem s" "uiAUTAddress (bump s) = uiAUTAddress s"
  "uiHeapStartAddress (bump s) = uiHeapStartAddress s" "heap_lo (bump s) = heap_lo s"
  "heap_inv (bump s) F A = heap_inv s F A"
  by (simp_all add: bump_def heap_lo_def heap_inv_def heap_hi_def)

lemma AllocateForKernel_walk:
  assumes "DMM_CheckAlignNumber al" "uiAUTAddress s \<noteq> 0"
  shows "DMM_AllocateForKernel sz al s = alloc_walk sz al (uiAUTAddress s) 0 (bump s)"
  using assms by (simp add: DMM_AllocateForKernel_def Let_def init_heap_def bump_def)

lemma AllocateForKernel_cases:
  assumes inv: "heap_inv s F A" "F \<noteq> []"
    and al: "DMM_CheckAlignNumber al" and nov: "unat sz + 20 + unat al < 2 ^ 32"
  obtains (none) "\<forall>b \<in> set F. \<not> fits sz al b"
      "DMM_AllocateForKernel sz al s = Some (Inl OutOfMemory, bump s)"
    | (found) F1 a n F2 t where "F = F1 @ (a, n) # F2" "\<forall>b \<in> set F1. \<not> fits sz al b"
      "fits sz al (a, n)"
      "DMM_AllocateForKernel sz al s = Some (Inr (w32 (a + stuffing al a + 20)), t)"
      "heap_lo t = heap_lo s"
      "heap_inv t (F1 @ rest_block a n (need sz al a) @ F2)
         ((a, granted n (need sz al a), stuffing al a) # A)"
proof -
  have "uiAUTAddress s \<noteq> 0" using heap_inv_free_head[OF inv(1)] inv(2) by simp
  note w = AllocateForKernel_walk[OF al this, of sz]
  have bi: "heap_inv (bump s) F A" using inv(1) by simp
  show thesis
  proof (cases rule: walk_inv[OF bi nov, case_names none found])
    case none
    then show thesis using that(1) w by simp
  next
    case (found F1 a n F2 t)
    then show thesis using that(2)[of F1 a n F2 t] w by simp
  qed
qed

section \<open>Deallocation\<close>

text \<open>The state after pushing a block onto the free list.\<close>

definition push_free :: "u32 \<Rightarrow> u32 \<Rightarrow> kheap \<Rightarrow> kheap" where
  "push_free a n s = s\<lparr>mem := updateCheckSum a (set_uiNextAUTAddress a (uiAUTAddress s)
     (set_uiSize a n (set_uiReturnAddress a 0 (set_uiAllocatedAddress a a (mem s))))),
     uiAUTAddress := a\<rparr>"

lemma push_free_simps [simp]:
  "uiAUTAddress (push_free a n s) = a" "heap_lo (push_free a n s) = heap_lo s"
  "heap_hi (push_free a n s) = heap_hi s" "uiHeapStartAddress (push_free a n s) = uiHeapStartAddress s"
  "uiAllocatedAddress (mem (push_free a n s)) a = a" "uiReturnAddress (mem (push_free a n s)) a = 0"
  "uiSize (mem (push_free a n s)) a = n" "uiNextAUTAddress (mem (push_free a n s)) a = uiAUTAddress s"
  "hdr_ok (mem (push_free a n s)) a"
  "far a p \<Longrightarrow> aut_fields (mem (push_free a n s)) p = aut_fields (mem s) p"
  by (simp_all add: push_free_def heap_lo_def heap_hi_def)

lemma DeAllocate_raw:
  assumes h: "alloc_hdr (mem s) (a, n, st)" and lo: "heap_lo s \<le> a" and hi: "a + st + 20 < 2 ^ 32"
  shows "DMM_DeAllocateForKernel (w32 (a + st + 20)) s = (Inr DMM_SUCCESS, push_free (w32 a) (w32 n) s)"
proof -
  have u: "unat (w32 (a + st + 20)) = a + st + 20" using hi by (intro unat_w32)
  have ne: "w32 (a + st + 20) \<noteq> 0" using u by (metis add_is_0 unat_0 zero_neq_numeral)
  have gt: "\<not> w32 (a + st + 20) \<le> uiHeapStartAddress s"
    using lo u by (simp add: word_le_nat_alt heap_lo_def)
  have sub: "w32 (a + st + 20) - sizeof_AUT = w32 (a + st)" "w32 (a + st) - w32 st = w32 a"
    by (simp_all add: sizeof_AUT_def)
  have hd: "uiReturnAddress (mem s) (w32 (a + st)) = w32 (a + st + 20)"
    "uiSize (mem s) (w32 (a + st)) = w32 n" "uiByteStuffForAlign (mem s) (w32 (a + st)) = w32 st"
    "hdr_ok (mem s) (w32 (a + st))"
    using h by (auto simp: alloc_hdr_def)
  show ?thesis
    using ne gt hd sub unfolding DMM_DeAllocateForKernel_def Let_def push_free_def
    by (simp only: hdr_ok_def if_False if_True not_True_eq_False HOL.simp_thms)
qed

lemma DeAllocateForKernel_run:
  assumes inv: "heap_inv s F (A1 @ (a, n, st) # A2)"
  shows "DMM_DeAllocateForKernel (w32 (a + st + 20)) s = (Inr DMM_SUCCESS, push_free (w32 a) (w32 n) s) \<and>
    heap_inv (push_free (w32 a) (w32 n) s) ((a, n) # F) (A1 @ A2)"
proof -
  let ?A = "A1 @ (a, n, st) # A2"
  have wi: "\<And>x. x \<in> set (F @ map extent ?A) \<Longrightarrow> within (heap_lo s) (heap_hi s) x"
    and so: "sorted_wrt sep (F @ map extent ?A)" and sg: "seg (mem s) (uiAUTAddress s) F 0"
    and ah: "\<And>x. x \<in> set ?A \<Longrightarrow> alloc_hdr (mem s) x"
    and lo: "0 < heap_lo s" "heap_hi s + 20 \<le> 2 ^ 32"
    and su: "sum_list (map snd (F @ map extent ?A)) = 0x3000000"
    using inv by (auto simp: heap_inv_def)
  have w: "within (heap_lo s) (heap_hi s) (a, n)" and h: "alloc_hdr (mem s) (a, n, st)"
    using heap_inv_within_alloc[OF inv] by auto
  have bd: "a + st + 20 < 2 ^ 32" "heap_lo s \<le> a" using w h lo by (auto simp: within_def alloc_hdr_def)
  have run: "DMM_DeAllocateForKernel (w32 (a + st + 20)) s = (Inr DMM_SUCCESS, push_free (w32 a) (w32 n) s)"
    using h bd by (intro DeAllocate_raw) auto
  define t where "t = push_free (w32 a) (w32 n) s"
  have keep: "aut_fields (mem t) p = aut_fields (mem s) p" if "far (w32 a) p" for p
    using that by (simp add: t_def)
  have sepx: "sep (a, n) x" if "x \<in> set (F @ map extent (A1 @ A2))" for x
    using so that sep_sym by (auto simp: sorted_wrt_append extent_def)
  have farF: "far (w32 a) (w32 b)" if "(b, l) \<in> set F" for b l
    using far_blocks[of a n b l 0 0] sepx[of "(b, l)"] wi[of "(b, l)"] w that lo by (auto simp: within_def)
  have farA: "far (w32 a) (w32 (b + j))" if "(b, l, j) \<in> set (A1 @ A2)" for b l j
  proof -
    have e: "(b, l) \<in> set (map extent (A1 @ A2))" using that by (force simp: extent_def)
    have "j + 20 \<le> l" using ah[of "(b, l, j)"] that by (auto simp: alloc_hdr_def)
    then show ?thesis
      using far_blocks[of a n b l 0 j] sepx[of "(b, l)"] wi[of "(b, l)"] w e lo by (auto simp: within_def)
  qed
  have "unat (w32 a) = a" using bd by (intro unat_w32) simp
  then have a0: "w32 a \<noteq> 0" using bd lo by (auto simp: word_unat_eq_iff)
  have "seg (mem t) (uiAUTAddress s) F 0" using sg seg_cong[of F "mem t" "mem s"] keep farF by blast
  then have "seg (mem t) (uiAUTAddress t) ((a, n) # F) 0" using a0 by (simp add: t_def)
  moreover have "alloc_hdr (mem t) x" if "x \<in> set (A1 @ A2)" for x
  proof -
    obtain b l j where x: "x = (b, l, j)" by (cases x) auto
    have "aut_fields (mem t) (w32 (b + j)) = aut_fields (mem s) (w32 (b + j))"
      using keep farA that x by blast
    then have "alloc_hdr (mem t) x = alloc_hdr (mem s) x" unfolding x by (rule alloc_hdr_cong)
    then show ?thesis using ah[of x] that by auto
  qed
  moreover have "sorted_wrt sep ((a, n) # F @ map extent (A1 @ A2))"
    using so sepx by (auto simp: sorted_wrt_append)
  moreover have "heap_lo t = heap_lo s" by (simp add: t_def heap_lo_def)
  moreover have "\<forall>x \<in> set ((a, n) # F @ map extent (A1 @ A2)). within (heap_lo s) (heap_hi s) x"
    using wi w by auto
  moreover have "sum_list (map snd ((a, n) # F @ map extent (A1 @ A2))) = 0x3000000"
    using su by (simp add: extent_def)
  ultimately have "heap_inv t ((a, n) # F) (A1 @ A2)"
    unfolding heap_inv_def using lo by (simp del: seg.simps add: heap_hi_def)
  then show ?thesis using run by (simp add: t_def)
qed

section \<open>What the heap promises its clients\<close>





section \<open>Every run of the heap\<close>







section \<open>Double frees\<close>

text \<open>A walk that comes back to the same block in the same state does not end.\<close>

lemma alloc_walk_loop:
  assumes "a \<noteq> 0" "uiNextAUTAddress (mem s) a = a" "hdr_ok (mem s) a"
    and big: "\<not> sz + sizeof_AUT + DMM_GetByteStuffForAlign (uiAllocatedAddress (mem s) a + sizeof_AUT) al \<le> uiSize (mem s) a"
  shows "alloc_walk sz al a p s = None"
proof -
  let ?P = "\<lambda>sz' al' a' p' s' r. \<not> (sz' = sz \<and> al' = al \<and> a' = a \<and> s' = s)"
  have "?P sz' al' a' p' s' r" if "alloc_walk sz' al' a' p' s' = Some r" for sz' al' a' p' s' r
    using that
  proof (rule alloc_walk.raw_induct[where P = ?P, rotated])
    fix w sz' al' a' p' s' r
    assume ih: "\<And>sz' al' a' p' s' r. w sz' al' a' p' s' = Some r \<Longrightarrow> ?P sz' al' a' p' s' r"
      and run: "(if a' \<noteq> 0
        then let uiAddress = uiAllocatedAddress (mem s') a'; uiMaxSize = uiSize (mem s') a';
                 uiNext = uiNextAUTAddress (mem s') a';
                 stuff = DMM_GetByteStuffForAlign (uiAddress + sizeof_AUT) al';
                 k = sz' + sizeof_AUT + stuff
             in if calculateCheckSum (mem s') a' \<noteq> uiCheckSum (mem s') a' then Some (Inl HeapCorrupted, s')
                else if k \<le> uiMaxSize
                then Some (case carve p' uiAddress uiMaxSize uiNext stuff k s' of (r, t) \<Rightarrow> (Inr r, t))
                else w sz' al' uiNext a' s'
        else Some (Inl OutOfMemory, s')) = Some r"
    show "?P sz' al' a' p' s' r"
    proof
      assume e: "sz' = sz \<and> al' = al \<and> a' = a \<and> s' = s"
      then have "w sz al a a s = Some r" using run assms by (simp add: Let_def hdr_ok_def)
      then show False using ih by blast
    qed
  qed
  then have "alloc_walk sz al a p s \<noteq> Some r" for r by blast
  then show ?thesis by (metis not_Some_eq)
qed

section \<open>A heap to try things on\<close>

definition boot_heap :: kheap where
  "boot_heap = init_heap \<lparr>mem = \<lambda>_. 0, uiAUTAddress = 0, uiHeapStartAddress = 0x2000000, dmm_alloc_count = 0\<rparr>"


lemma boot_heap_inv: "heap_inv boot_heap [(0x2000000, 0x3000000)] []"
  using init_heap_inv[of "\<lparr>mem = \<lambda>_. 0, uiAUTAddress = 0, uiHeapStartAddress = 0x2000000, dmm_alloc_count = 0\<rparr>"]
  by (simp add: boot_heap_def heap_lo_def heap_hi_def)


lemma boot_heap_alloc:
  assumes "DMM_CheckAlignNumber al" "unat sz + 20 + unat al < 2 ^ 32" "fits sz al (0x2000000, 0x3000000)"
  shows "\<exists>t. DMM_AllocateForKernel sz al boot_heap = Some (Inr (w32 (0x2000000 + stuffing al 0x2000000 + 20)), t) \<and>
    heap_inv t (rest_block 0x2000000 0x3000000 (need sz al 0x2000000))
      [(0x2000000, granted 0x3000000 (need sz al 0x2000000), stuffing al 0x2000000)]"
proof (cases rule: AllocateForKernel_cases[OF boot_heap_inv _ assms(1,2), case_names ne none found])
  case (found F1 a n F2 t)
  then have "F1 = [] \<and> a = 0x2000000 \<and> n = 0x3000000 \<and> F2 = []" by (cases F1) auto
  then show ?thesis using found(4,6) by auto
qed (use assms(3) in auto)

section \<open>Properties\<close>





text \<open>freeing a live block of the kernel heap succeeds and makes exactly that block free, in front
  of the free list; freeing the same address again is reported as a double delete when the block
  had no alignment stuffing.\<close>

theorem DMM_DeAllocateForKernel_frees:
  assumes "heap_inv s F (A1 @ (a, n, st) # A2)"
  shows "\<exists>t. DMM_DeAllocateForKernel (w32 (a + st + 20)) s = (Inr DMM_SUCCESS, t) \<and>
    heap_inv t ((a, n) # F) (A1 @ A2) \<and>
    (st = 0 \<longrightarrow> DMM_DeAllocateForKernel (w32 (a + st + 20)) t = (Inl DoubleDelete, t))"
proof -
  let ?t = "push_free (w32 a) (w32 n) s"
  note run = DeAllocateForKernel_run[OF assms]
  have w: "within (heap_lo s) (heap_hi s) (a, n)" "heap_hi s + 20 \<le> 2 ^ 32"
    using heap_inv_within_alloc[OF assms] assms by (auto simp: heap_inv_def)
  then have bd: "a + 20 < 2 ^ 32" "heap_lo s \<le> a" by (auto simp: within_def)
  have u: "unat (w32 (a + 20)) = a + 20" using bd by (intro unat_w32)
  have "w32 (a + 20) \<noteq> 0" using u by (metis add_is_0 unat_0 zero_neq_numeral)
  moreover have "\<not> w32 (a + 20) \<le> uiHeapStartAddress s" using bd u by (simp add: word_le_nat_alt heap_lo_def)
  moreover have "w32 (a + 20) - sizeof_AUT = w32 a" by (simp add: sizeof_AUT_def)
  moreover have "hdr_ok (mem ?t) (w32 a)" "uiReturnAddress (mem ?t) (w32 a) = 0" by simp_all
  ultimately have "DMM_DeAllocateForKernel (w32 (a + 20)) ?t = (Inl DoubleDelete, ?t)"
    unfolding DMM_DeAllocateForKernel_def Let_def hdr_ok_def by (simp add: throw_def)
  then show ?thesis using run by auto
qed

text \<open>C30: a double free of a block with at least twenty bytes of alignment stuffing is not noticed.
  Both calls succeed, the block becomes its own successor in the free list, and a later allocation
  that does not fit into it never returns.\<close>

theorem aligned_double_free_hangs:
  assumes "heap_inv s F (A1 @ (a, n, st) # A2)" "20 \<le> st"
  shows "\<exists>t u. DMM_DeAllocateForKernel (w32 (a + st + 20)) s = (Inr DMM_SUCCESS, t) \<and>
    DMM_DeAllocateForKernel (w32 (a + st + 20)) t = (Inr DMM_SUCCESS, u) \<and>
    (\<forall>sz. n < unat sz + 20 \<and> unat sz + 20 < 2 ^ 32 \<longrightarrow> DMM_AllocateForKernel sz 0 u = None)"
proof -
  let ?t = "push_free (w32 a) (w32 n) s" let ?u = "push_free (w32 a) (w32 n) ?t"
  note run = DeAllocateForKernel_run[OF assms(1)]
  have w: "within (heap_lo s) (heap_hi s) (a, n)" "heap_hi s + 20 \<le> 2 ^ 32" "0 < heap_lo s"
    and h: "alloc_hdr (mem s) (a, n, st)"
    using heap_inv_within_alloc[OF assms(1)] assms(1) by (auto simp: heap_inv_def)
  have bd: "a + st + 20 < 2 ^ 32" "heap_lo s \<le> a" "n < 2 ^ 32"
    using w h by (auto simp: within_def alloc_hdr_def)
  have "far (w32 a) (w32 (a + st))" using assms(2) bd by (intro far_nat) auto
  then have "alloc_hdr (mem ?t) (a, n, st)" using h alloc_hdr_cong push_free_simps(10) by blast
  then have second: "DMM_DeAllocateForKernel (w32 (a + st + 20)) ?t = (Inr DMM_SUCCESS, ?u)"
    using bd by (intro DeAllocate_raw) auto
  have "unat (w32 a) = a" using bd by (intro unat_w32) simp
  then have a0: "w32 a \<noteq> 0" using bd w(3) by (metis gr_implies_not0 le_zero_eq unat_0)
  have "DMM_AllocateForKernel sz 0 ?u = None" if sz: "n < unat sz + 20" "unat sz + 20 < 2 ^ 32" for sz
  proof -
    have "unat (sz + 20) = unat sz + 20" using sz(2) by (subst unat_plus_simple[THEN iffD1]) (auto simp: word_le_nat_alt unat_word_ariths)
    then have big: "\<not> sz + 20 \<le> w32 n" using sz(1) unat_w32[OF bd(3)] by (simp add: word_le_nat_alt)
    have "uiAUTAddress ?u \<noteq> 0" "DMM_CheckAlignNumber 0" using a0 by (simp_all add: DMM_CheckAlignNumber_def)
    note AllocateForKernel_walk[OF this(2,1), of sz]
    also have "alloc_walk sz 0 (uiAUTAddress ?u) 0 (bump ?u) = None"
      using a0 big by (intro alloc_walk_loop) (simp_all add: DMM_GetByteStuffForAlign_def sizeof_AUT_def)
    finally show ?thesis .
  qed
  then show ?thesis using run second by blast
qed

lemma aligned_double_free_hangs_witness:
  "\<exists>s t u. DMM_DeAllocateForKernel 0x2000080 s = (Inr DMM_SUCCESS, t) \<and>
     DMM_DeAllocateForKernel 0x2000080 t = (Inr DMM_SUCCESS, u) \<and> DMM_AllocateForKernel 209 0 u = None"
proof -
  have "DMM_CheckAlignNumber 128" "stuffing 128 0x2000000 = 108"
    by (simp_all add: DMM_CheckAlignNumber_def IsPowerOfTwo_def stuffing_def)
  moreover from this have "fits 100 128 (0x2000000, 0x3000000)" "need 100 128 0x2000000 = 228"
    by (simp_all add: fits_def need_def)
  ultimately obtain F s where "heap_inv s F ([] @ (0x2000000, 228, 108) # [])"
    using boot_heap_alloc[of 128 100] by (auto simp: granted_def)
  from aligned_double_free_hangs[OF this] show ?thesis by fastforce
qed

text \<open>C31: once the last free block has been handed out, the next allocation does not report that
  memory is exhausted: the empty free list is taken for a heap that was never set up, the whole heap
  becomes one free block again and the caller gets memory at its start although every byte of the
  heap belongs to live blocks.\<close>

theorem exhausted_heap_reused:
  assumes "heap_inv s [] A" "unat sz + 20 \<le> 0x3000000"
  shows "\<exists>t. DMM_AllocateForKernel sz 0 s = Some (Inr (uiHeapStartAddress s + 20), t) \<and>
    sum_list (map snd (map extent A)) = 0x3000000 \<and>
    (\<forall>b \<in> set A. within (heap_lo s) (heap_hi s) (extent b))"
proof -
  have z: "uiAUTAddress s = 0" using heap_inv_free_head[OF assms(1)] by simp
  have b: "0 < heap_lo s" "heap_hi s + 20 \<le> 2 ^ 32" using assms(1) by (auto simp: heap_inv_def)
  let ?i = "init_heap (bump s)"
  have lo: "heap_lo ?i = heap_lo s" by (simp add: init_heap_def Let_def heap_lo_def)
  have inv: "heap_inv ?i [(heap_lo s, 0x3000000)] []"
    using init_heap_inv[of "bump s"] z b by (simp add: heap_hi_def)
  have nz: "uiAUTAddress ?i \<noteq> 0" using heap_inv_free_head[OF inv] by simp
  have f: "fits sz 0 (heap_lo s, 0x3000000)" using assms(2) by (simp add: fits_def need_def stuffing_def)
  have nov: "unat sz + 20 + unat (0 :: u32) < 2 ^ 32" using assms(2) by simp
  have run: "DMM_AllocateForKernel sz 0 s = alloc_walk sz 0 (uiAUTAddress ?i) 0 ?i"
    by (simp add: DMM_AllocateForKernel_def DMM_CheckAlignNumber_def Let_def bump_def)
  have "\<exists>t. alloc_walk sz 0 (uiAUTAddress ?i) 0 ?i = Some (Inr (w32 (heap_lo s + 20)), t)"
  proof (cases rule: walk_inv[OF inv nov, case_names none found])
    case none
    then show ?thesis using f by simp
  next
    case (found F1 a n F2 t)
    then have "a = heap_lo s" by (cases F1) auto
    moreover have "stuffing 0 a = 0" by (simp add: stuffing_def)
    ultimately show ?thesis using found(4) by simp
  qed
  moreover have "w32 (heap_lo s + 20) = uiHeapStartAddress s + 20" by (simp add: heap_lo_def)
  ultimately show ?thesis using run assms(1) by (auto simp: heap_inv_def)
qed

lemma exhausted_heap_reused_witness:
  "\<exists>s t. DMM_AllocateForKernel 0x2FFFFEC 0 boot_heap = Some (Inr 0x2000014, s) \<and>
     (\<exists>q. DMM_AllocateForKernel 8 0 s = Some (Inr q, t) \<and> q = uiHeapStartAddress s + 20)"
proof -
  have "DMM_CheckAlignNumber 0" "fits 0x2FFFFEC 0 (0x2000000, 0x3000000)" "stuffing 0 0x2000000 = 0"
    "need 0x2FFFFEC 0 0x2000000 = 0x3000000"
    by (simp_all add: DMM_CheckAlignNumber_def fits_def need_def stuffing_def)
  with boot_heap_alloc[of 0 "0x2FFFFEC"] obtain s where
    "DMM_AllocateForKernel 0x2FFFFEC 0 boot_heap = Some (Inr 0x2000014, s)" "heap_inv s [] [(0x2000000, 0x3000000, 0)]"
    by (auto simp: granted_def rest_block_def)
  with exhausted_heap_reused[OF this(2), of 8] show ?thesis by auto
qed

lemma carve_19: "fst (carve 0 a n nx 0 19 s) = a + 20"
  by (simp add: carve_def Let_def link_prev_def sizeof_AUT_def getters setters updateCheckSum_def
    rd32_wr32_far far4_def)

text \<open>A request so large that adding the tracker wraps around succeeds: asked for 4294967295
  bytes, the heap returns the payload address of a block of nineteen bytes, its tracker included.\<close>

theorem huge_request_succeeds:
  assumes "heap_inv s ((a, n) # F) A"
  shows "\<exists>t. DMM_AllocateForKernel (- 1) 0 s = Some (Inr (w32 (a + 20)), t)"
proof -
  have w: "within (heap_lo s) (heap_hi s) (a, n)" "heap_hi s + 20 \<le> 2 ^ 32" and
    sg: "seg (mem s) (uiAUTAddress s) ((a, n) # F) 0"
    using assms by (auto simp: heap_inv_def)
  have h: "uiAUTAddress s = w32 a" "w32 a \<noteq> 0" "uiAllocatedAddress (mem s) (w32 a) = w32 a"
    "uiSize (mem s) (w32 a) = w32 n" "hdr_ok (mem s) (w32 a)"
    using sg by auto
  have "n < 2 ^ 32" "20 \<le> n" using w by (auto simp: within_def)
  then have "19 \<le> w32 n" using unat_w32 by (simp add: word_le_nat_alt)
  moreover obtain r t where "carve 0 (w32 a) (w32 n) (uiNextAUTAddress (mem s) (w32 a)) 0 19 (bump s) = (r, t)"
    "r = w32 a + 20"
    using carve_19 by (metis prod.exhaust_sel)
  ultimately have "\<exists>t. alloc_walk (- 1) 0 (w32 a) 0 (bump s) = Some (Inr (w32 a + 20), t)"
    using h by (subst alloc_walk.simps)
      (simp add: Let_def DMM_GetByteStuffForAlign_def sizeof_AUT_def hdr_ok_def)
  then show ?thesis
    using AllocateForKernel_walk[of 0 s "- 1"] h(1,2) by (simp add: DMM_CheckAlignNumber_def)
qed

end
