(* ===== verification/DiskStore.thy ===== *)
theory DiskStore
  imports Prelude "HOL-Library.Multiset"
begin

text \<open>
  The block device of a drive and its write-back sector cache: \<open>drivers/DeviceDrive.cpp\<close> (\<open>DiskDrive\<close>)
  and \<open>drivers/DiskCache.{h,cpp}\<close> (\<open>DiskCache\<close>, \<open>DiskCacheValue\<close>, \<open>LFUSectorManager\<close>).

  A cached value is a slot of the value pool, because \<open>Read\<close>, \<open>Write\<close> and the dirty list keep
  pointers to values while the tree may release them. The containers of the upan library are not part
  of the repository: the B-tree, the memory pool and the sorted list are the parameter \<open>cache_lib\<close>, and
  \<open>lib_ok\<close> states what the code relies on. Lists are plain lists. The drivers below \<open>RawRead\<close> and
  \<open>RawWrite\<close> are a map of sectors with a set of sectors whose transfer fails.
\<close>

section \<open>State\<close>

type_synonym sector = "u8 list"

datatype DEVICE_TYPE = DEV_FLOPPY | DEV_ATA_IDE | DEV_SCSI_USB_DISK | DEV_OTHER

datatype io_error = IoFailure | InvalidDeviceType | NullPointer | PoolExhausted

record DiskCacheValue =
  m_uiLastAccess :: u32
  m_uiHitCount :: u32
  m_bSectorBuffer :: sector

text \<open>The rank of the LFU list is the quotient \<open>time / hits\<close>, kept here as an exact fraction.\<close>

record CacheRankNode =
  rank_SectorID :: u32
  rank_time :: u32
  rank_hits :: u32

definition rank_le :: "CacheRankNode \<Rightarrow> CacheRankNode \<Rightarrow> bool" where
  "rank_le x y \<longleftrightarrow> unat (rank_time x) * unat (rank_hits y) \<le> unat (rank_time y) * unat (rank_hits x)"

record cache_lib =
  bt_find :: "(u32 \<times> nat) list \<Rightarrow> u32 \<Rightarrow> nat option"
  bt_insert :: "(u32 \<times> nat) list \<Rightarrow> u32 \<Rightarrow> nat \<Rightarrow> (u32 \<times> nat) list option"
  bt_delete :: "(u32 \<times> nat) list \<Rightarrow> u32 \<Rightarrow> (u32 \<times> nat) list option"
  pool_create :: "nat list \<Rightarrow> nat option"
  sorted_insert_asc :: "CacheRankNode \<Rightarrow> CacheRankNode list \<Rightarrow> CacheRankNode list"

record drive =
  deviceType :: DEVICE_TYPE
  LBAStartSector :: u32
  disk :: "u32 \<Rightarrow> sector"
  bad_sectors :: "u32 list"
  bEnableDiskCache :: bool
  tree :: "(u32 \<times> nat) list"          \<comment> \<open>what an in-order traversal visits\<close>
  slots :: "nat \<Rightarrow> DiskCacheValue"     \<comment> \<open>the value pool's memory\<close>
  pool_used :: "nat list"
  dirtyCacheList :: "(u32 \<times> nat) list"
  ReleaseList :: "CacheRankNode list"
  bReleaseListBuilt :: bool
  ClockCount :: u32

definition MAX_CACHE_SECTORS :: nat where "MAX_CACHE_SECTORS = 32"
definition uiMaxRelListSize :: nat where "uiMaxRelListSize = 3"

section \<open>The cache\<close>

definition value_Read :: "nat \<Rightarrow> drive \<Rightarrow> sector \<times> drive" where
  "value_Read i s =
     (let v = slots s i in
      (m_bSectorBuffer v, s\<lparr>slots := (slots s)(i := v\<lparr>m_uiHitCount := m_uiHitCount v + 1,
          m_uiLastAccess := ClockCount s\<rparr>)\<rparr>))"

definition value_Write :: "nat \<Rightarrow> sector \<Rightarrow> drive \<Rightarrow> drive" where
  "value_Write i b s =
     (let v = slots s i in
      s\<lparr>slots := (slots s)(i := v\<lparr>m_bSectorBuffer := b, m_uiHitCount := m_uiHitCount v + 1,
          m_uiLastAccess := ClockCount s\<rparr>)\<rparr>)"

definition Full :: "drive \<Rightarrow> bool" where
  "Full s \<longleftrightarrow> MAX_CACHE_SECTORS \<le> length (tree s)"

definition Find :: "cache_lib \<Rightarrow> drive \<Rightarrow> u32 \<Rightarrow> nat option" where
  "Find L s x = bt_find L (tree s) x"

definition CreateValue :: "cache_lib \<Rightarrow> sector \<Rightarrow> drive \<Rightarrow> (nat \<times> drive) option" where
  "CreateValue L b s =
     (case pool_create L (pool_used s) of
        None \<Rightarrow> None
      | Some i \<Rightarrow> Some (i, value_Write i b (s\<lparr>pool_used := i # pool_used s,
          slots := (slots s)(i := \<lparr>m_uiLastAccess = ClockCount s, m_uiHitCount = 1,
            m_bSectorBuffer = m_bSectorBuffer (slots s i)\<rparr>)\<rparr>)))"

text \<open>The outer option is the pool running out of values, the inner the tree refusing the key.\<close>

definition Add :: "cache_lib \<Rightarrow> u32 \<Rightarrow> sector \<Rightarrow> drive \<Rightarrow> (nat option \<times> drive) option" where
  "Add L x b s =
     (case CreateValue L b s of
        None \<Rightarrow> None
      | Some (i, t) \<Rightarrow>
          Some (case bt_insert L (tree t) x i of
              None \<Rightarrow> (None, t)
            | Some tr \<Rightarrow> (Some i, t\<lparr>tree := tr\<rparr>)))"

definition InsertToDirtyList :: "u32 \<times> nat \<Rightarrow> drive \<Rightarrow> drive" where
  "InsertToDirtyList v s =
     (if fst v \<in> set (map fst (dirtyCacheList s)) then s
      else s\<lparr>dirtyCacheList := dirtyCacheList s @ [v]\<rparr>)"

definition Get :: "drive \<Rightarrow> ((u32 \<times> nat) \<times> drive) option" where
  "Get s = (case dirtyCacheList s of [] \<Rightarrow> None | v # vs \<Rightarrow> Some (v, s\<lparr>dirtyCacheList := vs\<rparr>))"

section \<open>The LFU list\<close>

text \<open>\<open>LFUSectorManager::operator()\<close>, the visitor of the in-order traversal.\<close>

definition lfu_visit :: "cache_lib \<Rightarrow> u32 \<times> nat \<Rightarrow> drive \<Rightarrow> drive" where
  "lfu_visit L kv s =
     (if fst kv \<in> set (map fst (dirtyCacheList s)) then s
      else let v = slots s (snd kv);
               node = \<lparr>rank_SectorID = fst kv, rank_time = ClockCount s - m_uiLastAccess v,
                       rank_hits = m_uiHitCount v\<rparr>
           in if length (ReleaseList s) = uiMaxRelListSize
              then if rank_le node (last (ReleaseList s)) then s
                   else s\<lparr>ReleaseList := sorted_insert_asc L node (butlast (ReleaseList s))\<rparr>
              else s\<lparr>ReleaseList := sorted_insert_asc L node (ReleaseList s)\<rparr>)"

definition LFU_Run :: "cache_lib \<Rightarrow> drive \<Rightarrow> drive" where
  "LFU_Run L s =
     (if \<not> Full s then s
      else if bReleaseListBuilt s then s
      else let t = fold (lfu_visit L) (tree s) s
           in if length (ReleaseList t) = uiMaxRelListSize then t\<lparr>bReleaseListBuilt := True\<rparr> else t)"

text \<open>The first sector of the release list that is not dirty, and what is left of the list.\<close>

fun pop_clean :: "(u32 \<times> nat) list \<Rightarrow> CacheRankNode list \<Rightarrow> CacheRankNode option \<times> CacheRankNode list" where
  "pop_clean d [] = (None, [])"
| "pop_clean d (n # ns) = (if rank_SectorID n \<in> set (map fst d) then pop_clean d ns else (Some n, ns))"

definition ReplaceCache :: "cache_lib \<Rightarrow> u32 \<Rightarrow> sector \<Rightarrow> (drive, io_error, bool) comp" where
  "ReplaceCache L x b s =
     (if \<not> bReleaseListBuilt s then (Inr True, s)
      else if ReleaseList s = [] then (Inr True, s\<lparr>bReleaseListBuilt := False\<rparr>)
      else case pop_clean (dirtyCacheList s) (ReleaseList s) of
          (None, rest) \<Rightarrow> (Inr True, s\<lparr>ReleaseList := rest, bReleaseListBuilt := False\<rparr>)
        | (Some node, rest) \<Rightarrow>
            (let s1 = s\<lparr>ReleaseList := rest\<rparr> in
             case bt_delete L (tree s1) (rank_SectorID node) of
               None \<Rightarrow> (Inr False, s1)
             | Some tr \<Rightarrow>
                 (let gone = (case bt_find L (tree s1) (rank_SectorID node) of None \<Rightarrow> [] | Some i \<Rightarrow> [i]);
                      s2 = s1\<lparr>tree := tr, pool_used := filter (\<lambda>i. i \<notin> set gone) (pool_used s1)\<rparr>
                  in case CreateValue L b s2 of
                       None \<Rightarrow> (Inl PoolExhausted, s2)
                     | Some (i, s3) \<Rightarrow>
                         (case bt_insert L (tree s3) x i of
                            None \<Rightarrow> (Inr False, s3)
                          | Some tr' \<Rightarrow>
                              (Inr True, s3\<lparr>tree := tr',
                                 bReleaseListBuilt := (if ReleaseList s3 = [] then False else bReleaseListBuilt s3)\<rparr>)))))"

section \<open>Transfers to and from the device\<close>

text \<open>A transfer works on the drive and the caller's buffer, a list of sectors.\<close>

type_synonym xfer = "drive \<times> sector list"

definition known_device :: "DEVICE_TYPE \<Rightarrow> bool" where
  "known_device d \<longleftrightarrow> d = DEV_FLOPPY \<or> d = DEV_ATA_IDE \<or> d = DEV_SCSI_USB_DISK"

definition RawRead :: "u32 \<Rightarrow> u32 \<Rightarrow> nat \<Rightarrow> (xfer, io_error, unit) comp" where
  "RawRead start n idx = (\<lambda>(s, buf).
     if \<not> known_device (deviceType s) then throw InvalidDeviceType (s, buf)
     else if \<exists>x \<in> set (range32 start (start + n)). x \<in> set (bad_sectors s) then throw IoFailure (s, buf)
     else ret () (s, take idx buf @ map (disk s) (range32 start (start + n)) @ drop (idx + unat n) buf))"

definition write_one :: "(u32 \<times> sector) \<Rightarrow> (drive, io_error, unit) comp" where
  "write_one xb s =
     (if fst xb \<in> set (bad_sectors s) then throw IoFailure s
      else ret () (s\<lparr>disk := (disk s)(fst xb := snd xb)\<rparr>))"

definition RawWrite :: "u32 \<Rightarrow> u32 \<Rightarrow> sector list \<Rightarrow> (drive, io_error, unit) comp" where
  "RawWrite start n data s =
     (if \<not> known_device (deviceType s) then throw InvalidDeviceType s
      else for_each write_one (zip (range32 start (start + n)) data) s)"

section \<open>Reading and writing through the cache\<close>

definition read_hit :: "u32 \<Rightarrow> nat option list \<Rightarrow> u32 \<Rightarrow> (xfer, io_error, unit) comp" where
  "read_hit start cv x = (\<lambda>(s, buf).
     let i = unat (x - start) in
     case cv ! i of
       None \<Rightarrow> throw NullPointer (s, buf)
     | Some p \<Rightarrow> (case value_Read p s of (b, t) \<Rightarrow> ret () (t, buf[i := b])))"

fun read_fill :: "cache_lib \<Rightarrow> u32 \<Rightarrow> nat option list \<Rightarrow> u32 list \<Rightarrow> (xfer, io_error, unit) comp" where
  "read_fill L start cv [] st = ret () st"
| "read_fill L start cv (x # xs) (s, buf) =
     (let i = unat (x - start) in
      case cv ! i of
        None \<Rightarrow>
          if Full s
          then (case ReplaceCache L x (buf ! i) s of
                  (Inl e, t) \<Rightarrow> (Inl e, (t, buf))
                | (Inr False, t) \<Rightarrow> ret () (t\<lparr>bEnableDiskCache := False\<rparr>, buf)
                | (Inr True, t) \<Rightarrow> read_fill L start cv xs (t, buf))
          else (case Add L x (buf ! i) s of
                  None \<Rightarrow> throw PoolExhausted (s, buf)
                | Some (None, t) \<Rightarrow> ret () (t\<lparr>bEnableDiskCache := False\<rparr>, buf)
                | Some (Some p, t) \<Rightarrow> read_fill L start cv xs (t, buf))
      | Some p \<Rightarrow> andThen (read_hit start cv x) (\<lambda>_. read_fill L start cv xs) (s, buf))"

text \<open>The first and the last sector that is not cached; both are the end of the request if all are.\<close>

definition breaks :: "cache_lib \<Rightarrow> drive \<Rightarrow> u32 \<Rightarrow> u32 \<Rightarrow> u32 \<times> u32" where
  "breaks L s start end =
     (let missing = filter (\<lambda>x. Find L s x = None) (range32 start end)
      in if missing = [] then (end, end) else (hd missing, last missing))"

definition DiskDrive_Read :: "cache_lib \<Rightarrow> u32 \<Rightarrow> u32 \<Rightarrow> (xfer, io_error, unit) comp" where
  "DiskDrive_Read L uiStartSector n = (\<lambda>(s, buf).
     let start = uiStartSector + LBAStartSector s in
     if \<not> bEnableDiskCache s then RawRead start n 0 (s, buf)
     else
       let end = start + n;
           cv = map (Find L s) (range32 start end)
       in case breaks L s start end of
          (firstBreak, lastBreak) \<Rightarrow>
            andThen (for_each (read_hit start cv) (range32 start firstBreak)) (\<lambda>_.
            andThen (for_each (read_hit start cv) (range32 (lastBreak + 1) end)) (\<lambda>_.
            if firstBreak < end
            then andThen (RawRead firstBreak (lastBreak - firstBreak + 1) (unat (firstBreak - start)))
                   (\<lambda>_. read_fill L start cv (range32 firstBreak (lastBreak + 1)))
            else ret ())) (s, buf))"

definition write_hit :: "u32 \<Rightarrow> nat option list \<Rightarrow> sector list \<Rightarrow> u32 \<Rightarrow> (drive, io_error, unit) comp" where
  "write_hit start cv data x s =
     (let i = unat (x - start) in
      case cv ! i of
        None \<Rightarrow> throw NullPointer s
      | Some p \<Rightarrow> ret () (InsertToDirtyList (x, p) (value_Write p (data ! i) s)))"

fun write_fill ::
    "cache_lib \<Rightarrow> u32 \<Rightarrow> nat option list \<Rightarrow> sector list \<Rightarrow> u32 \<Rightarrow> u32 \<Rightarrow> u32 list \<Rightarrow> (drive, io_error, unit) comp" where
  "write_fill L start cv data fb lb [] s = ret () s"
| "write_fill L start cv data fb lb (x # xs) s =
     (let i = unat (x - start) in
      case cv ! i of
        None \<Rightarrow>
          if Full s
          then (case RawWrite x 1 [data ! i] s of
                  (Inl e, t) \<Rightarrow> (Inl e, t)
                | (Inr _, t) \<Rightarrow>
                    (case ReplaceCache L x (data ! i) t of
                       (Inl e, u) \<Rightarrow> (Inl e, u)
                     | (Inr False, u) \<Rightarrow>
                         RawWrite fb (lb - fb + 1) (drop i data) (u\<lparr>bEnableDiskCache := False\<rparr>)
                     | (Inr True, u) \<Rightarrow> write_fill L start cv data fb lb xs u))
          else (case Add L x (data ! i) s of
                  None \<Rightarrow> throw PoolExhausted s
                | Some (None, t) \<Rightarrow> ret () (t\<lparr>bEnableDiskCache := False\<rparr>)
                | Some (Some p, t) \<Rightarrow> write_fill L start cv data fb lb xs (InsertToDirtyList (x, p) t))
      | Some p \<Rightarrow> andThen (write_hit start cv data x) (\<lambda>_. write_fill L start cv data fb lb xs) s)"

definition DiskDrive_Write :: "cache_lib \<Rightarrow> u32 \<Rightarrow> u32 \<Rightarrow> sector list \<Rightarrow> (drive, io_error, unit) comp" where
  "DiskDrive_Write L uiStartSector n data s =
     (let start = uiStartSector + LBAStartSector s in
      if \<not> bEnableDiskCache s then RawWrite start n data s
      else
        let end = start + n;
            cv = map (Find L s) (range32 start end)
        in case breaks L s start end of
           (firstBreak, lastBreak) \<Rightarrow>
             andThen (for_each (write_hit start cv data) (range32 start firstBreak)) (\<lambda>_.
             andThen (for_each (write_hit start cv data) (range32 (lastBreak + 1) end)) (\<lambda>_.
             if firstBreak < end
             then write_fill L start cv data firstBreak lastBreak (range32 firstBreak (lastBreak + 1))
             else ret ())) s)"

section \<open>Writing dirty sectors back\<close>

definition FlushSector :: "u32 \<Rightarrow> nat \<Rightarrow> drive \<Rightarrow> bool \<times> drive" where
  "FlushSector x p s =
     (case RawWrite x 1 [m_bSectorBuffer (slots s p)] s of (Inl e, t) \<Rightarrow> (False, t) | (Inr _, t) \<Rightarrow> (True, t))"

text \<open>\<open>iCount\<close> bounds the number of sectors; a negative one means all of them. The result is
  \<open>DiskCache_SUCCESS\<close> (\<open>True\<close>) or \<open>DiskCache_FAILURE\<close>.\<close>

function flush_loop :: "int \<Rightarrow> drive \<Rightarrow> bool \<times> drive" where
  "flush_loop iCount s =
     (if iCount = 0 then (True, s)
      else case Get s of
          None \<Rightarrow> (True, s)
        | Some ((x, p), t) \<Rightarrow>
            (case FlushSector x p t of
               (False, u) \<Rightarrow> (False, u)
             | (True, u) \<Rightarrow> flush_loop (iCount - 1) u))"
  by pat_completeness auto

lemma write_one_frame: "write_one xb s = (r, t) \<Longrightarrow> t = s\<lparr>disk := disk t\<rparr>"
  by (auto simp: write_one_def split: if_splits)

lemma for_each_write_frame: "for_each write_one xs s = (r, t) \<Longrightarrow> t = s\<lparr>disk := disk t\<rparr>"
proof (induction xs arbitrary: s)
  case (Cons x xs)
  obtain q u where q: "write_one x s = (q, u)" by fastforce
  note fu = write_one_frame[OF q]
  show ?case
  proof (cases q)
    case (Inl e)
    then have "t = u" using Cons.prems q by (simp add: andThen_def)
    then show ?thesis using fu by simp
  next
    case (Inr v)
    then have "for_each write_one xs u = (r, t)" using Cons.prems q by (simp add: andThen_def)
    from Cons.IH[OF this] fu show ?thesis by (cases s; cases t; cases u) simp
  qed
qed simp

lemma RawWrite_frame: "RawWrite a n d s = (r, t) \<Longrightarrow> t = s\<lparr>disk := disk t\<rparr>"
  using for_each_write_frame by (auto simp: RawWrite_def split: if_splits)

lemma FlushSector_frame: "FlushSector x p s = (r, t) \<Longrightarrow> t = s\<lparr>disk := disk t\<rparr>"
  using RawWrite_frame by (auto simp: FlushSector_def split: prod.splits sum.splits)

lemma FlushSector_dirty: "dirtyCacheList (snd (FlushSector x p s)) = dirtyCacheList s"
proof -
  obtain r t where f: "FlushSector x p s = (r, t)" by fastforce
  have "t = s\<lparr>disk := disk t\<rparr>" by (rule FlushSector_frame[OF f])
  then have "dirtyCacheList t = dirtyCacheList s" by (cases s; cases t) simp
  then show ?thesis using f by simp
qed

lemma FlushSector_dirty_eq: "(b, u) = FlushSector x p s \<Longrightarrow> dirtyCacheList u = dirtyCacheList s"
  by (metis FlushSector_dirty snd_conv)

lemma Get_shorter: "Get s = Some (v, t) \<Longrightarrow> length (dirtyCacheList t) < length (dirtyCacheList s)"
  by (auto simp: Get_def split: list.splits)

termination flush_loop
  by (relation "measure (\<lambda>(i, s). length (dirtyCacheList s))")
    (auto dest!: Get_shorter FlushSector_dirty_eq)

definition FlushDirtyCacheSectors :: "int \<Rightarrow> drive \<Rightarrow> bool \<times> drive" where
  "FlushDirtyCacheSectors iCount s = (if \<not> bEnableDiskCache s then (True, s) else flush_loop iCount s)"

declare flush_loop.simps [simp del]

section \<open>The library's behaviour and the cache's invariant\<close>

definition ordered :: "(u32 \<times> nat) list \<Rightarrow> bool" where
  "ordered t \<longleftrightarrow> sorted_wrt (<) (map fst t)"

definition lib_ok :: "cache_lib \<Rightarrow> bool" where
  "lib_ok L \<longleftrightarrow>
     (\<forall>t x. ordered t \<longrightarrow> bt_find L t x = map_of t x) \<and>
     (\<forall>t x i. ordered t \<longrightarrow> map_of t x = None \<longrightarrow>
        (\<exists>t'. bt_insert L t x i = Some t' \<and> ordered t' \<and> map_of t' = (map_of t)(x \<mapsto> i))) \<and>
     (\<forall>t x. ordered t \<longrightarrow> map_of t x \<noteq> None \<longrightarrow>
        (\<exists>t'. bt_delete L t x = Some t' \<and> ordered t' \<and> map_of t' = (map_of t)(x := None))) \<and>
     (\<forall>t x. ordered t \<longrightarrow> map_of t x = None \<longrightarrow> bt_delete L t x = None) \<and>
     (\<forall>u. distinct u \<longrightarrow> set u \<subset> {..<MAX_CACHE_SECTORS} \<longrightarrow>
        (\<exists>i < MAX_CACHE_SECTORS. pool_create L u = Some i \<and> i \<notin> set u)) \<and>
     (\<forall>n ns. mset (sorted_insert_asc L n ns) = add_mset n (mset ns))"

lemma lib_okD:
  assumes "lib_ok L"
  shows "ordered t \<Longrightarrow> bt_find L t x = map_of t x"
    "ordered t \<Longrightarrow> map_of t x = None \<Longrightarrow>
      \<exists>t'. bt_insert L t x i = Some t' \<and> ordered t' \<and> map_of t' = (map_of t)(x \<mapsto> i)"
    "ordered t \<Longrightarrow> map_of t x \<noteq> None \<Longrightarrow>
      \<exists>t'. bt_delete L t x = Some t' \<and> ordered t' \<and> map_of t' = (map_of t)(x := None)"
    "ordered t \<Longrightarrow> map_of t x = None \<Longrightarrow> bt_delete L t x = None"
    "distinct u \<Longrightarrow> set u \<subset> {..<MAX_CACHE_SECTORS} \<Longrightarrow>
      \<exists>i < MAX_CACHE_SECTORS. pool_create L u = Some i \<and> i \<notin> set u"
    "mset (sorted_insert_asc L n ns) = add_mset n (mset ns)"
  using assms unfolding lib_ok_def by blast+

lemma ordered_distinct: "ordered t \<Longrightarrow> distinct (map fst t)"
  by (simp add: ordered_def strict_sorted_iff)

lemma ordered_length: "ordered t \<Longrightarrow> length t = card (dom (map_of t))"
  using ordered_distinct by (metis distinct_card dom_map_of_conv_image_fst length_map list.set_map)

definition view :: "drive \<Rightarrow> u32 \<Rightarrow> sector" where
  "view s x = (case map_of (tree s) x of Some p \<Rightarrow> m_bSectorBuffer (slots s p) | None \<Rightarrow> disk s x)"

abbreviation cached :: "drive \<Rightarrow> u32 \<Rightarrow> nat option" where "cached s \<equiv> map_of (tree s)"
abbreviation dirty :: "drive \<Rightarrow> u32 set" where "dirty s \<equiv> fst ` set (dirtyCacheList s)"

text \<open>
  Every value in use belongs to one cached sector, a dirty entry points to its sector's value, a cached
  sector that is not dirty agrees with the disk, and a finished release list names cached sectors
  without repetition.
\<close>

definition cache_inv :: "drive \<Rightarrow> bool" where
  "cache_inv s \<longleftrightarrow>
     ordered (tree s) \<and> length (tree s) \<le> MAX_CACHE_SECTORS \<and>
     inj_on (cached s) (dom (cached s)) \<and>
     distinct (pool_used s) \<and> set (pool_used s) = ran (cached s) \<and> ran (cached s) \<subseteq> {..<MAX_CACHE_SECTORS} \<and>
     distinct (map fst (dirtyCacheList s)) \<and> (\<forall>(x, p) \<in> set (dirtyCacheList s). cached s x = Some p) \<and>
     (\<forall>x p. cached s x = Some p \<longrightarrow> x \<notin> dirty s \<longrightarrow> m_bSectorBuffer (slots s p) = disk s x) \<and>
     (bReleaseListBuilt s \<longrightarrow> distinct (map rank_SectorID (ReleaseList s)) \<and>
        rank_SectorID ` set (ReleaseList s) \<subseteq> dom (cached s))"

lemma cache_invD:
  assumes "cache_inv s"
  shows "ordered (tree s)" "length (tree s) \<le> MAX_CACHE_SECTORS"
    "cached s x = Some p \<Longrightarrow> cached s y = Some p \<Longrightarrow> x = y"
    "distinct (pool_used s)" "set (pool_used s) = ran (cached s)" "set (pool_used s) \<subseteq> {..<MAX_CACHE_SECTORS}"
    "distinct (map fst (dirtyCacheList s))" "(x, p) \<in> set (dirtyCacheList s) \<Longrightarrow> cached s x = Some p"
    "cached s x = Some p \<Longrightarrow> x \<notin> dirty s \<Longrightarrow> m_bSectorBuffer (slots s p) = disk s x"
    "bReleaseListBuilt s \<Longrightarrow> distinct (map rank_SectorID (ReleaseList s))"
    "bReleaseListBuilt s \<Longrightarrow> n \<in> set (ReleaseList s) \<Longrightarrow> rank_SectorID n \<in> dom (cached s)"
  using assms unfolding cache_inv_def inj_on_def by (auto simp: dom_def)

lemma pool_used_size:
  assumes "cache_inv s"
  shows "card (set (pool_used s)) = length (tree s)"
proof -
  have "cached s ` dom (cached s) = Some ` ran (cached s)" by (auto simp: ran_def dom_def image_iff) metis
  moreover have "card (cached s ` dom (cached s)) = card (dom (cached s))"
    using assms by (intro card_image) (simp add: cache_inv_def)
  moreover have "card (Some ` ran (cached s)) = card (ran (cached s))" by (intro card_image) simp
  ultimately show ?thesis using cache_invD(1,5)[OF assms] ordered_length by metis
qed

text \<open>What no cache operation changes.\<close>

definition same_drive :: "drive \<Rightarrow> drive \<Rightarrow> bool" where
  "same_drive s t \<longleftrightarrow> deviceType t = deviceType s \<and> LBAStartSector t = LBAStartSector s \<and>
     bad_sectors t = bad_sectors s \<and> bEnableDiskCache t = bEnableDiskCache s"

lemma same_drive_refl [simp]: "same_drive s s"
  by (simp add: same_drive_def)

lemma same_drive_trans: "same_drive s t \<Longrightarrow> same_drive t u \<Longrightarrow> same_drive s u"
  by (simp add: same_drive_def)

lemma Find_cached: "lib_ok L \<Longrightarrow> cache_inv s \<Longrightarrow> Find L s x = cached s x"
  by (simp add: Find_def lib_okD(1) cache_invD(1))

section \<open>Steps of the cache\<close>

lemma value_Read_step:
  assumes "cache_inv s" "cached s x = Some p"
  shows "\<exists>t. value_Read p s = (view s x, t) \<and> cache_inv t \<and> view t = view s \<and> same_drive s t \<and>
    tree t = tree s \<and> disk t = disk s"
proof -
  let ?t = "snd (value_Read p s)"
  have sl: "m_bSectorBuffer (slots ?t q) = m_bSectorBuffer (slots s q)" for q
    by (simp add: value_Read_def Let_def)
  have "tree ?t = tree s" "disk ?t = disk s" "pool_used ?t = pool_used s" "dirtyCacheList ?t = dirtyCacheList s"
    "ReleaseList ?t = ReleaseList s" "bReleaseListBuilt ?t = bReleaseListBuilt s" "same_drive s ?t"
    by (simp_all add: value_Read_def Let_def same_drive_def)
  moreover from this have "view ?t y = view s y" for y using sl by (simp add: view_def split: option.split)
  then have "view ?t = view s" ..
  ultimately have "cache_inv ?t \<and> view ?t = view s \<and> same_drive s ?t \<and> tree ?t = tree s \<and> disk ?t = disk s"
    using assms(1) sl by (simp add: cache_inv_def)
  moreover have "fst (value_Read p s) = view s x" using assms(2) by (simp add: value_Read_def Let_def view_def)
  ultimately show ?thesis by (metis prod.collapse)
qed

text \<open>Writing a cached sector and marking it dirty.\<close>

lemma value_Write_step:
  fixes b :: sector
  assumes "cache_inv s" "cached s x = Some p"
  defines "t \<equiv> InsertToDirtyList (x, p) (value_Write p b s)"
  shows "cache_inv t" "view t = (view s)(x := b)" "same_drive s t" "tree t = tree s" "disk t = disk s"
    "dirty t = insert x (dirty s)"
proof -
  have f: "tree t = tree s" "disk t = disk s" "pool_used t = pool_used s" "ReleaseList t = ReleaseList s"
    "bReleaseListBuilt t = bReleaseListBuilt s"
    "\<And>q. m_bSectorBuffer (slots t q) = (if q = p then b else m_bSectorBuffer (slots s q))"
    by (simp_all add: t_def InsertToDirtyList_def value_Write_def Let_def)
  have d: "dirtyCacheList t = (if x \<in> dirty s then dirtyCacheList s else dirtyCacheList s @ [(x, p)])"
    by (simp add: t_def InsertToDirtyList_def value_Write_def Let_def)
  show dt: "dirty t = insert x (dirty s)" using d by auto
  have one: "\<And>y. cached s y = Some p \<Longrightarrow> y = x" using cache_invD(3)[OF assms(1) _ assms(2)] by blast
  have dst: "distinct (map fst (dirtyCacheList t))" using d cache_invD(7)[OF assms(1)] by auto
  have ptr: "\<forall>(y, q) \<in> set (dirtyCacheList t). cached s y = Some q"
    using d cache_invD(8)[OF assms(1)] assms(2) by (auto split: if_splits)
  have cl: "\<And>y q. cached s y = Some q \<Longrightarrow> y \<notin> dirty t \<Longrightarrow> m_bSectorBuffer (slots t q) = disk s y"
    using cache_invD(9)[OF assms(1)] one dt f(6) by auto
  show "cache_inv t" using assms(1) f(1-5) dst ptr cl unfolding cache_inv_def by simp
  show "view t = (view s)(x := b)"
  proof
    fix y
    show "view t y = ((view s)(x := b)) y"
    proof (cases "y = x")
      case True
      then show ?thesis using assms(2) by (simp add: view_def f)
    next
      case False
      then have "cached s y \<noteq> Some p" using one by blast
      then show ?thesis using False by (simp add: view_def f split: option.split)
    qed
  qed
  show "same_drive s t" by (simp add: t_def same_drive_def InsertToDirtyList_def value_Write_def Let_def)
  show "tree t = tree s" "disk t = disk s" by (rule f)+
qed

lemma CreateValue_step:
  assumes "lib_ok L" "distinct (pool_used s)" "set (pool_used s) \<subset> {..<MAX_CACHE_SECTORS}"
  shows "\<exists>i t. CreateValue L b s = Some (i, t) \<and> i < MAX_CACHE_SECTORS \<and> i \<notin> set (pool_used s) \<and>
    t = s\<lparr>pool_used := i # pool_used s, slots := slots t\<rparr> \<and>
    (\<forall>q. m_bSectorBuffer (slots t q) = (if q = i then b else m_bSectorBuffer (slots s q)))"
  using lib_okD(5)[OF assms] by (fastforce simp: CreateValue_def value_Write_def Let_def)

text \<open>A sector enters the cache: clean if it holds what the disk holds, dirty otherwise.\<close>

lemma insert_step:
  assumes inv: "cache_inv s" and new: "cached s x = None" and room: "length (tree s) < MAX_CACHE_SECTORS"
    and tr: "ordered tr" "map_of tr = (cached s)(x \<mapsto> i)"
    and slot: "i < MAX_CACHE_SECTORS" "i \<notin> set (pool_used s)"
    and t: "t = s\<lparr>tree := tr, pool_used := i # pool_used s, slots := sl\<rparr>"
    and sl: "\<And>q. m_bSectorBuffer (sl q) = (if q = i then b else m_bSectorBuffer (slots s q))"
  shows "view t = (view s)(x := b)" "b = disk s x \<Longrightarrow> cache_inv t" "cache_inv (InsertToDirtyList (x, i) t)"
proof -
  have f: "tree t = tr" "disk t = disk s" "pool_used t = i # pool_used s" "ReleaseList t = ReleaseList s"
    "bReleaseListBuilt t = bReleaseListBuilt s" "slots t = sl" "dirtyCacheList t = dirtyCacheList s"
    by (simp_all add: t)
  have fresh: "cached s y \<noteq> Some i" for y
    using slot(2) cache_invD(5)[OF inv] by (auto simp: ran_def)
  have nd: "x \<notin> dirty s" using cache_invD(8)[OF inv] new by fastforce
  show vw: "view t = (view s)(x := b)"
  proof
    fix y
    show "view t y = ((view s)(x := b)) y"
      using fresh[of y] by (cases "y = x") (simp_all add: view_def f tr sl split: option.split)
  qed
  have len: "length tr \<le> MAX_CACHE_SECTORS"
  proof -
    have "finite (dom (cached s))" by (rule finite_dom_map_of)
    then have "card (dom (map_of tr)) = Suc (card (dom (cached s)))"
      using new by (simp add: tr(2) domIff)
    then show ?thesis using room tr(1) cache_invD(1)[OF inv] by (simp add: ordered_length)
  qed
  have inj: "inj_on (map_of tr) (dom (map_of tr))"
    using fresh cache_invD(3)[OF inv] unfolding tr(2) by (auto simp: inj_on_def dom_def split: if_splits)
  have ran: "set (pool_used t) = ran (map_of tr)" "ran (map_of tr) \<subseteq> {..<MAX_CACHE_SECTORS}"
    using cache_invD(5,6)[OF inv] slot new by (auto simp: f tr(2))
  have rel: "bReleaseListBuilt s \<Longrightarrow> rank_SectorID ` set (ReleaseList s) \<subseteq> dom (map_of tr)"
    using cache_invD(11)[OF inv] by (auto simp: tr(2) dom_def)
  have dptr: "(y, q) \<in> set (dirtyCacheList s) \<Longrightarrow> map_of tr y = Some q" for y q
    using cache_invD(8)[OF inv] nd by (force simp: tr(2))
  have cl: "map_of tr y = Some q \<Longrightarrow> y \<notin> dirty s \<Longrightarrow> y \<noteq> x \<Longrightarrow> m_bSectorBuffer (sl q) = disk s y" for y q
    using cache_invD(9)[OF inv] fresh by (auto simp: tr(2) sl)
  show "cache_inv t" if "b = disk s x"
  proof -
    have "map_of tr y = Some q \<Longrightarrow> y \<notin> dirty s \<Longrightarrow> m_bSectorBuffer (sl q) = disk s y" for y q
      using cl[of y q] that sl[of i] by (cases "y = x") (simp_all add: tr(2))
    then show ?thesis
      using tr(1) len inj ran slot(2) cache_invD(4,7,10)[OF inv] rel dptr
      unfolding cache_inv_def f by auto
  qed
  show "cache_inv (InsertToDirtyList (x, i) t)"
  proof -
    have "InsertToDirtyList (x, i) t = t\<lparr>dirtyCacheList := dirtyCacheList s @ [(x, i)]\<rparr>"
      using nd by (simp add: InsertToDirtyList_def f)
    then show ?thesis
      using tr len inj ran slot(2) cache_invD(4,7,10)[OF inv] rel dptr cl nd
      unfolding cache_inv_def by (auto simp: f)
  qed
qed

lemma Add_step:
  assumes L: "lib_ok L" and inv: "cache_inv s" and new: "cached s x = None" and room: "\<not> Full s"
  shows "\<exists>i t. Add L x b s = Some (Some i, t) \<and> view t = (view s)(x := b) \<and>
    (b = disk s x \<longrightarrow> cache_inv t) \<and> cache_inv (InsertToDirtyList (x, i) t) \<and> same_drive s t \<and>
    cached t = (cached s)(x \<mapsto> i) \<and> disk t = disk s \<and> length (tree t) = Suc (length (tree s)) \<and>
    dirtyCacheList t = dirtyCacheList s"
proof -
  have len: "length (tree s) < MAX_CACHE_SECTORS" using room by (simp add: Full_def)
  then have "card (set (pool_used s)) < card {..<MAX_CACHE_SECTORS}" using pool_used_size[OF inv] by simp
  then have "set (pool_used s) \<subset> {..<MAX_CACHE_SECTORS}"
    using cache_invD(6)[OF inv] by (metis nless_le psubsetI)
  from CreateValue_step[OF L cache_invD(4)[OF inv] this] obtain i u where
    c: "CreateValue L b s = Some (i, u)" "i < MAX_CACHE_SECTORS" "i \<notin> set (pool_used s)"
      "u = s\<lparr>pool_used := i # pool_used s, slots := slots u\<rparr>"
      "\<And>q. m_bSectorBuffer (slots u q) = (if q = i then b else m_bSectorBuffer (slots s q))" by blast
  have ut: "tree u = tree s" by (subst c(4)) simp
  obtain tr where tr: "bt_insert L (tree u) x i = Some tr" "ordered tr" "map_of tr = (cached s)(x \<mapsto> i)"
    using lib_okD(2)[OF L cache_invD(1)[OF inv] new] ut by metis
  let ?t = "u\<lparr>tree := tr\<rparr>"
  have t: "?t = s\<lparr>tree := tr, pool_used := i # pool_used s, slots := slots u\<rparr>" by (subst c(4)) simp
  note ins = insert_step[OF inv new len tr(2,3) c(2,3) t c(5)]
  have "length tr = Suc (length (tree s))"
    using new by (simp add: ordered_length tr(2,3) cache_invD(1)[OF inv] domIff finite_dom_map_of)
  moreover have "Add L x b s = Some (Some i, ?t)" by (simp add: Add_def c(1) tr(1))
  moreover have "same_drive s ?t" "disk ?t = disk s" "dirtyCacheList ?t = dirtyCacheList s" by (simp_all add: t same_drive_def)
  moreover have "cached ?t = (cached s)(x \<mapsto> i)" using tr(3) by simp
  ultimately show ?thesis using ins by (intro exI[of _ i] exI[of _ ?t]) simp
qed

lemma pop_clean_Some:
  "pop_clean d ns = (Some n, rest) \<Longrightarrow>
    rank_SectorID n \<notin> fst ` set d \<and> (\<exists>skip. ns = skip @ n # rest)"
proof (induction ns)
  case (Cons m ns)
  then show ?case by (cases "rank_SectorID m \<in> fst ` set d") (auto intro: exI[of _ "[]"] exI[of _ "m # _"])
qed simp

lemma pop_clean_None: "pop_clean d ns = (None, rest) \<Longrightarrow> rest = []"
  by (induction ns) (auto split: if_splits)

text \<open>A sector leaves the cache.\<close>

lemma evict_step:
  assumes inv: "cache_inv s" and y: "cached s y = Some q" "y \<notin> dirty s"
    and tr: "ordered tr" "map_of tr = (cached s)(y := None)"
    and rel: "bReleaseListBuilt s \<Longrightarrow> distinct (map rank_SectorID rest)"
      "bReleaseListBuilt s \<Longrightarrow> rank_SectorID ` set rest \<subseteq> dom (cached s) - {y}"
    and t: "t = s\<lparr>ReleaseList := rest, tree := tr, pool_used := filter (\<lambda>i. i \<notin> set [q]) (pool_used s)\<rparr>"
  shows "cache_inv t" "view t = view s" "length (tree t) = length (tree s) - 1"
proof -
  have f: "tree t = tr" "disk t = disk s" "pool_used t = filter (\<lambda>i. i \<noteq> q) (pool_used s)" "ReleaseList t = rest"
    "bReleaseListBuilt t = bReleaseListBuilt s" "slots t = slots s" "dirtyCacheList t = dirtyCacheList s"
    by (simp_all add: t)
  have one: "cached s z = Some q \<Longrightarrow> z = y" for z using cache_invD(3)[OF inv _ y(1)] by blast
  have len: "length tr = length (tree s) - 1"
    using y(1) by (simp add: ordered_length tr cache_invD(1)[OF inv] finite_dom_map_of card_Diff_singleton domI)
  have inj: "inj_on (map_of tr) (dom (map_of tr))"
    using cache_invD(3)[OF inv] by (auto simp: inj_on_def dom_def tr(2) split: if_splits)
  have ran: "ran (map_of tr) = ran (cached s) - {q}" 
    using y(1) by (auto simp: ran_def tr(2) dest: one split: if_splits) (metis option.inject)
  have dptr: "(z, p) \<in> set (dirtyCacheList s) \<Longrightarrow> map_of tr z = Some p" for z p
    using cache_invD(8)[OF inv] y(2) by (force simp: tr(2))
  have cl: "map_of tr z = Some p \<Longrightarrow> z \<notin> dirty s \<Longrightarrow> m_bSectorBuffer (slots s p) = disk s z" for z p
    using cache_invD(9)[OF inv] by (auto simp: tr(2) split: if_splits)
  have pu: "set (pool_used t) = ran (map_of tr)" "ran (map_of tr) \<subseteq> {..<MAX_CACHE_SECTORS}"
    using cache_invD(5,6)[OF inv] unfolding ran f(3) by auto
  have "\<forall>(z, p) \<in> set (dirtyCacheList s). map_of tr z = Some p" using dptr by blast
  moreover have "bReleaseListBuilt s \<Longrightarrow> rank_SectorID ` set rest \<subseteq> dom (map_of tr)"
    using rel(2) by (auto simp: tr(2))
  moreover have "distinct (pool_used t)" using cache_invD(4)[OF inv] by (simp add: f)
  moreover have "length tr \<le> MAX_CACHE_SECTORS" using len cache_invD(2)[OF inv] by simp
  ultimately show "cache_inv t"
    using tr(1) inj pu cache_invD(7)[OF inv] rel(1) cl unfolding cache_inv_def by (simp add: f(1,2,4,5,6,7))
  show "view t = view s"
  proof
    fix z
    show "view t z = view s z"
      using y cache_invD(9)[OF inv y(1)] by (cases "z = y") (simp_all add: view_def f tr(2) split: option.split)
  qed
  show "length (tree t) = length (tree s) - 1" using len by (simp add: f)
qed

lemma ReplaceCache_step:
  assumes L: "lib_ok L" and inv: "cache_inv s" and new: "cached s x = None" and full: "Full s"
    and b: "b = disk s x"
  shows "\<exists>t. ReplaceCache L x b s = (Inr True, t) \<and> cache_inv t \<and> view t = view s \<and> same_drive s t \<and>
    disk t = disk s \<and> dirtyCacheList t = dirtyCacheList s \<and> (\<forall>y. y \<noteq> x \<longrightarrow> cached s y = None \<longrightarrow> cached t y = None)"
proof (cases "bReleaseListBuilt s")
  case False
  then show ?thesis using inv by (simp add: ReplaceCache_def)
next
  case built: True
  obtain r rest where pc: "pop_clean (dirtyCacheList s) (ReleaseList s) = (r, rest)" by fastforce
  show ?thesis
  proof (cases "r")
    case None
    let ?t = "s\<lparr>ReleaseList := rest, bReleaseListBuilt := False\<rparr>"
    have "ReplaceCache L x b s = (Inr True, ?t)"
      using built pc None pop_clean_None[of _ _ rest] by (auto simp: ReplaceCache_def)
    moreover have "cache_inv ?t" using inv by (simp add: cache_inv_def)
    moreover have "view ?t = view s" by (rule ext) (simp add: view_def split: option.split)
    ultimately show ?thesis by (intro exI[of _ ?t]) (simp add: same_drive_def)
  next
    case (Some node)
    let ?y = "rank_SectorID node"
    obtain skip where sk: "?y \<notin> dirty s" "ReleaseList s = skip @ node # rest"
      using pop_clean_Some pc Some by blast
    have dm: "?y \<in> dom (cached s)" using cache_invD(11)[OF inv built, of node] sk(2) by simp
    then obtain q where q: "cached s ?y = Some q" by blast
    have rel: "distinct (map rank_SectorID rest)" "rank_SectorID ` set rest \<subseteq> dom (cached s) - {?y}"
      using cache_invD(10,11)[OF inv built] sk(2) by (auto simp: image_iff)
    obtain tr where tr: "bt_delete L (tree s) ?y = Some tr" "ordered tr" "map_of tr = (cached s)(?y := None)"
      using lib_okD(3)[OF L cache_invD(1)[OF inv]] q by blast
    have fd: "bt_find L (tree s) ?y = Some q" using lib_okD(1)[OF L cache_invD(1)[OF inv]] q by simp
    define u where "u = s\<lparr>ReleaseList := rest, tree := tr, pool_used := filter (\<lambda>i. i \<notin> set [q]) (pool_used s)\<rparr>"
    note ev = evict_step[OF inv q sk(1) tr(2,3) rel u_def]
    have nf: "length (tree u) < MAX_CACHE_SECTORS"
    proof -
      have "MAX_CACHE_SECTORS \<le> length (tree s)" using full by (simp add: Full_def)
      then show ?thesis using ev(3) cache_invD(2)[OF inv] by (simp add: MAX_CACHE_SECTORS_def)
    qed
    have xy: "x \<noteq> ?y" using new q by auto
    then have nu: "cached u x = None" using new by (simp add: u_def tr(3))
    have nfu: "\<not> Full u" using nf by (simp add: Full_def)
    have du: "disk u = disk s" "dirtyCacheList u = dirtyCacheList s" "same_drive s u" by (simp_all add: u_def same_drive_def)
    obtain i t where add: "Add L x b u = Some (Some i, t)" "view t = (view u)(x := b)" "cache_inv t" "same_drive u t"
      "cached t = (cached u)(x \<mapsto> i)" "disk t = disk u" "dirtyCacheList t = dirtyCacheList u"
      using Add_step[OF L ev(1) nu nfu, of b] b du by auto
    obtain v where cv: "CreateValue L b u = Some (i, v)"
      and ins: "\<exists>tr'. bt_insert L (tree v) x i = Some tr' \<and> t = v\<lparr>tree := tr'\<rparr>"
      using add(1) by (auto simp: Add_def split: option.splits)
    let ?t = "t\<lparr>bReleaseListBuilt := (if ReleaseList t = [] then False else bReleaseListBuilt t)\<rparr>"
    have run: "ReplaceCache L x b s = (Inr True, ?t)"
      using built pc Some tr(1) fd cv ins sk(2)
      by (auto simp: ReplaceCache_def Let_def u_def)
    have "cache_inv ?t" using add(3) by (simp add: cache_inv_def)
    moreover have "view ?t = view t" by (rule ext) (simp add: view_def split: option.split)
    moreover have "view t = view s"
    proof -
      have "view s x = b" using new b by (simp add: view_def)
      then show ?thesis using add(2) ev(2) by (metis fun_upd_triv)
    qed
    moreover have "same_drive s ?t" using same_drive_trans[OF du(3) add(4)] by (simp add: same_drive_def)
    moreover have "\<forall>y. y \<noteq> x \<longrightarrow> cached s y = None \<longrightarrow> cached ?t y = None"
      using add(5) by (simp add: u_def tr(3))
    ultimately show ?thesis using run add(6,7) du by (intro exI[of _ ?t]) simp
  qed
qed

section \<open>Reading\<close>

abbreviation idx :: "u32 \<Rightarrow> u32 \<Rightarrow> nat" where "idx start x \<equiv> unat (x - start)"

lemma idx_inj: "idx start x = idx start y \<longleftrightarrow> x = y"
  by (metis diff_add_cancel word_unat_eq_iff)

text \<open>What a read leaves in the buffer: the sectors \<open>xs\<close> as seen through the cache, the rest untouched.\<close>

definition filled :: "(u32 \<Rightarrow> sector) \<Rightarrow> u32 \<Rightarrow> u32 list \<Rightarrow> sector list \<Rightarrow> sector list \<Rightarrow> bool" where
  "filled v start xs buf buf' \<longleftrightarrow> length buf' = length buf \<and> (\<forall>x \<in> set xs. buf' ! idx start x = v x) \<and>
     (\<forall>i. (\<forall>x \<in> set xs. idx start x \<noteq> i) \<longrightarrow> buf' ! i = buf ! i)"

lemma filled_step:
  assumes "idx start x < length buf" "filled v start xs (buf[idx start x := v x]) buf'" "x \<notin> set xs"
  shows "filled v start (x # xs) buf buf'"
proof -
  have "\<forall>y \<in> set xs. idx start y \<noteq> idx start x" using assms(3) idx_inj by metis
  then have "buf' ! idx start x = buf[idx start x := v x] ! idx start x"
    using assms(2) unfolding filled_def by blast
  then show ?thesis using assms(1,2) by (auto simp: filled_def)
qed

lemma read_hits_ok:
  assumes "cache_inv s" "distinct xs" "\<forall>x \<in> set xs. idx start x < length buf"
    "\<forall>x \<in> set xs. cv ! idx start x = cached s x \<and> cached s x \<noteq> None"
  shows "\<exists>t buf'. for_each (read_hit start cv) xs (s, buf) = (Inr (), (t, buf')) \<and> cache_inv t \<and> view t = view s \<and>
    same_drive s t \<and> tree t = tree s \<and> disk t = disk s \<and> filled (view s) start xs buf buf'"
  using assms
proof (induction xs arbitrary: s buf)
  case Nil
  then show ?case by (auto simp: filled_def)
next
  case (Cons x xs)
  obtain p where p: "cached s x = Some p" "cv ! idx start x = Some p" using Cons.prems(4) by auto
  obtain u where u: "value_Read p s = (view s x, u)" "cache_inv u" "view u = view s" "same_drive s u" "tree u = tree s"
    "disk u = disk s"
    using value_Read_step[OF Cons.prems(1) p(1)] by blast
  have h: "read_hit start cv x (s, buf) = (Inr (), (u, buf[idx start x := view s x]))"
    using p(2) u(1) by (simp add: read_hit_def Let_def)
  from Cons.IH[of u "buf[idx start x := view s x]"] Cons.prems u obtain t buf' where
    r: "for_each (read_hit start cv) xs (u, buf[idx start x := view s x]) = (Inr (), (t, buf'))" "cache_inv t"
      "view t = view u" "same_drive u t" "tree t = tree u" "disk t = disk u"
      "filled (view u) start xs (buf[idx start x := view s x]) buf'"
    by auto
  have "filled (view s) start (x # xs) buf buf'"
    using filled_step[where start = start and x = x and buf = buf and v = "view s" and xs = xs and buf' = buf'] r(7) u(3) Cons.prems(2,3) by simp
  then show ?case
    using r u h same_drive_trans[OF u(4) r(4)] by (simp add: andThen_def)
qed

lemma read_fill_ok:
  assumes L: "lib_ok L" and "cache_inv s" "distinct xs" "\<forall>x \<in> set xs. idx start x < length buf"
    "\<forall>x \<in> set xs. cv ! idx start x = cached s x"
    "\<forall>x \<in> set xs. cached s x = None \<longrightarrow> buf ! idx start x = disk s x"
    "(\<forall>x \<in> set xs. cached s x = None) \<or> length (tree s) + length xs \<le> MAX_CACHE_SECTORS"
  shows "\<exists>t buf'. read_fill L start cv xs (s, buf) = (Inr (), (t, buf')) \<and> cache_inv t \<and> view t = view s \<and>
    same_drive s t \<and> filled (view s) start xs buf buf'"
  using assms(2-)
proof (induction xs arbitrary: s buf)
  case Nil
  then show ?case by (auto simp: filled_def)
next
  case (Cons x xs)
  have len: "idx start x < length buf" using Cons.prems(3) by simp
  show ?case
  proof (cases "cached s x")
    case None
    then have bx: "buf ! idx start x = disk s x" "view s x = disk s x" "cv ! idx start x = None"
      using Cons.prems(4,5) by (simp_all add: view_def)
    have same: "buf[idx start x := view s x] = buf" using bx len by (metis list_update_id)
    have "\<exists>u. read_fill L start cv (x # xs) (s, buf) = read_fill L start cv xs (u, buf) \<and> cache_inv u \<and> view u = view s \<and>
        same_drive s u \<and> disk u = disk s \<and> (\<forall>y \<in> set xs. cached u y = cached s y) \<and>
        ((\<forall>y \<in> set xs. cached u y = None) \<or> length (tree u) + length xs \<le> MAX_CACHE_SECTORS)"
    proof (cases "Full s")
      case True
      then have all: "\<forall>y \<in> set (x # xs). cached s y = None" using Cons.prems(6) by (auto simp: Full_def)
      obtain u where u: "ReplaceCache L x (buf ! idx start x) s = (Inr True, u)" "cache_inv u" "view u = view s"
        "same_drive s u" "disk u = disk s" "\<forall>y. y \<noteq> x \<longrightarrow> cached s y = None \<longrightarrow> cached u y = None"
        using ReplaceCache_step[OF L Cons.prems(1) None True bx(1)] by blast
      have "\<forall>y \<in> set xs. cached u y = None" using u(6) all Cons.prems(2) by auto
      then show ?thesis using u all True bx(3) by (intro exI[of _ u]) (simp add: Let_def)
    next
      case False
      obtain i u where u: "Add L x (buf ! idx start x) s = Some (Some i, u)" "view u = (view s)(x := buf ! idx start x)"
        "cache_inv u" "same_drive s u" "disk u = disk s" "cached u = (cached s)(x \<mapsto> i)" "length (tree u) = Suc (length (tree s))"
        using Add_step[OF L Cons.prems(1) None False, of "buf ! idx start x"] bx(1) by auto
      have "view u = view s" using u(2) bx by (metis fun_upd_triv)
      moreover have "\<forall>y \<in> set xs. cached u y = cached s y" using u(6) Cons.prems(2) by auto
      ultimately show ?thesis using u False bx(3) Cons.prems(6) by (intro exI[of _ u]) (auto simp: Let_def)
    qed
    then obtain u where u: "read_fill L start cv (x # xs) (s, buf) = read_fill L start cv xs (u, buf)" "cache_inv u"
      "view u = view s" "same_drive s u" "disk u = disk s" "\<forall>y \<in> set xs. cached u y = cached s y"
      "(\<forall>y \<in> set xs. cached u y = None) \<or> length (tree u) + length xs \<le> MAX_CACHE_SECTORS" by blast
    from Cons.IH[of u buf] Cons.prems u obtain t buf' where r: "read_fill L start cv xs (u, buf) = (Inr (), (t, buf'))"
      "cache_inv t" "view t = view u" "same_drive u t" "filled (view u) start xs buf buf'" by auto
    have "filled (view s) start (x # xs) buf buf'"
      using filled_step[where start = start and x = x and buf = buf and v = "view s" and xs = xs and buf' = buf'] r(5) u(3) same len Cons.prems(2) by simp
    then show ?thesis using r u same_drive_trans[OF u(4) r(4)] by simp
  next
    case (Some p)
    then have cvx: "cv ! idx start x = Some p" using Cons.prems(4) by simp
    obtain u where u: "value_Read p s = (view s x, u)" "cache_inv u" "view u = view s" "same_drive s u" "tree u = tree s"
      "disk u = disk s"
      using value_Read_step[OF Cons.prems(1) Some] by blast
    let ?b = "buf[idx start x := view s x]"
    have h: "read_fill L start cv (x # xs) (s, buf) = read_fill L start cv xs (u, ?b)"
      using cvx u(1) by (simp add: read_hit_def Let_def andThen_def)
    have keep: "\<forall>y \<in> set xs. cached u y = None \<longrightarrow> ?b ! idx start y = disk u y"
    proof (intro ballI impI)
      fix y assume y: "y \<in> set xs" "cached u y = None"
      then have "idx start x \<noteq> idx start y" using Cons.prems(2) idx_inj by auto
      then show "?b ! idx start y = disk u y" using y Cons.prems(5) u(5,6) by simp
    qed
    have room: "(\<forall>y \<in> set xs. cached u y = None) \<or> length (tree u) + length xs \<le> MAX_CACHE_SECTORS"
      using Cons.prems(6) Some u(5) by auto
    from Cons.IH[of u ?b] Cons.prems u keep room obtain t buf' where
      r: "read_fill L start cv xs (u, ?b) = (Inr (), (t, buf'))" "cache_inv t" "view t = view u" "same_drive u t"
        "filled (view u) start xs ?b buf'" by auto
    have "filled (view s) start (x # xs) buf buf'"
      using filled_step[where start = start and x = x and buf = buf and v = "view s" and xs = xs and buf' = buf'] r(5) u(3) len Cons.prems(2) by simp
    then show ?thesis using r u h same_drive_trans[OF u(4) r(4)] by simp
  qed
qed

text \<open>A request as the sectors before, between and after the breaks.\<close>

lemma breaks_split:
  assumes L: "lib_ok L" "cache_inv s" and e: "unat start + unat n + 1 < 2 ^ 32"
    and b: "breaks L s start (start + n) = (fb, lb)"
  defines "end \<equiv> start + n"
  shows "range32 start end = range32 start fb @ (if fb < end then range32 fb (lb + 1) else []) @ range32 (lb + 1) end"
    "\<forall>x \<in> set (range32 start fb) \<union> set (range32 (lb + 1) end). cached s x \<noteq> None"
    "fb < end \<Longrightarrow> start \<le> fb \<and> fb \<le> lb \<and> lb < end \<and> cached s fb = None \<and> cached s lb = None"
    "\<not> fb < end \<Longrightarrow> \<forall>x \<in> set (range32 start end). cached s x \<noteq> None"
proof -
  let ?m = "filter (\<lambda>x. Find L s x = None) (range32 start end)"
  have fc: "\<And>x. Find L s x = cached s x" using Find_cached L by blast
  have ue: "unat end = unat start + unat n" using e by (simp add: end_def unat_word_ariths)
  then have se: "start \<le> end" by (simp add: word_le_nat_alt)
  have e1: "unat (end + 1) = unat end + 1" using e ue by (simp add: unat_word_ariths)
  have main: "range32 start end = range32 start fb @ (if fb < end then range32 fb (lb + 1) else []) @ range32 (lb + 1) end \<and>
    (\<forall>x \<in> set (range32 start fb) \<union> set (range32 (lb + 1) end). cached s x \<noteq> None) \<and>
    (fb < end \<longrightarrow> start \<le> fb \<and> fb \<le> lb \<and> lb < end \<and> cached s fb = None \<and> cached s lb = None) \<and>
    (\<not> fb < end \<longrightarrow> (\<forall>x \<in> set (range32 start end). cached s x \<noteq> None))"
  proof (cases "?m = []")
    case True
    then have "fb = end" "lb = end" using b by (auto simp: breaks_def Let_def end_def)
    moreover have "range32 (end + 1) end = []" using e1 by (simp add: word_le_nat_alt)
    moreover have "\<forall>x \<in> set (range32 start end). cached s x \<noteq> None" using True fc by (simp add: filter_empty_conv)
    ultimately show ?thesis by simp
  next
    case False
    then have f: "fb = hd ?m" "lb = last ?m" using b by (simp_all add: breaks_def Let_def end_def)
    note fs = filter_sorted_bounds[OF sorted_range32 False]
    have in_r: "fb \<in> set (range32 start end)" "lb \<in> set (range32 start end)" and nn: "cached s fb = None" "cached s lb = None"
      using fs(1-4) fc by (simp_all add: f)
    have le: "fb \<le> lb" using fs(5)[OF fs(1,2)] by (simp add: f)
    have bd: "start \<le> fb" "fb < end" "lb < end" using in_r by (simp_all add: set_range32)
    have l1: "unat (lb + 1) = unat lb + 1" using bd(3) e1 u32_bound[of "end"] by (simp add: word_less_nat_alt unat_word_ariths)
    have o: "fb \<le> lb + 1" "lb + 1 \<le> end" using le bd(3) l1 by (simp_all add: word_le_nat_alt word_less_nat_alt)
    have "range32 start end = range32 start fb @ range32 fb (lb + 1) @ range32 (lb + 1) end"
      using range32_append[OF bd(1), of "end"] range32_append[OF o] bd(2) by simp
    moreover have "cached s x \<noteq> None" if "x \<in> set (range32 start fb) \<union> set (range32 (lb + 1) end)" for x
    proof
      assume n: "cached s x = None"
      have x: "start \<le> x \<and> x < end \<and> (x < fb \<or> lb + 1 \<le> x)"
        using that bd l1 le by (auto simp: set_range32 word_le_nat_alt word_less_nat_alt)
      then have "fb \<le> x \<and> x \<le> lb" using fs(5)[of x] n fc by (simp add: f set_range32)
      then show False using x l1 by (auto simp: word_le_nat_alt word_less_nat_alt)
    qed
    ultimately show ?thesis using bd le nn by simp
  qed
  show "range32 start end = range32 start fb @ (if fb < end then range32 fb (lb + 1) else []) @ range32 (lb + 1) end"
    "\<forall>x \<in> set (range32 start fb) \<union> set (range32 (lb + 1) end). cached s x \<noteq> None"
    "fb < end \<Longrightarrow> start \<le> fb \<and> fb \<le> lb \<and> lb < end \<and> cached s fb = None \<and> cached s lb = None"
    "\<not> fb < end \<Longrightarrow> \<forall>x \<in> set (range32 start end). cached s x \<noteq> None"
    using main by blast+
qed

text \<open>A request that the cache serves without evicting a sector the request still has to visit.\<close>

definition undisturbed :: "cache_lib \<Rightarrow> drive \<Rightarrow> u32 \<Rightarrow> u32 \<Rightarrow> bool" where
  "undisturbed L s start n \<longleftrightarrow>
     length (tree s) + unat n \<le> MAX_CACHE_SECTORS \<or>
     (case breaks L s start (start + n) of (fb, lb) \<Rightarrow>
        fb < start + n \<longrightarrow> (\<forall>x \<in> set (range32 fb (lb + 1)). Find L s x = None))"

text \<open>The drive answers transfers of the sectors from \<open>start\<close> on.\<close>

definition healthy :: "drive \<Rightarrow> u32 \<Rightarrow> u32 \<Rightarrow> bool" where
  "healthy s start n \<longleftrightarrow> known_device (deviceType s) \<and> unat start + unat n + 1 < 2 ^ 32 \<and>
     (\<forall>x \<in> set (range32 start (start + n)). x \<notin> set (bad_sectors s))"

lemma filled_append:
  assumes "filled v start xs a b" "filled v start ys b c"
  shows "filled v start (xs @ ys) a c"
proof -
  have "b ! idx start x = v x \<and> length b = length a" if "x \<in> set xs" for x using assms(1) that by (simp add: filled_def)
  moreover have "c ! idx start x = v x" if "x \<in> set xs" for x
  proof (cases "x \<in> set ys")
    case True
    then show ?thesis using assms(2) by (simp add: filled_def)
  next
    case False
    then have "\<forall>y \<in> set ys. idx start y \<noteq> idx start x" using idx_inj by metis
    then show ?thesis using assms that unfolding filled_def by metis
  qed
  moreover have "c ! i = a ! i" if "\<forall>x \<in> set (xs @ ys). idx start x \<noteq> i" for i
  proof -
    have "b ! i = a ! i" using assms(1) that unfolding filled_def set_append by blast
    moreover have "c ! i = b ! i" using assms(2) that unfolding filled_def set_append by blast
    ultimately show ?thesis by simp
  qed
  ultimately show ?thesis using assms unfolding filled_def by (metis Un_iff set_append)
qed

lemma filled_all:
  assumes "filled v start (range32 start (start + n)) buf buf'" "length buf = unat n" "unat start + unat n < 2 ^ 32"
  shows "buf' = map v (range32 start (start + n))"
proof (rule nth_equalityI)
  have ue: "unat (start + n) - unat start = unat n" using assms(3) by (simp add: unat_word_ariths)
  show "length buf' = length (map v (range32 start (start + n)))" using assms(1,2) ue by (simp add: filled_def)
  fix i assume "i < length buf'"
  then have i: "i < unat (start + n) - unat start" using assms(1,2) ue by (simp add: filled_def)
  let ?x = "start + of_nat i"
  have "i < 2 ^ 32" using i u32_bound[of "start + n"] by simp
  then have "idx start ?x = i" by (simp add: unat_of_nat)
  moreover have "?x \<in> set (range32 start (start + n))" using i by (auto simp: range32_def)
  ultimately have "buf' ! i = v ?x" using assms(1) unfolding filled_def by metis
  then show "buf' ! i = map v (range32 start (start + n)) ! i" using i by (simp add: range32_nth)
qed

lemma filled_override:
  "filled d start xs a b \<Longrightarrow> filled v start xs b c \<Longrightarrow> filled v start xs a c"
  unfolding filled_def by metis

lemma filled_set: "set xs = set ys \<Longrightarrow> filled v start xs a b \<Longrightarrow> filled v start ys a b"
  by (simp add: filled_def)

lemma RawRead_ok:
  assumes "known_device (deviceType s)" "\<forall>x \<in> set (range32 fb (fb + n)). x \<notin> set (bad_sectors s)"
    and st: "start \<le> fb" "unat fb + unat n < 2 ^ 32" and len: "unat fb - unat start + unat n \<le> length buf"
  shows "\<exists>buf'. RawRead fb n (idx start fb) (s, buf) = (Inr (), (s, buf')) \<and>
    filled (disk s) start (range32 fb (fb + n)) buf buf'"
proof -
  have i: "idx start fb = unat fb - unat start" using st(1) by (simp add: unat_sub word_le_nat_alt)
  have ue: "unat (fb + n) - unat fb = unat n" using st(2) by (simp add: unat_word_ariths)
  let ?b = "take (idx start fb) buf @ map (disk s) (range32 fb (fb + n)) @ drop (idx start fb + unat n) buf"
  have run: "RawRead fb n (idx start fb) (s, buf) = (Inr (), (s, ?b))" using assms(1,2) by (auto simp: RawRead_def)
  have pos: "idx start x = idx start fb + k" if "k < unat n" "x = fb + of_nat k" for x k
  proof -
    have "unat x = unat fb + k" using unat_range32[of k "fb + n" fb] that ue by simp
    then show ?thesis using st(1) i by (simp add: unat_sub word_le_nat_alt)
  qed
  have "filled (disk s) start (range32 fb (fb + n)) buf ?b"
    unfolding filled_def
  proof (intro conjI ballI allI impI)
    show "length ?b = length buf" using len i ue by simp
    fix x assume "x \<in> set (range32 fb (fb + n))"
    then obtain k where k: "k < unat n" "x = fb + of_nat k" using ue by (auto simp: range32_def)
    then show "?b ! idx start x = disk s x" using pos[OF k] len i ue by (simp add: nth_append range32_nth)
  next
    fix j assume j: "\<forall>x \<in> set (range32 fb (fb + n)). idx start x \<noteq> j"
    have "\<not> (idx start fb \<le> j \<and> j < idx start fb + unat n)"
    proof
      assume a: "idx start fb \<le> j \<and> j < idx start fb + unat n"
      let ?k = "j - idx start fb"
      have k: "?k < unat n" using a by linarith
      then have "fb + of_nat ?k \<in> set (range32 fb (fb + n))" using ue by (auto simp: range32_def)
      moreover have "idx start (fb + of_nat ?k) = j" using pos[OF k refl] a by simp
      ultimately show False using j by blast
    qed
    then show "?b ! j = buf ! j" using len i ue by (auto simp: nth_append)
  qed
  then show ?thesis using run by blast
qed

lemma map_Find_nth:
  assumes "lib_ok L" "cache_inv s" "x \<in> set (range32 start end)"
  shows "map (Find L s) (range32 start end) ! idx start x = cached s x"
proof -
  obtain i where i: "i < unat end - unat start" "x = start + of_nat i" using assms(3) by (auto simp: range32_def)
  then have "i < 2 ^ 32" using u32_bound[of "end"] by simp
  then have "idx start x = i" using i(2) by (simp add: unat_of_nat)
  then show ?thesis using i Find_cached[OF assms(1,2)] by (simp add: range32_nth)
qed

lemma idx_bound: "x \<in> set (range32 start end) \<Longrightarrow> idx start x < unat end - unat start"
  by (auto simp: set_range32 unat_sub word_le_nat_alt word_less_nat_alt)

lemma Read_ok:
  fixes sec :: u32
  assumes L: "lib_ok L" and inv: "cache_inv s" and en: "bEnableDiskCache s"
  defines "start \<equiv> sec + LBAStartSector s"
  assumes h: "healthy s start n" and u: "undisturbed L s start n" and len: "length buf = unat n"
  shows "\<exists>t. DiskDrive_Read L sec n (s, buf) = (Inr (), (t, map (view s) (range32 start (start + n)))) \<and>
    cache_inv t \<and> view t = view s \<and> same_drive s t"
proof -
  define "end" where "end = start + n"
  have hh: "known_device (deviceType s)" "unat start + unat n + 1 < 2 ^ 32"
    "\<forall>x \<in> set (range32 start end). x \<notin> set (bad_sectors s)"
    using h by (auto simp: healthy_def end_def)
  have ue: "unat end = unat start + unat n" using hh(2) by (simp add: end_def unat_word_ariths)
  obtain fb lb where b: "breaks L s start end = (fb, lb)" by fastforce
  note sp = breaks_split[OF L inv hh(2) b[unfolded end_def], folded end_def]
  let ?P = "range32 start fb" and ?S = "range32 (lb + 1) end"
  let ?M = "if fb < end then range32 fb (lb + 1) else []"
  let ?cv = "map (Find L s) (range32 start end)"
  have all: "set ?P \<union> set ?S \<union> set ?M = set (range32 start end)" 
    using arg_cong[OF sp(1), of set] by auto
  have ib: "idx start x < length buf" if "x \<in> set (range32 start end)" for x
    using idx_bound[OF that] ue len by simp
  have cvx: "?cv ! idx start x = cached s x" if "x \<in> set (range32 start end)" for x
    using map_Find_nth[OF L inv that] .
  obtain t1 b1 where r1: "for_each (read_hit start ?cv) ?P (s, buf) = (Inr (), (t1, b1))" "cache_inv t1" "view t1 = view s"
    "same_drive s t1" "tree t1 = tree s" "disk t1 = disk s" "filled (view s) start ?P buf b1"
    using read_hits_ok[OF inv distinct_range32, of start fb start buf ?cv] ib cvx sp(2) all by blast
  have l1: "length b1 = length buf" using r1(7) by (simp add: filled_def)
  have s3: "\<forall>x \<in> set ?S. idx start x < length b1" using ib all l1 by auto
  have s4: "\<forall>x \<in> set ?S. ?cv ! idx start x = cached t1 x \<and> cached t1 x \<noteq> None"
    unfolding r1(5) using cvx all sp(2) by blast
  obtain t2 b2 where r2: "for_each (read_hit start ?cv) ?S (t1, b1) = (Inr (), (t2, b2))" "cache_inv t2" "view t2 = view t1"
    "same_drive t1 t2" "tree t2 = tree t1" "disk t2 = disk t1" "filled (view t1) start ?S b1 b2"
    using read_hits_ok[OF r1(2) distinct_range32 s3 s4] by blast
  have l2: "length b2 = length buf" using r2(7) l1 by (simp add: filled_def)
  have sd: "same_drive s t2" using same_drive_trans[OF r1(4) r2(4)] .
  have f12: "filled (view s) start (?P @ ?S) buf b2" using filled_append r1(3,7) r2(7) by metis
  have run: "DiskDrive_Read L sec n (s, buf) =
    (if fb < end then andThen (RawRead fb (lb - fb + 1) (idx start fb)) (\<lambda>_. read_fill L start ?cv (range32 fb (lb + 1)))
     else ret ()) (t2, b2)"
    using en r1(1) r2(1) b by (simp add: DiskDrive_Read_def Let_def andThen_def start_def end_def)
  show ?thesis
  proof (cases "fb < end")
    case False
    have "filled (view s) start (range32 start end) buf b2"
      using f12 False all by (intro filled_set[OF _ f12]) auto
    then have "b2 = map (view s) (range32 start end)" using filled_all len hh(2) by (simp add: end_def)
    then show ?thesis using run False r2 r1 sd by (simp add: end_def)
  next
    case True
    note bd = sp(3)[OF True]
    have M: "?M = range32 fb (lb + 1)" using True by simp
    have nn: "unat (lb - fb + 1) = unat lb - unat fb + 1" "fb + (lb - fb + 1) = lb + 1"
    proof -
      have "unat (lb - fb) = unat lb - unat fb" using bd by (simp add: unat_sub word_le_nat_alt)
      moreover have "unat lb < unat end" using bd by (simp add: word_less_nat_alt)
      ultimately show "unat (lb - fb + 1) = unat lb - unat fb + 1" using u32_bound[of "end"] by (simp add: unat_word_ariths)
    qed simp
    have c1: "unat fb + unat (lb - fb + 1) < 2 ^ 32" "unat fb - unat start + unat (lb - fb + 1) \<le> length b2"
      using bd ue hh(2) l2 len nn(1) by (auto simp: word_less_nat_alt word_le_nat_alt)
    have kd: "known_device (deviceType t2)" "\<forall>x \<in> set (range32 fb (fb + (lb - fb + 1))). x \<notin> set (bad_sectors t2)"
      using hh all M nn(2) sd by (auto simp: same_drive_def)
    obtain b3 where r3: "RawRead fb (lb - fb + 1) (idx start fb) (t2, b2) = (Inr (), (t2, b3))"
      "filled (disk t2) start (range32 fb (lb + 1)) b2 b3"
      using RawRead_ok[OF kd _ c1] bd nn(2) by auto
    have l3: "length b3 = length buf" using r3(2) l2 by (simp add: filled_def)
    have ct: "cached t2 = cached s" "length (tree t2) = length (tree s)" using r1(5) r2(5) by simp_all
    have m_in: "\<forall>x \<in> set (range32 fb (lb + 1)). x \<in> set (range32 start end)" using all M by auto
    have "length (range32 fb (lb + 1)) \<le> unat n"
      using arg_cong[OF sp(1), of length] True ue by simp
    then have room: "(\<forall>x \<in> set (range32 fb (lb + 1)). cached t2 x = None) \<or>
        length (tree t2) + length (range32 fb (lb + 1)) \<le> MAX_CACHE_SECTORS"
      using u b Find_cached[OF L inv] ct True unfolding undisturbed_def end_def by auto
    have pre: "\<forall>x \<in> set (range32 fb (lb + 1)). idx start x < length b3"
      "\<forall>x \<in> set (range32 fb (lb + 1)). ?cv ! idx start x = cached t2 x"
      "\<forall>x \<in> set (range32 fb (lb + 1)). cached t2 x = None \<longrightarrow> b3 ! idx start x = disk t2 x"
      using ib l3 cvx ct m_in r3(2) by (simp_all add: filled_def)
    from read_fill_ok[OF L r2(2) distinct_range32 pre room] obtain t3 b4 where
      r4: "read_fill L start ?cv (range32 fb (lb + 1)) (t2, b3) = (Inr (), (t3, b4))" "cache_inv t3" "view t3 = view t2"
        "same_drive t2 t3" "filled (view t2) start (range32 fb (lb + 1)) b3 b4" by blast
    have vw: "view t2 = view s" using r1(3) r2(3) by simp
    have "filled (view s) start (range32 fb (lb + 1)) b2 b4" using filled_override r3(2) r4(5) vw by metis
    then have f: "filled (view s) start ((?P @ ?S) @ range32 fb (lb + 1)) buf b4" using filled_append f12 by blast
    have "filled (view s) start (range32 start end) buf b4"
      using all M by (intro filled_set[OF _ f]) auto
    then have "b4 = map (view s) (range32 start end)" using filled_all len hh(2) by (simp add: end_def)
    then show ?thesis using run True r3(1) r4 vw same_drive_trans[OF sd r4(4)] by (simp add: andThen_def end_def)
  qed
qed

section \<open>Writing\<close>

text \<open>The sectors after a write of \<open>data\<close> to the sectors \<open>xs\<close> of a request from \<open>start\<close> on.\<close>

definition written :: "(u32 \<Rightarrow> sector) \<Rightarrow> u32 \<Rightarrow> sector list \<Rightarrow> u32 list \<Rightarrow> u32 \<Rightarrow> sector" where
  "written v start data xs y = (if y \<in> set xs then data ! idx start y else v y)"

lemma written_Nil [simp]: "written v start data [] = v"
  by (rule ext) (simp add: written_def)

lemma written_Cons: "written v start data (x # xs) = written (v(x := data ! idx start x)) start data xs"
  by (rule ext) (simp add: written_def)

lemma written_append: "written v start data (xs @ ys) = written (written v start data xs) start data ys"
  by (rule ext) (simp add: written_def)

lemma written_set: "set xs = set ys \<Longrightarrow> written v start data xs = written v start data ys"
  by (rule ext) (simp add: written_def)

lemma write_hit_ok:
  assumes "cache_inv s" "cv ! idx start x = cached s x" "cached s x \<noteq> None"
  shows "\<exists>t. write_hit start cv data x s = (Inr (), t) \<and> cache_inv t \<and> view t = (view s)(x := data ! idx start x) \<and>
    same_drive s t \<and> tree t = tree s \<and> disk t = disk s"
proof -
  obtain p where p: "cached s x = Some p" "cv ! idx start x = Some p" using assms(2,3) by auto
  show ?thesis using value_Write_step[OF assms(1) p(1)] p(2) by (simp add: write_hit_def Let_def)
qed

lemma write_hits_ok:
  assumes "cache_inv s" "\<forall>x \<in> set xs. cv ! idx start x = cached s x \<and> cached s x \<noteq> None"
  shows "\<exists>t. for_each (write_hit start cv data) xs s = (Inr (), t) \<and> cache_inv t \<and>
    view t = written (view s) start data xs \<and> same_drive s t \<and> tree t = tree s \<and> disk t = disk s"
  using assms
proof (induction xs arbitrary: s)
  case (Cons x xs)
  obtain u where u: "write_hit start cv data x s = (Inr (), u)" "cache_inv u" "view u = (view s)(x := data ! idx start x)"
    "same_drive s u" "tree u = tree s" "disk u = disk s"
    using write_hit_ok[OF Cons.prems(1), where cv = cv and start = start and x = x and data = data] Cons.prems(2) by auto
  from Cons.IH[OF u(2)] Cons.prems(2) u(5) obtain t where
    t: "for_each (write_hit start cv data) xs u = (Inr (), t)" "cache_inv t" "view t = written (view u) start data xs"
      "same_drive u t" "tree t = tree u" "disk t = disk u" by auto
  then show ?case using u same_drive_trans[OF u(4) t(4)] by (simp add: andThen_def written_Cons)
qed simp

lemma write_through:
  assumes inv: "cache_inv s" and new: "cached s x = None"
    and "known_device (deviceType s)" "x \<notin> set (bad_sectors s)" "x + 1 \<noteq> 0"
  shows "\<exists>t. RawWrite x 1 [d] s = (Inr (), t) \<and> cache_inv t \<and> view t = (view s)(x := d) \<and> same_drive s t \<and>
    tree t = tree s \<and> disk t x = d"
proof -
  have lt: "x < x + 1" using assms(5) by (rule u32_less_succ)
  have r: "range32 x (x + 1) = [x]" using range32_Cons[OF lt] by simp
  let ?t = "s\<lparr>disk := (disk s)(x := d)\<rparr>"
  have "RawWrite x 1 [d] s = (Inr (), ?t)" using assms(3,4) r by (simp add: RawWrite_def write_one_def andThen_def)
  moreover have "cache_inv ?t" using inv new by (auto simp: cache_inv_def)
  moreover have "view ?t = (view s)(x := d)" using new by (auto simp: view_def fun_eq_iff split: option.split)
  ultimately show ?thesis by (intro exI[of _ ?t]) (simp add: same_drive_def)
qed

lemma write_fill_ok:
  assumes L: "lib_ok L" and "cache_inv s" "distinct xs"
    "\<forall>x \<in> set xs. cv ! idx start x = cached s x"
    "\<forall>x \<in> set xs. x \<notin> set (bad_sectors s) \<and> x + 1 \<noteq> 0" "known_device (deviceType s)"
    "(\<forall>x \<in> set xs. cached s x = None) \<or> length (tree s) + length xs \<le> MAX_CACHE_SECTORS"
  shows "\<exists>t. write_fill L start cv data fb lb xs s = (Inr (), t) \<and> cache_inv t \<and>
    view t = written (view s) start data xs \<and> same_drive s t"
  using assms(2-)
proof (induction xs arbitrary: s)
  case (Cons x xs)
  let ?d = "data ! idx start x"
  have "\<exists>u. write_fill L start cv data fb lb (x # xs) s = write_fill L start cv data fb lb xs u \<and> cache_inv u \<and>
      view u = (view s)(x := ?d) \<and> same_drive s u \<and> (\<forall>y \<in> set xs. cached u y = cached s y) \<and>
      ((\<forall>y \<in> set xs. cached u y = None) \<or> length (tree u) + length xs \<le> MAX_CACHE_SECTORS)"
  proof (cases "cached s x")
    case None
    then have cvx: "cv ! idx start x = None" using Cons.prems(3) by simp
    show ?thesis
    proof (cases "Full s")
      case True
      then have all: "\<forall>y \<in> set (x # xs). cached s y = None" using Cons.prems(6) by (auto simp: Full_def)
      obtain t where t: "RawWrite x 1 [?d] s = (Inr (), t)" "cache_inv t" "view t = (view s)(x := ?d)" "same_drive s t"
        "tree t = tree s" "disk t x = ?d"
        using write_through[OF Cons.prems(1) None Cons.prems(5), of ?d] Cons.prems(4) by auto
      have ft: "Full t" "cached t x = None" using True None t(5) by (simp_all add: Full_def)
      obtain u where u: "ReplaceCache L x ?d t = (Inr True, u)" "cache_inv u" "view u = view t" "same_drive t u"
        "\<forall>y. y \<noteq> x \<longrightarrow> cached t y = None \<longrightarrow> cached u y = None"
        using ReplaceCache_step[OF L t(2) ft(2,1)] t(6) by metis
      have "\<forall>y \<in> set xs. cached u y = None" using u(5) all Cons.prems(2) t(5) by auto
      then show ?thesis
        using u t all True cvx same_drive_trans[OF t(4) u(4)] by (intro exI[of _ u]) (simp add: Let_def)
    next
      case False
      obtain i v where v: "Add L x ?d s = Some (Some i, v)" "view v = (view s)(x := ?d)"
        "cache_inv (InsertToDirtyList (x, i) v)" "same_drive s v" "cached v = (cached s)(x \<mapsto> i)"
        "length (tree v) = Suc (length (tree s))"
        using Add_step[OF L Cons.prems(1) None False, of ?d] by blast
      let ?u = "InsertToDirtyList (x, i) v"
      have f: "tree ?u = tree v" "view ?u = view v" "same_drive v ?u"
        by (auto simp: InsertToDirtyList_def view_def fun_eq_iff same_drive_def split: option.split)
      have "\<forall>y \<in> set xs. cached ?u y = cached s y" using v(5) Cons.prems(2) f(1) by auto
      then show ?thesis
        using v f False cvx Cons.prems(6) same_drive_trans[OF v(4) f(3)] by (intro exI[of _ ?u]) (auto simp: Let_def)
    qed
  next
    case (Some p)
    then have cvx: "cv ! idx start x = Some p" using Cons.prems(3) by simp
    obtain u where u: "write_hit start cv data x s = (Inr (), u)" "cache_inv u" "view u = (view s)(x := ?d)" "same_drive s u"
      "tree u = tree s"
      using write_hit_ok[OF Cons.prems(1), where cv = cv and start = start and x = x and data = data] Cons.prems(3) Some by auto
    then show ?thesis using cvx Some Cons.prems(6) by (intro exI[of _ u]) (auto simp: Let_def andThen_def)
  qed
  then obtain u where u: "write_fill L start cv data fb lb (x # xs) s = write_fill L start cv data fb lb xs u" "cache_inv u"
    "view u = (view s)(x := ?d)" "same_drive s u" "\<forall>y \<in> set xs. cached u y = cached s y"
    "(\<forall>y \<in> set xs. cached u y = None) \<or> length (tree u) + length xs \<le> MAX_CACHE_SECTORS" by blast
  have "\<forall>y \<in> set xs. cv ! idx start y = cached u y" using Cons.prems(3) u(5) by simp
  moreover have "\<forall>y \<in> set xs. y \<notin> set (bad_sectors u) \<and> y + 1 \<noteq> 0" "known_device (deviceType u)"
    using Cons.prems(4,5) u(4) by (simp_all add: same_drive_def)
  ultimately obtain t where t: "write_fill L start cv data fb lb xs u = (Inr (), t)" "cache_inv t"
    "view t = written (view u) start data xs" "same_drive u t"
    using Cons.IH[OF u(2)] Cons.prems(2) u(6) by auto
  then show ?case using u(1,3) same_drive_trans[OF u(4) t(4)] by (simp add: written_Cons)
qed simp

lemma Write_ok:
  fixes sec :: u32
  assumes L: "lib_ok L" and inv: "cache_inv s" and en: "bEnableDiskCache s"
  defines "start \<equiv> sec + LBAStartSector s"
  assumes h: "healthy s start n" and u: "undisturbed L s start n"
  shows "\<exists>t. DiskDrive_Write L sec n data s = (Inr (), t) \<and> cache_inv t \<and>
    view t = written (view s) start data (range32 start (start + n)) \<and> same_drive s t"
proof -
  define "end" where "end = start + n"
  have hh: "known_device (deviceType s)" "unat start + unat n + 1 < 2 ^ 32"
    "\<forall>x \<in> set (range32 start end). x \<notin> set (bad_sectors s)"
    using h by (auto simp: healthy_def end_def)
  have ue: "unat end = unat start + unat n" using hh(2) by (simp add: end_def unat_word_ariths)
  obtain fb lb where b: "breaks L s start end = (fb, lb)" by fastforce
  note sp = breaks_split[OF L inv hh(2) b[unfolded end_def], folded end_def]
  let ?P = "range32 start fb" and ?S = "range32 (lb + 1) end"
  let ?M = "if fb < end then range32 fb (lb + 1) else []"
  let ?cv = "map (Find L s) (range32 start end)"
  have all: "set ?P \<union> set ?S \<union> set ?M = set (range32 start end)"
    using arg_cong[OF sp(1), of set] by auto
  have cvx: "?cv ! idx start x = cached s x" if "x \<in> set (range32 start end)" for x
    using map_Find_nth[OF L inv that] .
  have p1: "\<forall>x \<in> set ?P. ?cv ! idx start x = cached s x \<and> cached s x \<noteq> None" using cvx all sp(2) by blast
  obtain t1 where r1: "for_each (write_hit start ?cv data) ?P s = (Inr (), t1)" "cache_inv t1"
    "view t1 = written (view s) start data ?P" "same_drive s t1" "tree t1 = tree s" "disk t1 = disk s"
    using write_hits_ok[OF inv p1] by blast
  have p2: "\<forall>x \<in> set ?S. ?cv ! idx start x = cached t1 x \<and> cached t1 x \<noteq> None"
    unfolding r1(5) using cvx all sp(2) by blast
  obtain t2 where r2: "for_each (write_hit start ?cv data) ?S t1 = (Inr (), t2)" "cache_inv t2"
    "view t2 = written (view t1) start data ?S" "same_drive t1 t2" "tree t2 = tree t1" "disk t2 = disk t1"
    using write_hits_ok[OF r1(2) p2] by blast
  have sd: "same_drive s t2" using same_drive_trans[OF r1(4) r2(4)] .
  have v12: "view t2 = written (view s) start data (?P @ ?S)" using r1(3) r2(3) by (simp add: written_append)
  have run: "DiskDrive_Write L sec n data s =
    (if fb < end then write_fill L start ?cv data fb lb (range32 fb (lb + 1)) else ret ()) t2"
    using en r1(1) r2(1) b by (simp add: DiskDrive_Write_def Let_def andThen_def start_def end_def)
  show ?thesis
  proof (cases "fb < end")
    case False
    then have "view t2 = written (view s) start data (range32 start end)"
      unfolding v12 using all by (intro written_set) auto
    then show ?thesis using run False r2 sd by (simp add: end_def)
  next
    case True
    then have M: "?M = range32 fb (lb + 1)" by simp
    have ct: "cached t2 = cached s" "length (tree t2) = length (tree s)" using r1(5) r2(5) by simp_all
    have m_in: "\<forall>x \<in> set (range32 fb (lb + 1)). x \<in> set (range32 start end)" using all M by auto
    have "length (range32 fb (lb + 1)) \<le> unat n"
      using arg_cong[OF sp(1), of length] True ue by simp
    then have room: "(\<forall>x \<in> set (range32 fb (lb + 1)). cached t2 x = None) \<or>
        length (tree t2) + length (range32 fb (lb + 1)) \<le> MAX_CACHE_SECTORS"
      using u b Find_cached[OF L inv] ct True unfolding undisturbed_def end_def by auto
    have nz: "x + 1 \<noteq> 0" if "x \<in> set (range32 start end)" for x
    proof -
      have "unat x < unat end" using that by (simp add: set_range32 word_less_nat_alt)
      then have "unat (x + 1) = unat x + 1" using u32_bound[of "end"] by (simp add: unat_word_ariths)
      then show ?thesis by auto
    qed
    have pre: "\<forall>x \<in> set (range32 fb (lb + 1)). ?cv ! idx start x = cached t2 x"
      "\<forall>x \<in> set (range32 fb (lb + 1)). x \<notin> set (bad_sectors t2) \<and> x + 1 \<noteq> 0" "known_device (deviceType t2)"
      using cvx ct m_in nz hh sd by (auto simp: same_drive_def)
    from write_fill_ok[OF L r2(2) distinct_range32 pre room] obtain t3 where
      r4: "write_fill L start ?cv data fb lb (range32 fb (lb + 1)) t2 = (Inr (), t3)" "cache_inv t3"
        "view t3 = written (view t2) start data (range32 fb (lb + 1))" "same_drive t2 t3" by blast
    have "view t3 = written (view s) start data ((?P @ ?S) @ range32 fb (lb + 1))"
      using r4(3) v12 by (simp add: written_append)
    also have "\<dots> = written (view s) start data (range32 start end)" using all M by (intro written_set) auto
    finally show ?thesis using run True r4 same_drive_trans[OF sd r4(4)] by (simp add: end_def)
  qed
qed

section \<open>Flushing\<close>

lemma flush_step:
  assumes inv: "cache_inv s" and d: "dirtyCacheList s = (x, p) # ds"
    and ok: "known_device (deviceType s)" "x \<notin> set (bad_sectors s)" "x + 1 \<noteq> 0"
  shows "\<exists>t. (\<exists>g. Get s = Some ((x, p), g) \<and> FlushSector x p g = (True, t)) \<and> cache_inv t \<and> view t = view s \<and>
    same_drive s t \<and> dirtyCacheList t = ds \<and> disk t = (disk s)(x := view s x)"
proof -
  have px: "cached s x = Some p" using cache_invD(8)[OF inv, of x p] d by simp
  let ?b = "m_bSectorBuffer (slots s p)"
  let ?g = "s\<lparr>dirtyCacheList := ds\<rparr>"
  let ?t = "?g\<lparr>disk := (disk s)(x := ?b)\<rparr>"
  have lt: "x < x + 1" using ok(3) by (rule u32_less_succ)
  have "range32 x (x + 1) = [x]" using range32_Cons[OF lt] by simp
  then have f: "FlushSector x p ?g = (True, ?t)"
    using ok by (simp add: FlushSector_def RawWrite_def write_one_def andThen_def)
  have nx: "x \<notin> fst ` set ds" "distinct (map fst ds)" using cache_invD(7)[OF inv] d by simp_all
  have cl: "cached s y = Some q \<Longrightarrow> y \<notin> fst ` set ds \<Longrightarrow> ?b = ?b \<and> m_bSectorBuffer (slots s q) = ((disk s)(x := ?b)) y" for y q
    using cache_invD(9)[OF inv, of y q] px d by (cases "y = x") auto
  have "cache_inv ?t" using inv nx cl d unfolding cache_inv_def by simp
  moreover have "view ?t = view s"
  proof
    fix y
    show "view ?t y = view s y" using px by (cases "y = x") (simp_all add: view_def split: option.split)
  qed
  moreover have "?b = view s x" using px by (simp add: view_def)
  ultimately show ?thesis using f d
    by (intro exI[of _ ?t]) (simp add: Get_def same_drive_def)
qed

lemma flush_all:
  assumes "cache_inv s" "known_device (deviceType s)" "\<forall>x \<in> dirty s. x \<notin> set (bad_sectors s) \<and> x + 1 \<noteq> 0" "i < 0"
  shows "\<exists>t. flush_loop i s = (True, t) \<and> cache_inv t \<and> view t = view s \<and> same_drive s t \<and> dirtyCacheList t = []"
  using assms
proof (induction "length (dirtyCacheList s)" arbitrary: s i)
  case 0
  then show ?case by (subst flush_loop.simps) (simp add: Get_def)
next
  case (Suc k)
  obtain x p ds where d: "dirtyCacheList s = (x, p) # ds" using Suc.hyps(2) by (cases "dirtyCacheList s") auto
  from flush_step[OF Suc.prems(1) d Suc.prems(2)] Suc.prems(3) d obtain g u where
    u: "Get s = Some ((x, p), g)" "FlushSector x p g = (True, u)" "cache_inv u" "view u = view s" "same_drive s u"
      "dirtyCacheList u = ds" by auto
  have "\<exists>t. flush_loop (i - 1) u = (True, t) \<and> cache_inv t \<and> view t = view u \<and> same_drive u t \<and> dirtyCacheList t = []"
  proof (rule Suc.hyps(1))
    show "k = length (dirtyCacheList u)" using Suc.hyps(2) d u(6) by simp
    show "\<forall>x \<in> dirty u. x \<notin> set (bad_sectors u) \<and> x + 1 \<noteq> 0"
      using Suc.prems(3) d u(5,6) by (auto simp: same_drive_def)
  qed (use u Suc.prems(2,4) in \<open>auto simp: same_drive_def\<close>)
  moreover have "flush_loop i s = flush_loop (i - 1) u"
    using Suc.prems(4) u(1,2) by (subst flush_loop.simps) simp
  ultimately show ?case using u(4) same_drive_trans[OF u(5)] by auto
qed

lemma clean_disk_view: "cache_inv s \<Longrightarrow> dirtyCacheList s = [] \<Longrightarrow> disk s = view s"
  by (rule ext) (simp add: view_def cache_inv_def split: option.split)

section \<open>The store behind a file system\<close>

definition drive_read :: "cache_lib \<Rightarrow> u32 \<Rightarrow> u32 \<Rightarrow> (drive, io_error, sector list) comp" where
  "drive_read L x n s =
     (case DiskDrive_Read L x n (s, replicate (unat n) []) of
        (Inl e, (t, _)) \<Rightarrow> (Inl e, t)
      | (Inr _, (t, buf)) \<Rightarrow> (Inr buf, t))"

definition drive_write :: "cache_lib \<Rightarrow> u32 \<Rightarrow> sector list \<Rightarrow> (drive, io_error, unit) comp" where
  "drive_write L x data = DiskDrive_Write L x (of_nat (length data)) data"

text \<open>
  What the file system relies on: single sectors can be read and written, and a sector holds what was
  last written to it. \<open>good\<close> says which sectors the device transfers.
\<close>

locale sector_store =
  fixes rd :: "u32 \<Rightarrow> u32 \<Rightarrow> ('d, io_error, sector list) comp"
    and wr :: "u32 \<Rightarrow> sector list \<Rightarrow> ('d, io_error, unit) comp"
    and ok :: "'d \<Rightarrow> bool" and look :: "'d \<Rightarrow> u32 \<Rightarrow> sector" and good :: "'d \<Rightarrow> u32 \<Rightarrow> bool"
  assumes read_law: "ok s \<Longrightarrow> good s x \<Longrightarrow>
      \<exists>t. rd x 1 s = (Inr [look s x], t) \<and> ok t \<and> look t = look s \<and> good t = good s"
    and write_law: "ok s \<Longrightarrow> good s x \<Longrightarrow>
      \<exists>t. wr x [b] s = (Inr (), t) \<and> ok t \<and> look t = (look s)(x := b) \<and> good t = good s"
begin

lemma read_back:
  assumes "ok s" "good s x"
  shows "\<exists>t u. wr x [b] s = (Inr (), t) \<and> rd x 1 t = (Inr [b], u) \<and> ok u \<and> look u = (look s)(x := b)"
proof -
  obtain t where t: "wr x [b] s = (Inr (), t)" "ok t" "look t = (look s)(x := b)" "good t = good s"
    using write_law[OF assms] by blast
  obtain u where "rd x 1 t = (Inr [look t x], u)" "ok u" "look u = look t"
    using read_law[OF t(2), of x] assms(2) t(4) by auto
  then show ?thesis using t by auto
qed

text \<open>Writing several sectors one after the other.\<close>

lemma write_each:
  assumes "ok s" "\<forall>(x, b) \<in> set ws. good s x"
  shows "\<exists>t. for_each (\<lambda>(x, b). wr x [b]) ws s = (Inr (), t) \<and> ok t \<and> good t = good s \<and>
    look t = fold (\<lambda>(x, b) f. f(x := b)) ws (look s)"
  using assms
proof (induction ws arbitrary: s)
  case (Cons w ws)
  obtain x b where w: "w = (x, b)" by fastforce
  obtain u where u: "wr x [b] s = (Inr (), u)" "ok u" "look u = (look s)(x := b)" "good u = good s"
    using write_law[OF Cons.prems(1), of x b] Cons.prems(2) w by auto
  from Cons.IH[OF u(2)] Cons.prems(2) u(4) show ?case by (auto simp: w u andThen_def)
qed simp

end

lemma healthy_one:
  assumes "healthy s start 1"
  shows "range32 start (start + 1) = [start]"
proof -
  have "start < start + 1" using assms by (simp add: healthy_def word_less_nat_alt unat_word_ariths)
  then show ?thesis using range32_Cons by simp
qed

lemma undisturbed_one:
  assumes "lib_ok L" "cache_inv s" "healthy s start 1"
  shows "undisturbed L s start 1"
  using healthy_one[OF assms(3)] by (auto simp: undisturbed_def breaks_def Let_def)

interpretation ds: sector_store "drive_read L" "drive_write L"
  "\<lambda>s. lib_ok L \<and> cache_inv s \<and> bEnableDiskCache s" "\<lambda>s x. view s (x + LBAStartSector s)"
  "\<lambda>s x. healthy s (x + LBAStartSector s) 1" for L
proof
  fix s x b
  assume ok: "lib_ok L \<and> cache_inv s \<and> bEnableDiskCache s" and h: "healthy s (x + LBAStartSector s) 1"
  then have L: "lib_ok L" "cache_inv s" "bEnableDiskCache s" by auto
  note u = undisturbed_one[OF L(1,2) h] and r = healthy_one[OF h]
  have frame: "(\<lambda>x. healthy t (x + LBAStartSector t) 1) = (\<lambda>x. healthy s (x + LBAStartSector s) 1)"
    "bEnableDiskCache t" "LBAStartSector t = LBAStartSector s"
    if "same_drive s t" for t
    using that L(3) by (simp_all add: same_drive_def healthy_def)
  obtain t where t: "DiskDrive_Read L x 1 (s, [[]]) = (Inr (), t, [view s (x + LBAStartSector s)])" "cache_inv t"
      "view t = view s" "same_drive s t"
    using Read_ok[OF L h u, of "[[]]"] r by auto
  then have "drive_read L x 1 s = (Inr [view s (x + LBAStartSector s)], t)" by (simp add: drive_read_def)
  then show "\<exists>t. drive_read L x 1 s = (Inr [view s (x + LBAStartSector s)], t) \<and>
      (lib_ok L \<and> cache_inv t \<and> bEnableDiskCache t) \<and>
      (\<lambda>x. view t (x + LBAStartSector t)) = (\<lambda>x. view s (x + LBAStartSector s)) \<and>
      (\<lambda>x. healthy t (x + LBAStartSector t) 1) = (\<lambda>x. healthy s (x + LBAStartSector s) 1)"
    using t L(1) frame[OF t(4)] by (intro exI[of _ t]) simp
  obtain v where v: "DiskDrive_Write L x 1 [b] s = (Inr (), v)" "cache_inv v"
      "view v = written (view s) (x + LBAStartSector s) [b] [x + LBAStartSector s]" "same_drive s v"
    using Write_ok[OF L h u, of "[b]"] r by auto
  have "(\<lambda>y. view v (y + LBAStartSector v)) = (\<lambda>y. view s (y + LBAStartSector s))(x := b)"
    using v(3) frame(3)[OF v(4)] by (auto simp: fun_eq_iff written_def)
  then show "\<exists>t. drive_write L x [b] s = (Inr (), t) \<and>
      (lib_ok L \<and> cache_inv t \<and> bEnableDiskCache t) \<and>
      (\<lambda>x. view t (x + LBAStartSector t)) = (\<lambda>x. view s (x + LBAStartSector s))(x := b) \<and>
      (\<lambda>x. healthy t (x + LBAStartSector t) 1) = (\<lambda>x. healthy s (x + LBAStartSector s) 1)"
    using v(1,2) L(1) frame[OF v(4)] by (intro exI[of _ v]) (simp add: drive_write_def)
qed

end
