(* ===== verification/DiskProperties.thy ===== *)
theory DiskProperties
  imports DiskStore
begin

text \<open>
  What the drive and its sector cache promise, and where the cache does not keep it: the release list of
  the LFU task, reads from a full cache, and the properties of \<open>drivers/DeviceDrive.cpp\<close> and
  \<open>drivers/DiskCache.cpp\<close>.
\<close>

section \<open>Building the release list\<close>

definition ids :: "drive \<Rightarrow> u32 list" where "ids s = map rank_SectorID (ReleaseList s)"

lemma mset_ids_insert:
  assumes "lib_ok L"
  shows "mset (map rank_SectorID (sorted_insert_asc L n ns)) = add_mset (rank_SectorID n) (mset (map rank_SectorID ns))"
  using lib_okD(6)[OF assms, of n ns] by simp

lemma lfu_visit_frame:
  "lfu_visit L kv s = s\<lparr>ReleaseList := ReleaseList (lfu_visit L kv s)\<rparr>"
  by (simp add: lfu_visit_def Let_def)

lemma lfu_fold_frame: "fold (lfu_visit L) kvs s = s\<lparr>ReleaseList := ReleaseList (fold (lfu_visit L) kvs s)\<rparr>"
proof (induction kvs arbitrary: s)
  case (Cons kv kvs)
  have "fold (lfu_visit L) kvs (lfu_visit L kv s) =
      (lfu_visit L kv s)\<lparr>ReleaseList := ReleaseList (fold (lfu_visit L) kvs (lfu_visit L kv s))\<rparr>" by (rule Cons.IH)
  then show ?case by (subst (asm) (2) lfu_visit_frame) simp
qed simp

lemma distinct_mset_eq: "mset xs = mset ys \<Longrightarrow> distinct xs = distinct ys"
  by (rule mset_eq_imp_distinct_iff)

lemma lfu_visit_ids:
  assumes "lib_ok L" "distinct (ids s)" "fst kv \<notin> set (ids s)"
  shows "distinct (ids (lfu_visit L kv s))" "set (ids (lfu_visit L kv s)) \<subseteq> insert (fst kv) (set (ids s))"
proof -
  have ins: "mset (map rank_SectorID (sorted_insert_asc L n ns)) = mset (rank_SectorID n # map rank_SectorID ns)" for n ns
    using mset_ids_insert[OF assms(1)] by simp
  have d: "distinct (map rank_SectorID (sorted_insert_asc L n ns)) = distinct (rank_SectorID n # map rank_SectorID ns)"
    "set (map rank_SectorID (sorted_insert_asc L n ns)) = set (rank_SectorID n # map rank_SectorID ns)" for n ns
    using distinct_mset_eq[OF ins] mset_eq_setD[OF ins] by auto
  have bl: "set (map rank_SectorID (butlast ns)) \<subseteq> set (map rank_SectorID ns)" for ns by (auto dest: in_set_butlastD)
  have bd: "distinct (map rank_SectorID ns) \<Longrightarrow> distinct (map rank_SectorID (butlast ns))" for ns
    by (simp add: map_butlast distinct_butlast)
  show "distinct (ids (lfu_visit L kv s))"
    using assms(2,3) d(1) bd bl[THEN subsetD] unfolding lfu_visit_def Let_def ids_def
    by (auto split: if_splits dest: in_set_butlastD)
  show "set (ids (lfu_visit L kv s)) \<subseteq> insert (fst kv) (set (ids s))"
    using d(2) bl unfolding lfu_visit_def Let_def ids_def by (auto split: if_splits) blast+
qed

lemma lfu_fold_ids:
  assumes "lib_ok L" "distinct (ids s)" "distinct (map fst kvs)" "set (map fst kvs) \<inter> set (ids s) = {}"
  shows "distinct (ids (fold (lfu_visit L) kvs s)) \<and>
    set (ids (fold (lfu_visit L) kvs s)) \<subseteq> set (ids s) \<union> set (map fst kvs)"
  using assms(2-)
proof (induction kvs arbitrary: s)
  case (Cons kv kvs)
  have n: "fst kv \<notin> set (ids s)" using Cons.prems(3) by auto
  note v = lfu_visit_ids[OF assms(1) Cons.prems(1) n]
  have "x \<notin> set (ids (lfu_visit L kv s))" if "x \<in> set (map fst kvs)" for x
  proof
    assume "x \<in> set (ids (lfu_visit L kv s))"
    then have "x = fst kv \<or> x \<in> set (ids s)" using v(2) by blast
    then show False using that Cons.prems(2,3) by (auto simp del: set_map)
  qed
  then have "set (map fst kvs) \<inter> set (ids (lfu_visit L kv s)) = {}" by blast
  moreover have "distinct (map fst kvs)" using Cons.prems(2) by simp
  ultimately have ih: "distinct (ids (fold (lfu_visit L) kvs (lfu_visit L kv s)))"
    "set (ids (fold (lfu_visit L) kvs (lfu_visit L kv s))) \<subseteq> set (ids (lfu_visit L kv s)) \<union> set (map fst kvs)"
    using Cons.IH[OF v(1)] by blast+
  have "set (ids (fold (lfu_visit L) (kv # kvs) s)) \<subseteq> set (ids s) \<union> set (map fst (kv # kvs))"
    using subset_trans[OF ih(2), of "set (ids s) \<union> set (map fst (kv # kvs))"] v(2) by (simp del: set_map) blast
  then show ?case using ih(1) by simp
qed simp

lemma LFU_Run_keeps:
  assumes "lib_ok L" "cache_inv s" "\<not> bReleaseListBuilt s \<Longrightarrow> ReleaseList s = []"
  shows "cache_inv (LFU_Run L s) \<and> view (LFU_Run L s) = view s"
proof -
  let ?t = "fold (lfu_visit L) (tree s) s"
  have fr: "?t = s\<lparr>ReleaseList := ReleaseList ?t\<rparr>" by (rule lfu_fold_frame)
  have f: "tree ?t = tree s" "slots ?t = slots s" "disk ?t = disk s" "dirtyCacheList ?t = dirtyCacheList s"
    "pool_used ?t = pool_used s" "bReleaseListBuilt ?t = bReleaseListBuilt s"
    by (subst fr, simp)+
  show ?thesis
  proof (cases "Full s \<and> \<not> bReleaseListBuilt s")
    case True
    have "ids s = []" using assms(3) True by (simp add: ids_def)
    then have i: "distinct (ids ?t)" "set (ids ?t) \<subseteq> dom (cached s)"
      using lfu_fold_ids[OF assms(1) _ ordered_distinct[OF cache_invD(1)[OF assms(2)]], of s]
      by (auto simp: dom_map_of_conv_image_fst)
    have "cache_inv ?t" "cache_inv (?t\<lparr>bReleaseListBuilt := True\<rparr>)"
      using assms(2) True i f unfolding cache_inv_def ids_def by (simp_all add: image_set del: set_map)
    moreover have "view ?t = view s" "view (?t\<lparr>bReleaseListBuilt := True\<rparr>) = view s"
      using f by (auto simp: view_def fun_eq_iff split: option.split)
    ultimately show ?thesis using True by (simp add: LFU_Run_def Let_def)
  qed (use assms(2) in \<open>auto simp: LFU_Run_def\<close>)
qed

section \<open>A library to try things on\<close>

fun tree_insert :: "(u32 \<times> nat) list \<Rightarrow> u32 \<Rightarrow> nat \<Rightarrow> (u32 \<times> nat) list" where
  "tree_insert [] x i = [(x, i)]"
| "tree_insert ((y, j) # t) x i = (if x < y then (x, i) # (y, j) # t else (y, j) # tree_insert t x i)"

fun rank_insert :: "CacheRankNode \<Rightarrow> CacheRankNode list \<Rightarrow> CacheRankNode list" where
  "rank_insert n [] = [n]"
| "rank_insert n (m # ms) = (if rank_le m n then m # rank_insert n ms else n # m # ms)"

definition plain_lib :: cache_lib where
  "plain_lib = \<lparr>bt_find = map_of,
     bt_insert = (\<lambda>t x i. if map_of t x = None then Some (tree_insert t x i) else None),
     bt_delete = (\<lambda>t x. if map_of t x = None then None else Some (filter (\<lambda>kv. fst kv \<noteq> x) t)),
     pool_create = (\<lambda>u. find (\<lambda>i. i \<notin> set u) [0..<MAX_CACHE_SECTORS]),
     sorted_insert_asc = rank_insert\<rparr>"

lemma set_tree_insert: "fst ` set (tree_insert t x i) = insert x (fst ` set t)"
  by (induction t x i rule: tree_insert.induct) auto

lemma ordered_tree_insert: "ordered t \<Longrightarrow> map_of t x = None \<Longrightarrow> ordered (tree_insert t x i)"
proof (induction t x i rule: tree_insert.induct)
  case (2 y j t x i)
  have s: "set (map fst (tree_insert t x i)) = insert x (set (map fst t))" using set_tree_insert[of t x i] by simp
  have "ordered t" "\<forall>z \<in> set (map fst t). y < z" "x \<noteq> y" "map_of t x = None"
    using 2(2,3) by (auto simp: ordered_def split: if_splits)
  then show ?case using 2 s by (fastforce simp: ordered_def simp del: set_map)
qed (simp add: ordered_def)

lemma map_of_tree_insert: "map_of t x = None \<Longrightarrow> map_of (tree_insert t x i) = (map_of t)(x \<mapsto> i)"
  by (induction t x i rule: tree_insert.induct) (auto simp: fun_eq_iff split: if_splits)

lemma map_of_remove: "map_of (filter (\<lambda>kv. fst kv \<noteq> x) t) = (map_of t)(x := None)"
  by (induction t) (auto simp: fun_eq_iff)

lemma mset_rank_insert: "mset (rank_insert n ns) = add_mset n (mset ns)"
  by (induction ns) auto

lemma plain_lib_ok: "lib_ok plain_lib"
proof -
  have "\<exists>i < MAX_CACHE_SECTORS. find (\<lambda>i. i \<notin> set u) [0..<MAX_CACHE_SECTORS] = Some i \<and> i \<notin> set u"
    if "set u \<subset> {..<MAX_CACHE_SECTORS}" for u
  proof (cases "find (\<lambda>i. i \<notin> set u) [0..<MAX_CACHE_SECTORS]")
    case None
    then show ?thesis using that by (auto simp: find_None_iff)
  next
    case (Some i)
    then have "i < MAX_CACHE_SECTORS \<and> i \<notin> set u" by (auto simp: find_Some_iff)
    then show ?thesis using Some by blast
  qed
  moreover have "ordered t \<Longrightarrow> ordered (filter (\<lambda>kv. fst kv \<noteq> x) t)" for t x
    unfolding ordered_def by (induction t) auto
  ultimately show ?thesis
    unfolding lib_ok_def plain_lib_def
    by (auto simp: ordered_tree_insert map_of_tree_insert map_of_remove mset_rank_insert)
qed

section \<open>A full cache\<close>

lemma full_pool:
  assumes "cache_inv s" "Full s"
  shows "set (pool_used s) = {..<MAX_CACHE_SECTORS}"
proof (rule card_subset_eq)
  show "card (set (pool_used s)) = card {..<MAX_CACHE_SECTORS}"
    using pool_used_size[OF assms(1)] assms(2) cache_invD(2)[OF assms(1)] by (simp add: Full_def)
qed (use cache_invD(6)[OF assms(1)] in auto)

text \<open>In a full cache the sector that enters takes over the value of the sector that leaves.\<close>

text \<open>Only the release list may be out of order.\<close>

lemma cache_inv_unbuilt: "cache_inv s \<Longrightarrow> cache_inv (s\<lparr>bReleaseListBuilt := False\<rparr>)"
  by (simp add: cache_inv_def)

lemma ReplaceCache_full:
  assumes L: "lib_ok L" and inv': "cache_inv (s\<lparr>bReleaseListBuilt := False\<rparr>)" and new: "cached s x = None" and full: "Full s"
    and rl: "bReleaseListBuilt s" "ReleaseList s = node # rest" "rank_SectorID node \<notin> dirty s"
      "cached s (rank_SectorID node) = Some q"
  shows "\<exists>t. ReplaceCache L x b s = (Inr True, t) \<and> m_bSectorBuffer (slots t q) = b \<and>
    ordered (tree t) \<and> cached t = (cached s)(rank_SectorID node := None, x \<mapsto> q) \<and> ReleaseList t = rest \<and>
    bReleaseListBuilt t = (rest \<noteq> []) \<and> dirtyCacheList t = dirtyCacheList s \<and> disk t = disk s \<and> same_drive s t \<and>
    length (tree t) = length (tree s)"
proof -
  let ?y = "rank_SectorID node"
  have os: "ordered (tree s)" and dpu: "distinct (pool_used s)" and qr: "set (pool_used s) = ran (cached s)"
    "set (pool_used s) \<subseteq> {..<MAX_CACHE_SECTORS}"
    using cache_invD(1,4,5,6)[OF inv'] by simp_all
  have fp: "set (pool_used s) = {..<MAX_CACHE_SECTORS}" using full_pool[OF inv'] full by (simp add: Full_def)
  obtain tr where tr: "bt_delete L (tree s) ?y = Some tr" "ordered tr" "map_of tr = (cached s)(?y := None)"
    using lib_okD(3)[OF L os] rl(4) by blast
  have fd: "bt_find L (tree s) ?y = Some q" using lib_okD(1)[OF L os] rl(4) by simp
  let ?pu = "filter (\<lambda>i. i \<notin> set [q]) (pool_used s)"
  define u where "u = s\<lparr>ReleaseList := rest, tree := tr, pool_used := ?pu\<rparr>"
  have qin: "q < MAX_CACHE_SECTORS" using qr rl(4) by (auto simp: ran_def)
  have pu: "set ?pu = {..<MAX_CACHE_SECTORS} - {q}" using fp by auto
  have dp: "distinct (pool_used u)" "set (pool_used u) \<subset> {..<MAX_CACHE_SECTORS}"
    using dpu pu qin by (auto simp: u_def)
  from CreateValue_step[OF L dp] obtain i v where c: "CreateValue L b u = Some (i, v)" "i < MAX_CACHE_SECTORS"
    "i \<notin> set (pool_used u)" "v = u\<lparr>pool_used := i # pool_used u, slots := slots v\<rparr>"
    "\<And>p. m_bSectorBuffer (slots v p) = (if p = i then b else m_bSectorBuffer (slots u p))" by blast
  have iq: "i = q" using c(2,3) pu by (auto simp: u_def)
  have vt: "tree v = tr" "ReleaseList v = rest" "bReleaseListBuilt v = True" "dirtyCacheList v = dirtyCacheList s"
    "disk v = disk s" "same_drive s v"
    by (subst c(4), simp add: u_def rl(1) same_drive_def)+
  have nx: "map_of tr x = None" using new tr(3) by simp
  obtain tr' where tr': "bt_insert L tr x i = Some tr'" "ordered tr'" "map_of tr' = (map_of tr)(x \<mapsto> i)"
    using lib_okD(2)[OF L tr(2) nx] by blast
  let ?t = "v\<lparr>tree := tr', bReleaseListBuilt := (if ReleaseList v = [] then False else bReleaseListBuilt v)\<rparr>"
  have "ReplaceCache L x b s = (Inr True, ?t)"
    using rl tr(1) fd c(1) tr'(1) vt(1) by (simp add: ReplaceCache_def Let_def u_def)
  moreover have "length tr' = length (tree s)"
  proof -
    have fin: "finite (dom (cached s))" by (rule finite_dom_map_of)
    have "dom (map_of tr') = insert x (dom (cached s) - {?y})" using tr'(3) tr(3) by auto
    moreover have "x \<notin> dom (cached s)" using new by (simp add: domIff)
    moreover have "card (dom (cached s)) > 0" using fin rl(4) by (auto simp: card_gt_0_iff)
    ultimately show ?thesis
      using fin rl(4) tr'(2) os
      by (simp add: ordered_length card_insert_if domI)
  qed
  ultimately show ?thesis using c(5)[of q] iq tr' tr(3) vt by (intro exI[of _ ?t]) (simp add: same_drive_def)
qed

text \<open>A single sector that is not cached.\<close>

lemma read_one_miss:
  assumes "bEnableDiskCache s" "Find L s y = None" "healthy s y 1" "LBAStartSector s = 0"
  shows "DiskDrive_Read L y 1 (s, [b]) = read_fill L y [None] [y] (s, [disk s y])"
proof -
  have r: "range32 y (y + 1) = [y]" using healthy_one[OF assms(3)] .
  have lt: "y < y + 1" using r by (metis length_0_conv not_Cons_self2 range32_empty not_less)
  have e: "range32 (y + 1) (y + 1) = []" by simp
  have "RawRead y 1 0 (s, [b]) = (Inr (), (s, [disk s y]))"
    using assms(3) r by (simp add: RawRead_def healthy_def)
  then show ?thesis
    using assms r e lt by (simp add: DiskDrive_Read_def Let_def breaks_def andThen_def)
qed

section \<open>A full cache to try things on\<close>

lemma cache_inv_listI:
  assumes "ordered t" "length t \<le> MAX_CACHE_SECTORS" "distinct (map snd t)" "set (map snd t) \<subseteq> {..<MAX_CACHE_SECTORS}"
    "tree s = t" "pool_used s = map snd t"
    "distinct (map fst (dirtyCacheList s))" "set (dirtyCacheList s) \<subseteq> set t"
    "\<forall>(x, p) \<in> set t. m_bSectorBuffer (slots s p) = disk s x"
    "bReleaseListBuilt s \<longrightarrow> distinct (map rank_SectorID (ReleaseList s)) \<and>
       rank_SectorID ` set (ReleaseList s) \<subseteq> fst ` set t"
  shows "cache_inv s"
proof -
  have d: "distinct (map fst t)" using ordered_distinct[OF assms(1)] .
  have mem: "\<And>x p. map_of t x = Some p \<longleftrightarrow> (x, p) \<in> set t" using d by (simp add: map_of_eq_Some_iff)
  have one: "x = y" if "(x, p) \<in> set t" "(y, p) \<in> set t" for x y p
    using assms(3) that by (metis distinct_map inj_onD prod.inject snd_conv)
  have "inj_on (map_of t) (dom (map_of t))"
  proof (rule inj_onI)
    fix x y assume d: "x \<in> dom (map_of t)" and e: "map_of t x = map_of t y"
    obtain p where "map_of t x = Some p" using d by blast
    moreover from this have "map_of t y = Some p" using e by simp
    ultimately have "map_of t x = Some p" "map_of t y = Some p" by blast+
    then show "x = y" using one mem by blast
  qed
  moreover have "ran (map_of t) = set (map snd t)" using d by (simp add: ran_distinct)
  moreover have "dom (map_of t) = fst ` set t" by (simp add: dom_map_of_conv_image_fst)
  ultimately show ?thesis
    using assms mem unfolding cache_inv_def by (auto simp: subset_iff)
qed

definition demo_tree :: "(u32 \<times> nat) list" where
  "demo_tree = map (\<lambda>i. (of_nat (2 * i + 1), i)) [0..<32]"

definition demo_drive :: "(u32 \<times> nat) list \<Rightarrow> CacheRankNode list \<Rightarrow> bool \<Rightarrow> drive" where
  "demo_drive d rel b =
     \<lparr>deviceType = DEV_ATA_IDE, LBAStartSector = 0, disk = (\<lambda>x. [ucast x]), bad_sectors = [],
      bEnableDiskCache = True, tree = demo_tree,
      slots = (\<lambda>i. \<lparr>m_uiLastAccess = 0, m_uiHitCount = 1, m_bSectorBuffer = [of_nat (2 * i + 1)]\<rparr>),
      pool_used = [0..<32], dirtyCacheList = d, ReleaseList = rel, bReleaseListBuilt = b, ClockCount = 100\<rparr>"

lemma demo_tree_facts: "ordered demo_tree" "length demo_tree = 32" "map snd demo_tree = [0..<32]"
  by (code_simp, code_simp, simp add: demo_tree_def comp_def)

lemma demo_values: "\<forall>(x, p) \<in> set demo_tree. [of_nat (2 * p + 1)] = [ucast x :: u8]"
  by code_simp

lemma demo_inv:
  assumes "distinct (map fst d)" "set d \<subseteq> set demo_tree"
    "b \<longrightarrow> distinct (map rank_SectorID rel) \<and> rank_SectorID ` set rel \<subseteq> fst ` set demo_tree"
  shows "cache_inv (demo_drive d rel b)"
proof (rule cache_inv_listI[of demo_tree])
  show "\<forall>(x, p) \<in> set demo_tree. m_bSectorBuffer (slots (demo_drive d rel b) p) = disk (demo_drive d rel b) x"
    using demo_values by (simp add: demo_drive_def)
qed (use assms demo_tree_facts in \<open>auto simp: demo_drive_def MAX_CACHE_SECTORS_def\<close>)

lemma demo_cached: "cached (demo_drive d rel b) = map_of demo_tree"
  by (simp add: demo_drive_def)

lemma demo_healthy: "unat x + unat n + 1 < 2 ^ 32 \<Longrightarrow> healthy (demo_drive d rel b) x n"
  by (simp add: healthy_def demo_drive_def known_device_def)

lemma demo_full: "Full (demo_drive d rel b)"
  by (simp add: Full_def demo_drive_def demo_tree_facts MAX_CACHE_SECTORS_def)

text \<open>The visitor with a single sector that is not dirty.\<close>

lemma fold_one_clean:
  assumes "\<forall>kv \<in> set kvs. fst kv \<noteq> x \<longrightarrow> fst kv \<in> dirty s" "x \<notin> dirty s" "distinct (map fst kvs)" "(x, p) \<in> set kvs"
  shows "fold (lfu_visit L) kvs s = lfu_visit L (x, p) s"
proof -
  have skip: "fold (lfu_visit L) ks u = u" if "\<forall>kv \<in> set ks. fst kv \<in> dirty u" for ks u
    using that by (induction ks) (auto simp: lfu_visit_def)
  have dv: "dirty (lfu_visit L kv u) = dirty u" for kv u by (simp add: lfu_visit_def Let_def)
  obtain k1 k2 where k: "kvs = k1 @ (x, p) # k2" using assms(4) by (meson split_list)
  have "\<forall>kv \<in> set k1. fst kv \<in> dirty s" "\<forall>kv \<in> set k2. fst kv \<in> dirty (lfu_visit L (x, p) s)"
    using assms(1,3) k unfolding dv by (auto simp: image_iff)
  then show ?thesis using skip k by simp
qed

text \<open>One pass of \<open>Run\<close> puts the only clean sector on the list once more.\<close>

lemma Run_one_clean:
  assumes L: "lib_ok L" and t: "ordered (tree s)" "Full s" and nb: "\<not> bReleaseListBuilt s"
    and one: "\<forall>y \<in> fst ` set (tree s). y \<noteq> x \<longrightarrow> y \<in> dirty s" "x \<notin> dirty s" "cached s x = Some p"
    and l: "length (ReleaseList s) < uiMaxRelListSize" "set (ids s) \<subseteq> {x}"
  shows "\<exists>r. LFU_Run L s = s\<lparr>ReleaseList := r, bReleaseListBuilt := (length r = uiMaxRelListSize)\<rparr> \<and>
    length r = Suc (length (ReleaseList s)) \<and> set (map rank_SectorID r) \<subseteq> {x}"
proof -
  have xp: "(x, p) \<in> set (tree s)" using one(3) by (rule map_of_SomeD)
  have f: "fold (lfu_visit L) (tree s) s = lfu_visit L (x, p) s"
    by (rule fold_one_clean[OF _ one(2) ordered_distinct[OF t(1)] xp]) (use one(1) in auto)
  let ?n = "\<lparr>rank_SectorID = x, rank_time = ClockCount s - m_uiLastAccess (slots s p), rank_hits = m_uiHitCount (slots s p)\<rparr>"
  let ?r = "sorted_insert_asc L ?n (ReleaseList s)"
  have v: "lfu_visit L (x, p) s = s\<lparr>ReleaseList := ?r\<rparr>" using one(2) l(1) by (simp add: lfu_visit_def Let_def)
  have m: "mset ?r = add_mset ?n (mset (ReleaseList s))" by (rule lib_okD(6)[OF L])
  have "length ?r = Suc (length (ReleaseList s))" using arg_cong[OF m, of size] by simp
  moreover have "set ?r = insert ?n (set (ReleaseList s))" using arg_cong[OF m, of set_mset] by simp
  then have "set (map rank_SectorID ?r) \<subseteq> {x}" using l(2) by (simp add: ids_def)
  moreover have "LFU_Run L s = s\<lparr>ReleaseList := ?r, bReleaseListBuilt := (length ?r = uiMaxRelListSize)\<rparr>"
    using t(2) nb f v by (simp add: LFU_Run_def Let_def)
  ultimately show ?thesis by blast
qed

lemma Run_thrice:
  assumes L: "lib_ok L" and inv: "cache_inv s" and full: "Full s" and nb: "\<not> bReleaseListBuilt s" "ReleaseList s = []"
    and one: "\<forall>y \<in> fst ` set (tree s). y \<noteq> x \<longrightarrow> y \<in> dirty s" "x \<notin> dirty s" "cached s x = Some p"
  shows "\<exists>r. LFU_Run L (LFU_Run L (LFU_Run L s)) = s\<lparr>ReleaseList := r, bReleaseListBuilt := True\<rparr> \<and>
    map rank_SectorID r = [x, x, x]"
proof -
  note run = Run_one_clean[OF L]
  have or: "ordered (tree s)" using cache_invD(1)[OF inv] .
  obtain r1 where r1: "LFU_Run L s = s\<lparr>ReleaseList := r1, bReleaseListBuilt := False\<rparr>" "length r1 = 1"
    "set (map rank_SectorID r1) \<subseteq> {x}"
    using run[OF or full nb(1) one] nb(2) by (auto simp: uiMaxRelListSize_def ids_def)
  let ?s1 = "s\<lparr>ReleaseList := r1, bReleaseListBuilt := False\<rparr>"
  obtain r2 where r2: "LFU_Run L ?s1 = s\<lparr>ReleaseList := r2, bReleaseListBuilt := False\<rparr>" "length r2 = 2"
    "set (map rank_SectorID r2) \<subseteq> {x}"
    using run[of ?s1 x p] or full one r1(2,3) by (auto simp: uiMaxRelListSize_def ids_def Full_def)
  let ?s2 = "s\<lparr>ReleaseList := r2, bReleaseListBuilt := False\<rparr>"
  obtain r3 where r3: "LFU_Run L ?s2 = s\<lparr>ReleaseList := r3, bReleaseListBuilt := True\<rparr>" "length r3 = 3"
    "set (map rank_SectorID r3) \<subseteq> {x}"
    using run[of ?s2 x p] or full one r2(2,3) by (auto simp: uiMaxRelListSize_def ids_def Full_def)
  have "map rank_SectorID r3 = replicate 3 x" using r3(2,3) by (intro replicate_eqI) auto
  then show ?thesis using r1(1) r2(1) r3(1) by (auto simp: numeral_3_eq_3)
qed

section \<open>Properties\<close>





text \<open>Flushing without a limit writes every dirty sector back. Afterwards no sector is dirty and the
  disk itself holds everything that was visible through the cache.\<close>

theorem FlushDirtyCacheSectors_all:
  assumes "cache_inv s" "bEnableDiskCache s" "known_device (deviceType s)"
    and "\<forall>x \<in> dirty s. x \<notin> set (bad_sectors s) \<and> x + 1 \<noteq> 0"
  shows "\<exists>t. FlushDirtyCacheSectors (- 1) s = (True, t) \<and> dirtyCacheList t = [] \<and> disk t = view s \<and> cache_inv t"
proof -
  obtain t where "flush_loop (- 1) s = (True, t)" "cache_inv t" "view t = view s" "dirtyCacheList t = []"
    using flush_all[OF assms(1,3,4), of "- 1"] by auto
  then show ?thesis using assms(2) clean_disk_view[of t] by (simp add: FlushDirtyCacheSectors_def)
qed

text \<open>C28: when the cache is full, reading three sectors of which only the middle one is cached can return
  the first sector's contents for the middle one: caching the first sector evicts the middle one,
  its value is reused at once, and the pointer taken before still refers to it.\<close>

theorem read_through_stale_pointer:
  assumes L: "lib_ok L" and inv: "cache_inv s" and en: "bEnableDiskCache s" and full: "Full s"
    and lba: "LBAStartSector s = 0" and h: "healthy s x 3" and len: "length buf = 3"
    and c: "cached s x = None" "cached s (x + 1) = Some q" "cached s (x + 2) = None"
    and rl: "bReleaseListBuilt s" "ReleaseList s = node # rest" "rank_SectorID node = x + 1" "x + 1 \<notin> dirty s"
  shows "\<exists>r t buf'. DiskDrive_Read L x 3 (s, buf) = (r, (t, buf')) \<and> buf' ! 1 = disk s x"
proof -
  have u3: "unat x + 4 < 2 ^ 32" using h by (simp add: healthy_def)
  have ux: "unat (x + 1) = unat x + 1" "unat (x + 2) = unat x + 2" "unat (x + 3) = unat x + 3"
    using u3 by (simp_all add: unat_word_ariths)
  have lt: "x < x + 1" "x < x + 3" "x + 1 < x + 3" "x + 2 < x + 3" "x + 1 < x + 2"
    using ux by (simp_all add: word_less_nat_alt)
  have r: "range32 x (x + 3) = [x, x + 1, x + 2]"
    using range32_Cons[OF lt(2)] range32_Cons[OF lt(3)] range32_Cons[OF lt(4)] by (simp add: add.assoc)
  define lb where "lb = x + 2"
  have b: "breaks L s x (x + 3) = (x, lb)" using r c Find_cached[OF L inv] by (simp add: breaks_def Let_def lb_def)
  have nn: "lb - x + 1 = 3" "lb + 1 = x + 3" by (simp_all add: lb_def add.assoc)
  have e: "range32 (lb + 1) (x + 3) = []" "range32 x x = []" unfolding nn(2) by simp_all
  let ?cv = "[None, Some q, None] :: nat option list"
  have cv: "map (Find L s) [x, x + 1, x + 2] = ?cv" using c Find_cached[OF L inv] by simp
  have e3: "range32 (x + 3) (x + 3) = []" by simp
  let ?b = "[disk s x, disk s (x + 1), disk s (x + 2)]"
  have raw: "RawRead x 3 0 (s, buf) = (Inr (), (s, ?b))" using h r len by (simp add: RawRead_def healthy_def)
  have run: "DiskDrive_Read L x 3 (s, buf) = read_fill L x ?cv [x, x + 1, x + 2] (s, ?b)"
    
    by (simp only: DiskDrive_Read_def Let_def prod.case lba add_0_right en not_True_eq_False if_False if_True cv b
      e e3 nn lt(2) for_each.simps diff_self unsigned_0 andThen_def raw sum.case ret_run add_0_left r)
  obtain t where t: "ReplaceCache L x (disk s x) s = (Inr True, t)" "m_bSectorBuffer (slots t q) = disk s x"
    using ReplaceCache_full[OF L cache_inv_unbuilt[OF inv] c(1) full rl(1,2), of q "disk s x"] rl(3,4) c(2) by auto
  obtain v where v: "value_Read q t = (disk s x, v)" using t(2) by (simp add: value_Read_def Let_def)
  have i: "unat (x + 2 - x) = 2" by simp
  have step: "read_fill L x ?cv [x, x + 1, x + 2] (s, ?b) =
      read_fill L x ?cv [x + 2] (v, [disk s x, disk s x, disk s (x + 2)])"
    using t(1) full v by (simp add: read_hit_def andThen_def Let_def)
  have "\<exists>r t. read_fill L x ?cv [x + 2] (v, B) = (r, (t, B))" for B
    using i by (auto simp: Let_def split: prod.split sum.split option.split bool.split)
  then obtain r w where "read_fill L x ?cv [x + 2] (v, [disk s x, disk s x, disk s (x + 2)]) =
      (r, (w, [disk s x, disk s x, disk s (x + 2)]))" by blast
  then show ?thesis using run step by (intro exI[of _ r] exI[of _ w] exI[of _ "[disk s x, disk s x, disk s (x + 2)]"]) simp
qed

lemma read_through_stale_pointer_witness:
  "\<exists>r t buf'. DiskDrive_Read plain_lib 2 3
      (demo_drive [] [\<lparr>rank_SectorID = 3, rank_time = 9, rank_hits = 1\<rparr>] True, [[], [], []]) = (r, (t, buf')) \<and>
    buf' ! 1 = [2]"
proof -
  let ?s = "demo_drive [] [\<lparr>rank_SectorID = 3, rank_time = 9, rank_hits = 1\<rparr>] True"
  have inv: "cache_inv ?s"
  proof (rule demo_inv)
    have "3 \<in> set (map fst demo_tree)" by code_simp
    then show "True \<longrightarrow> distinct (map rank_SectorID [\<lparr>rank_SectorID = 3, rank_time = 9, rank_hits = 1\<rparr>]) \<and>
      rank_SectorID ` set [\<lparr>rank_SectorID = 3, rank_time = 9, rank_hits = 1\<rparr>] \<subseteq> fst ` set demo_tree" by simp
  qed simp_all
  have c: "map_of demo_tree 2 = None" "map_of demo_tree (2 + 1) = Some 1" "map_of demo_tree (2 + 2) = None"
    by code_simp+
  have h: "healthy ?s 2 3" by (rule demo_healthy) simp
  have f: "bEnableDiskCache ?s" "LBAStartSector ?s = 0" "bReleaseListBuilt ?s"
    "ReleaseList ?s = [\<lparr>rank_SectorID = 3, rank_time = 9, rank_hits = 1\<rparr>]" "(2 :: u32) + 1 \<notin> dirty ?s" "disk ?s 2 = [2]"
    by (simp_all add: demo_drive_def)
  show ?thesis
    using read_through_stale_pointer[OF plain_lib_ok inv f(1) demo_full f(2) h _ _ _ _ f(3,4) _ f(5), of "[[], [], []]" 1]
      c f(6) by (simp add: demo_cached)
qed

text \<open>building the release list of the least used sectors, from an empty list, changes nothing that is
  visible through the drive and keeps the cache consistent: the list names cached sectors, each at
  most once, and none that is dirty.\<close>

theorem LFU_Run_consistent:
  assumes "lib_ok L" "cache_inv s" "\<not> bReleaseListBuilt s" "ReleaseList s = []"
  shows "cache_inv (LFU_Run L s) \<and> view (LFU_Run L s) = view s"
  using LFU_Run_keeps[OF assms(1,2)] assms(4) by blast

text \<open>C29: if a full cache has a single sector that is not dirty, three passes of the release task put that
  sector three times on the release list, which then counts as built. The second read that misses
  tries to evict it again, fails, and switches the cache off; from then on flushing reports success
  without writing anything, although dirty sectors remain that only the cache holds.\<close>

theorem repeated_rank_loses_dirty_sectors:
  assumes L: "lib_ok L" and inv: "cache_inv s" and en: "bEnableDiskCache s" and full: "Full s" and lba: "LBAStartSector s = 0"
    and nb: "\<not> bReleaseListBuilt s" "ReleaseList s = []"
    and one: "\<forall>y \<in> fst ` set (tree s). y \<noteq> x \<longrightarrow> y \<in> dirty s" "x \<notin> dirty s" "cached s x = Some p"
    and miss: "cached s y = None" "cached s z = None" "y \<noteq> z" "healthy s y 1" "healthy s z 1"
  shows "\<exists>t u bt bu. DiskDrive_Read L y 1 (LFU_Run L (LFU_Run L (LFU_Run L s)), [b]) = (Inr (), (t, bt)) \<and>
    DiskDrive_Read L z 1 (t, [c]) = (Inr (), (u, bu)) \<and> \<not> bEnableDiskCache u \<and>
    dirtyCacheList u = dirtyCacheList s \<and> disk u = disk s \<and> FlushDirtyCacheSectors (- 1) u = (True, u)"
proof -
  obtain r where r: "LFU_Run L (LFU_Run L (LFU_Run L s)) = s\<lparr>ReleaseList := r, bReleaseListBuilt := True\<rparr>"
    "map rank_SectorID r = [x, x, x]"
    by (rule exE[OF Run_thrice[OF L inv full nb one]]) (elim conjE)
  obtain n1 n2 n3 where n: "r = [n1, n2, n3]" "rank_SectorID n1 = x" "rank_SectorID n2 = x" "rank_SectorID n3 = x"
    using r(2) by (auto simp: map_eq_Cons_conv)
  let ?S = "s\<lparr>ReleaseList := r, bReleaseListBuilt := True\<rparr>"
  have invq: "ordered (tree ?S)" using cache_invD(1)[OF inv] by simp
  have inv1: "cache_inv (?S\<lparr>bReleaseListBuilt := False\<rparr>)" using inv by (simp add: cache_inv_def)
  text \<open>The first miss evicts the sector.\<close>
  obtain t where t: "ReplaceCache L y (disk s y) ?S = (Inr True, t)"
    "ordered (tree t)" "cached t = (cached s)(x := None, y \<mapsto> p)" "ReleaseList t = [n2, n3]" "bReleaseListBuilt t"
    "dirtyCacheList t = dirtyCacheList s" "disk t = disk s" "same_drive s t" "length (tree t) = length (tree s)"
    using ReplaceCache_full[OF L inv1, of y n1 "[n2, n3]" p "disk s y"] miss(1) full one n
    by (auto simp: Full_def same_drive_def)
  have fy: "Find L ?S y = None" "Find L t z = None"
    using lib_okD(1)[OF L] cache_invD(1)[OF inv] miss t(2,3) by (auto simp: Find_def)
  have h1: "healthy ?S y 1" "healthy t z 1" using miss(4,5) t(8) by (simp_all add: healthy_def same_drive_def)
  have first: "DiskDrive_Read L y 1 (?S, [b]) = (Inr (), (t, [disk s y]))"
    using read_one_miss[of ?S L y b] en lba fy h1 t(1) full by (simp add: Full_def)
  text \<open>The second finds it gone.\<close>
  have "bt_delete L (tree t) x = None"
    using lib_okD(4)[OF L t(2)] t(3) miss(1) one(3) by (metis fun_upd_apply option.distinct(1))
  then have "ReplaceCache L z (disk t z) t = (Inr False, t\<lparr>ReleaseList := [n3]\<rparr>)"
    using t(4,5,6) n(3) one(2) by (simp add: ReplaceCache_def)
  moreover have "bEnableDiskCache t" "LBAStartSector t = 0" "Full t"
    using en lba full t(8,9) by (simp_all add: same_drive_def Full_def)
  ultimately have second: "DiskDrive_Read L z 1 (t, [c]) =
      (Inr (), (t\<lparr>ReleaseList := [n3], bEnableDiskCache := False\<rparr>, [disk s z]))"
    using read_one_miss[of t L z c] fy h1 t(7) by simp
  show ?thesis using first second r(1) t(6,7) by (auto simp: FlushDirtyCacheSectors_def)
qed

lemma repeated_rank_loses_dirty_sectors_witness:
  "\<exists>u. \<not> bEnableDiskCache u \<and> length (dirtyCacheList u) = 31 \<and> FlushDirtyCacheSectors (- 1) u = (True, u)"
proof -
  let ?s = "demo_drive (tl demo_tree) [] False"
  have d: "distinct (map fst (tl demo_tree))" "length (tl demo_tree) = 31" "map_of demo_tree 1 = Some 0"
    "map_of demo_tree 2 = None" "map_of demo_tree 4 = None" "1 \<notin> set (map fst (tl demo_tree))"
    by code_simp+
  have t: "set (tl demo_tree) \<subseteq> set demo_tree"
    "\<forall>y \<in> set (map fst demo_tree). y \<noteq> 1 \<longrightarrow> y \<in> set (map fst (tl demo_tree))"
    by code_simp+
  have inv: "cache_inv ?s" by (rule demo_inv) (use d t in auto)
  have f: "bEnableDiskCache ?s" "LBAStartSector ?s = 0" "\<not> bReleaseListBuilt ?s" "ReleaseList ?s = []"
    "tree ?s = demo_tree" "dirtyCacheList ?s = tl demo_tree"
    by (simp_all add: demo_drive_def)
  have h: "healthy ?s 2 1" "healthy ?s 4 1" by (rule demo_healthy, simp)+
  have "\<exists>t u bt bu. DiskDrive_Read plain_lib 2 1 (LFU_Run plain_lib (LFU_Run plain_lib (LFU_Run plain_lib ?s)), [[]]) = (Inr (), (t, bt)) \<and>
    DiskDrive_Read plain_lib 4 1 (t, [[]]) = (Inr (), (u, bu)) \<and> \<not> bEnableDiskCache u \<and>
    dirtyCacheList u = dirtyCacheList ?s \<and> disk u = disk ?s \<and> FlushDirtyCacheSectors (- 1) u = (True, u)"
    by (rule repeated_rank_loses_dirty_sectors[OF plain_lib_ok inv f(1) demo_full f(2,3,4), of 1 0])
      (use d t h in \<open>simp_all add: f\<close>)
  then show ?thesis using d(2) f(6) by metis
qed

end
