(* ===== verification/FatTable.thy ===== *)
theory FatTable
  imports DiskStore
begin

text \<open>
  The allocation table of the file system: \<open>filesystem/FileSystem.{h,cpp}\<close>. The boot block, the table
  cache (\<open>SectorBlockEntry\<close>, kept sorted by block for a binary search), the pool of free sectors, and
  the operations on table entries.

  The drive is the parameter \<open>fs_env\<close>: reading and writing sectors, the bounded queue of the upan
  library, and what an entry holds before it is loaded. The operations are proved against the contract
  \<open>sector_store\<close> of the cached drive.
\<close>

section \<open>Sectors as table entries\<close>

text \<open>A sector of 512 bytes read as an array of 32-bit little-endian words, and back.\<close>

definition word_of_bytes :: "u8 \<Rightarrow> u8 \<Rightarrow> u8 \<Rightarrow> u8 \<Rightarrow> u32" where
  "word_of_bytes a b c d = ucast a OR push_bit 8 (ucast b) OR push_bit 16 (ucast c) OR push_bit 24 (ucast d)"

fun words_of :: "sector \<Rightarrow> u32 list" where
  "words_of (a # b # c # d # bs) = word_of_bytes a b c d # words_of bs"
| "words_of _ = []"

definition bytes_of_word :: "u32 \<Rightarrow> u8 list" where
  "bytes_of_word w = [ucast w, ucast (drop_bit 8 w), ucast (drop_bit 16 w), ucast (drop_bit 24 w)]"

definition bytes_of :: "u32 list \<Rightarrow> sector" where
  "bytes_of ws = concat (map bytes_of_word ws)"

lemma word_of_bytes_of: "word_of_bytes (ucast w) (ucast (drop_bit 8 w)) (ucast (drop_bit 16 w)) (ucast (drop_bit 24 w)) = w"
proof (rule bit_word_eqI)
  fix n assume "n < LENGTH(32)"
  then consider "n < 8" | "8 \<le> n" "n < 16" | "16 \<le> n" "n < 24" | "24 \<le> n" "n < 32" by fastforce
  then show "bit (word_of_bytes (ucast w) (ucast (drop_bit 8 w)) (ucast (drop_bit 16 w)) (ucast (drop_bit 24 w))) n = bit w n"
    by cases (auto simp: word_of_bytes_def bit_simps)
qed

lemma words_of_bytes_of [simp]: "words_of (bytes_of ws) = ws"
  by (induction ws) (simp_all add: bytes_of_def bytes_of_word_def word_of_bytes_of)

lemma bytes_of_word_of_bytes: "bytes_of_word (word_of_bytes a b c d) = [a, b, c, d]"
proof -
  have "ucast (word_of_bytes a b c d) = a" "ucast (drop_bit 8 (word_of_bytes a b c d)) = b"
    "ucast (drop_bit 16 (word_of_bytes a b c d)) = c" "ucast (drop_bit 24 (word_of_bytes a b c d)) = d"
    by (rule bit_word_eqI; auto simp: word_of_bytes_def bit_simps dest: bit_imp_le_length)+
  then show ?thesis by (simp add: bytes_of_word_def)
qed

lemma bytes_of_words_of: "length bs mod 4 = 0 \<Longrightarrow> bytes_of (words_of bs) = bs"
proof (induction bs rule: words_of.induct)
  case (1 a b c d bs)
  have "length (a # b # c # d # bs) = length bs + 4" by simp
  then have "length bs mod 4 = 0" using 1(2) by (metis mod_add_self2)
  with 1 show ?case by (simp add: bytes_of_def bytes_of_word_of_bytes)
qed (auto simp: bytes_of_def)

lemma length_words_of: "length (words_of bs) = length bs div 4"
  by (induction bs rule: words_of.induct) auto

lemma length_bytes_of: "length (bytes_of ws) = 4 * length ws"
  by (induction ws) (simp_all add: bytes_of_def bytes_of_word_def)

section \<open>State\<close>

definition EOC :: u32 where "EOC = 0x0FFFFFFF"
definition ENTRIES_PER_TABLE_SECTOR :: u32 where "ENTRIES_PER_TABLE_SECTOR = 128"
definition MAX_SECTORS_IN_TABLE_CACHE :: nat where "MAX_SECTORS_IN_TABLE_CACHE = 2048"

definition BLOCK_ID :: "u32 \<Rightarrow> u32" where "BLOCK_ID SectorID = SectorID div ENTRIES_PER_TABLE_SECTOR"
definition BLOCK_OFFSET :: "u32 \<Rightarrow> u32" where "BLOCK_OFFSET SectorID = SectorID mod ENTRIES_PER_TABLE_SECTOR"

record SectorBlockEntry =
  SectorBlock :: "u32 list"
  BlockId :: u32
  ReadCount :: u32
  WriteCount :: u32

record BootBlock =
  BPB_jmpBoot :: "u8 list"
  BPB_Media :: u8
  BPB_SecPerTrk :: u16
  BPB_NumHeads :: u16
  BPB_BytesPerSec :: u16
  BPB_TotSec32 :: u32
  BPB_HiddSec :: u32
  BPB_RsvdSecCnt :: u16
  BPB_FSTableSize :: u32
  BPB_ExtFlags :: u16
  BPB_FSVer :: u16
  BPB_FSInfo :: u16
  BPB_BootSig :: u8
  BPB_VolID :: u32
  BPB_VolLab :: "u8 list"
  uiUsedSectors :: u32

datatype fs_error =
    Io io_error
  | InvalidClusterId u32
  | EntryNotInCache u32
  | NoFreeSectors
  | InvalidBPBSignature | InvalidBootSignature | InvalidTotSec32 | InvalidFSTableSize | InvalidBytesPerSec
  | InvalidJmpBoot | InvalidMedia | InvalidExtFlags | InvalidFSVer | InvalidFSInfo | InvalidVolID

text \<open>The drive below the file system and the library's bounded queue: \<open>qpush c q x\<close> is \<open>push_back\<close> on a
  queue of capacity \<open>c\<close>, \<open>None\<close> when it refuses.\<close>

record 'd fs_env =
  sread :: "u32 \<Rightarrow> u32 \<Rightarrow> ('d, io_error, sector list) comp"
  swrite :: "u32 \<Rightarrow> sector list \<Rightarrow> ('d, io_error, unit) comp"
  qpush :: "nat \<Rightarrow> u32 list \<Rightarrow> u32 \<Rightarrow> u32 list option"
  qfull :: "nat \<Rightarrow> u32 list \<Rightarrow> bool"
  uninitialized :: SectorBlockEntry

record 'd fsys =
  drv :: 'd
  drvFloppy :: bool
  drvSectorsPerTrack :: u32
  drvNoOfHeads :: u32
  drvSizeInSectors :: u32
  fsBootBlock :: BootBlock
  freePoolQueue :: "u32 list"
  freePoolSize :: nat
  fsTableCache :: "SectorBlockEntry list"

section \<open>Searching the table cache\<close>

text \<open>The loop of \<open>FSManager_BinarySearch\<close> with \<open>low\<close>, \<open>high\<close> and \<open>*iPos\<close>.\<close>

function bsearch_loop :: "SectorBlockEntry list \<Rightarrow> u32 \<Rightarrow> int \<Rightarrow> int \<Rightarrow> int \<Rightarrow> bool \<times> int" where
  "bsearch_loop blocks uiBlockID low high iPos =
     (if low \<le> high
      then let mid = (low + high) div 2;
               b = BlockId (blocks ! nat mid)
           in if uiBlockID = b then (True, mid)
              else if uiBlockID < b then bsearch_loop blocks uiBlockID low (mid - 1) mid
              else bsearch_loop blocks uiBlockID (mid + 1) high (mid + 1)
      else (False, iPos))"
  by pat_completeness auto
termination
  by (relation "measure (\<lambda>(_, _, low, high, _). nat (high - low + 1))") auto

declare bsearch_loop.simps [simp del]

definition FSManager_BinarySearch :: "SectorBlockEntry list \<Rightarrow> u32 \<Rightarrow> bool \<times> int" where
  "FSManager_BinarySearch blocks uiBlockID =
     (case bsearch_loop blocks uiBlockID 0 (int (length blocks) - 1) (- 1) of
        (True, iPos) \<Rightarrow> (True, iPos)
      | (False, iPos) \<Rightarrow>
          (False, if iPos < 0 then 0 else if int (length blocks) \<le> iPos then int (length blocks) else iPos))"

section \<open>Reading and writing sectors of the drive\<close>

definition fs_read :: "'d fs_env \<Rightarrow> u32 \<Rightarrow> u32 \<Rightarrow> ('d fsys, fs_error, sector list) comp" where
  "fs_read E x n s =
     (case sread E x n (drv s) of
        (Inl e, d) \<Rightarrow> (Inl (Io e), s\<lparr>drv := d\<rparr>)
      | (Inr bs, d) \<Rightarrow> (Inr bs, s\<lparr>drv := d\<rparr>))"

definition fs_write :: "'d fs_env \<Rightarrow> u32 \<Rightarrow> sector list \<Rightarrow> ('d fsys, fs_error, unit) comp" where
  "fs_write E x bs s =
     (case swrite E x bs (drv s) of
        (Inl e, d) \<Rightarrow> (Inl (Io e), s\<lparr>drv := d\<rparr>)
      | (Inr _, d) \<Rightarrow> (Inr (), s\<lparr>drv := d\<rparr>))"

definition modify :: "('s \<Rightarrow> 's) \<Rightarrow> ('s, 'e, unit) comp" where
  "modify f s = (Inr (), f s)"

definition gets :: "('s \<Rightarrow> 'a) \<Rightarrow> ('s, 'e, 'a) comp" where
  "gets f s = (Inr (f s), s)"

definition GetTableSectorId :: "'d fsys \<Rightarrow> u32 \<Rightarrow> u32" where
  "GetTableSectorId s uiSectorID = uiSectorID + 1 + ucast (BPB_RsvdSecCnt (fsBootBlock s))"

definition GetRealSectorNumber :: "'d fsys \<Rightarrow> u32 \<Rightarrow> u32" where
  "GetRealSectorNumber s uiSectorID =
     uiSectorID + 1 + ucast (BPB_RsvdSecCnt (fsBootBlock s)) + BPB_FSTableSize (fsBootBlock s)"

section \<open>Table entries\<close>

definition entry_Read :: "u32 \<Rightarrow> SectorBlockEntry \<Rightarrow> u32 \<times> SectorBlockEntry" where
  "entry_Read sectorId b =
     (SectorBlock b ! unat (BLOCK_OFFSET sectorId) AND EOC, b\<lparr>ReadCount := ReadCount b + 1\<rparr>)"

definition entry_Write :: "u32 \<Rightarrow> u32 \<Rightarrow> SectorBlockEntry \<Rightarrow> SectorBlockEntry" where
  "entry_Write sectorId v b =
     (let i = unat (BLOCK_OFFSET sectorId);
          w1 = SectorBlock b ! i AND 0xF0000000;
          w2 = w1 OR (v AND EOC)
      in b\<lparr>SectorBlock := (SectorBlock b)[i := w2], WriteCount := WriteCount b + 1\<rparr>)"

definition entry_Load :: "'d fs_env \<Rightarrow> nat \<Rightarrow> u32 \<Rightarrow> ('d fsys, fs_error, unit) comp" where
  "entry_Load E iPos sectorId s =
     andThen (fs_read E (GetTableSectorId s (BLOCK_ID sectorId)) 1) (\<lambda>bs.
     modify (\<lambda>s. s\<lparr>fsTableCache := (fsTableCache s)[iPos :=
        \<lparr>SectorBlock = words_of (hd bs), BlockId = BLOCK_ID sectorId, ReadCount = 0, WriteCount = 0\<rparr>]\<rparr>)) s"

text \<open>One round of the loop of \<open>FlushTableCache\<close>.\<close>

definition flush_entry :: "'d fs_env \<Rightarrow> nat \<Rightarrow> ('d fsys, fs_error, unit) comp" where
  "flush_entry E i s =
     (let b = fsTableCache s ! i
      in if WriteCount b = 0 then ret () s
         else fs_write E (BlockId b + ucast (BPB_RsvdSecCnt (fsBootBlock s)) + 1) [bytes_of (SectorBlock b)] s)"

definition FlushTableCache :: "'d fs_env \<Rightarrow> nat \<Rightarrow> ('d fsys, fs_error, unit) comp" where
  "FlushTableCache E iFlushSize s =
     (let n = (if length (fsTableCache s) < iFlushSize then length (fsTableCache s) else iFlushSize)
      in andThen (for_each (flush_entry E) [0..<n])
           (\<lambda>_. modify (\<lambda>s. if n < length (fsTableCache s) then s\<lparr>fsTableCache := drop n (fsTableCache s)\<rparr> else s)) s)"

definition AddToTableCache :: "'d fs_env \<Rightarrow> u32 \<Rightarrow> ('d fsys, fs_error, unit) comp" where
  "AddToTableCache E uiSectorEntry s =
     andThen (if length (fsTableCache s) = MAX_SECTORS_IN_TABLE_CACHE then FlushTableCache E 1 else ret ())
       (\<lambda>_ s. case FSManager_BinarySearch (fsTableCache s) (BLOCK_ID uiSectorEntry) of
          (True, _) \<Rightarrow> ret () s
        | (False, iPos) \<Rightarrow>
            entry_Load E (nat iPos) uiSectorEntry
              (s\<lparr>fsTableCache := take (nat iPos) (fsTableCache s) @ uninitialized E # drop (nat iPos) (fsTableCache s)\<rparr>)) s"

text \<open>The position of the entry in the cache stands for the pointer to it.\<close>

definition GetSectorEntryFromCache :: "'d fsys \<Rightarrow> u32 \<Rightarrow> nat option" where
  "GetSectorEntryFromCache s uiSectorEntry =
     (if fsTableCache s = [] then None
      else case FSManager_BinarySearch (fsTableCache s) (BLOCK_ID uiSectorEntry) of
          (False, _) \<Rightarrow> None
        | (True, iPos) \<Rightarrow> Some (nat iPos))"

definition UpdateUsedSectors :: "u32 \<Rightarrow> 'd fsys \<Rightarrow> 'd fsys" where
  "UpdateUsedSectors v s =
     (let b = fsBootBlock s
      in if v = EOC then s\<lparr>fsBootBlock := b\<lparr>uiUsedSectors := uiUsedSectors b + 1\<rparr>\<rparr>
         else if v = 0 then s\<lparr>fsBootBlock := b\<lparr>uiUsedSectors := uiUsedSectors b - 1\<rparr>\<rparr>
         else s)"

definition last_cluster :: "'d fsys \<Rightarrow> u32" where
  "last_cluster s = BPB_FSTableSize (fsBootBlock s) * ucast (BPB_BytesPerSec (fsBootBlock s)) div 4"

text \<open>The common part of \<open>GetSectorEntryValue\<close> and \<open>SetSectorEntryValue\<close>: the entry, loaded if need be.\<close>

definition cached_entry :: "'d fs_env \<Rightarrow> u32 \<Rightarrow> ('d fsys, fs_error, nat) comp" where
  "cached_entry E uiSectorID s =
     (case GetSectorEntryFromCache s uiSectorID of
        Some i \<Rightarrow> ret i s
      | None \<Rightarrow> andThen (AddToTableCache E uiSectorID)
          (\<lambda>_ s. case GetSectorEntryFromCache s uiSectorID of
             Some i \<Rightarrow> ret i s
           | None \<Rightarrow> throw (EntryNotInCache uiSectorID) s) s)"

definition GetSectorEntryValue :: "'d fs_env \<Rightarrow> u32 \<Rightarrow> ('d fsys, fs_error, u32) comp" where
  "GetSectorEntryValue E uiSectorID s =
     (if last_cluster s < uiSectorID then throw (InvalidClusterId uiSectorID) s
      else andThen (cached_entry E uiSectorID)
        (\<lambda>i s. case entry_Read uiSectorID (fsTableCache s ! i) of
           (v, b) \<Rightarrow> (Inr v, s\<lparr>fsTableCache := (fsTableCache s)[i := b]\<rparr>)) s)"

definition SetSectorEntryValue :: "'d fs_env \<Rightarrow> u32 \<Rightarrow> u32 \<Rightarrow> ('d fsys, fs_error, unit) comp" where
  "SetSectorEntryValue E uiSectorID v s =
     (if last_cluster s < uiSectorID then throw (InvalidClusterId uiSectorID) s
      else andThen (cached_entry E uiSectorID)
        (\<lambda>i. modify (\<lambda>s. s\<lparr>fsTableCache := (fsTableCache s)[i := entry_Write uiSectorID v (fsTableCache s ! i)]\<rparr>))
        (UpdateUsedSectors v s))"

section \<open>Free sectors\<close>

text \<open>Pushing the free entries among \<open>ws\<close>, numbered from \<open>k\<close> on; \<open>True\<close> when the queue refused one.\<close>

fun push_free_entries :: "'d fs_env \<Rightarrow> nat \<Rightarrow> u32 \<Rightarrow> u32 list \<Rightarrow> u32 list \<Rightarrow> bool \<times> u32 list" where
  "push_free_entries E c k [] q = (False, q)"
| "push_free_entries E c k (w # ws) q =
     (if w AND EOC = 0
      then case qpush E c q k of
          None \<Rightarrow> (True, q)
        | Some q' \<Rightarrow> push_free_entries E c (k + 1) ws q'
      else push_free_entries E c (k + 1) ws q)"

fun load_from_cache :: "'d fs_env \<Rightarrow> nat \<Rightarrow> SectorBlockEntry list \<Rightarrow> u32 list \<Rightarrow> bool \<times> u32 list" where
  "load_from_cache E c [] q = (False, q)"
| "load_from_cache E c (b # bs) q =
     (case push_free_entries E c (BlockId b * ENTRIES_PER_TABLE_SECTOR) (SectorBlock b) q of
        (True, q') \<Rightarrow> (True, q')
      | (False, q') \<Rightarrow> load_from_cache E c bs q')"

text \<open>The second loop: up to eight table sectors at a time, starting with one that is not cached.\<close>

function load_from_disk :: "'d fs_env \<Rightarrow> u32 \<Rightarrow> ('d fsys, fs_error, unit) comp" where
  "load_from_disk E i s =
     (if i < BPB_FSTableSize (fsBootBlock s)
      then if fst (FSManager_BinarySearch (fsTableCache s) i) then load_from_disk E (i + 1) s
           else
             let left = BPB_FSTableSize (fsBootBlock s) - i;
                 uiBlockSize = (if left > 8 then 8 else left)
             in case fs_read E (i + ucast (BPB_RsvdSecCnt (fsBootBlock s)) + 1) uiBlockSize s of
                  (Inl e, t) \<Rightarrow> (Inl e, t)
                | (Inr bs, t) \<Rightarrow>
                    (case push_free_entries E (freePoolSize t) (i * ENTRIES_PER_TABLE_SECTOR)
                            (concat (map words_of bs)) (freePoolQueue t) of
                       (True, q) \<Rightarrow> ret () (t\<lparr>freePoolQueue := q\<rparr>)
                     | (False, q) \<Rightarrow> load_from_disk E (i + uiBlockSize) (t\<lparr>freePoolQueue := q\<rparr>))
      else ret () s)"
  by pat_completeness auto

lemma fs_read_frame: "fs_read E x n s = (r, t) \<Longrightarrow> t = s\<lparr>drv := drv t\<rparr>"
  by (auto simp: fs_read_def split: prod.splits sum.splits)

lemma fs_write_frame: "fs_write E x bs s = (r, t) \<Longrightarrow> t = s\<lparr>drv := drv t\<rparr>"
  by (auto simp: fs_write_def split: prod.splits sum.splits)

lemma fs_read_boot: "(r, t) = fs_read E x n s \<Longrightarrow> fsBootBlock t = fsBootBlock s"
  using fs_read_frame[of E x n s r t] by (cases s; cases t) simp

lemma unat_plus_less:
  fixes i l :: u32
  assumes "i < n" "l \<le> n - i" "l \<noteq> 0"
  shows "unat n - unat (i + l) < unat n - unat i"
proof -
  have "unat l \<le> unat n - unat i" using assms(1,2) by (simp add: word_le_nat_alt unat_sub word_less_nat_alt)
  moreover have "unat i < unat n" using assms(1) by (simp add: word_less_nat_alt)
  moreover have "0 < unat l" using assms(3) by (simp add: unat_gt_0)
  moreover have "unat (i + l) = unat i + unat l"
    using calculation u32_bound[of n] by (simp add: unat_word_ariths)
  ultimately show ?thesis by linarith
qed

lemma unat_succ_less:
  fixes i :: u32
  shows "i < n \<Longrightarrow> unat n - unat (i + 1) < unat n - unat i"
  by (rule unat_plus_less) (simp_all add: word_le_nat_alt unat_sub word_less_nat_alt less_imp_le)

lemma unat_eight_less:
  fixes i :: u32
  shows "i < n \<Longrightarrow> 8 < n - i \<Longrightarrow> unat n - unat (i + 8) < unat n - unat i"
  by (rule unat_plus_less) auto

termination load_from_disk
  by (relation "measure (\<lambda>(E, i, s). unat (BPB_FSTableSize (fsBootBlock s)) - unat i)")
    (auto dest!: fs_read_boot intro: unat_succ_less unat_eight_less simp: word_less_nat_alt[symmetric])

declare load_from_disk.simps [simp del]

definition LoadFreeSectors :: "'d fs_env \<Rightarrow> ('d fsys, fs_error, unit) comp" where
  "LoadFreeSectors E s =
     (if qfull E (freePoolSize s) (freePoolQueue s) then ret () s
      else case load_from_cache E (freePoolSize s) (fsTableCache s) (freePoolQueue s) of
          (True, q) \<Rightarrow> ret () (s\<lparr>freePoolQueue := q\<rparr>)
        | (False, q) \<Rightarrow> load_from_disk E 0 (s\<lparr>freePoolQueue := q\<rparr>))"

definition AddToFreePoolCache :: "'d fs_env \<Rightarrow> u32 \<Rightarrow> 'd fsys \<Rightarrow> 'd fsys" where
  "AddToFreePoolCache E sectorId s =
     (case qpush E (freePoolSize s) (freePoolQueue s) sectorId of
        None \<Rightarrow> s
      | Some q \<Rightarrow> s\<lparr>freePoolQueue := q\<rparr>)"

definition AllocateSector :: "'d fs_env \<Rightarrow> ('d fsys, fs_error, u32) comp" where
  "AllocateSector E s =
     andThen (if freePoolQueue s = []
              then andThen (LoadFreeSectors E)
                     (\<lambda>_ s. if freePoolQueue s = [] then throw NoFreeSectors s else ret () s)
              else ret ())
       (\<lambda>_ s. let x = hd (freePoolQueue s)
              in andThen (SetSectorEntryValue E x EOC) (\<lambda>_. ret x) (s\<lparr>freePoolQueue := tl (freePoolQueue s)\<rparr>)) s"

definition FileSystem_DeAllocateSector :: "'d fs_env \<Rightarrow> u32 \<Rightarrow> ('d fsys, fs_error, u32) comp" where
  "FileSystem_DeAllocateSector E x =
     andThen (GetSectorEntryValue E x) (\<lambda>next.
     andThen (SetSectorEntryValue E x 0) (\<lambda>_.
     andThen (modify (AddToFreePoolCache E x)) (\<lambda>_. ret next)))"

definition TotalSize :: "'d fsys \<Rightarrow> u64" where
  "TotalSize s = ucast (BPB_FSTableSize (fsBootBlock s) * ENTRIES_PER_TABLE_SECTOR * 512)"

definition UsedSize :: "'d fsys \<Rightarrow> u64" where
  "UsedSize s = ucast (uiUsedSectors (fsBootBlock s) * 512)"

section \<open>The boot block\<close>

text \<open>The packed struct in the first bytes of its sector, field by field.\<close>

definition bytes_of_u16 :: "u16 \<Rightarrow> u8 list" where
  "bytes_of_u16 w = [ucast w, ucast (drop_bit 8 w)]"

definition u16_of_bytes :: "u8 list \<Rightarrow> u16" where
  "u16_of_bytes bs = ucast (bs ! 0) OR push_bit 8 (ucast (bs ! 1))"

definition u32_of_bytes :: "u8 list \<Rightarrow> u32" where
  "u32_of_bytes bs = word_of_bytes (bs ! 0) (bs ! 1) (bs ! 2) (bs ! 3)"

definition boot_bytes :: "BootBlock \<Rightarrow> u8 list" where
  "boot_bytes b = BPB_jmpBoot b @ [BPB_Media b] @ bytes_of_u16 (BPB_SecPerTrk b) @ bytes_of_u16 (BPB_NumHeads b) @
     bytes_of_u16 (BPB_BytesPerSec b) @ bytes_of_word (BPB_TotSec32 b) @ bytes_of_word (BPB_HiddSec b) @
     bytes_of_u16 (BPB_RsvdSecCnt b) @ bytes_of_word (BPB_FSTableSize b) @
     bytes_of_u16 (BPB_ExtFlags b) @ bytes_of_u16 (BPB_FSVer b) @ bytes_of_u16 (BPB_FSInfo b) @
     [BPB_BootSig b] @ bytes_of_word (BPB_VolID b) @ BPB_VolLab b @ bytes_of_word (uiUsedSectors b)"

definition boot_of_bytes :: "u8 list \<Rightarrow> BootBlock" where
  "boot_of_bytes bs =
     \<lparr>BPB_jmpBoot = take 3 bs, BPB_Media = bs ! 3, BPB_SecPerTrk = u16_of_bytes (drop 4 bs),
      BPB_NumHeads = u16_of_bytes (drop 6 bs), BPB_BytesPerSec = u16_of_bytes (drop 8 bs),
      BPB_TotSec32 = u32_of_bytes (drop 10 bs), BPB_HiddSec = u32_of_bytes (drop 14 bs),
      BPB_RsvdSecCnt = u16_of_bytes (drop 18 bs), BPB_FSTableSize = u32_of_bytes (drop 20 bs),
      BPB_ExtFlags = u16_of_bytes (drop 24 bs), BPB_FSVer = u16_of_bytes (drop 26 bs),
      BPB_FSInfo = u16_of_bytes (drop 28 bs), BPB_BootSig = bs ! 30, BPB_VolID = u32_of_bytes (drop 31 bs),
      BPB_VolLab = take 12 (drop 35 bs), uiUsedSectors = u32_of_bytes (drop 47 bs)\<rparr>"

definition MEDIA_REMOVABLE :: u8 where "MEDIA_REMOVABLE = 0xF0"
definition MEDIA_FIXED :: u8 where "MEDIA_FIXED = 0xF8"

text \<open>\<open>"No Name   "\<close> with its terminating zero; \<open>strcpy\<close> leaves the twelfth byte as it is.\<close>

definition no_name :: "u8 list" where
  "no_name = [0x4E, 0x6F, 0x20, 0x4E, 0x61, 0x6D, 0x65, 0x20, 0x20, 0x20, 0]"

definition InitBootBlock :: "'d fsys \<Rightarrow> BootBlock \<Rightarrow> BootBlock" where
  "InitBootBlock s b =
     b\<lparr>BPB_jmpBoot := [0xEB, 0xFE, 0x90], BPB_BytesPerSec := 0x200, BPB_RsvdSecCnt := 2,
       BPB_Media := (if drvFloppy s then MEDIA_REMOVABLE else MEDIA_FIXED),
       BPB_SecPerTrk := ucast (drvSectorsPerTrack s), BPB_NumHeads := ucast (drvNoOfHeads s),
       BPB_HiddSec := 0, BPB_TotSec32 := drvSizeInSectors s, BPB_ExtFlags := 0x0080, BPB_FSVer := 0x0100,
       BPB_FSInfo := 1, BPB_BootSig := 0x29, BPB_VolID := 0x01,
       BPB_VolLab := no_name @ drop 11 (BPB_VolLab b), uiUsedSectors := 1,
       BPB_FSTableSize := (drvSizeInSectors s - 2 - 1) div (ENTRIES_PER_TABLE_SECTOR + 1)\<rparr>"

text \<open>\<open>boot_sector junk b\<close>: the struct over an uninitialised buffer, with the signature.\<close>

definition boot_sector :: "u8 list \<Rightarrow> BootBlock \<Rightarrow> sector" where
  "boot_sector junk b = boot_bytes b @ take (510 - length (boot_bytes b)) (drop (length (boot_bytes b)) junk) @ [0x55, 0xAA]"

definition WriteFSBootBlock :: "'d fs_env \<Rightarrow> u8 list \<Rightarrow> ('d fsys, fs_error, unit) comp" where
  "WriteFSBootBlock E junk s = fs_write E 1 [boot_sector junk (fsBootBlock s)] s"

definition ReadFSBootBlock :: "'d fs_env \<Rightarrow> ('d fsys, fs_error, unit) comp" where
  "ReadFSBootBlock E =
     andThen (fs_read E 1 1) (\<lambda>bss. let bs = hd bss in
     andThen (guardE (bs ! 510 = 0x55 \<and> bs ! 511 = 0xAA) InvalidBPBSignature) (\<lambda>_.
     andThen (modify (\<lambda>s. s\<lparr>fsBootBlock := boot_of_bytes bs\<rparr>)) (\<lambda>_.
     andThen (gets id) (\<lambda>s. let b = fsBootBlock s in
     andThen (guardE (BPB_BootSig b = 0x29) InvalidBootSignature) (\<lambda>_.
     andThen (guardE (BPB_TotSec32 b = drvSizeInSectors s) InvalidTotSec32) (\<lambda>_.
     andThen (guardE (BPB_FSTableSize b \<noteq> 0) InvalidFSTableSize) (\<lambda>_.
     andThen (guardE (BPB_BytesPerSec b = 0x200) InvalidBytesPerSec) (\<lambda>_.
     andThen (guardE (BPB_jmpBoot b = [0xEB, 0xFE, 0x90]) InvalidJmpBoot) (\<lambda>_.
     andThen (guardE (drvFloppy s \<longrightarrow> BPB_Media b = 0xF0) InvalidMedia) (\<lambda>_.
     andThen (guardE (BPB_ExtFlags b = 0x0080) InvalidExtFlags) (\<lambda>_.
     andThen (guardE (BPB_FSVer b = 0x0100) InvalidFSVer) (\<lambda>_.
     andThen (guardE (BPB_FSInfo b = 1) InvalidFSInfo) (\<lambda>_.
     guardE (BPB_VolID b = 0x01) InvalidVolID)))))))))))))"

section \<open>Formatting\<close>

text \<open>The root directory's node over a zeroed table sector is the parameter \<open>root\<close> of \<open>Format\<close>: the layout of
  a node belongs to the directories.\<close>

definition zero_sector :: sector where "zero_sector = replicate 512 0"

definition first_table_sector :: sector where "first_table_sector = bytes_of (EOC # replicate 127 0)"

definition Format :: "'d fs_env \<Rightarrow> u8 list \<Rightarrow> BootBlock \<Rightarrow> (u32 \<Rightarrow> sector) \<Rightarrow> ('d fsys, fs_error, unit) comp" where
  "Format E junk b0 root s =
     (let b = InitBootBlock s b0 in
      andThen (fs_write E 1 [boot_sector junk b]) (\<lambda>_.
      andThen (for_each (\<lambda>i. fs_write E (i + ucast (BPB_RsvdSecCnt b) + 1)
                 [if i = 0 then first_table_sector else zero_sector]) (range32 0 (BPB_FSTableSize b))) (\<lambda>_.
      andThen (modify (\<lambda>s. s\<lparr>fsBootBlock := b\<rparr>)) (\<lambda>_ s.
        let uiSec = GetRealSectorNumber s 0
        in fs_write E uiSec [root uiSec] s))) s)"

section \<open>The binary search\<close>

definition sorted_cache :: "SectorBlockEntry list \<Rightarrow> bool" where
  "sorted_cache bs \<longleftrightarrow> sorted_wrt (<) (map BlockId bs)"

lemma sorted_cache_less: "sorted_cache bs \<Longrightarrow> i < j \<Longrightarrow> j < length bs \<Longrightarrow> BlockId (bs ! i) < BlockId (bs ! j)"
  by (auto simp: sorted_cache_def sorted_wrt_iff_nth_less)

lemma sorted_cache_inj:
  "sorted_cache bs \<Longrightarrow> i < length bs \<Longrightarrow> j < length bs \<Longrightarrow> BlockId (bs ! i) = BlockId (bs ! j) \<Longrightarrow> i = j"
  using sorted_cache_less[of bs i j] sorted_cache_less[of bs j i] by (cases i j rule: linorder_cases) auto

text \<open>\<open>found bs k p\<close> and \<open>missing bs k p\<close>: what the two results of the search say about a position.\<close>

definition found :: "SectorBlockEntry list \<Rightarrow> u32 \<Rightarrow> int \<Rightarrow> bool" where
  "found bs k p \<longleftrightarrow> 0 \<le> p \<and> p < int (length bs) \<and> BlockId (bs ! nat p) = k"

definition missing :: "SectorBlockEntry list \<Rightarrow> u32 \<Rightarrow> int \<Rightarrow> bool" where
  "missing bs k p \<longleftrightarrow> 0 \<le> p \<and> p \<le> int (length bs) \<and> (\<forall>i < nat p. BlockId (bs ! i) < k) \<and>
     (\<forall>i. nat p \<le> i \<longrightarrow> i < length bs \<longrightarrow> k < BlockId (bs ! i))"

lemma bsearch_loop_spec:
  assumes so: "sorted_cache bs"
    and "0 \<le> low" "low \<le> high + 1" "high < int (length bs)"
    and "\<forall>i < nat low. BlockId (bs ! i) < k" "\<forall>i. high < int i \<longrightarrow> i < length bs \<longrightarrow> k < BlockId (bs ! i)"
  shows "case bsearch_loop bs k low high iPos of
      (True, p) \<Rightarrow> found bs k p
    | (False, p) \<Rightarrow> if low \<le> high then missing bs k p else p = iPos"
  using assms
proof (induction bs k low high iPos rule: bsearch_loop.induct)
  case (1 bs k low high iPos)
  note so = "1.prems"(1) and pr = "1.prems"(2-)
  show ?case
  proof (cases "low \<le> high")
    case False
    then show ?thesis by (subst bsearch_loop.simps) simp
  next
    case True
    define mid where "mid = (low + high) div 2"
    have m: "low \<le> mid" "mid \<le> high" "0 \<le> mid" "nat mid < length bs" using True pr by (auto simp: mid_def)
    let ?b = "BlockId (bs ! nat mid)"
    consider "k = ?b" | "k < ?b" | "?b < k" by fastforce
    then show ?thesis
    proof cases
      case 1
      then show ?thesis using True m by (subst bsearch_loop.simps) (simp add: Let_def mid_def[symmetric] found_def)
    next
      case 2
      have up: "\<forall>i. mid - 1 < int i \<longrightarrow> i < length bs \<longrightarrow> k < BlockId (bs ! i)"
      proof (intro allI impI)
        fix i assume i: "mid - 1 < int i" "i < length bs"
        show "k < BlockId (bs ! i)"
        proof (cases "i = nat mid")
          case False
          then have "nat mid < i" using i(1) m(3) by linarith
          then show ?thesis using sorted_cache_less[OF so _ i(2)] 2 by force
        qed (use 2 in simp)
      qed
      have ih: "case bsearch_loop bs k low (mid - 1) mid of (True, p) \<Rightarrow> found bs k p
          | (False, p) \<Rightarrow> if low \<le> mid - 1 then missing bs k p else p = mid"
        by (rule "1.IH"(1)[OF True mid_def refl less_imp_neq[OF 2] 2 so]) (use m pr up in auto)
      have "\<not> low \<le> mid - 1 \<Longrightarrow> missing bs k mid"
        using m pr(4) up by (auto simp: missing_def)
      then show ?thesis using ih True 2
        by (subst bsearch_loop.simps) (auto simp: Let_def mid_def[symmetric] split: if_splits prod.splits bool.splits)
    next
      case 3
      have dn: "\<forall>i < nat (mid + 1). BlockId (bs ! i) < k"
      proof (intro allI impI)
        fix i assume i: "i < nat (mid + 1)"
        show "BlockId (bs ! i) < k"
        proof (cases "i = nat mid")
          case False
          then have "i < nat mid" using i by linarith
          then show ?thesis using sorted_cache_less[OF so _ m(4)] 3 by force
        qed (use 3 in simp)
      qed
      have ih: "case bsearch_loop bs k (mid + 1) high (mid + 1) of (True, p) \<Rightarrow> found bs k p
          | (False, p) \<Rightarrow> if mid + 1 \<le> high then missing bs k p else p = mid + 1"
        by (rule "1.IH"(2)[OF True mid_def refl less_imp_neq[OF 3, symmetric] less_not_sym[OF 3] so]) (use m pr dn in auto)
      have "\<not> mid + 1 \<le> high \<Longrightarrow> missing bs k (mid + 1)"
        using m pr dn by (auto simp: missing_def)
      then show ?thesis using ih True 3
        by (subst bsearch_loop.simps) (auto simp: Let_def mid_def[symmetric] split: if_splits prod.splits bool.splits)
    qed
  qed
qed

lemma BinarySearch_spec:
  assumes "sorted_cache bs"
  shows "case FSManager_BinarySearch bs k of (True, p) \<Rightarrow> found bs k p | (False, p) \<Rightarrow> missing bs k p"
proof -
  have "case bsearch_loop bs k 0 (int (length bs) - 1) (- 1) of (True, p) \<Rightarrow> found bs k p
      | (False, p) \<Rightarrow> if 0 \<le> int (length bs) - 1 then missing bs k p else p = - 1"
    by (rule bsearch_loop_spec[OF assms]) auto
  then show ?thesis
    by (auto simp: FSManager_BinarySearch_def missing_def split: prod.splits bool.splits if_splits)
qed

section \<open>The table as a map\<close>

text \<open>The words of a table block: from the cache if it is there, else from the drive.\<close>

definition tsec :: "'d fsys \<Rightarrow> u32 \<Rightarrow> u32" where
  "tsec s k = k + 1 + ucast (BPB_RsvdSecCnt (fsBootBlock s))"

definition block_words :: "('d \<Rightarrow> u32 \<Rightarrow> sector) \<Rightarrow> 'd fsys \<Rightarrow> u32 \<Rightarrow> u32 list" where
  "block_words look s k =
     (case find (\<lambda>b. BlockId b = k) (fsTableCache s) of
        Some b \<Rightarrow> SectorBlock b
      | None \<Rightarrow> words_of (look (drv s) (tsec s k)))"

text \<open>The entry of a sector in the table, whether its block is cached or not.\<close>

definition fat :: "('d \<Rightarrow> u32 \<Rightarrow> sector) \<Rightarrow> 'd fsys \<Rightarrow> u32 \<Rightarrow> u32" where
  "fat look s x = block_words look s (BLOCK_ID x) ! unat (BLOCK_OFFSET x)"

text \<open>The cache is sorted, holds whole blocks the device can transfer, and a block that was not written
  since it was loaded is what the drive holds.\<close>

definition table_ok :: "('d \<Rightarrow> u32 \<Rightarrow> sector) \<Rightarrow> ('d \<Rightarrow> u32 \<Rightarrow> bool) \<Rightarrow> 'd fsys \<Rightarrow> bool" where
  "table_ok look good s \<longleftrightarrow>
     sorted_cache (fsTableCache s) \<and> length (fsTableCache s) \<le> MAX_SECTORS_IN_TABLE_CACHE \<and>
     (\<forall>k. length (look (drv s) k) = 512) \<and>
     (\<forall>b \<in> set (fsTableCache s). length (SectorBlock b) = 128 \<and> good (drv s) (tsec s (BlockId b)) \<and>
        (WriteCount b = 0 \<longrightarrow> SectorBlock b = words_of (look (drv s) (tsec s (BlockId b)))))"

text \<open>What the table operations leave alone.\<close>

definition table_frame :: "'d fsys \<Rightarrow> 'd fsys \<Rightarrow> bool" where
  "table_frame s t \<longleftrightarrow> t = s\<lparr>drv := drv t, fsTableCache := fsTableCache t\<rparr>"

lemma table_frame_refl [simp]: "table_frame s s"
  by (simp add: table_frame_def)

lemma table_frame_trans: "table_frame s t \<Longrightarrow> table_frame t u \<Longrightarrow> table_frame s u"
  unfolding table_frame_def by (cases s; cases t; cases u) simp

lemma table_frameD:
  "table_frame s t \<Longrightarrow> fsBootBlock t = fsBootBlock s \<and> freePoolQueue t = freePoolQueue s \<and>
    freePoolSize t = freePoolSize s \<and> tsec t = tsec s \<and> last_cluster t = last_cluster s"
  unfolding table_frame_def by (cases s; cases t) (auto simp: tsec_def fun_eq_iff last_cluster_def)

lemma tsec_inj: "tsec s k = tsec s l \<longleftrightarrow> k = l"
  by (simp add: tsec_def)

lemma find_sorted:
  assumes "sorted_cache bs" "i < length bs"
  shows "find (\<lambda>b. BlockId b = BlockId (bs ! i)) bs = Some (bs ! i)"
proof -
  have "\<forall>j < i. BlockId (bs ! j) \<noteq> BlockId (bs ! i)"
    using sorted_cache_less[OF assms(1) _ assms(2)] by force
  then show ?thesis using assms(2) unfolding find_Some_iff by (intro exI[of _ i]) simp
qed

lemma find_mem:
  assumes "sorted_cache bs" "b \<in> set bs"
  shows "find (\<lambda>c. BlockId c = BlockId b) bs = Some b"
  using assms find_sorted by (metis in_set_conv_nth)

lemma search_hit:
  assumes "sorted_cache bs" "FSManager_BinarySearch bs k = (True, p)"
  shows "nat p < length bs" "BlockId (bs ! nat p) = k" "0 \<le> p"
  using BinarySearch_spec[OF assms(1), of k] assms(2) by (auto simp: found_def)

lemma search_miss:
  assumes "sorted_cache bs" "FSManager_BinarySearch bs k = (False, p)"
  shows "nat p \<le> length bs" "\<forall>b \<in> set (take (nat p) bs). BlockId b < k" "\<forall>b \<in> set (drop (nat p) bs). k < BlockId b"
    "\<forall>b \<in> set bs. BlockId b \<noteq> k"
proof -
  have m: "missing bs k p" using BinarySearch_spec[OF assms(1), of k] assms(2) by simp
  show n: "nat p \<le> length bs" using m by (auto simp: missing_def)
  show t: "\<forall>b \<in> set (take (nat p) bs). BlockId b < k" using m by (auto simp: missing_def in_set_conv_nth)
  show d: "\<forall>b \<in> set (drop (nat p) bs). k < BlockId b"
  proof
    fix b assume "b \<in> set (drop (nat p) bs)"
    then obtain j where "j < length bs - nat p" "b = bs ! (nat p + j)" by (auto simp: in_set_conv_nth)
    then show "k < BlockId b" using m n by (auto simp: missing_def)
  qed
  have "set bs = set (take (nat p) bs) \<union> set (drop (nat p) bs)" by (metis append_take_drop_id set_append)
  then show "\<forall>b \<in> set bs. BlockId b \<noteq> k" using t d by auto
qed

lemma search_complete:
  assumes "sorted_cache bs" "b \<in> set bs"
  shows "\<exists>p. FSManager_BinarySearch bs (BlockId b) = (True, p) \<and> bs ! nat p = b"
proof -
  obtain r p where rp: "FSManager_BinarySearch bs (BlockId b) = (r, p)" by fastforce
  obtain i where i: "i < length bs" "bs ! i = b" using assms(2) by (auto simp: in_set_conv_nth)
  have r: "r"
  proof (rule ccontr)
    assume "\<not> r"
    then have "FSManager_BinarySearch bs (BlockId b) = (False, p)" using rp by simp
    from search_miss(4)[OF assms(1) this] assms(2) show False by blast
  qed
  then have hit: "FSManager_BinarySearch bs (BlockId b) = (True, p)" using rp by simp
  note h = search_hit[OF assms(1) hit]
  have "nat p = i" by (rule sorted_cache_inj[OF assms(1) h(1) i(1)]) (simp add: h(2) i(2))
  then show ?thesis using hit i(2) by simp
qed

lemma block_words_cached:
  "sorted_cache (fsTableCache s) \<Longrightarrow> b \<in> set (fsTableCache s) \<Longrightarrow> block_words look s (BlockId b) = SectorBlock b"
  by (simp add: block_words_def find_mem)

lemma block_words_uncached:
  "\<forall>b \<in> set (fsTableCache s). BlockId b \<noteq> k \<Longrightarrow> block_words look s k = words_of (look (drv s) (tsec s k))"
proof -
  assume "\<forall>b \<in> set (fsTableCache s). BlockId b \<noteq> k"
  then have "find (\<lambda>b. BlockId b = k) (fsTableCache s) = None" by (auto simp: find_None_iff)
  then show ?thesis by (simp add: block_words_def)
qed

lemma block_words_insert:
  assumes "sorted_cache (fsTableCache s)" "sorted_cache cs" "set cs = insert b (set (fsTableCache s))"
    and "\<forall>c \<in> set (fsTableCache s). BlockId c \<noteq> BlockId b"
    and "SectorBlock b = words_of (look (drv s) (tsec s (BlockId b)))" "look d = look (drv s)"
  shows "block_words look (s\<lparr>drv := d, fsTableCache := cs\<rparr>) k = block_words look s k"
proof -
  let ?u = "s\<lparr>drv := d, fsTableCache := cs\<rparr>"
  have ts: "tsec ?u = tsec s" by (simp add: tsec_def fun_eq_iff)
  consider "k = BlockId b" | c where "c \<in> set (fsTableCache s)" "BlockId c = k"
    | "k \<noteq> BlockId b" "\<forall>c \<in> set (fsTableCache s). BlockId c \<noteq> k" by blast
  then show ?thesis
  proof cases
    case 1
    have "block_words look ?u k = SectorBlock b"
      unfolding 1 by (rule block_words_cached) (use assms(2,3) in simp_all)
    moreover have "block_words look s k = words_of (look (drv s) (tsec s k))"
      by (rule block_words_uncached) (use assms(4) 1 in simp)
    ultimately show ?thesis using assms(5) 1 by simp
  next
    case 2
    have "block_words look ?u (BlockId c) = SectorBlock c" by (rule block_words_cached) (use assms(2,3) 2 in simp_all)
    moreover have "block_words look s (BlockId c) = SectorBlock c" by (rule block_words_cached[OF assms(1) 2(1)])
    ultimately show ?thesis using 2(2) by simp
  next
    case 3
    have "block_words look ?u k = words_of (look d (tsec s k))"
      using block_words_uncached[of ?u k look] 3 assms(3) ts by simp
    moreover have "block_words look s k = words_of (look (drv s) (tsec s k))" by (rule block_words_uncached[OF 3(2)])
    ultimately show ?thesis using assms(6) by simp
  qed
qed

lemma block_offset_bound: "unat (BLOCK_OFFSET x) < 128"
  by (simp add: BLOCK_OFFSET_def ENTRIES_PER_TABLE_SECTOR_def unat_mod_distrib)

lemma block_id_offset: "BLOCK_ID x = BLOCK_ID y \<Longrightarrow> BLOCK_OFFSET x = BLOCK_OFFSET y \<Longrightarrow> x = y"
  unfolding BLOCK_ID_def BLOCK_OFFSET_def by (metis div_mult_mod_eq)

text \<open>Replacing one cached block by a version of itself.\<close>

lemma block_words_update:
  assumes so: "sorted_cache (fsTableCache s)" and i: "i < length (fsTableCache s)" and b: "BlockId b = BlockId (fsTableCache s ! i)"
  shows "block_words look (s\<lparr>fsTableCache := (fsTableCache s)[i := b]\<rparr>) =
    (block_words look s)(BlockId b := SectorBlock b)"
proof
  fix k
  let ?bs = "fsTableCache s" and ?cs = "(fsTableCache s)[i := b]"
  let ?u = "s\<lparr>fsTableCache := ?cs\<rparr>"
  have m: "map BlockId ?cs = map BlockId ?bs" using i b by (simp add: map_update) (metis list_update_id nth_map)
  then have so1: "sorted_cache ?cs" using so by (simp add: sorted_cache_def)
  show "block_words look ?u k = ((block_words look s)(BlockId b := SectorBlock b)) k"
  proof (cases "k = BlockId b")
    case True
    have "b \<in> set ?cs" using i by (simp add: set_update_memI)
    then have "block_words look ?u (BlockId b) = SectorBlock b" by (intro block_words_cached) (use so1 in simp_all)
    then show ?thesis using True by simp
  next
    case False
    show ?thesis
    proof (cases "\<exists>j < length ?bs. BlockId (?bs ! j) = k")
      case True
      then obtain j where j: "j < length ?bs" "BlockId (?bs ! j) = k" by blast
      then have ij: "j \<noteq> i" using False b by auto
      have "?bs ! j \<in> set ?cs" using j ij by (metis length_list_update nth_list_update_neq nth_mem)
      then have "block_words look ?u (BlockId (?bs ! j)) = SectorBlock (?bs ! j)"
        by (intro block_words_cached) (use so1 in simp_all)
      moreover have "block_words look s (BlockId (?bs ! j)) = SectorBlock (?bs ! j)"
        by (rule block_words_cached[OF so]) (use j in simp)
      ultimately show ?thesis using j False by simp
    next
      case nj: False
      have n1: "\<forall>c \<in> set ?bs. BlockId c \<noteq> k" using nj by (auto simp: in_set_conv_nth)
      then have n2: "\<forall>c \<in> set (fsTableCache ?u). BlockId c \<noteq> k"
        using m by (metis (no_types, lifting) fsys.select_convs(9) fsys.surjective fsys.update_convs(9) image_iff list.set_map)
      have "block_words look ?u k = words_of (look (drv ?u) (tsec ?u k))" by (rule block_words_uncached[OF n2])
      moreover have "block_words look s k = words_of (look (drv s) (tsec s k))" by (rule block_words_uncached[OF n1])
      ultimately show ?thesis using False by (simp add: tsec_def)
    qed
  qed
qed

lemma table_ok_update:
  assumes "table_ok look good s" "i < length (fsTableCache s)" "BlockId b = BlockId (fsTableCache s ! i)"
    and "length (SectorBlock b) = 128"
    "WriteCount b = 0 \<longrightarrow> WriteCount (fsTableCache s ! i) = 0 \<and> SectorBlock b = SectorBlock (fsTableCache s ! i)"
  shows "table_ok look good (s\<lparr>fsTableCache := (fsTableCache s)[i := b]\<rparr>)"
proof -
  let ?bs = "fsTableCache s"
  have "map BlockId (?bs[i := b]) = map BlockId ?bs" using assms(2,3) by (simp add: map_update) (metis list_update_id nth_map)
  then have so: "sorted_cache (?bs[i := b])" using assms(1) by (simp add: table_ok_def sorted_cache_def)
  have old: "?bs ! i \<in> set ?bs" using assms(2) by simp
  have "length (SectorBlock c) = 128 \<and> good (drv s) (tsec s (BlockId c)) \<and>
      (WriteCount c = 0 \<longrightarrow> SectorBlock c = words_of (look (drv s) (tsec s (BlockId c))))" if "c \<in> set (?bs[i := b])" for c
  proof (cases "c = b")
    case True
    then show ?thesis using assms old unfolding table_ok_def by metis
  next
    case False
    then have "c \<in> set ?bs" using that set_update_subset_insert[of ?bs i b] by auto
    then show ?thesis using assms(1) by (simp add: table_ok_def)
  qed
  then show ?thesis using so assms(1) by (simp add: table_ok_def tsec_def)
qed

lemma fat_of_words: "block_words look t = block_words look s \<Longrightarrow> fat look t = fat look s"
  by (rule ext) (simp add: fat_def)

lemma fat_update:
  assumes so: "sorted_cache (fsTableCache s)" and i: "i < length (fsTableCache s)"
    and b: "BlockId b = BlockId (fsTableCache s ! i)" "BlockId b = BLOCK_ID x"
    and w: "SectorBlock b = (SectorBlock (fsTableCache s ! i))[unat (BLOCK_OFFSET x) := v]"
    and l: "length (SectorBlock (fsTableCache s ! i)) = 128"
  shows "fat look (s\<lparr>fsTableCache := (fsTableCache s)[i := b]\<rparr>) = (fat look s)(x := v)"
proof
  fix y
  have old: "block_words look s (BLOCK_ID x) = SectorBlock (fsTableCache s ! i)"
    using block_words_cached[OF so, of "fsTableCache s ! i" look] i b by simp
  show "fat look (s\<lparr>fsTableCache := (fsTableCache s)[i := b]\<rparr>) y = ((fat look s)(x := v)) y"
  proof (cases "BLOCK_ID y = BLOCK_ID x")
    case True
    have bw: "block_words look (s\<lparr>fsTableCache := (fsTableCache s)[i := b]\<rparr>) (BLOCK_ID y) =
        (block_words look s (BLOCK_ID x))[unat (BLOCK_OFFSET x) := v]"
      using block_words_update[OF so i b(1), of look] old w b(2) True by simp
    show ?thesis
    proof (cases "y = x")
      case True
      then show ?thesis using bw old l block_offset_bound[of x] by (simp add: fat_def)
    next
      case False
      then have "BLOCK_OFFSET y \<noteq> BLOCK_OFFSET x" using True block_id_offset by blast
      then have "unat (BLOCK_OFFSET x) \<noteq> unat (BLOCK_OFFSET y)" by (metis word_unat_eq_iff)
      then show ?thesis using bw False True by (simp add: fat_def)
    qed
  next
    case False
    then show ?thesis using block_words_update[OF so i b(1), of look] b(2) by (auto simp: fat_def)
  qed
qed

text \<open>Each block can be written \<open>n\<close> more times before its 32-bit counter wraps.\<close>

definition writes_left :: "nat \<Rightarrow> 'd fsys \<Rightarrow> bool" where
  "writes_left n s \<longleftrightarrow> n < 2 ^ 32 \<and> (\<forall>b \<in> set (fsTableCache s). unat (WriteCount b) + n < 2 ^ 32)"

section \<open>The table over a sector store\<close>

locale fat_store = sector_store "sread E" "swrite E" ok look good
  for E :: "'d fs_env" and ok look good
begin

lemma fs_read_ok:
  assumes "ok (drv s)" "good (drv s) x"
  shows "\<exists>d. fs_read E x 1 s = (Inr [look (drv s) x], s\<lparr>drv := d\<rparr>) \<and> ok d \<and> look d = look (drv s) \<and> good d = good (drv s)"
  using read_law[OF assms] by (auto simp: fs_read_def)

lemma fs_write_ok:
  assumes "ok (drv s)" "good (drv s) x"
  shows "\<exists>d. fs_write E x [b] s = (Inr (), s\<lparr>drv := d\<rparr>) \<and> ok d \<and> look d = (look (drv s))(x := b) \<and> good d = good (drv s)"
  using write_law[OF assms, of b] by (auto simp: fs_write_def)

text \<open>Making room: the block with the lowest number leaves, written back if it was changed.\<close>

lemma flush_entry_ok:
  assumes k: "ok (drv s)" and c: "fsTableCache s = b # bs"
    and bok: "length (SectorBlock b) = 128" "good (drv s) (tsec s (BlockId b))"
      "WriteCount b = 0 \<Longrightarrow> SectorBlock b = words_of (look (drv s) (tsec s (BlockId b)))"
    and l512: "\<And>k. length (look (drv s) k) = 512"
  shows "\<exists>d x. flush_entry E 0 s = (Inr (), s\<lparr>drv := d\<rparr>) \<and> ok d \<and> good d = good (drv s) \<and>
    look d = (look (drv s))(tsec s (BlockId b) := x) \<and> words_of x = SectorBlock b \<and> length x = 512"
proof (cases "WriteCount b = 0")
  case True
  then show ?thesis using c k bok(3) l512
    by (intro exI[of _ "drv s"] exI[of _ "look (drv s) (tsec s (BlockId b))"]) (simp add: flush_entry_def Let_def)
next
  case False
  have "BlockId b + ucast (BPB_RsvdSecCnt (fsBootBlock s)) + 1 = tsec s (BlockId b)" by (simp add: tsec_def)
  then have "flush_entry E 0 s = fs_write E (tsec s (BlockId b)) [bytes_of (SectorBlock b)] s"
    using False c by (simp add: flush_entry_def Let_def)
  moreover obtain d where "fs_write E (tsec s (BlockId b)) [bytes_of (SectorBlock b)] s = (Inr (), s\<lparr>drv := d\<rparr>)" "ok d"
    "look d = (look (drv s))(tsec s (BlockId b) := bytes_of (SectorBlock b))" "good d = good (drv s)"
    using fs_write_ok[OF k bok(2)] by blast
  ultimately show ?thesis
    using bok(1) by (intro exI[of _ d] exI[of _ "bytes_of (SectorBlock b)"]) (simp add: length_bytes_of)
qed

lemma flush_one:
  assumes t: "table_ok look good s" and k: "ok (drv s)" and ne: "1 < length (fsTableCache s)"
  shows "\<exists>d. FlushTableCache E 1 s = (Inr (), s\<lparr>drv := d, fsTableCache := tl (fsTableCache s)\<rparr>) \<and>
    table_ok look good (s\<lparr>drv := d, fsTableCache := tl (fsTableCache s)\<rparr>) \<and> ok d \<and> good d = good (drv s) \<and>
    block_words look (s\<lparr>drv := d, fsTableCache := tl (fsTableCache s)\<rparr>) = block_words look s"
proof -
  obtain b bs where c: "fsTableCache s = b # bs" using ne by (cases "fsTableCache s") auto
  have so: "sorted_cache (b # bs)" and bok: "length (SectorBlock b) = 128" "good (drv s) (tsec s (BlockId b))"
    "WriteCount b = 0 \<Longrightarrow> SectorBlock b = words_of (look (drv s) (tsec s (BlockId b)))"
    and rest: "\<forall>c \<in> set bs. length (SectorBlock c) = 128 \<and> good (drv s) (tsec s (BlockId c)) \<and>
        (WriteCount c = 0 \<longrightarrow> SectorBlock c = words_of (look (drv s) (tsec s (BlockId c))))"
    and l512: "\<And>k. length (look (drv s) k) = 512" and len: "length (b # bs) \<le> MAX_SECTORS_IN_TABLE_CACHE"
    using t c by (auto simp: table_ok_def)
  have sob: "sorted_cache bs" and gt: "\<forall>c \<in> set bs. BlockId b < BlockId c" using so by (auto simp: sorted_cache_def)
  obtain d x where d: "flush_entry E 0 s = (Inr (), s\<lparr>drv := d\<rparr>)" "ok d" "good d = good (drv s)"
    "look d = (look (drv s))(tsec s (BlockId b) := x)" "words_of x = SectorBlock b" "length x = 512"
    using flush_entry_ok[OF k c bok l512] by blast
  let ?u = "s\<lparr>drv := d, fsTableCache := bs\<rparr>"
  have "FlushTableCache E 1 s = (Inr (), ?u)"
    using d(1) c ne by (simp add: FlushTableCache_def Let_def andThen_def modify_def)
  moreover have "table_ok look good ?u"
    using sob gt rest l512 len d tsec_inj[of s] by (auto simp: table_ok_def tsec_def)
  moreover have "block_words look ?u k = block_words look s k" for k
  proof (cases "k = BlockId b")
    case True
    have "\<forall>c \<in> set bs. BlockId c \<noteq> k" using gt True by auto
    then have "block_words look ?u k = words_of (look d (tsec s k))"
      using block_words_uncached[of ?u k look] by (simp add: tsec_def)
    then show ?thesis using True d(4,5) c by (simp add: block_words_def)
  next
    case False
    then show ?thesis using c d(4) tsec_inj[of s k] by (auto simp: block_words_def tsec_def split: option.split)
  qed
  ultimately show ?thesis using d c by (intro exI[of _ d]) (auto simp: fun_eq_iff)
qed

text \<open>A block enters the cache.\<close>

lemma insert_block:
  assumes t: "table_ok look good s" and k: "ok (drv s)" and g: "good (drv s) (tsec s (BLOCK_ID x))"
    and room: "length (fsTableCache s) < MAX_SECTORS_IN_TABLE_CACHE"
    and miss: "FSManager_BinarySearch (fsTableCache s) (BLOCK_ID x) = (False, p)"
  shows "\<exists>d b. entry_Load E (nat p) x
        (s\<lparr>fsTableCache := take (nat p) (fsTableCache s) @ uninitialized E # drop (nat p) (fsTableCache s)\<rparr>) =
      (Inr (), s\<lparr>drv := d, fsTableCache := take (nat p) (fsTableCache s) @ b # drop (nat p) (fsTableCache s)\<rparr>) \<and>
    table_ok look good (s\<lparr>drv := d, fsTableCache := take (nat p) (fsTableCache s) @ b # drop (nat p) (fsTableCache s)\<rparr>) \<and>
    ok d \<and> good d = good (drv s) \<and> BlockId b = BLOCK_ID x \<and> WriteCount b = 0 \<and>
    block_words look (s\<lparr>drv := d, fsTableCache := take (nat p) (fsTableCache s) @ b # drop (nat p) (fsTableCache s)\<rparr>) =
      block_words look s"
proof -
  let ?bs = "fsTableCache s" and ?k = "BLOCK_ID x"
  have so: "sorted_cache ?bs" and l512: "\<And>k. length (look (drv s) k) = 512"
    and bok: "\<forall>c \<in> set ?bs. length (SectorBlock c) = 128 \<and> good (drv s) (tsec s (BlockId c)) \<and>
        (WriteCount c = 0 \<longrightarrow> SectorBlock c = words_of (look (drv s) (tsec s (BlockId c))))"
    using t by (auto simp: table_ok_def)
  note sm = search_miss[OF so miss]
  let ?w = "words_of (look (drv s) (tsec s ?k))"
  let ?b = "\<lparr>SectorBlock = ?w, BlockId = ?k, ReadCount = 0, WriteCount = 0\<rparr>"
  let ?cs = "take (nat p) ?bs @ uninitialized E # drop (nat p) ?bs"
  let ?s1 = "s\<lparr>fsTableCache := ?cs\<rparr>"
  obtain d where d: "fs_read E (tsec s ?k) 1 ?s1 = (Inr [look (drv s) (tsec s ?k)], ?s1\<lparr>drv := d\<rparr>)" "ok d"
    "look d = look (drv s)" "good d = good (drv s)"
    using fs_read_ok[of ?s1 "tsec s ?k"] k g by auto
  have up: "?cs[nat p := ?b] = take (nat p) ?bs @ ?b # drop (nat p) ?bs"
    using sm(1) by (simp add: list_update_append)
  have run: "entry_Load E (nat p) x ?s1 = (Inr (), s\<lparr>drv := d, fsTableCache := take (nat p) ?bs @ ?b # drop (nat p) ?bs\<rparr>)"
    using d(1) up by (simp add: entry_Load_def andThen_def modify_def GetTableSectorId_def tsec_def add.assoc)
  let ?u = "s\<lparr>drv := d, fsTableCache := take (nat p) ?bs @ ?b # drop (nat p) ?bs\<rparr>"
  have so1: "sorted_cache (take (nat p) ?bs @ ?b # drop (nat p) ?bs)"
  proof -
    have "sorted_wrt (<) (map BlockId (take (nat p) ?bs @ drop (nat p) ?bs))" using so by (simp add: sorted_cache_def)
    then show ?thesis using sm(2,3) unfolding sorted_cache_def map_append sorted_wrt_append by auto
  qed
  have set: "set (take (nat p) ?bs @ ?b # drop (nat p) ?bs) = insert ?b (set ?bs)"
    by (metis append_take_drop_id list.simps(15) set_append Un_insert_right)
  have tok: "table_ok look good ?u"
    unfolding table_ok_def
  proof (intro conjI)
    show "sorted_cache (fsTableCache ?u)" using so1 by simp
    show "length (fsTableCache ?u) \<le> MAX_SECTORS_IN_TABLE_CACHE" using room by simp
    show "\<forall>k. length (look (drv ?u) k) = 512" using l512 d(3) by simp
    show "\<forall>b \<in> set (fsTableCache ?u). length (SectorBlock b) = 128 \<and> good (drv ?u) (tsec ?u (BlockId b)) \<and>
        (WriteCount b = 0 \<longrightarrow> SectorBlock b = words_of (look (drv ?u) (tsec ?u (BlockId b))))"
      using bok d(3,4) g l512 set by (auto simp: tsec_def length_words_of)
  qed
  have "block_words look ?u k = block_words look s k" for k
    by (rule block_words_insert[OF so so1 set]) (use sm(4) d(3) in auto)
  then show ?thesis using run tok d by (intro exI[of _ d] exI[of _ ?b]) (auto simp: fun_eq_iff)
qed

text \<open>Whatever the cache holds, the entry's block is in it afterwards.\<close>

definition entry_at :: "'d fsys \<Rightarrow> u32 \<Rightarrow> nat \<Rightarrow> bool" where
  "entry_at s x i \<longleftrightarrow> i < length (fsTableCache s) \<and> BlockId (fsTableCache s ! i) = BLOCK_ID x"

lemma from_cache:
  assumes "table_ok look good s"
  shows "case GetSectorEntryFromCache s x of
      Some i \<Rightarrow> i < length (fsTableCache s) \<and> BlockId (fsTableCache s ! i) = BLOCK_ID x
    | None \<Rightarrow> \<forall>b \<in> set (fsTableCache s). BlockId b \<noteq> BLOCK_ID x"
proof -
  have so: "sorted_cache (fsTableCache s)" using assms by (simp add: table_ok_def)
  obtain r p where rp: "FSManager_BinarySearch (fsTableCache s) (BLOCK_ID x) = (r, p)" by fastforce
  show ?thesis
  proof (cases r)
    case True
    then show ?thesis using search_hit[OF so, of _ p] rp by (auto simp: GetSectorEntryFromCache_def)
  next
    case False
    then show ?thesis using search_miss(4)[OF so, of _ p] rp by (auto simp: GetSectorEntryFromCache_def)
  qed
qed

lemma from_cache_Some:
  assumes "table_ok look good s" "b \<in> set (fsTableCache s)" "BlockId b = BLOCK_ID x"
  shows "\<exists>i. GetSectorEntryFromCache s x = Some i \<and> i < length (fsTableCache s) \<and> BlockId (fsTableCache s ! i) = BLOCK_ID x"
  using from_cache[OF assms(1), of x] assms(2,3) by (cases "GetSectorEntryFromCache s x") auto

lemma add_to_cache:
  assumes t: "table_ok look good s" and k: "ok (drv s)" and g: "good (drv s) (tsec s (BLOCK_ID x))"
    and miss: "\<forall>b \<in> set (fsTableCache s). BlockId b \<noteq> BLOCK_ID x" and c: "writes_left n s"
  shows "\<exists>d bs. AddToTableCache E x s = (Inr (), s\<lparr>drv := d, fsTableCache := bs\<rparr>) \<and>
    table_ok look good (s\<lparr>drv := d, fsTableCache := bs\<rparr>) \<and> ok d \<and> good d = good (drv s) \<and>
    block_words look (s\<lparr>drv := d, fsTableCache := bs\<rparr>) = block_words look s \<and>
    (\<exists>b \<in> set bs. BlockId b = BLOCK_ID x) \<and> writes_left n (s\<lparr>drv := d, fsTableCache := bs\<rparr>)"
proof -
  have insert: "\<exists>d bs. AddToTableCache E x s = (Inr (), s\<lparr>drv := d, fsTableCache := bs\<rparr>) \<and>
      table_ok look good (s\<lparr>drv := d, fsTableCache := bs\<rparr>) \<and> ok d \<and> good d = good (drv s) \<and>
      block_words look (s\<lparr>drv := d, fsTableCache := bs\<rparr>) = block_words look s \<and>
      (\<exists>b \<in> set bs. BlockId b = BLOCK_ID x) \<and> writes_left n (s\<lparr>drv := d, fsTableCache := bs\<rparr>)"
    if flush: "(if length (fsTableCache s) = MAX_SECTORS_IN_TABLE_CACHE then FlushTableCache E 1 else ret ()) s =
        (Inr (), s\<lparr>drv := d0, fsTableCache := cs\<rparr>)"
      and t0: "table_ok look good (s\<lparr>drv := d0, fsTableCache := cs\<rparr>)" and o0: "ok d0" and g0: "good d0 = good (drv s)"
      and w0: "block_words look (s\<lparr>drv := d0, fsTableCache := cs\<rparr>) = block_words look s"
      and sub: "set cs \<subseteq> set (fsTableCache s)" and room: "length cs < MAX_SECTORS_IN_TABLE_CACHE" for d0 cs
  proof -
    let ?s = "s\<lparr>drv := d0, fsTableCache := cs\<rparr>"
    have so: "sorted_cache cs" using t0 by (simp add: table_ok_def)
    obtain r p where rp: "FSManager_BinarySearch cs (BLOCK_ID x) = (r, p)" by fastforce
    have r: "\<not> r"
    proof
      assume r
      then have "FSManager_BinarySearch cs (BLOCK_ID x) = (True, p)" using rp by simp
      from search_hit[OF so this] have "cs ! nat p \<in> set cs" "BlockId (cs ! nat p) = BLOCK_ID x" by auto
      then show False using miss sub by blast
    qed
    then have rp': "FSManager_BinarySearch (fsTableCache ?s) (BLOCK_ID x) = (False, p)" using rp by simp
    have gs: "good (drv ?s) (tsec ?s (BLOCK_ID x))" using g g0 by (simp add: tsec_def)
    have os: "ok (drv ?s)" using o0 by simp
    have rm: "length (fsTableCache ?s) < MAX_SECTORS_IN_TABLE_CACHE" using room by simp
    from insert_block[OF t0 os gs rm rp'] obtain d b where
      i: "entry_Load E (nat p) x (?s\<lparr>fsTableCache := take (nat p) cs @ uninitialized E # drop (nat p) cs\<rparr>) =
          (Inr (), ?s\<lparr>drv := d, fsTableCache := take (nat p) cs @ b # drop (nat p) cs\<rparr>)"
        "table_ok look good (?s\<lparr>drv := d, fsTableCache := take (nat p) cs @ b # drop (nat p) cs\<rparr>)"
        "ok d" "good d = good d0" "BlockId b = BLOCK_ID x" "WriteCount b = 0"
        "block_words look (?s\<lparr>drv := d, fsTableCache := take (nat p) cs @ b # drop (nat p) cs\<rparr>) = block_words look ?s"
      by auto
    let ?bs = "take (nat p) cs @ b # drop (nat p) cs"
    have "AddToTableCache E x s = (Inr (), s\<lparr>drv := d, fsTableCache := ?bs\<rparr>)"
      using flush rp' i(1) by (simp add: AddToTableCache_def andThen_def)
    moreover have "set ?bs = insert b (set cs)" by (metis append_take_drop_id list.simps(15) set_append Un_insert_right)
    then have "writes_left n (s\<lparr>drv := d, fsTableCache := ?bs\<rparr>)" "\<exists>b \<in> set ?bs. BlockId b = BLOCK_ID x"
      using c sub i(5,6) by (auto simp: writes_left_def)
    ultimately show ?thesis using i g0 w0 by (intro exI[of _ d] exI[of _ ?bs]) simp
  qed
  show ?thesis
  proof (cases "length (fsTableCache s) = MAX_SECTORS_IN_TABLE_CACHE")
    case True
    then have "1 < length (fsTableCache s)" by (simp add: MAX_SECTORS_IN_TABLE_CACHE_def)
    from flush_one[OF t k this] obtain d where d: "FlushTableCache E 1 s = (Inr (), s\<lparr>drv := d, fsTableCache := tl (fsTableCache s)\<rparr>)"
      "table_ok look good (s\<lparr>drv := d, fsTableCache := tl (fsTableCache s)\<rparr>)" "ok d" "good d = good (drv s)"
      "block_words look (s\<lparr>drv := d, fsTableCache := tl (fsTableCache s)\<rparr>) = block_words look s" by blast
    have "set (tl (fsTableCache s)) \<subseteq> set (fsTableCache s)" by (metis list.set_sel(2) subsetI tl_Nil)
    moreover have "length (tl (fsTableCache s)) < MAX_SECTORS_IN_TABLE_CACHE" using True by (simp add: MAX_SECTORS_IN_TABLE_CACHE_def)
    ultimately show ?thesis using insert[of "tl (fsTableCache s)" d] d True by simp
  next
    case False
    have "length (fsTableCache s) < MAX_SECTORS_IN_TABLE_CACHE" using False t by (simp add: table_ok_def)
    then show ?thesis using insert[of "fsTableCache s" "drv s"] False t k by simp
  qed
qed

lemma cached_entry_ok:
  assumes t: "table_ok look good s" and k: "ok (drv s)" and g: "good (drv s) (tsec s (BLOCK_ID x))" and c: "writes_left n s"
  shows "\<exists>d bs i. cached_entry E x s = (Inr i, s\<lparr>drv := d, fsTableCache := bs\<rparr>) \<and>
    table_ok look good (s\<lparr>drv := d, fsTableCache := bs\<rparr>) \<and> ok d \<and> good d = good (drv s) \<and>
    block_words look (s\<lparr>drv := d, fsTableCache := bs\<rparr>) = block_words look s \<and>
    i < length bs \<and> BlockId (bs ! i) = BLOCK_ID x \<and> writes_left n (s\<lparr>drv := d, fsTableCache := bs\<rparr>)"
proof (cases "GetSectorEntryFromCache s x")
  case (Some i)
  then show ?thesis using from_cache[OF t, of x] t k c
    by (intro exI[of _ "drv s"] exI[of _ "fsTableCache s"] exI[of _ i]) (simp add: cached_entry_def)
next
  case None
  then have miss: "\<forall>b \<in> set (fsTableCache s). BlockId b \<noteq> BLOCK_ID x" using from_cache[OF t, of x] by simp
  from add_to_cache[OF t k g miss c] obtain d bs b where a: "AddToTableCache E x s = (Inr (), s\<lparr>drv := d, fsTableCache := bs\<rparr>)"
    "table_ok look good (s\<lparr>drv := d, fsTableCache := bs\<rparr>)" "ok d" "good d = good (drv s)"
    "block_words look (s\<lparr>drv := d, fsTableCache := bs\<rparr>) = block_words look s"
    "b \<in> set bs" "BlockId b = BLOCK_ID x" "writes_left n (s\<lparr>drv := d, fsTableCache := bs\<rparr>)" by blast
  from from_cache_Some[OF a(2), of b x] a(6,7) obtain i where
    "GetSectorEntryFromCache (s\<lparr>drv := d, fsTableCache := bs\<rparr>) x = Some i" "i < length bs" "BlockId (bs ! i) = BLOCK_ID x" by auto
  then show ?thesis using None a by (intro exI[of _ d] exI[of _ bs] exI[of _ i]) (simp add: cached_entry_def andThen_def)
qed

lemma get_ok:
  assumes t: "table_ok look good s" and k: "ok (drv s)" and g: "good (drv s) (tsec s (BLOCK_ID x))" and c: "writes_left n s"
    and le: "x \<le> last_cluster s"
  shows "\<exists>t. GetSectorEntryValue E x s = (Inr (fat look s x AND EOC), t) \<and> table_ok look good t \<and> ok (drv t) \<and>
    fat look t = fat look s \<and> good (drv t) = good (drv s) \<and> table_frame s t \<and> writes_left n t"
proof -
  from cached_entry_ok[OF t k g c] obtain d bs i where e: "cached_entry E x s = (Inr i, s\<lparr>drv := d, fsTableCache := bs\<rparr>)"
    "table_ok look good (s\<lparr>drv := d, fsTableCache := bs\<rparr>)" "ok d" "good d = good (drv s)"
    "block_words look (s\<lparr>drv := d, fsTableCache := bs\<rparr>) = block_words look s" "i < length bs" "BlockId (bs ! i) = BLOCK_ID x"
    "writes_left n (s\<lparr>drv := d, fsTableCache := bs\<rparr>)" by blast
  let ?u = "s\<lparr>drv := d, fsTableCache := bs\<rparr>" and ?b = "(bs ! i)\<lparr>ReadCount := ReadCount (bs ! i) + 1\<rparr>"
  let ?t = "?u\<lparr>fsTableCache := (fsTableCache ?u)[i := ?b]\<rparr>"
  have so: "sorted_cache (fsTableCache ?u)" using e(2) by (simp add: table_ok_def)
  have il: "i < length (fsTableCache ?u)" and bi: "BlockId ?b = BlockId (fsTableCache ?u ! i)" using e(6) by simp_all
  have w: "block_words look ?u (BLOCK_ID x) = SectorBlock (bs ! i)"
    using block_words_cached[OF so, of "bs ! i" look] e(6,7) by simp
  have v: "SectorBlock (bs ! i) ! unat (BLOCK_OFFSET x) = fat look s x" using w e(5) by (simp add: fat_def)
  have l: "length (SectorBlock (bs ! i)) = 128" using e(2,6) by (simp add: table_ok_def)
  have "table_ok look good ?t" by (rule table_ok_update[OF e(2) il bi]) (use l in auto)
  moreover have "block_words look ?t = block_words look s"
    using block_words_update[OF so il bi, of look] w e(5,7) by (simp add: fun_upd_idem)
  then have "fat look ?t = fat look s" by (rule fat_of_words)
  moreover have "writes_left n ?t"
    using e(6,8) set_update_subset_insert[of bs i ?b] by (auto simp: writes_left_def)
  moreover have "GetSectorEntryValue E x s = (Inr (fat look s x AND EOC), ?t)"
    using le e(1) v by (simp add: GetSectorEntryValue_def andThen_def entry_Read_def)
  ultimately show ?thesis using e(3,4) by (intro exI[of _ ?t]) (simp add: table_frame_def)
qed

lemma set_ok:
  assumes t: "table_ok look good s" and k: "ok (drv s)" and g: "good (drv s) (tsec s (BLOCK_ID x))" and c: "writes_left (Suc n) s"
    and le: "x \<le> last_cluster s"
  shows "\<exists>t. SetSectorEntryValue E x v s = (Inr (), t) \<and> table_ok look good t \<and> ok (drv t) \<and>
    fat look t = (fat look s)(x := fat look s x AND 0xF0000000 OR (v AND EOC)) \<and> good (drv t) = good (drv s) \<and>
    table_frame (UpdateUsedSectors v s) t \<and> writes_left n t"
proof -
  let ?s = "UpdateUsedSectors v s"
  have f: "drv ?s = drv s" "fsTableCache ?s = fsTableCache s" "tsec ?s = tsec s" "last_cluster ?s = last_cluster s"
    by (simp_all add: UpdateUsedSectors_def Let_def tsec_def last_cluster_def fun_eq_iff)
  have bw: "block_words look ?s = block_words look s" by (rule ext) (simp add: block_words_def f split: option.split)
  have t': "table_ok look good ?s" "writes_left (Suc n) ?s" using t c by (simp_all add: table_ok_def writes_left_def f)
  from cached_entry_ok[OF t'(1) _ _ t'(2), of x] k g f obtain d bs i where
    e: "cached_entry E x ?s = (Inr i, ?s\<lparr>drv := d, fsTableCache := bs\<rparr>)"
    "table_ok look good (?s\<lparr>drv := d, fsTableCache := bs\<rparr>)" "ok d" "good d = good (drv s)"
    "block_words look (?s\<lparr>drv := d, fsTableCache := bs\<rparr>) = block_words look s" "i < length bs" "BlockId (bs ! i) = BLOCK_ID x"
    "writes_left (Suc n) (?s\<lparr>drv := d, fsTableCache := bs\<rparr>)" using bw by auto
  let ?u = "?s\<lparr>drv := d, fsTableCache := bs\<rparr>" and ?b = "entry_Write x v (bs ! i)"
  let ?t = "?u\<lparr>fsTableCache := (fsTableCache ?u)[i := ?b]\<rparr>"
  have so: "sorted_cache (fsTableCache ?u)" using e(2) by (simp add: table_ok_def)
  have mem: "bs ! i \<in> set bs" using e(6) by simp
  have il: "i < length (fsTableCache ?u)" and bi: "BlockId ?b = BlockId (fsTableCache ?u ! i)"
    using e(6) by (simp_all add: entry_Write_def Let_def)
  have l: "length (SectorBlock (bs ! i)) = 128" using e(2) mem by (simp add: table_ok_def)
  have w: "SectorBlock (bs ! i) ! unat (BLOCK_OFFSET x) = fat look s x"
    using block_words_cached[OF so, of "bs ! i" look] e(5,7) mem by (simp add: fat_def)
  have cnt: "unat (WriteCount (bs ! i)) + Suc n < 2 ^ 32" using e(8) mem by (simp add: writes_left_def)
  have wc: "unat (WriteCount ?b) = unat (WriteCount (bs ! i)) + 1"
    using cnt by (simp add: entry_Write_def Let_def unat_word_ariths)
  have "table_ok look good ?t"
  proof (rule table_ok_update[OF e(2) il bi])
    show "length (SectorBlock ?b) = 128" using l by (simp add: entry_Write_def Let_def)
    show "WriteCount ?b = 0 \<longrightarrow> WriteCount (fsTableCache ?u ! i) = 0 \<and> SectorBlock ?b = SectorBlock (fsTableCache ?u ! i)"
      using wc by (metis add_is_0 unat_0 zero_neq_one)
  qed
  moreover have "fat look ?t = (fat look ?u)(x := fat look s x AND 0xF0000000 OR (v AND EOC))"
    by (rule fat_update[OF so il bi]) (use e(7) l w in \<open>simp_all add: entry_Write_def Let_def\<close>)
  moreover have "fat look ?u = fat look s" using e(5) by (rule fat_of_words)
  moreover have "writes_left n ?t"
    unfolding writes_left_def
  proof (intro conjI ballI)
    show "n < 2 ^ 32" using cnt by simp
    fix b assume "b \<in> set (fsTableCache ?t)"
    then have "b = ?b \<or> b \<in> set bs" using set_update_subset_insert[of bs i ?b] by auto
    then show "unat (WriteCount b) + n < 2 ^ 32" using wc cnt e(8) by (auto simp: writes_left_def)
  qed
  moreover have "SetSectorEntryValue E x v s = (Inr (), ?t)"
    using le e(1) by (simp add: SetSectorEntryValue_def andThen_def modify_def)
  ultimately show ?thesis using e(3,4) by (intro exI[of _ ?t]) (simp add: table_frame_def)
qed

end

section \<open>The table of a cached drive\<close>

text \<open>The bounded queue as a list of at most \<open>c\<close> elements.\<close>

definition bounded_push :: "nat \<Rightarrow> u32 list \<Rightarrow> u32 \<Rightarrow> u32 list option" where
  "bounded_push c q x = (if length q < c then Some (q @ [x]) else None)"

definition drive_env :: "cache_lib \<Rightarrow> SectorBlockEntry \<Rightarrow> drive fs_env" where
  "drive_env L u = \<lparr>sread = drive_read L, swrite = drive_write L, qpush = bounded_push,
     qfull = (\<lambda>c q. c \<le> length q), uninitialized = u\<rparr>"

definition drive_ok :: "cache_lib \<Rightarrow> drive \<Rightarrow> bool" where
  "drive_ok L d \<longleftrightarrow> lib_ok L \<and> cache_inv d \<and> bEnableDiskCache d"

definition drive_look :: "drive \<Rightarrow> u32 \<Rightarrow> sector" where
  "drive_look d x = view d (x + LBAStartSector d)"

definition drive_good :: "drive \<Rightarrow> u32 \<Rightarrow> bool" where
  "drive_good d x \<longleftrightarrow> healthy d (x + LBAStartSector d) 1"

interpretation ft: fat_store "drive_env L u" "drive_ok L" drive_look drive_good for L u
proof (rule fat_store.intro)
  have "drive_ok L = (\<lambda>s. lib_ok L \<and> cache_inv s \<and> bEnableDiskCache s)" "drive_look = (\<lambda>s x. view s (x + LBAStartSector s))"
    "drive_good = (\<lambda>s x. healthy s (x + LBAStartSector s) 1)"
    by (auto simp: drive_ok_def drive_look_def drive_good_def fun_eq_iff)
  then show "sector_store (sread (drive_env L u)) (swrite (drive_env L u)) (drive_ok L) drive_look drive_good"
    using ds.sector_store_axioms[of L] by (simp add: drive_env_def)
qed

end
