(* ===== verification/FatProperties.thy ===== *)
theory FatProperties
  imports FatTable DiskProperties
begin

text \<open>
  What the allocation table of \<open>filesystem/FileSystem.cpp\<close> promises on a cached drive, as a map from sectors
  to entries, and where the loading of free sectors and the bounds check go wrong.
\<close>

section \<open>A file system on a cached drive\<close>

definition fs_ok :: "cache_lib \<Rightarrow> drive fsys \<Rightarrow> bool" where
  "fs_ok L s \<longleftrightarrow> drive_ok L (drv s) \<and> table_ok drive_look drive_good s"

abbreviation dfat :: "drive fsys \<Rightarrow> u32 \<Rightarrow> u32" where "dfat \<equiv> fat drive_look"

text \<open>A sector whose table block the drive can transfer.\<close>

definition in_table :: "drive fsys \<Rightarrow> u32 \<Rightarrow> bool" where
  "in_table s x \<longleftrightarrow> x \<le> last_cluster s \<and> drive_good (drv s) (tsec s (BLOCK_ID x))"

lemma fs_get:
  assumes "fs_ok L s" "in_table s x" "writes_left n s"
  shows "\<exists>t. GetSectorEntryValue (drive_env L u) x s = (Inr (dfat s x AND EOC), t) \<and> fs_ok L t \<and> dfat t = dfat s \<and>
    in_table t = in_table s \<and> writes_left n t \<and> table_frame s t"
proof -
  have "x \<le> last_cluster s" "drive_good (drv s) (tsec s (BLOCK_ID x))" "drive_ok L (drv s)" "table_ok drive_look drive_good s"
    using assms by (auto simp: fs_ok_def in_table_def)
  from ft.get_ok[OF this(4,3,2) assms(3) this(1)] obtain t where
    "GetSectorEntryValue (drive_env L u) x s = (Inr (dfat s x AND EOC), t)" "table_ok drive_look drive_good t"
    "drive_ok L (drv t)" "dfat t = dfat s" "drive_good (drv t) = drive_good (drv s)" "table_frame s t" "writes_left n t" by blast
  then show ?thesis using table_frameD[of s t] by (auto simp: fs_ok_def in_table_def fun_eq_iff)
qed

definition new_entry :: "u32 \<Rightarrow> u32 \<Rightarrow> u32" where
  "new_entry old v = old AND 0xF0000000 OR (v AND EOC)"

lemma fs_set:
  assumes "fs_ok L s" "in_table s x" "writes_left (Suc n) s"
  shows "\<exists>t. SetSectorEntryValue (drive_env L u) x v s = (Inr (), t) \<and> fs_ok L t \<and>
    dfat t = (dfat s)(x := new_entry (dfat s x) v) \<and> in_table t = in_table s \<and> writes_left n t \<and>
    table_frame (UpdateUsedSectors v s) t"
proof -
  have "x \<le> last_cluster s" "drive_good (drv s) (tsec s (BLOCK_ID x))" "drive_ok L (drv s)" "table_ok drive_look drive_good s"
    using assms by (auto simp: fs_ok_def in_table_def)
  from ft.set_ok[OF this(4,3,2) assms(3) this(1), of u v] obtain t where
    t: "SetSectorEntryValue (drive_env L u) x v s = (Inr (), t)" "table_ok drive_look drive_good t" "drive_ok L (drv t)"
      "dfat t = (dfat s)(x := new_entry (dfat s x) v)" "drive_good (drv t) = drive_good (drv s)"
      "table_frame (UpdateUsedSectors v s) t" "writes_left n t"
    by (auto simp: new_entry_def)
  have "last_cluster t = last_cluster s" "tsec t = tsec s"
    using table_frameD[OF t(6)] by (simp_all add: UpdateUsedSectors_def Let_def last_cluster_def tsec_def fun_eq_iff)
  then show ?thesis using t by (auto simp: fs_ok_def in_table_def fun_eq_iff)
qed

lemma new_entry_value: "new_entry old v AND EOC = v AND EOC"
proof -
  have "0xF0000000 AND EOC = 0" by (simp add: EOC_def)
  then show ?thesis by (simp add: new_entry_def bit.conj_disj_distrib2 and.assoc)
qed

section \<open>Free sectors\<close>

text \<open>The sectors numbered from \<open>k\<close> on whose entries in \<open>ws\<close> are free.\<close>

fun free_from :: "u32 \<Rightarrow> u32 list \<Rightarrow> u32 list" where
  "free_from k [] = []"
| "free_from k (w # ws) = (if w AND EOC = 0 then k # free_from (k + 1) ws else free_from (k + 1) ws)"

definition queue_ok :: "'d fs_env \<Rightarrow> bool" where
  "queue_ok E \<longleftrightarrow> (\<forall>c q x. qpush E c q x = (if length q < c then Some (q @ [x]) else None)) \<and>
     (\<forall>c q. qfull E c q \<longleftrightarrow> c \<le> length q)"

lemma length_free_from: "length (free_from k ws) \<le> length ws"
  by (induction k ws rule: free_from.induct) auto

text \<open>Pushing fills the queue with the free sectors in order, as far as there is room.\<close>

lemma push_free_entries_spec:
  assumes "queue_ok E" "length q \<le> c"
  shows "push_free_entries E c k ws q =
    (c < length q + length (free_from k ws), q @ take (c - length q) (free_from k ws))"
  using assms(2)
proof (induction ws arbitrary: k q)
  case (Cons w ws)
  show ?case
  proof (cases "w AND EOC = 0 \<and> length q < c")
    case True
    then show ?thesis using Cons.IH[of "q @ [k]" "k + 1"] assms(1)
      by (auto simp: queue_ok_def take_Cons' Suc_diff_Suc)
  next
    case False
    then show ?thesis using Cons assms(1) by (auto simp: queue_ok_def)
  qed
qed simp

lemma mem_free_from: "i < length ws \<Longrightarrow> ws ! i AND EOC = 0 \<Longrightarrow> k + of_nat i \<in> set (free_from k ws)"
proof (induction k ws arbitrary: i rule: free_from.induct)
  case (2 k w ws)
  then show ?case
  proof (cases i)
    case (Suc j)
    then have "(k + 1) + of_nat j \<in> set (free_from (k + 1) ws)" using 2 by (cases "w AND EOC = 0") auto
    then show ?thesis using Suc by (simp add: add.assoc)
  qed simp
qed simp

lemma free_fromD:
  "x \<in> set (free_from k ws) \<Longrightarrow> \<exists>i < length ws. x = k + of_nat i \<and> ws ! i AND EOC = 0"
proof (induction k ws rule: free_from.induct)
  case (2 k w ws)
  show ?case
  proof (cases "x = k \<and> w AND EOC = 0")
    case True
    then show ?thesis by (intro exI[of _ 0]) simp
  next
    case False
    then have "x \<in> set (free_from (k + 1) ws)" using 2(3) by (auto split: if_splits)
    then obtain i where "i < length ws" "x = k + 1 + of_nat i" "ws ! i AND EOC = 0" using 2 by (metis (full_types))
    then show ?thesis by (intro exI[of _ "Suc i"]) (simp add: add.assoc)
  qed
qed simp

text \<open>Loading the free sectors from the drive when nothing is cached: the blocks are read in order, eight at
  a time.\<close>

lemma search_nil [simp]: "FSManager_BinarySearch [] k = (False, 0)"
  by (simp add: FSManager_BinarySearch_def bsearch_loop.simps)

section \<open>Sequences of table operations\<close>

datatype table_op = GetOp u32 | SetOp u32 u32

fun table_run :: "'d fs_env \<Rightarrow> table_op list \<Rightarrow> ('d fsys, fs_error, u32 list) comp" where
  "table_run E [] = ret []"
| "table_run E (GetOp x # ops) = andThen (GetSectorEntryValue E x) (\<lambda>v. andThen (table_run E ops) (\<lambda>vs. ret (v # vs)))"
| "table_run E (SetOp x v # ops) = andThen (SetSectorEntryValue E x v) (\<lambda>_. table_run E ops)"

text \<open>The same operations on a plain map of 28-bit entries.\<close>

fun map_run :: "table_op list \<Rightarrow> (u32 \<Rightarrow> u32) \<Rightarrow> u32 list \<times> (u32 \<Rightarrow> u32)" where
  "map_run [] f = ([], f)"
| "map_run (GetOp x # ops) f = (case map_run ops f of (vs, g) \<Rightarrow> (f x # vs, g))"
| "map_run (SetOp x v # ops) f = map_run ops (f(x := v AND EOC))"

fun op_sector :: "table_op \<Rightarrow> u32" where
  "op_sector (GetOp x) = x"
| "op_sector (SetOp x v) = x"

definition entries :: "drive fsys \<Rightarrow> u32 \<Rightarrow> u32" where
  "entries s x = dfat s x AND EOC"

lemma table_run_map:
  assumes "fs_ok L s" "\<forall>p \<in> set ops. in_table s (op_sector p)" "writes_left (length ops) s"
  shows "\<exists>t. table_run (drive_env L u) ops s = (Inr (fst (map_run ops (entries s))), t) \<and> fs_ok L t \<and>
    entries t = snd (map_run ops (entries s))"
  using assms
proof (induction ops arbitrary: s)
  case Nil
  then show ?case by simp
next
  case (Cons p ops)
  have wl: "writes_left (Suc (length ops)) s" using Cons.prems(3) by simp
  show ?case
  proof (cases p)
    case (GetOp x)
    obtain t where t: "GetSectorEntryValue (drive_env L u) x s = (Inr (dfat s x AND EOC), t)" "fs_ok L t" "dfat t = dfat s"
      "in_table t = in_table s" "writes_left (Suc (length ops)) t"
      using fs_get[OF Cons.prems(1) _ wl, of x u] Cons.prems(2) GetOp by auto
    have "writes_left (length ops) t" using t(5) by (auto simp: writes_left_def)
    from Cons.IH[OF t(2) _ this] Cons.prems(2) t(4) obtain w where
      w: "table_run (drive_env L u) ops t = (Inr (fst (map_run ops (entries t))), w)" "fs_ok L w"
        "entries w = snd (map_run ops (entries t))" by auto
    have e: "entries t = entries s" using t(3) by (simp add: entries_def fun_eq_iff)
    obtain vs g where m: "map_run ops (entries s) = (vs, g)" by fastforce
    have "dfat s x AND EOC = entries s x" by (simp add: entries_def)
    then show ?thesis using GetOp t(1) w e m by (simp add: andThen_def)
  next
    case (SetOp x v)
    obtain t where t: "SetSectorEntryValue (drive_env L u) x v s = (Inr (), t)" "fs_ok L t"
      "dfat t = (dfat s)(x := new_entry (dfat s x) v)" "in_table t = in_table s" "writes_left (length ops) t"
      using fs_set[OF Cons.prems(1) _ wl, of x u v] Cons.prems(2) SetOp by auto
    have "entries t = (entries s)(x := v AND EOC)" using t(3) new_entry_value by (auto simp: entries_def fun_eq_iff)
    moreover from Cons.IH[OF t(2) _ t(5)] Cons.prems(2) t(4) obtain w where
      "table_run (drive_env L u) ops t = (Inr (fst (map_run ops (entries t))), w)" "fs_ok L w"
        "entries w = snd (map_run ops (entries t))" by auto
    ultimately show ?thesis using SetOp t(1) by (auto simp: andThen_def)
  qed
qed

section \<open>The pool of free sectors\<close>

text \<open>Every sector of the pool is free in the table, and is in the pool once.\<close>

definition pool_ok :: "drive fsys \<Rightarrow> bool" where
  "pool_ok s \<longleftrightarrow> distinct (freePoolQueue s) \<and> (\<forall>x \<in> set (freePoolQueue s). entries s x = 0 \<and> in_table s x)"

lemma entries_set: "dfat t = (dfat s)(x := new_entry (dfat s x) v) \<Longrightarrow> entries t = (entries s)(x := v AND EOC)"
  using new_entry_value by (auto simp: entries_def fun_eq_iff)

lemma used_queue: "freePoolQueue (UpdateUsedSectors v s) = freePoolQueue s" "freePoolSize (UpdateUsedSectors v s) = freePoolSize s"
  by (simp_all add: UpdateUsedSectors_def Let_def)

lemma fs_ok_queue: "fs_ok L (s\<lparr>freePoolQueue := q\<rparr>) = fs_ok L s" "in_table (s\<lparr>freePoolQueue := q\<rparr>) = in_table s"
  "dfat (s\<lparr>freePoolQueue := q\<rparr>) = dfat s" "writes_left n (s\<lparr>freePoolQueue := q\<rparr>) = writes_left n s"
  "entries (s\<lparr>freePoolQueue := q\<rparr>) = entries s"
  by (simp_all add: fs_ok_def table_ok_def tsec_def in_table_def last_cluster_def fat_def block_words_def writes_left_def
      entries_def fun_eq_iff split: option.split)


lemma DeAllocate_run:
  assumes "fs_ok L s" "pool_ok s" "in_table s x" "x \<notin> set (freePoolQueue s)" "writes_left (Suc n) s"
  shows "\<exists>t. FileSystem_DeAllocateSector (drive_env L u) x s = (Inr (entries s x), t) \<and> fs_ok L t \<and> pool_ok t \<and>
    entries t = (entries s)(x := 0) \<and> in_table t = in_table s \<and>
    freePoolQueue t = (if length (freePoolQueue s) < freePoolSize s then freePoolQueue s @ [x] else freePoolQueue s)"
proof -
  obtain a where a: "GetSectorEntryValue (drive_env L u) x s = (Inr (dfat s x AND EOC), a)" "fs_ok L a" "dfat a = dfat s"
    "in_table a = in_table s" "writes_left (Suc n) a" "table_frame s a"
    using fs_get[OF assms(1,3,5)] by blast
  have ia: "in_table a x" using a(4) assms(3) by simp
  obtain b where b: "SetSectorEntryValue (drive_env L u) x 0 a = (Inr (), b)" "fs_ok L b"
    "dfat b = (dfat a)(x := new_entry (dfat a x) 0)" "in_table b = in_table a" "table_frame (UpdateUsedSectors 0 a) b"
    using fs_set[OF a(2) ia a(5)] by blast
  have q: "freePoolQueue b = freePoolQueue s" "freePoolSize b = freePoolSize s"
    using table_frameD[OF a(6)] table_frameD[OF b(5)] by (simp_all add: used_queue)
  let ?q = "if length (freePoolQueue s) < freePoolSize s then freePoolQueue s @ [x] else freePoolQueue s"
  let ?t = "b\<lparr>freePoolQueue := ?q\<rparr>"
  have push: "AddToFreePoolCache (drive_env L u) x b = ?t"
    using q by (auto simp: AddToFreePoolCache_def drive_env_def bounded_push_def)
  have "entries a = entries s" using a(3) by (simp add: entries_def fun_eq_iff)
  then have e: "entries b = (entries s)(x := 0)" using entries_set[OF b(3)] by simp
  have "FileSystem_DeAllocateSector (drive_env L u) x s = (Inr (entries s x), ?t)"
    using a(1) b(1) push by (simp add: FileSystem_DeAllocateSector_def andThen_def modify_def entries_def)
  moreover have "pool_ok ?t"
    using assms(2,3,4) e a(4) b(4) by (auto simp: pool_ok_def fs_ok_queue)
  ultimately show ?thesis using b(2,4) a(4) e by (intro exI[of _ ?t]) (simp add: fs_ok_queue)
qed

section \<open>The boot block\<close>

lemma u16_of_bytes_of: "u16_of_bytes (bytes_of_u16 w @ xs) = w"
proof -
  have "ucast (ucast w :: u8) OR push_bit 8 (ucast (ucast (drop_bit 8 w) :: u8)) = w"
  proof (rule bit_word_eqI)
    fix n assume "n < LENGTH(16)"
    then consider "n < 8" | "8 \<le> n" "n < 16" by fastforce
    then show "bit (ucast (ucast w :: u8) OR push_bit 8 (ucast (ucast (drop_bit 8 w) :: u8)) :: u16) n = bit w n"
      by cases (auto simp: bit_simps)
  qed
  then show ?thesis by (simp add: u16_of_bytes_def bytes_of_u16_def)
qed

lemma u32_of_bytes_of: "u32_of_bytes (bytes_of_word w @ xs) = w"
  by (simp add: u32_of_bytes_def bytes_of_word_def word_of_bytes_of)

lemma length_field_bytes [simp]: "length (bytes_of_u16 w) = 2" "length (bytes_of_word v) = 4"
  by (simp_all add: bytes_of_u16_def bytes_of_word_def)

text \<open>The struct holds three jump bytes and a label of twelve bytes.\<close>

definition boot_wf :: "BootBlock \<Rightarrow> bool" where
  "boot_wf b \<longleftrightarrow> length (BPB_jmpBoot b) = 3 \<and> length (BPB_VolLab b) = 12"

lemma boot_roundtrip:
  assumes "boot_wf b"
  shows "boot_of_bytes (boot_bytes b @ rest) = b"
proof -
  have l: "length (BPB_jmpBoot b) = 3" "length (BPB_VolLab b) = 12" using assms by (simp_all add: boot_wf_def)
  let ?b = "boot_bytes b @ rest"
  have d: "take 3 ?b = BPB_jmpBoot b" "?b ! 3 = BPB_Media b"
    "drop 4 ?b = bytes_of_u16 (BPB_SecPerTrk b) @ drop 6 ?b" "drop 6 ?b = bytes_of_u16 (BPB_NumHeads b) @ drop 8 ?b"
    "drop 8 ?b = bytes_of_u16 (BPB_BytesPerSec b) @ drop 10 ?b" "drop 10 ?b = bytes_of_word (BPB_TotSec32 b) @ drop 14 ?b"
    "drop 14 ?b = bytes_of_word (BPB_HiddSec b) @ drop 18 ?b" "drop 18 ?b = bytes_of_u16 (BPB_RsvdSecCnt b) @ drop 20 ?b"
    "drop 20 ?b = bytes_of_word (BPB_FSTableSize b) @ drop 24 ?b" "drop 24 ?b = bytes_of_u16 (BPB_ExtFlags b) @ drop 26 ?b"
    "drop 26 ?b = bytes_of_u16 (BPB_FSVer b) @ drop 28 ?b" "drop 28 ?b = bytes_of_u16 (BPB_FSInfo b) @ drop 30 ?b"
    "?b ! 30 = BPB_BootSig b" "drop 31 ?b = bytes_of_word (BPB_VolID b) @ drop 35 ?b"
    "take 12 (drop 35 ?b) = BPB_VolLab b" "drop 47 ?b = bytes_of_word (uiUsedSectors b) @ drop 51 ?b"
    using l by (simp_all add: boot_bytes_def nth_append)
  show ?thesis
    unfolding boot_of_bytes_def d(1,2,13,15)
    unfolding d(3) u16_of_bytes_of unfolding d(4) u16_of_bytes_of unfolding d(5) u16_of_bytes_of
    unfolding d(6) u32_of_bytes_of unfolding d(7) u32_of_bytes_of unfolding d(8) u16_of_bytes_of
    unfolding d(9) u32_of_bytes_of unfolding d(10) u16_of_bytes_of unfolding d(11) u16_of_bytes_of
    unfolding d(12) u16_of_bytes_of unfolding d(14) u32_of_bytes_of unfolding d(16) u32_of_bytes_of by simp
qed

lemma length_boot_bytes: "boot_wf b \<Longrightarrow> length (boot_bytes b) = 51"
  by (simp add: boot_bytes_def boot_wf_def)

lemma boot_sector_signature:
  assumes "boot_wf b" "length junk = 512"
  shows "boot_sector junk b ! 510 = 0x55" "boot_sector junk b ! 511 = 0xAA" "length (boot_sector junk b) = 512"
  using assms by (simp_all add: boot_sector_def length_boot_bytes nth_append)

section \<open>Loading free sectors beside a cached block\<close>

lemma search_other: "k < BlockId b \<Longrightarrow> FSManager_BinarySearch [b] k = (False, 0)"
  by (simp add: FSManager_BinarySearch_def) (subst bsearch_loop.simps; simp add: Let_def; subst bsearch_loop.simps; simp)

lemma load_two_blocks:
  assumes q: "queue_ok E" and c: "fsTableCache s = [b]" "BlockId b = 1" "length (SectorBlock b) = 128"
    and boot: "BPB_FSTableSize (fsBootBlock s) = 2"
    and rd: "sread E (ucast (BPB_RsvdSecCnt (fsBootBlock s)) + 1) 2 (drv s) = (Inr [s0, s1], d)"
    and l: "length s0 = 512" "length s1 = 512" and e: "freePoolQueue s = []" "512 \<le> freePoolSize s"
  shows "LoadFreeSectors E s = (Inr (), s\<lparr>drv := d,
    freePoolQueue := free_from 128 (SectorBlock b) @ free_from 0 (words_of s0 @ words_of s1)\<rparr>)"
proof -
  let ?q1 = "free_from 128 (SectorBlock b)" and ?c = "freePoolSize s"
  let ?ws = "words_of s0 @ words_of s1"
  have lw: "length ?ws = 256" using l by (simp add: length_words_of)
  have n1: "length ?q1 \<le> 128" using length_free_from[of 128 "SectorBlock b"] c(3) by simp
  have n2: "length (free_from 0 ?ws) \<le> 256" using length_free_from[of 0 ?ws] lw by simp
  have p1: "push_free_entries E ?c 128 (SectorBlock b) [] = (False, ?q1)"
    using push_free_entries_spec[OF q, of "[]" ?c 128] n1 e(2) by simp
  have p2: "push_free_entries E ?c 0 ?ws ?q1 = (False, ?q1 @ free_from 0 ?ws)"
    using push_free_entries_spec[OF q, of ?q1 ?c 0 ?ws] n1 n2 e(2) by simp
  have nf: "\<not> qfull E ?c []" using q e(2) by (simp add: queue_ok_def)
  have one: "load_from_cache E ?c [b] [] = (False, ?q1)" using p1 c(2) by (simp add: ENTRIES_PER_TABLE_SECTOR_def)
  let ?s = "s\<lparr>freePoolQueue := ?q1\<rparr>"
  have fr: "fs_read E (ucast (BPB_RsvdSecCnt (fsBootBlock s)) + 1) 2 ?s = (Inr [s0, s1], ?s\<lparr>drv := d\<rparr>)"
    using rd by (simp add: fs_read_def)
  let ?t = "s\<lparr>drv := d, freePoolQueue := ?q1 @ free_from 0 ?ws\<rparr>"
  have miss: "FSManager_BinarySearch [b] 0 = (False, 0)" using c(2) by (intro search_other) simp
  have stop: "load_from_disk E 2 ?t = (Inr (), ?t)" using boot by (subst load_from_disk.simps) simp
  have "load_from_disk E 0 ?s = load_from_disk E 2 ?t"
    using boot c(1) miss fr p2 by (subst load_from_disk.simps) (simp add: Let_def)
  then show ?thesis using nf one stop e(1) c(1) by (simp add: LoadFreeSectors_def)
qed

section \<open>A file system to try things on\<close>

definition blank_drive :: drive where
  "blank_drive = \<lparr>deviceType = DEV_ATA_IDE, LBAStartSector = 0, disk = (\<lambda>_. replicate 512 0), bad_sectors = [],
     bEnableDiskCache = True, tree = [], slots = (\<lambda>_. \<lparr>m_uiLastAccess = 0, m_uiHitCount = 0, m_bSectorBuffer = []\<rparr>),
     pool_used = [], dirtyCacheList = [], ReleaseList = [], bReleaseListBuilt = False, ClockCount = 0\<rparr>"

definition small_boot :: BootBlock where
  "small_boot = \<lparr>BPB_jmpBoot = [0xEB, 0xFE, 0x90], BPB_Media = 0xF8, BPB_SecPerTrk = 63, BPB_NumHeads = 16,
     BPB_BytesPerSec = 512, BPB_TotSec32 = 261, BPB_HiddSec = 0, BPB_RsvdSecCnt = 2, BPB_FSTableSize = 2,
     BPB_ExtFlags = 0x80, BPB_FSVer = 0x100, BPB_FSInfo = 1, BPB_BootSig = 0x29, BPB_VolID = 1,
     BPB_VolLab = no_name @ [0], uiUsedSectors = 1\<rparr>"

definition small_fs :: "u32 list \<Rightarrow> SectorBlockEntry list \<Rightarrow> drive fsys" where
  "small_fs q c = \<lparr>drv = blank_drive, drvFloppy = False, drvSectorsPerTrack = 63, drvNoOfHeads = 16,
     drvSizeInSectors = 261, fsBootBlock = small_boot, freePoolQueue = q, freePoolSize = 4096, fsTableCache = c\<rparr>"

definition blank_entry :: SectorBlockEntry where
  "blank_entry = \<lparr>SectorBlock = [], BlockId = 0, ReadCount = 0, WriteCount = 0\<rparr>"

abbreviation small_env :: "drive fs_env" where "small_env \<equiv> drive_env plain_lib blank_entry"

lemma blank_look: "drive_look blank_drive x = replicate 512 0"
  by (simp add: drive_look_def view_def blank_drive_def)

lemma blank_inv: "cache_inv blank_drive"
  by (simp add: cache_inv_def blank_drive_def ordered_def)

lemma small_fs_ok: "fs_ok plain_lib (small_fs q [])"
  using blank_inv plain_lib_ok blank_look
  by (simp add: fs_ok_def drive_ok_def table_ok_def sorted_cache_def small_fs_def) (simp add: blank_drive_def)

lemma small_last: "last_cluster (small_fs q c) = 256"
  by (simp add: last_cluster_def small_fs_def small_boot_def)

lemma small_in_table:
  assumes "x \<le> 256"
  shows "in_table (small_fs q c) x"
proof -
  have "unat (BLOCK_ID x) = unat x div 128" by (simp add: BLOCK_ID_def ENTRIES_PER_TABLE_SECTOR_def unat_div_distrib)
  then have "unat (BLOCK_ID x) \<le> 2" using assms by (simp add: word_le_nat_alt)
  moreover from this have "unat (BLOCK_ID x + 3) = unat (BLOCK_ID x) + 3" by (simp add: unat_word_ariths)
  ultimately show ?thesis using assms small_last
    by (simp add: in_table_def drive_good_def healthy_def tsec_def small_fs_def small_boot_def blank_drive_def known_device_def
        add.assoc)
qed

lemma small_writes: "n < 2 ^ 32 \<Longrightarrow> writes_left n (small_fs q [])"
  by (simp add: writes_left_def small_fs_def)

lemma small_entries: "entries (small_fs q []) x = 0"
proof -
  have "words_of (replicate 512 0) = replicate 128 0"
    using words_of_bytes_of[of "replicate 128 0"] by (simp add: bytes_of_def bytes_of_word_def map_replicate concat_replicate_trivial)
      (simp add: eval_nat_numeral)
  then show ?thesis using blank_look block_offset_bound[of x]
    by (simp add: entries_def fat_def block_words_def small_fs_def)
qed

section \<open>Properties\<close>

text \<open>C3: any sequence of reads and writes of table entries gives the values, and leaves the entries, that the
  same sequence gives on a plain map from sectors to 28-bit values. The cache of table blocks, the
  eviction of its lowest block and the sector cache of the drive below it cannot be observed.\<close>

theorem table_refines_map:
  assumes "fs_ok L s" "\<forall>p \<in> set ops. in_table s (op_sector p)" "writes_left (length ops) s"
  shows "\<exists>t. table_run (drive_env L u) ops s = (Inr (fst (map_run ops (entries s))), t) \<and> fs_ok L t \<and>
    entries t = snd (map_run ops (entries s))"
  using table_run_map[OF assms] .

lemma table_refines_map_witness:
  "\<exists>t. table_run small_env [SetOp 5 9, GetOp 5, SetOp 200 EOC, GetOp 6, GetOp 200] (small_fs [] []) = (Inr [9, 0, EOC], t)"
proof -
  have "\<forall>p \<in> set [SetOp 5 9, GetOp 5, SetOp 200 EOC, GetOp 6, GetOp 200]. in_table (small_fs [] []) (op_sector p)"
    by (auto intro!: small_in_table)
  from table_refines_map[OF small_fs_ok this, of blank_entry] show ?thesis
    by (auto simp: small_writes small_entries EOC_def)
qed



text \<open>giving a sector back returns the next sector of its chain, frees exactly that entry, and puts the
  sector at the end of the pool if the pool has room; the pool keeps naming free sectors once each.\<close>

theorem DeAllocateSector_frees:
  assumes "fs_ok L s" "pool_ok s" "in_table s x" "x \<notin> set (freePoolQueue s)" "writes_left (Suc n) s"
  shows "\<exists>t. FileSystem_DeAllocateSector (drive_env L u) x s = (Inr (entries s x), t) \<and>
    entries t = (entries s)(x := 0) \<and> fs_ok L t \<and> pool_ok t \<and>
    freePoolQueue t = (if length (freePoolQueue s) < freePoolSize s then freePoolQueue s @ [x] else freePoolQueue s)"
  using DeAllocate_run[OF assms, of u] by blast

text \<open>C40: refilling the pool while a table block is cached can hand out a sector that is in use. Block 0 is not
  cached, so blocks 0 and 1 are read from the drive together although block 1 is cached; an entry of
  block 1 that was allocated in the cache and is still free on the drive enters the pool.\<close>

theorem LoadFreeSectors_takes_used_sector:
  assumes "queue_ok E" "fsTableCache s = [b]" "BlockId b = 1" "length (SectorBlock b) = 128"
    and "BPB_FSTableSize (fsBootBlock s) = 2"
    and "sread E (ucast (BPB_RsvdSecCnt (fsBootBlock s)) + 1) 2 (drv s) = (Inr [s0, s1], d)"
    and "length s0 = 512" "length s1 = 512" "freePoolQueue s = []" "512 \<le> freePoolSize s"
    and i: "i < 128" "SectorBlock b ! i AND EOC \<noteq> 0" "words_of s1 ! i AND EOC = 0"
  shows "\<exists>t. LoadFreeSectors E s = (Inr (), t) \<and> 128 + of_nat i \<in> set (freePoolQueue t) \<and>
    fat look t (128 + of_nat i) AND EOC \<noteq> 0"
proof -
  let ?x = "128 + of_nat i :: u32"
  let ?t = "s\<lparr>drv := d, freePoolQueue := free_from 128 (SectorBlock b) @ free_from 0 (words_of s0 @ words_of s1)\<rparr>"
  have run: "LoadFreeSectors E s = (Inr (), ?t)" using load_two_blocks[OF assms(1-10)] .
  have lw: "length (words_of s0) = 128" "length (words_of s1) = 128" using assms(7,8) by (simp_all add: length_words_of)
  have "0 + of_nat (128 + i) \<in> set (free_from 0 (words_of s0 @ words_of s1))"
    using mem_free_from[of "128 + i" "words_of s0 @ words_of s1" 0] lw i by (simp add: nth_append)
  then have q: "?x \<in> set (freePoolQueue ?t)" by simp
  have ux: "unat ?x = 128 + i" using i(1) by (simp add: unat_word_ariths unat_of_nat)
  have "BLOCK_ID ?x = 1" "unat (BLOCK_OFFSET ?x) = i"
    using ux i(1) by (simp_all add: BLOCK_ID_def BLOCK_OFFSET_def ENTRIES_PER_TABLE_SECTOR_def unat_div_distrib unat_mod_distrib
      word_unat_eq_iff)
  then have "fat look ?t ?x = SectorBlock b ! i" using assms(2,3) by (simp add: fat_def block_words_def)
  then show ?thesis using run q i(2) by (intro exI[of _ ?t]) simp
qed

lemma LoadFreeSectors_takes_used_sector_witness:
  "\<exists>t. LoadFreeSectors \<lparr>sread = \<lambda>x n d. (Inr [zero_sector, zero_sector], d), swrite = \<lambda>x b d. (Inr (), d),
      qpush = bounded_push, qfull = (\<lambda>c q. c \<le> length q), uninitialized = blank_entry\<rparr>
      (small_fs [] [\<lparr>SectorBlock = EOC # replicate 127 0, BlockId = 1, ReadCount = 0, WriteCount = 1\<rparr>]) = (Inr (), t) \<and>
    128 \<in> set (freePoolQueue t)"
proof -
  have z: "words_of zero_sector ! 0 = 0" by (simp add: zero_sector_def eval_nat_numeral word_of_bytes_def)
  show ?thesis
    using LoadFreeSectors_takes_used_sector[of "\<lparr>sread = \<lambda>x n d. (Inr [zero_sector, zero_sector], d),
        swrite = \<lambda>x b d. (Inr (), d), qpush = bounded_push, qfull = (\<lambda>c q. c \<le> length q), uninitialized = blank_entry\<rparr>"
        "small_fs [] [\<lparr>SectorBlock = EOC # replicate 127 0, BlockId = 1, ReadCount = 0, WriteCount = 1\<rparr>]"
        "\<lparr>SectorBlock = EOC # replicate 127 0, BlockId = 1, ReadCount = 0, WriteCount = 1\<rparr>" zero_sector zero_sector
        blank_drive 0 drive_look] z
    by (auto simp: queue_ok_def bounded_push_def small_fs_def small_boot_def zero_sector_def EOC_def)
qed

text \<open>The bound on sector numbers is off by one. The number just past the table is accepted, its table
  block is the first data sector, which holds the root directory, and writing the entry changes the
  first word of that sector as the file system sees it.\<close>

theorem entry_past_the_table:
  assumes "fs_ok L s" "BPB_BytesPerSec (fsBootBlock s) = 512" "unat (BPB_FSTableSize (fsBootBlock s)) < 2 ^ 23"
    and "drive_good (drv s) (GetRealSectorNumber s 0)" "writes_left (Suc n) s"
  defines "x \<equiv> last_cluster s"
  shows "\<exists>t. SetSectorEntryValue (drive_env L u) x v s = (Inr (), t) \<and> tsec t (BLOCK_ID x) = GetRealSectorNumber s 0 \<and>
    block_words drive_look t (BLOCK_ID x) ! 0 = new_entry (block_words drive_look s (BLOCK_ID x) ! 0) v"
proof -
  let ?n = "BPB_FSTableSize (fsBootBlock s)"
  have "unat (?n * 512) = unat ?n * 512" using assms(3) by (simp add: unat_word_ariths)
  then have ux: "unat x = unat ?n * 128"
    using assms(2) by (simp add: x_def last_cluster_def unat_div_distrib)
  have b: "BLOCK_ID x = ?n" "unat (BLOCK_OFFSET x) = 0"
    using ux by (simp_all add: BLOCK_ID_def BLOCK_OFFSET_def ENTRIES_PER_TABLE_SECTOR_def word_unat_eq_iff unat_div_distrib
      unat_mod_distrib)
  have ts: "tsec s (BLOCK_ID x) = GetRealSectorNumber s 0" by (simp add: tsec_def GetRealSectorNumber_def b algebra_simps)
  have it: "in_table s x" using assms(4) ts by (simp add: in_table_def x_def)
  from fs_set[OF assms(1) it assms(5), of u v] obtain t where
    t: "SetSectorEntryValue (drive_env L u) x v s = (Inr (), t)" "dfat t = (dfat s)(x := new_entry (dfat s x) v)"
      "table_frame (UpdateUsedSectors v s) t" by blast
  have "tsec t = tsec s" using table_frameD[OF t(3)] by (simp add: UpdateUsedSectors_def Let_def tsec_def fun_eq_iff)
  moreover have "dfat t x = new_entry (dfat s x) v" using t(2) by simp
  ultimately show ?thesis using t(1) ts b(2) by (auto simp: fat_def)
qed

text \<open>The boot block survives being written to its sector and read back: every field is recovered from the
  packed bytes, whatever the rest of the buffer holds, and the signature bytes are in place.\<close>

theorem boot_sector_roundtrip:
  assumes "boot_wf b" "length junk = 512"
  shows "boot_of_bytes (boot_sector junk b) = b \<and> boot_sector junk b ! 510 = 0x55 \<and> boot_sector junk b ! 511 = 0xAA \<and>
    length (boot_sector junk b) = 512"
  using boot_roundtrip[OF assms(1)] boot_sector_signature[OF assms] by (simp add: boot_sector_def)

end
