(* ===== verification/Volume.thy ===== *)
theory Volume
  imports FatTable
begin

text \<open>
  Directory entries and mounted volumes: \<open>FileSystem::Node\<close> of \<open>filesystem/FileSystem.{h,cpp}\<close>, the present
  directory, sector access behind the allocation table (\<open>xRead\<close>, \<open>xWrite\<close>, \<open>ReadRootDirectory\<close> of
  \<open>drivers/DeviceDrive.cpp\<close>) and the tokenizer of paths in \<open>util/StringUtil.cpp\<close>.

  The struct \<open>FS_Node\<close> and its attribute bits come from a library header that is not
  part of the repository. They are the parameter \<open>node_lib\<close>: reading and writing the \<open>k\<close>-th entry of a
  directory sector, the attribute masks, the open modes and the numbers that stand for drives; \<open>node_lib_ok\<close> states the law the code relies
  on, that an entry written to a slot is read back from it and leaves the other slots alone.
\<close>

section \<open>Nodes\<close>

record Node =
  nodeName :: string
  attribute :: u16
  createdTime :: u32
  accessedTime :: u32
  modifiedTime :: u32
  startSectorID :: u32
  nodeSize :: u32
  parentSectorID :: u32
  parentSectorPos :: u8
  nodeUserID :: u32

record node_lib =
  get_node :: "sector \<Rightarrow> nat \<Rightarrow> Node"
  put_node :: "sector \<Rightarrow> nat \<Rightarrow> Node \<Rightarrow> sector"
  name_fits :: "string \<Rightarrow> bool"
  ATTR_TYPE_FILE :: u16
  ATTR_TYPE_DIRECTORY :: u16
  ATTR_DELETED_DIR :: u16
  ATTR_DIR_DEFAULT :: u16
  O_RDONLY :: u8
  O_WRONLY :: u8
  O_RDWR :: u8
  O_APPEND :: u8
  O_TRUNC :: u8
  ROOT_DRIVE :: int
  CURRENT_DRIVE :: int
  FROM_FILE :: int
  loop_bound :: nat

text \<open>\<open>loop_bound\<close> bounds the rounds of the loops that follow the sectors of a chain or the parents of a
  directory, which the code does not bound; a loop that is still running then is the error \<open>NoReturn\<close>.\<close>

definition DIR_ENTRIES_PER_SECTOR :: nat where "DIR_ENTRIES_PER_SECTOR = 7"
definition EOC_B :: u8 where "EOC_B = 0xFF"
definition FS_ROOT_DIR :: string where "FS_ROOT_DIR = ''/''"
definition DIR_SPECIAL_CURRENT :: string where "DIR_SPECIAL_CURRENT = ''.''"
definition DIR_SPECIAL_PARENT :: string where "DIR_SPECIAL_PARENT = ''..''"
definition ROOT_USER_ID :: u32 where "ROOT_USER_ID = 0"

definition node_lib_ok :: "node_lib \<Rightarrow> bool" where
  "node_lib_ok N \<longleftrightarrow>
     (\<forall>b k j n. length b = 512 \<longrightarrow> k < DIR_ENTRIES_PER_SECTOR \<longrightarrow> j < DIR_ENTRIES_PER_SECTOR \<longrightarrow> name_fits N (nodeName n) \<longrightarrow>
        length (put_node N b k n) = 512 \<and> get_node N (put_node N b k n) j = (if j = k then n else get_node N b j)) \<and>
     ATTR_DELETED_DIR N \<noteq> 0"

definition IsDirectory :: "node_lib \<Rightarrow> Node \<Rightarrow> bool" where
  "IsDirectory N n \<longleftrightarrow> attribute n AND ATTR_TYPE_DIRECTORY N = ATTR_TYPE_DIRECTORY N"

definition IsFile :: "node_lib \<Rightarrow> Node \<Rightarrow> bool" where
  "IsFile N n \<longleftrightarrow> attribute n AND ATTR_TYPE_FILE N = ATTR_TYPE_FILE N"

definition IsDeleted :: "node_lib \<Rightarrow> Node \<Rightarrow> bool" where
  "IsDeleted N n \<longleftrightarrow> attribute n AND ATTR_DELETED_DIR N \<noteq> 0"

definition MarkAsDeleted :: "node_lib \<Rightarrow> Node \<Rightarrow> Node" where
  "MarkAsDeleted N n = n\<lparr>attribute := attribute n OR ATTR_DELETED_DIR N\<rparr>"

definition AddNode :: "Node \<Rightarrow> Node" where "AddNode n = n\<lparr>nodeSize := nodeSize n + 1\<rparr>"
definition RemoveNode :: "Node \<Rightarrow> Node" where "RemoveNode n = n\<lparr>nodeSize := nodeSize n - 1\<rparr>"

text \<open>\<open>now\<close> is the time of day.\<close>

definition Node_Init :: "u32 \<Rightarrow> string \<Rightarrow> u16 \<Rightarrow> u32 \<Rightarrow> u32 \<Rightarrow> u8 \<Rightarrow> Node" where
  "Node_Init now szDirName usDirAttribute iUserID uiParentSecNo bParentSecPos =
     \<lparr>nodeName = szDirName, attribute = usDirAttribute, createdTime = now, accessedTime = now, modifiedTime = now,
      startSectorID = EOC, nodeSize = 0, parentSectorID = uiParentSecNo, parentSectorPos = bParentSecPos,
      nodeUserID = iUserID\<rparr>"

definition InitAsRoot :: "node_lib \<Rightarrow> u32 \<Rightarrow> u32 \<Rightarrow> Node" where
  "InitAsRoot N now parentSectorId =
     Node_Init now FS_ROOT_DIR (ATTR_DIR_DEFAULT N OR ATTR_TYPE_DIRECTORY N) ROOT_USER_ID parentSectorId 0"

lemma IsDeleted_MarkAsDeleted:
  assumes "ATTR_DELETED_DIR N \<noteq> 0"
  shows "IsDeleted N (MarkAsDeleted N n)"
proof -
  have "(attribute n OR ATTR_DELETED_DIR N) AND ATTR_DELETED_DIR N = ATTR_DELETED_DIR N"
    by (rule bit_word_eqI) (auto simp: bit_simps)
  then show ?thesis using assms by (simp add: IsDeleted_def MarkAsDeleted_def)
qed

lemma node_lib_okD:
  assumes "node_lib_ok N" "length b = 512" "k < 7" "j < 7" "name_fits N (nodeName n)"
  shows "length (put_node N b k n) = 512" "get_node N (put_node N b k n) j = (if j = k then n else get_node N b j)"
  using assms by (simp_all add: node_lib_ok_def DIR_ENTRIES_PER_SECTOR_def)

section \<open>Volumes\<close>

datatype dir_error =
    Fs fs_error
  | DriveNotFound
  | AlreadyExists string | NotFound string | NotEmpty string | NotADirectory string | IsADirectory string
  | CreateOrDeleteRoot | SpecialDirectory string | EmptyFileName | ZeroByteWrite | NoPermission string
  | BadFileType u16 | PwdNotSet | BufferTooSmall | InvalidSeek
  | Undefined      \<comment> \<open>undefined behaviour: a buffer used outside its bounds, or an uninitialised value\<close>
  | NoReturn       \<comment> \<open>a loop is still running after \<open>loop_bound\<close> rounds\<close>

record PWD =
  DirEntry :: Node
  uiSectorNo :: u32
  bSectorEntryPosition :: u8

text \<open>The struct \<open>CWD\<close> has a pointer to its entry where \<open>PresentWorkingDirectory\<close> has the entry.\<close>

type_synonym CWD = PWD

record 'd volume =
  fs :: "'d fsys"
  FSpwd :: PWD

definition on_fs :: "('d fsys, fs_error, 'a) comp \<Rightarrow> ('d volume, dir_error, 'a) comp" where
  "on_fs m v = (case m (fs v) of
     (Inl e, t) \<Rightarrow> (Inl (Fs e), v\<lparr>fs := t\<rparr>)
   | (Inr x, t) \<Rightarrow> (Inr x, v\<lparr>fs := t\<rparr>))"

lemma on_fs_Inr: "m (fs v) = (Inr x, t) \<Longrightarrow> on_fs m v = (Inr x, v\<lparr>fs := t\<rparr>)"
  by (simp add: on_fs_def)

lemma on_fs_Inl: "m (fs v) = (Inl e, t) \<Longrightarrow> on_fs m v = (Inl (Fs e), v\<lparr>fs := t\<rparr>)"
  by (simp add: on_fs_def)

definition xRead :: "'d fs_env \<Rightarrow> u32 \<Rightarrow> u32 \<Rightarrow> ('d volume, dir_error, sector list) comp" where
  "xRead E uiSector uiNoOfSectors v = on_fs (fs_read E (GetRealSectorNumber (fs v) uiSector) uiNoOfSectors) v"

definition xWrite :: "'d fs_env \<Rightarrow> u32 \<Rightarrow> sector list \<Rightarrow> ('d volume, dir_error, unit) comp" where
  "xWrite E uiSector bs v = on_fs (fs_write E (GetRealSectorNumber (fs v) uiSector) bs) v"

text \<open>A single sector.\<close>

definition xRead1 :: "'d fs_env \<Rightarrow> u32 \<Rightarrow> ('d volume, dir_error, sector) comp" where
  "xRead1 E uiSector = andThen (xRead E uiSector 1) (\<lambda>bs. ret (hd bs))"

definition ReadRootDirectory :: "node_lib \<Rightarrow> 'd fs_env \<Rightarrow> ('d volume, dir_error, unit) comp" where
  "ReadRootDirectory N E =
     andThen (xRead1 E 0) (\<lambda>b.
     modify (\<lambda>v. v\<lparr>FSpwd := \<lparr>DirEntry = get_node N b 0, uiSectorNo = 0, bSectorEntryPosition = 0\<rparr>\<rparr>))"

text \<open>
  \<open>Node::FullPath\<close>: the names up to the root, each read from its parent. \<open>None\<close> for \<open>fullPath\<close> is the first round.
\<close>

fun FullPath_loop :: "node_lib \<Rightarrow> 'd fs_env \<Rightarrow> nat \<Rightarrow> Node \<Rightarrow> string option \<Rightarrow> ('d volume, dir_error, string) comp" where
  "FullPath_loop N E 0 n fullPath = throw NoReturn"
| "FullPath_loop N E (Suc fuel) n fullPath =
     (if nodeName n = FS_ROOT_DIR
      then ret (FS_ROOT_DIR @ (case fullPath of None \<Rightarrow> [] | Some p \<Rightarrow> p))
      else let p = (case fullPath of None \<Rightarrow> nodeName n | Some p \<Rightarrow> nodeName n @ FS_ROOT_DIR @ p)
           in andThen (xRead1 E (parentSectorID n)) (\<lambda>b.
              FullPath_loop N E fuel (get_node N b (unat (parentSectorPos n))) (Some p)))"

definition FullPath :: "node_lib \<Rightarrow> 'd fs_env \<Rightarrow> Node \<Rightarrow> ('d volume, dir_error, string) comp" where
  "FullPath N E n = FullPath_loop N E (loop_bound N) n None"

section \<open>Paths\<close>

text \<open>
  \<open>String_Tokenize\<close>: \<open>cur\<close> is the text since the last separator. The tokens are those \<open>StringDefTokenizer\<close>
  copies, which has room for ten of them with 32 characters each.
\<close>

fun String_Tokenize :: "char \<Rightarrow> string \<Rightarrow> string \<Rightarrow> string list" where
  "String_Tokenize chToken [] cur = (if length cur > 0 then [cur] else [])"
| "String_Tokenize chToken (c # src) cur =
     (if c = chToken then (if length cur > 0 then cur # String_Tokenize chToken src [] else String_Tokenize chToken src [])
      else String_Tokenize chToken src (cur @ [c]))"

definition path_tokens :: "string \<Rightarrow> string list" where
  "path_tokens szPath = String_Tokenize CHR ''/'' szPath []"

definition StringDefTokenizer :: "string \<Rightarrow> ('s, dir_error, string list) comp" where
  "StringDefTokenizer szPath =
     (let ts = path_tokens szPath
      in if length ts \<le> 10 \<and> list_all (\<lambda>t. length t \<le> 32) ts then ret ts else throw Undefined)"

definition String_Chr :: "string \<Rightarrow> char \<Rightarrow> int" where
  "String_Chr szStr ch = (if ch \<in> set szStr then int (length (takeWhile (\<lambda>c. c \<noteq> ch) szStr)) else - 1)"

text \<open>\<open>String_FromNum\<close>: the digits from the last one on, then reversed.\<close>

fun digits_rev :: "nat \<Rightarrow> nat \<Rightarrow> string" where
  "digits_rev n 0 = []"
| "digits_rev n (Suc room) =
     char_of (n mod 10 + 0x30) # (if n div 10 = 0 then [] else digits_rev (n div 10) room)"

definition String_FromNum :: "u32 \<Rightarrow> string" where
  "String_FromNum uiNumber = rev (digits_rev (unat uiNumber) 128)"

lemma String_Tokenize_spec:
  "c \<notin> set cur \<Longrightarrow> t \<in> set (String_Tokenize c src cur) \<Longrightarrow> t \<noteq> [] \<and> c \<notin> set t"
proof (induction src arbitrary: cur)
  case (Cons a src)
  show ?case using Cons.IH[of "[]"] Cons.IH[of "cur @ [a]"] Cons.prems by (cases "a = c"; cases cur) auto
qed (auto split: if_splits)

lemma path_tokens_spec: "t \<in> set (path_tokens p) \<Longrightarrow> t \<noteq> [] \<and> CHR ''/'' \<notin> set t"
  using String_Tokenize_spec[of "CHR ''/''" "[]" t p] by (simp add: path_tokens_def)

lemma String_Tokenize_token:
  "c \<notin> set t \<Longrightarrow> String_Tokenize c (t @ [c] @ rest) cur =
     (if cur @ t = [] then String_Tokenize c rest [] else (cur @ t) # String_Tokenize c rest [])"
  by (induction t arbitrary: cur) auto

lemma String_Tokenize_last: "c \<notin> set t \<Longrightarrow> String_Tokenize c t cur = (if cur @ t = [] then [] else [cur @ t])"
  by (induction t arbitrary: cur) auto

text \<open>A path is recovered from its tokens.\<close>

fun join_path :: "string list \<Rightarrow> string" where
  "join_path [] = []"
| "join_path [t] = t"
| "join_path (t # ts) = t @ ''/'' @ join_path ts"

lemma path_tokens_join:
  "\<forall>t \<in> set ts. t \<noteq> [] \<and> CHR ''/'' \<notin> set t \<Longrightarrow> path_tokens (join_path ts) = ts"
proof (induction ts rule: join_path.induct)
  case (3 t u ts)
  then show ?case using String_Tokenize_token[of "CHR ''/''" t "join_path (u # ts)" "[]"]
    by (auto simp: path_tokens_def)
qed (simp_all add: path_tokens_def String_Tokenize_last)

lemma path_tokens_absolute: "path_tokens (CHR ''/'' # p) = path_tokens p"
  by (simp add: path_tokens_def)

end
