(* ===== verification/Directory.thy ===== *)
theory Directory
  imports Volume
begin

text \<open>
  Directories and file contents on one volume, \<open>filesystem/Directory.cpp\<close>: searching a directory, walking a path,
  creating and deleting entries, reading and writing the sectors of a file.

  A buffer that the caller hands in and gets back is an argument and a part of the result. A buffer on the stack
  starts with unknown contents, the argument \<open>junk\<close>. The arguments \<open>uiSectorNo\<close> and \<open>bSectorPos\<close> passed by reference
  are parts of the result. Where the code keeps a pointer into a sector buffer, the model keeps the sector and the
  slot. File descriptors keep the last sector that was reached in their file; they are part of the state of
  reading and writing because an exception leaves them as they are.
\<close>

section \<open>Searching a directory\<close>

type_synonym slot = "u32 \<times> u8 \<times> sector"

datatype scan = Hit nat | Past nat "slot option" u32

text \<open>
  The loop over the slots of one sector, from slot \<open>k\<close> with \<open>m\<close> slots left. \<open>del\<close> is the first deleted entry so far,
  \<open>cnt\<close> the number of entries seen that are not deleted. \<open>Past k\<close> is the slot the loop stopped at, 7 when it ran out.
\<close>

fun scan_slots :: "node_lib \<Rightarrow> string \<Rightarrow> u32 \<Rightarrow> u32 \<Rightarrow> sector \<Rightarrow> nat \<Rightarrow> nat \<Rightarrow> slot option \<Rightarrow> u32 \<Rightarrow> scan" where
  "scan_slots N szDirName dirSize sec b k 0 del cnt = Past k del cnt"
| "scan_slots N szDirName dirSize sec b k (Suc m) del cnt =
     (let curDir = get_node N b k
      in if nodeName curDir = szDirName \<and> \<not> IsDeleted N curDir then Hit k
         else if IsDeleted N curDir
         then scan_slots N szDirName dirSize sec b (Suc k) m
                (case del of None \<Rightarrow> Some (sec, word_of_nat k, b) | Some d \<Rightarrow> Some d) cnt
         else if cnt + 1 \<ge> dirSize then Past k del (cnt + 1)
         else scan_slots N szDirName dirSize sec b (Suc k) m del (cnt + 1))"

text \<open>The loop over the sectors of the directory.\<close>

fun find_loop ::
    "node_lib \<Rightarrow> 'd fs_env \<Rightarrow> string \<Rightarrow> u32 \<Rightarrow> sector \<Rightarrow> nat \<Rightarrow> u32 \<Rightarrow> slot option \<Rightarrow> u32 \<Rightarrow> ('d volume, dir_error, bool \<times> slot) comp" where
  "find_loop N E szDirName dirSize dest 0 cur del cnt = throw NoReturn"
| "find_loop N E szDirName dirSize dest (Suc fuel) cur del cnt =
     (if cur = EOC then ret (False, case del of None \<Rightarrow> (EOC, EOC_B, dest) | Some d \<Rightarrow> d)
      else andThen (xRead1 E cur) (\<lambda>b.
        case scan_slots N szDirName dirSize cur b 0 DIR_ENTRIES_PER_SECTOR del cnt of
          Hit k \<Rightarrow> ret (True, cur, word_of_nat k, b)
        | Past k del' cnt' \<Rightarrow>
            andThen (on_fs (GetSectorEntryValue E cur)) (\<lambda>uiNextSectorID.
              if cnt' \<ge> dirSize \<and> del' \<noteq> None then ret (False, the del')
              else if cnt' \<ge> dirSize \<and> k < DIR_ENTRIES_PER_SECTOR - 1 then ret (False, cur, word_of_nat (k + 1), b)
              else if cnt' \<ge> dirSize \<and> k = DIR_ENTRIES_PER_SECTOR - 1 then
                (if uiNextSectorID \<noteq> EOC then ret (False, uiNextSectorID, 0, dest) else ret (False, cur, EOC_B, dest))
              else find_loop N E szDirName dirSize dest fuel uiNextSectorID del' cnt')))"

definition Directory_FindDirectory ::
    "node_lib \<Rightarrow> 'd fs_env \<Rightarrow> CWD \<Rightarrow> string \<Rightarrow> sector \<Rightarrow> ('d volume, dir_error, bool \<times> slot) comp" where
  "Directory_FindDirectory N E cwd szDirName dest =
     (let pDirEntry = DirEntry cwd in
      if \<not> IsDirectory N pDirEntry then throw (NotADirectory szDirName)
      else if szDirName = DIR_SPECIAL_CURRENT
      then andThen (xRead1 E (uiSectorNo cwd)) (\<lambda>b. ret (True, uiSectorNo cwd, bSectorEntryPosition cwd, b))
      else if szDirName = DIR_SPECIAL_PARENT
      then let (sec, pos) = (if nodeName pDirEntry = FS_ROOT_DIR then (uiSectorNo cwd, bSectorEntryPosition cwd)
                             else (parentSectorID pDirEntry, parentSectorPos pDirEntry))
           in andThen (xRead1 E sec) (\<lambda>b. ret (True, sec, pos, b))
      else find_loop N E szDirName (nodeSize pDirEntry) dest (loop_bound N) (startSectorID pDirEntry) None 0)"

section \<open>Walking a path\<close>

definition slot_node :: "node_lib \<Rightarrow> slot \<Rightarrow> Node" where
  "slot_node N r = (case r of (sec, pos, b) \<Rightarrow> get_node N b (unat pos))"

definition slot_cwd :: "node_lib \<Rightarrow> slot \<Rightarrow> CWD" where
  "slot_cwd N r = (case r of (sec, pos, b) \<Rightarrow>
     \<lparr>DirEntry = slot_node N r, uiSectorNo = sec, bSectorEntryPosition = pos\<rparr>)"

text \<open>The loop over tokens; \<open>r\<close> is the last entry found. A path without tokens leaves the results uninitialised.\<close>

fun walk_path :: "node_lib \<Rightarrow> 'd fs_env \<Rightarrow> CWD \<Rightarrow> string list \<Rightarrow> (string \<Rightarrow> dir_error) \<Rightarrow> slot option \<Rightarrow> ('d volume, dir_error, slot) comp" where
  "walk_path N E cwd [] err r = (case r of None \<Rightarrow> throw Undefined | Some x \<Rightarrow> ret x)"
| "walk_path N E cwd (t # ts) err r =
     andThen (Directory_FindDirectory N E cwd t []) (\<lambda>(found, x).
       if \<not> found then throw (err t) else walk_path N E (slot_cwd N x) ts err (Some x))"

definition Directory_ReadDirEntryInfo :: "node_lib \<Rightarrow> 'd fs_env \<Rightarrow> CWD \<Rightarrow> string \<Rightarrow> ('d volume, dir_error, slot) comp" where
  "Directory_ReadDirEntryInfo N E cwd szFileName v =
     (if szFileName = [] then throw EmptyFileName v
      else if szFileName = FS_ROOT_DIR
      then andThen (xRead1 E (uiSectorNo (FSpwd v)))
             (\<lambda>b. ret (uiSectorNo (FSpwd v), bSectorEntryPosition (FSpwd v), b)) v
      else andThen (StringDefTokenizer szFileName)
             (\<lambda>ts. walk_path N E (if hd szFileName = CHR ''/'' then FSpwd v else cwd) ts (\<lambda>_. NotFound szFileName) None) v)"

text \<open>
  The parent directory for creating or deleting \<open>szDirPath\<close>: \<open>cwd\<close> is the directory the path starts from. The
  result is the last component of the path with the entry of its parent.
\<close>

definition parent_of ::
    "node_lib \<Rightarrow> 'd fs_env \<Rightarrow> CWD \<Rightarrow> string \<Rightarrow> ('d volume, dir_error, string \<times> slot) comp" where
  "parent_of N E cwd szDirPath =
     (if szDirPath = [] \<or> szDirPath = FS_ROOT_DIR then throw CreateOrDeleteRoot
      else andThen (xRead1 E (uiSectorNo cwd)) (\<lambda>b.
        andThen (StringDefTokenizer szDirPath) (\<lambda>ts.
        if ts = [] then throw Undefined
        else andThen (walk_path N E cwd (butlast ts) NotFound (Some (uiSectorNo cwd, bSectorEntryPosition cwd, b))) (\<lambda>r.
          if last ts = DIR_SPECIAL_CURRENT \<or> last ts = DIR_SPECIAL_PARENT then throw (SpecialDirectory (last ts))
          else ret (last ts, r)))))"

section \<open>Creating and deleting\<close>

text \<open>
  What \<open>Directory_Create\<close> and \<open>Directory_Delete\<close> do on the volume: \<open>parent\<close> is the slot of the parent directory,
  whose entry \<open>pCWD->pDirEntry\<close> points into \<open>bParentDirectoryBuffer\<close>. The result is the parent's new entry, from which
  the caller refreshes the working directory of the process.
\<close>

definition Create_place ::
    "node_lib \<Rightarrow> 'd fs_env \<Rightarrow> sector \<Rightarrow> CWD \<Rightarrow> string \<Rightarrow> ('d volume, dir_error, Node \<times> slot) comp" where
  "Create_place N E junk cwd szDirName =
     (let p = DirEntry cwd in
      if startSectorID p = EOC
      then andThen (on_fs (AllocateSector E)) (\<lambda>x. ret (p\<lparr>startSectorID := x\<rparr>, x, 0, junk))
      else andThen (Directory_FindDirectory N E cwd szDirName junk) (\<lambda>(found, sec, pos, b).
        if found then throw (AlreadyExists szDirName)
        else if pos = EOC_B
        then andThen (on_fs (AllocateSector E)) (\<lambda>x.
             andThen (on_fs (SetSectorEntryValue E sec x)) (\<lambda>_. ret (p, x, 0, b)))
        else ret (p, sec, pos, b)))"

definition refresh_root :: "Node \<Rightarrow> 'd volume \<Rightarrow> 'd volume" where
  "refresh_root p v = (if nodeName p = FS_ROOT_DIR then v\<lparr>FSpwd := (FSpwd v)\<lparr>DirEntry := p\<rparr>\<rparr> else v)"

definition create_in ::
    "node_lib \<Rightarrow> 'd fs_env \<Rightarrow> sector \<Rightarrow> u32 \<Rightarrow> u32 \<Rightarrow> slot \<Rightarrow> string \<Rightarrow> u16 \<Rightarrow> ('d volume, dir_error, Node) comp" where
  "create_in N E junk now userID parent szDirName usDirAttribute =
     (case parent of (psec, ppos, pbuf) \<Rightarrow>
        andThen (Create_place N E junk (slot_cwd N parent) szDirName) (\<lambda>(p, sec, pos, b).
          if \<not> name_fits N szDirName \<or> DIR_ENTRIES_PER_SECTOR \<le> unat pos then throw Undefined
          else andThen (xWrite E sec [put_node N b (unat pos) (Node_Init now szDirName usDirAttribute userID psec ppos)]) (\<lambda>_.
            let p' = AddNode p
            in andThen (xWrite E psec [put_node N pbuf (unat ppos) p']) (\<lambda>_.
               andThen (modify (refresh_root p')) (\<lambda>_. ret p')))))"

fun dealloc_chain :: "'d fs_env \<Rightarrow> nat \<Rightarrow> u32 \<Rightarrow> ('d volume, dir_error, unit) comp" where
  "dealloc_chain E 0 cur = throw NoReturn"
| "dealloc_chain E (Suc fuel) cur =
     (if cur = EOC then ret ()
      else andThen (on_fs (FileSystem_DeAllocateSector E cur)) (\<lambda>uiNextSectorID. dealloc_chain E fuel uiNextSectorID))"

definition delete_in ::
    "node_lib \<Rightarrow> 'd fs_env \<Rightarrow> slot \<Rightarrow> string \<Rightarrow> ('d volume, dir_error, Node) comp" where
  "delete_in N E parent szDirName =
     (case parent of (psec, ppos, pbuf) \<Rightarrow> let cwd = slot_cwd N parent in
        if startSectorID (DirEntry cwd) = EOC then throw (NotFound szDirName)
        else andThen (Directory_FindDirectory N E cwd szDirName []) (\<lambda>(found, sec, pos, b).
          if \<not> found then throw (NotFound szDirName)
          else let delDir = get_node N b (unat pos) in
            if IsDirectory N delDir \<and> nodeSize delDir \<noteq> 0 then throw (NotEmpty szDirName)
            else andThen (dealloc_chain E (loop_bound N) (startSectorID delDir)) (\<lambda>_.
              andThen (xWrite E sec [put_node N b (unat pos) (MarkAsDeleted N delDir)]) (\<lambda>_.
              let p' = RemoveNode (DirEntry cwd)
              in andThen (xWrite E psec [put_node N pbuf (unat ppos) p']) (\<lambda>_.
                 andThen (modify (refresh_root p')) (\<lambda>_. ret p'))))))"

section \<open>Listing a directory\<close>

text \<open>The entries of one sector, up to \<open>room\<close> of them; \<open>True\<close> when the list is full before the sector ends.\<close>

fun list_slots :: "node_lib \<Rightarrow> sector \<Rightarrow> nat \<Rightarrow> nat \<Rightarrow> nat \<Rightarrow> bool \<times> Node list" where
  "list_slots N b k 0 room = (False, [])"
| "list_slots N b k (Suc m) room =
     (let n = get_node N b k
      in if IsDeleted N n then list_slots N b (Suc k) m room
         else case room of 0 \<Rightarrow> (True, [])
           | Suc r \<Rightarrow> (case list_slots N b (Suc k) m r of (full, ns) \<Rightarrow> (full, n # ns)))"

fun list_loop :: "node_lib \<Rightarrow> 'd fs_env \<Rightarrow> nat \<Rightarrow> u32 \<Rightarrow> nat \<Rightarrow> ('d volume, dir_error, Node list) comp" where
  "list_loop N E 0 cur room = throw NoReturn"
| "list_loop N E (Suc fuel) cur room =
     (if cur = EOC then ret []
      else andThen (xRead1 E cur) (\<lambda>b.
        case list_slots N b 0 DIR_ENTRIES_PER_SECTOR room of (full, ns) \<Rightarrow>
          if full then ret ns
          else andThen (on_fs (GetSectorEntryValue E cur)) (\<lambda>uiNextSectorID.
               andThen (list_loop N E fuel uiNextSectorID (room - length ns)) (\<lambda>ms. ret (ns @ ms)))))"

text \<open>
  \<open>Directory_GetDirectoryContent\<close> without the allocation of the list in the caller's heap: the size it reports and
  the entries it stores.
\<close>

definition content_at ::
    "node_lib \<Rightarrow> 'd fs_env \<Rightarrow> CWD \<Rightarrow> string \<Rightarrow> ('d volume, dir_error, int \<times> Node list) comp" where
  "content_at N E cwd szFileName =
     (let content = (\<lambda>dirFile. let iListSize = sint (nodeSize dirFile) in
            andThen (list_loop N E (loop_bound N) (startSectorID dirFile) (nat iListSize)) (\<lambda>ns. ret (iListSize, ns)))
      in if szFileName = [] then content (DirEntry cwd)
         else andThen (Directory_ReadDirEntryInfo N E cwd szFileName) (\<lambda>r.
           let dirFile = slot_node N r
           in if IsDeleted N dirFile then throw (NotFound szFileName)
              else if \<not> IsDirectory N dirFile then ret (1, [dirFile])
              else content dirFile))"

text \<open>\<open>Directory_GetDirEntry\<close> on the volume.\<close>

definition entry_at_path :: "node_lib \<Rightarrow> 'd fs_env \<Rightarrow> CWD \<Rightarrow> string \<Rightarrow> ('d volume, dir_error, Node) comp" where
  "entry_at_path N E cwd szFileName =
     andThen (Directory_ReadDirEntryInfo N E cwd szFileName) (\<lambda>r.
       if IsDeleted N (slot_node N r) then throw (NotFound szFileName) else ret (slot_node N r))"

end
