(* ===== verification/FileData.thy ===== *)
theory FileData
  imports Directory
begin

text \<open>
  The contents of files: \<open>Directory_FileWrite\<close>, \<open>Directory_ActualFileWrite\<close>, \<open>Directory_FileRead\<close> and their
  helpers in \<open>filesystem/Directory.cpp\<close>, with the state of the file descriptor they use.

  The data of a write is the list of bytes in the caller's buffer; a read returns the bytes it stores in the
  caller's buffer, as many as the number it returns. \<open>junk\<close> is what a buffer on the stack holds before it is
  filled.
\<close>

section \<open>File descriptors\<close>

record FileDescriptor =
  fdPid :: int
  fdId :: int
  fdMode :: u8
  fileName :: string
  offset :: u32
  driveID :: int
  fileSize :: u32
  lastReadSectorIndex :: int
  lastReadSectorNo :: u32

definition FileDescriptor_new :: "node_lib \<Rightarrow> int \<Rightarrow> int \<Rightarrow> u8 \<Rightarrow> string \<Rightarrow> int \<Rightarrow> u32 \<Rightarrow> u32 \<Rightarrow> FileDescriptor" where
  "FileDescriptor_new N pid fd m name drive sz startSector =
     \<lparr>fdPid = pid, fdId = fd, fdMode = m, fileName = name,
      offset = (if m AND O_APPEND N \<noteq> 0 then sz else 0), driveID = drive, fileSize = sz,
      lastReadSectorIndex = 0, lastReadSectorNo = startSector\<rparr>"

text \<open>A volume together with the descriptor of the file that is read or written.\<close>

record 'd fstate =
  vol :: "'d volume"
  desc :: FileDescriptor

definition on_vol :: "('d volume, dir_error, 'a) comp \<Rightarrow> ('d fstate, dir_error, 'a) comp" where
  "on_vol m s = (case m (vol s) of (r, v) \<Rightarrow> (r, s\<lparr>vol := v\<rparr>))"

definition Directory_GetLastReadSectorDetails :: "FileDescriptor \<Rightarrow> int \<times> u32" where
  "Directory_GetLastReadSectorDetails fd = (lastReadSectorIndex fd, lastReadSectorNo fd)"

definition Directory_SetLastReadSectorDetails :: "int \<Rightarrow> u32 \<Rightarrow> ('d fstate, dir_error, unit) comp" where
  "Directory_SetLastReadSectorDetails sectorIndex sectorID =
     modify (\<lambda>s. s\<lparr>desc := (desc s)\<lparr>lastReadSectorIndex := sectorIndex, lastReadSectorNo := sectorID\<rparr>\<rparr>)"

text \<open>The sector to start from for sector number \<open>target\<close> of the file.\<close>

definition start_point :: "FileDescriptor \<Rightarrow> nat \<Rightarrow> u32 \<Rightarrow> nat \<times> u32" where
  "start_point fd target first =
     (case Directory_GetLastReadSectorDetails fd of (iSectorIndex, cur) \<Rightarrow>
        if iSectorIndex < 0 \<or> iSectorIndex > int target then (0, first) else (nat iSectorIndex, cur))"

section \<open>Reading\<close>

text \<open>\<open>n\<close> steps along the chain from \<open>cur\<close>.\<close>

fun skip_sectors :: "'d fs_env \<Rightarrow> nat \<Rightarrow> u32 \<Rightarrow> ('d fstate, dir_error, u32) comp" where
  "skip_sectors E 0 cur = ret cur"
| "skip_sectors E (Suc n) cur =
     andThen (on_vol (on_fs (GetSectorEntryValue E cur))) (\<lambda>uiNextSectorID. skip_sectors E n uiNextSectorID)"

definition MAX_SECTORS_PER_RW :: nat where "MAX_SECTORS_PER_RW = 8"

text \<open>
  The inner loop: how many sectors in a row are read at once, how many of their bytes are wanted, and the sector
  to continue with. \<open>cnt\<close> is \<open>iSectorCount\<close>; the first argument is the number of sectors that may still be
  added, which the loop has when it starts with one.
\<close>

fun sector_run :: "'d fs_env \<Rightarrow> nat \<Rightarrow> nat \<Rightarrow> nat \<Rightarrow> nat \<Rightarrow> u32 \<Rightarrow> ('d fstate, dir_error, nat \<times> nat \<times> u32) comp" where
  "sector_run E 0 pos rem cnt cur = throw NoReturn"
| "sector_run E (Suc m) pos rem cnt cur =
     andThen (on_vol (on_fs (GetSectorEntryValue E cur))) (\<lambda>uiNextSectorID.
       if cur + 1 = uiNextSectorID then
         let cnt' = cnt + 1; readSize = cnt' * 512 - pos
         in if rem \<le> readSize
            then ret (if pos + rem \<le> 512 then cnt' - 1 else cnt', rem, uiNextSectorID)
            else if cnt' = MAX_SECTORS_PER_RW
            then andThen (on_vol (on_fs (GetSectorEntryValue E uiNextSectorID))) (\<lambda>x. ret (cnt', readSize, x))
            else sector_run E m pos rem cnt' uiNextSectorID
       else ret (cnt, min rem (cnt * 512 - pos), uiNextSectorID))"

text \<open>
  The outer loop. \<open>lastIdx\<close> and \<open>lastNo\<close> are \<open>iLastReadSectorIndex\<close> and \<open>uiLastReadSectorNumber\<close>, \<open>cnt\<close> the sectors
  read by the round before. A round reads the rest of the first sector or at least one more sector, so
  \<open>rem div 512 + 2\<close> rounds are enough for \<open>rem\<close> bytes.
\<close>

fun read_rounds ::
    "'d fs_env \<Rightarrow> nat \<Rightarrow> nat \<Rightarrow> nat \<Rightarrow> int \<Rightarrow> u32 \<Rightarrow> nat \<Rightarrow> u32 \<Rightarrow> ('d fstate, dir_error, u8 list) comp" where
  "read_rounds E 0 pos rem lastIdx lastNo cnt cur = throw NoReturn"
| "read_rounds E (Suc fuel) pos rem lastIdx lastNo cnt cur =
     (if cur = EOC then andThen (Directory_SetLastReadSectorDetails lastIdx lastNo) (\<lambda>_. ret [])
      else andThen (sector_run E 7 pos rem 1 cur) (\<lambda>(n, readSize, uiNextSectorID).
           andThen (on_vol (xRead E cur (word_of_nat n))) (\<lambda>bs.
             let got = take readSize (drop pos (concat bs)); i = lastIdx + int cnt
             in if rem \<le> readSize
                then andThen (Directory_SetLastReadSectorDetails i cur) (\<lambda>_. ret got)
                else andThen (read_rounds E fuel 0 (rem - readSize) i cur n uiNextSectorID) (\<lambda>more. ret (got @ more)))))"

text \<open>\<open>iReadRemainingCount\<close>: the bytes to read when \<open>left\<close> are left in the file; none asked for means all of them.\<close>

definition read_wanted :: "u32 \<Rightarrow> u32 \<Rightarrow> u32" where
  "read_wanted uiDataSize left = (if uiDataSize < left \<and> uiDataSize > 0 then uiDataSize else left)"

definition Directory_FileRead :: "node_lib \<Rightarrow> 'd fs_env \<Rightarrow> CWD \<Rightarrow> u32 \<Rightarrow> ('d fstate, dir_error, u8 list) comp" where
  "Directory_FileRead N E cwd uiDataSize s =
     (let fd = desc s; szFileName = fileName fd; uiOffset = offset fd
      in andThen (on_vol (Directory_ReadDirEntryInfo N E cwd szFileName)) (\<lambda>r.
         let pDirFile = slot_node N r in
         if IsDirectory N pDirFile then throw (IsADirectory szFileName)
         else if uiOffset \<ge> nodeSize pDirFile then ret []
         else
           let target = unat uiOffset div 512; pos = unat uiOffset mod 512;
               wanted = read_wanted uiDataSize (nodeSize pDirFile - uiOffset)
           in case start_point fd target (startSectorID pDirFile) of (i, first) \<Rightarrow>
              andThen (skip_sectors E (target - i) first) (\<lambda>cur.
              andThen (Directory_SetLastReadSectorDetails (int target) cur) (\<lambda>_.
              if unat wanted < 2 ^ 31
              then read_rounds E (unat wanted div 512 + 2) pos (unat wanted) (int target) cur 0 cur
              else throw Undefined))) s)"

section \<open>Writing\<close>

text \<open>The buffer of \<open>Directory_BufferedWrite\<close>: first sector, last sector, and the sectors collected.\<close>

record wbuffer =
  bufStart :: u32
  bufPrev :: u32
  bufSectors :: "sector list"

definition empty_wbuffer :: wbuffer where
  "empty_wbuffer = \<lparr>bufStart = 0, bufPrev = 0, bufSectors = []\<rparr>"

definition buffer_flush :: "'d fs_env \<Rightarrow> wbuffer \<Rightarrow> ('d fstate, dir_error, wbuffer) comp" where
  "buffer_flush E w =
     (if bufSectors w \<noteq> []
      then andThen (on_vol (xWrite E (bufStart w) (bufSectors w))) (\<lambda>_. ret (w\<lparr>bufSectors := []\<rparr>))
      else ret w)"

definition Directory_BufferedWrite :: "'d fs_env \<Rightarrow> u32 \<Rightarrow> sector \<Rightarrow> wbuffer \<Rightarrow> ('d fstate, dir_error, wbuffer) comp" where
  "Directory_BufferedWrite E uiSectorID b w =
     (let fresh = \<lparr>bufStart = uiSectorID, bufPrev = uiSectorID, bufSectors = [b]\<rparr>;
          bNewBuffering = (bufSectors w \<noteq> [] \<and> bufPrev w + 1 \<noteq> uiSectorID);
          w' = (if bufSectors w = [] then fresh
                else if bNewBuffering then w
                else w\<lparr>bufPrev := uiSectorID, bufSectors := bufSectors w @ [b]\<rparr>)
      in if length (bufSectors w') = MAX_SECTORS_PER_RW \<or> bNewBuffering
         then andThen (on_vol (xWrite E (bufStart w') (bufSectors w'))) (\<lambda>_.
              ret (if bNewBuffering then fresh else w'\<lparr>bufSectors := []\<rparr>))
         else ret w')"

text \<open>The walk to the first sector of the write: \<open>n\<close> steps at most; index, previous sector, current sector.\<close>

fun seek_sectors :: "'d fs_env \<Rightarrow> nat \<Rightarrow> nat \<Rightarrow> u32 \<Rightarrow> u32 \<Rightarrow> ('d fstate, dir_error, nat \<times> u32 \<times> u32) comp" where
  "seek_sectors E 0 i prev cur = ret (i, prev, cur)"
| "seek_sectors E (Suc n) i prev cur =
     (if cur = EOC then ret (i, prev, cur)
      else andThen (on_vol (on_fs (GetSectorEntryValue E cur))) (\<lambda>uiNextSectorID. seek_sectors E n (i + 1) cur uiNextSectorID))"

text \<open>The \<open>do\<close> loop that extends the file up to the first sector of the write: one round and \<open>n\<close> more.\<close>

definition append_sector :: "'d fs_env \<Rightarrow> Node \<Rightarrow> nat \<Rightarrow> u32 \<Rightarrow> ('d fstate, dir_error, Node \<times> u32) comp" where
  "append_sector E dirFile i prev =
     andThen (on_vol (on_fs (AllocateSector E))) (\<lambda>x.
     andThen (if startSectorID dirFile = EOC then ret (dirFile\<lparr>startSectorID := x\<rparr>)
              else andThen (on_vol (on_fs (SetSectorEntryValue E prev x))) (\<lambda>_. ret dirFile)) (\<lambda>dirFile'.
     andThen (on_vol (xWrite E x [zero_sector])) (\<lambda>_.
     andThen (Directory_SetLastReadSectorDetails (int i) x) (\<lambda>_. ret (dirFile', x)))))"

fun append_sectors :: "'d fs_env \<Rightarrow> nat \<Rightarrow> Node \<Rightarrow> nat \<Rightarrow> u32 \<Rightarrow> ('d fstate, dir_error, Node \<times> u32) comp" where
  "append_sectors E 0 dirFile i prev = append_sector E dirFile i prev"
| "append_sectors E (Suc n) dirFile i prev =
     andThen (append_sector E dirFile i prev) (\<lambda>(dirFile', x). append_sectors E n dirFile' (i + 1) x)"

text \<open>
  The loop over whole sectors. \<open>rem\<close> are the bytes still to write, \<open>b\<close> is \<open>bSectorBuffer\<close>, \<open>inside\<close> says that the
  write ends before the end of the file.
\<close>

function write_rounds ::
    "'d fs_env \<Rightarrow> bool \<Rightarrow> u8 list \<Rightarrow> sector \<Rightarrow> u32 \<Rightarrow> u32 \<Rightarrow> bool \<Rightarrow> wbuffer \<Rightarrow> ('d fstate, dir_error, unit) comp" where
  "write_rounds E inside rem b prev cur bStartAllocation w =
     andThen (if cur = EOC \<or> bStartAllocation
              then andThen (on_vol (on_fs (AllocateSector E))) (\<lambda>x.
                   andThen (on_vol (on_fs (SetSectorEntryValue E prev x))) (\<lambda>_. ret (x, True)))
              else ret (cur, False)) (\<lambda>(cur', alloc').
       if length rem < 512 then
         andThen (if \<not> alloc' \<and> inside then on_vol (xRead1 E cur') else ret b) (\<lambda>b'.
         andThen (Directory_BufferedWrite E cur' (rem @ drop (length rem) b') w) (\<lambda>w'.
         andThen (buffer_flush E w') (\<lambda>_. ret ())))
       else andThen (Directory_BufferedWrite E cur' (take 512 rem) w) (\<lambda>w'.
         if length rem = 512 then andThen (buffer_flush E w') (\<lambda>_. ret ())
         else andThen (on_vol (on_fs (GetSectorEntryValue E cur'))) (\<lambda>uiNextSectorID.
              write_rounds E inside (drop 512 rem) b cur' uiNextSectorID alloc' w')))"
  by pat_completeness auto
termination
  by (relation "measure (\<lambda>(_, _, rem, _). length rem)") auto

declare write_rounds.simps [simp del]

text \<open>The rest of the write once its first sector \<open>cur\<close> is reached: \<open>pos\<close> is where it starts in that sector.\<close>

definition write_from ::
    "'d fs_env \<Rightarrow> bool \<Rightarrow> nat \<Rightarrow> u8 list \<Rightarrow> sector \<Rightarrow> u32 \<Rightarrow> u32 \<Rightarrow> ('d fstate, dir_error, unit) comp" where
  "write_from E inside pos bDataBuffer b prev cur =
     (if pos = 0 then write_rounds E inside bDataBuffer b prev cur False empty_wbuffer
      else let n = min (length bDataBuffer) (512 - pos) in
           andThen (on_vol (xRead1 E cur)) (\<lambda>old.
           let b' = take pos old @ take n bDataBuffer @ drop (pos + n) old in
           andThen (on_vol (xWrite E cur [b'])) (\<lambda>_.
           if n = length bDataBuffer then ret ()
           else andThen (on_vol (on_fs (GetSectorEntryValue E cur))) (\<lambda>uiNextSectorID.
                write_rounds E inside (drop n bDataBuffer) b' cur uiNextSectorID False empty_wbuffer))))"

definition Directory_ActualFileWrite ::
    "'d fs_env \<Rightarrow> sector \<Rightarrow> u8 list \<Rightarrow> Node \<Rightarrow> ('d fstate, dir_error, Node) comp" where
  "Directory_ActualFileWrite E junk bDataBuffer dirFile s =
     (let uiOffset = offset (desc s); target = unat uiOffset div 512; pos = unat uiOffset mod 512;
          inside = (uiOffset + word_of_nat (length bDataBuffer) < nodeSize dirFile)
      in case start_point (desc s) target (startSectorID dirFile) of (i0, first) \<Rightarrow>
         andThen (seek_sectors E (target - i0) i0 EOC first) (\<lambda>(i, prev, cur).
         andThen (if cur = EOC
                  then andThen (append_sectors E (target - i) dirFile i prev) (\<lambda>(d, x). ret (d, x, x, zero_sector))
                  else andThen (Directory_SetLastReadSectorDetails (int i) cur) (\<lambda>_. ret (dirFile, prev, cur, junk)))
           (\<lambda>(d, prev', cur', b).
         andThen (write_from E inside pos bDataBuffer b prev' cur') (\<lambda>_. ret d))) s)"

definition Directory_FileWrite ::
    "node_lib \<Rightarrow> 'd fs_env \<Rightarrow> sector \<Rightarrow> CWD \<Rightarrow> u8 list \<Rightarrow> ('d fstate, dir_error, unit) comp" where
  "Directory_FileWrite N E junk cwd bDataBuffer s =
     (let szFileName = fileName (desc s); uiEnd = offset (desc s) + word_of_nat (length bDataBuffer)
      in if bDataBuffer = [] then throw ZeroByteWrite
         else andThen (on_vol (Directory_ReadDirEntryInfo N E cwd szFileName)) (\<lambda>(sec, pos, b).
           let dirFile = get_node N b (unat pos) in
           if IsDirectory N dirFile then throw (IsADirectory szFileName)
           else andThen (Directory_ActualFileWrite E junk bDataBuffer dirFile) (\<lambda>dirFile'.
             if nodeSize dirFile' < uiEnd
             then on_vol (xWrite E sec [put_node N b (unat pos) (dirFile'\<lparr>nodeSize := uiEnd\<rparr>)])
             else ret ())) ) s"

end
