(* ===== verification/VolumeStore.thy ===== *)
theory VolumeStore
  imports FatProperties FileData
begin

text \<open>
  What reading and writing the sectors behind the allocation table promises to the code for directories and
  files: contracts as locales, derived from the contract \<open>fat_store\<close> of the table and interpreted on the drive
  of \<open>drivers/DeviceDrive.cpp\<close>.
\<close>

section \<open>The contracts\<close>

definition same_volume ::
    "('d volume \<Rightarrow> bool) \<Rightarrow> ('d volume \<Rightarrow> u32 \<Rightarrow> u32) \<Rightarrow> ('d volume \<Rightarrow> u32 \<Rightarrow> sector) \<Rightarrow> ('d volume \<Rightarrow> u32 \<Rightarrow> bool) \<Rightarrow>
     'd volume \<Rightarrow> 'd volume \<Rightarrow> bool" where
  "same_volume I nxt content valid v t \<longleftrightarrow>
     I t \<and> nxt t = nxt v \<and> content t = content v \<and> valid t = valid v \<and> FSpwd t = FSpwd v"

lemma same_volume_trans:
  "same_volume I nxt content valid v t \<Longrightarrow> same_volume I nxt content valid t u \<Longrightarrow> same_volume I nxt content valid v u"
  by (simp add: same_volume_def)

text \<open>\<open>nxt\<close> is the successor of a sector in its chain, \<open>content\<close> what a sector holds, \<open>valid\<close> the sectors that can
  be followed and transferred.\<close>

locale volume_store =
  fixes E :: "'d fs_env" and I :: "'d volume \<Rightarrow> bool" and nxt :: "'d volume \<Rightarrow> u32 \<Rightarrow> u32"
    and content :: "'d volume \<Rightarrow> u32 \<Rightarrow> sector" and valid :: "'d volume \<Rightarrow> u32 \<Rightarrow> bool"
  assumes next_law: "I v \<Longrightarrow> valid v x \<Longrightarrow>
      \<exists>t. on_fs (GetSectorEntryValue E x) v = (Inr (nxt v x), t) \<and> same_volume I nxt content valid v t"
    and read1_law: "I v \<Longrightarrow> valid v x \<Longrightarrow>
      \<exists>t. xRead E x 1 v = (Inr [content v x], t) \<and> same_volume I nxt content valid v t"
    and write1_law: "I v \<Longrightarrow> valid v x \<Longrightarrow> length b = 512 \<Longrightarrow>
      \<exists>t. xWrite E x [b] v = (Inr (), t) \<and> I t \<and> nxt t = nxt v \<and> content t = (content v)(x := b) \<and>
        valid t = valid v \<and> FSpwd t = FSpwd v"
    and content_length: "I v \<Longrightarrow> length (content v x) = 512"

text \<open>Up to eight sectors at once.\<close>

locale bulk_volume = volume_store +
  assumes read_law: "I v \<Longrightarrow> n \<le> 8 \<Longrightarrow> \<forall>i < n. valid v (x + of_nat i) \<Longrightarrow>
      \<exists>t. xRead E x (of_nat n) v = (Inr (map (\<lambda>i. content v (x + of_nat i)) [0..<n]), t) \<and>
        same_volume I nxt content valid v t"
    and write_law: "I v \<Longrightarrow> length bs \<le> 8 \<Longrightarrow> \<forall>i < length bs. valid v (x + of_nat i) \<and> length (bs ! i) = 512 \<Longrightarrow>
      \<exists>t. xWrite E x bs v = (Inr (), t) \<and> I t \<and> nxt t = nxt v \<and>
        content t = (\<lambda>y. if unat (y - x) < length bs then bs ! unat (y - x) else content v y) \<and>
        valid t = valid v \<and> FSpwd t = FSpwd v"

section \<open>From the table to volumes\<close>

text \<open>
  A table whose blocks stay away from the data sectors \<open>D\<close> leaves them alone. \<open>look\<close> and \<open>good\<close> are those of the
  store below the table.
\<close>

definition off_data :: "('d \<Rightarrow> u32 \<Rightarrow> bool) \<Rightarrow> u32 set \<Rightarrow> 'd \<Rightarrow> u32 \<Rightarrow> bool" where
  "off_data good D d x \<longleftrightarrow> good d x \<and> x \<notin> D"

definition vol_inv ::
    "('d \<Rightarrow> bool) \<Rightarrow> ('d \<Rightarrow> u32 \<Rightarrow> sector) \<Rightarrow> ('d \<Rightarrow> u32 \<Rightarrow> bool) \<Rightarrow> u32 set \<Rightarrow> 'd volume \<Rightarrow> bool" where
  "vol_inv ok look good D v \<longleftrightarrow> table_ok look (off_data good D) (fs v) \<and> ok (drv (fs v)) \<and> writes_left 0 (fs v)"

definition vol_valid :: "('d \<Rightarrow> u32 \<Rightarrow> bool) \<Rightarrow> u32 set \<Rightarrow> 'd volume \<Rightarrow> u32 \<Rightarrow> bool" where
  "vol_valid good D v x \<longleftrightarrow> x \<le> last_cluster (fs v) \<and> off_data good D (drv (fs v)) (tsec (fs v) (BLOCK_ID x)) \<and>
     good (drv (fs v)) (GetRealSectorNumber (fs v) x) \<and> GetRealSectorNumber (fs v) x \<in> D"

definition vol_next ::
    "('d \<Rightarrow> u32 \<Rightarrow> sector) \<Rightarrow> ('d \<Rightarrow> u32 \<Rightarrow> bool) \<Rightarrow> u32 set \<Rightarrow> 'd volume \<Rightarrow> u32 \<Rightarrow> u32" where
  "vol_next look good D v x = (if vol_valid good D v x then fat look (fs v) x AND EOC else EOC)"

definition vol_content ::
    "('d \<Rightarrow> u32 \<Rightarrow> sector) \<Rightarrow> ('d \<Rightarrow> u32 \<Rightarrow> bool) \<Rightarrow> u32 set \<Rightarrow> 'd volume \<Rightarrow> u32 \<Rightarrow> sector" where
  "vol_content look good D v x =
     (if vol_valid good D v x then look (drv (fs v)) (GetRealSectorNumber (fs v) x) else zero_sector)"

lemma real_frame:
  "fsBootBlock t = fsBootBlock s \<Longrightarrow>
    GetRealSectorNumber t = GetRealSectorNumber s \<and> last_cluster t = last_cluster s \<and> tsec t = tsec s"
  by (simp add: GetRealSectorNumber_def last_cluster_def tsec_def fun_eq_iff)

lemma real_inj: "GetRealSectorNumber s x = GetRealSectorNumber s y \<longleftrightarrow> x = y"
  by (simp add: GetRealSectorNumber_def)

lemma real_add: "GetRealSectorNumber s (x + k) = GetRealSectorNumber s x + k"
  by (simp add: GetRealSectorNumber_def)

lemma off_data_cong: "good t = good s \<Longrightarrow> off_data good D t = off_data good D s"
  by (simp add: off_data_def fun_eq_iff)

abbreviation same_vol ::
    "('d \<Rightarrow> bool) \<Rightarrow> ('d \<Rightarrow> u32 \<Rightarrow> sector) \<Rightarrow> ('d \<Rightarrow> u32 \<Rightarrow> bool) \<Rightarrow> u32 set \<Rightarrow> 'd volume \<Rightarrow> 'd volume \<Rightarrow> bool" where
  "same_vol ok look good D \<equiv>
     same_volume (vol_inv ok look good D) (vol_next look good D) (vol_content look good D) (vol_valid good D)"

lemma valid_frame:
  assumes "fsBootBlock t = fsBootBlock (fs v)" "good (drv t) = good (drv (fs v))"
  shows "vol_valid good D (v\<lparr>fs := t\<rparr>) = vol_valid good D v"
  using real_frame[OF assms(1)] off_data_cong[where good = good, OF assms(2), of D] assms(2)
  by (simp add: vol_valid_def fun_eq_iff)

text \<open>Volumes that differ in the drive and the cache of the table only, with the same entries and data.\<close>

lemma same_volumeI:
  assumes "table_frame (fs v) t" "good (drv t) = good (drv (fs v))" "vol_inv ok look good D (v\<lparr>fs := t\<rparr>)"
    and "fat look t = fat look (fs v)" "\<And>y. y \<in> D \<Longrightarrow> look (drv t) y = look (drv (fs v)) y"
  shows "same_vol ok look good D v (v\<lparr>fs := t\<rparr>)"
proof -
  have b: "fsBootBlock t = fsBootBlock (fs v)" using table_frameD[OF assms(1)] by simp
  note va = valid_frame[where good = good, OF b assms(2), of D]
  have "vol_next look good D (v\<lparr>fs := t\<rparr>) = vol_next look good D v"
    using assms(4) va by (simp add: vol_next_def fun_eq_iff)
  moreover have "vol_content look good D (v\<lparr>fs := t\<rparr>) x = vol_content look good D v x" for x
    using assms(5) real_frame[OF b] va by (auto simp: vol_content_def vol_valid_def)
  ultimately show ?thesis using assms(3) va by (auto simp: same_volume_def)
qed

locale fat_volume = fat_store E ok look good for E :: "'d fs_env" and ok look good +
  fixes D :: "u32 set"
begin

lemma fixed_store: "fat_store E (\<lambda>d. ok d \<and> good d = g \<and> (\<forall>y \<in> D. look d y = f y)) look (off_data good D)"
proof (intro fat_store.intro sector_store.intro)
  fix s x b
  assume o: "ok s \<and> good s = g \<and> (\<forall>y \<in> D. look s y = f y)" and g: "off_data good D s x"
  then have k: "ok s" "good s x" "x \<notin> D" by (auto simp: off_data_def)
  obtain t where "sread E x 1 s = (Inr [look s x], t)" "ok t" "look t = look s" "good t = good s"
    using read_law[OF k(1,2)] by blast
  then show "\<exists>t. sread E x 1 s = (Inr [look s x], t) \<and> (ok t \<and> good t = g \<and> (\<forall>y \<in> D. look t y = f y)) \<and> look t = look s \<and>
      off_data good D t = off_data good D s"
    using o off_data_cong[of good t s D] by (intro exI[of _ t]) auto
  obtain t where "swrite E x [b] s = (Inr (), t)" "ok t" "look t = (look s)(x := b)" "good t = good s"
    using write_law[OF k(1,2)] by blast
  then show "\<exists>t. swrite E x [b] s = (Inr (), t) \<and> (ok t \<and> good t = g \<and> (\<forall>y \<in> D. look t y = f y)) \<and> look t = (look s)(x := b) \<and>
      off_data good D t = off_data good D s"
    using o off_data_cong[of good t s D] k(3) by (intro exI[of _ t]) auto
qed

lemma get_same:
  assumes "vol_inv ok look good D v" "vol_valid good D v x"
  shows "\<exists>t. on_fs (GetSectorEntryValue E x) v = (Inr (vol_next look good D v x), t) \<and> same_vol ok look good D v t"
proof -
  have p: "table_ok look (off_data good D) (fs v)" "writes_left 0 (fs v)" "x \<le> last_cluster (fs v)"
      "off_data good D (drv (fs v)) (tsec (fs v) (BLOCK_ID x))"
    and o: "ok (drv (fs v)) \<and> good (drv (fs v)) = good (drv (fs v)) \<and> (\<forall>y \<in> D. look (drv (fs v)) y = look (drv (fs v)) y)"
    using assms by (auto simp: vol_inv_def vol_valid_def)
  from fat_store.get_ok[OF fixed_store p(1) o p(4,2,3)] obtain t where
    t: "GetSectorEntryValue E x (fs v) = (Inr (fat look (fs v) x AND EOC), t)" "table_ok look (off_data good D) t"
      "ok (drv t)" "good (drv t) = good (drv (fs v))" "\<And>y. y \<in> D \<Longrightarrow> look (drv t) y = look (drv (fs v)) y"
      "fat look t = fat look (fs v)" "table_frame (fs v) t" "writes_left 0 t" by blast
  have "same_vol ok look good D v (v\<lparr>fs := t\<rparr>)"
    by (rule same_volumeI[OF t(7,4) _ t(6,5)]) (use t in \<open>simp_all add: vol_inv_def\<close>)
  then show ?thesis using on_fs_Inr[where m = "GetSectorEntryValue E x" and v = v, OF t(1)] assms(2) by (auto simp: vol_next_def)
qed

lemma read_same:
  assumes i: "vol_inv ok look good D v" and r: "sread E (GetRealSectorNumber (fs v) x) n (drv (fs v)) = (Inr bs, d)"
    and d: "ok d" "look d = look (drv (fs v))" "good d = good (drv (fs v))"
  shows "xRead E x n v = (Inr bs, v\<lparr>fs := (fs v)\<lparr>drv := d\<rparr>\<rparr>)" "same_vol ok look good D v (v\<lparr>fs := (fs v)\<lparr>drv := d\<rparr>\<rparr>)"
proof -
  have "fs_read E (GetRealSectorNumber (fs v) x) n (fs v) = (Inr bs, (fs v)\<lparr>drv := d\<rparr>)" using r by (simp add: fs_read_def)
  then show "xRead E x n v = (Inr bs, v\<lparr>fs := (fs v)\<lparr>drv := d\<rparr>\<rparr>)" unfolding xRead_def by (rule on_fs_Inr)
  show "same_vol ok look good D v (v\<lparr>fs := (fs v)\<lparr>drv := d\<rparr>\<rparr>)"
  proof (rule same_volumeI)
    show "fat look ((fs v)\<lparr>drv := d\<rparr>) = fat look (fs v)"
      by (rule fat_of_words, rule ext) (use d(2) in \<open>simp add: block_words_def tsec_def split: option.split\<close>)
    show "vol_inv ok look good D (v\<lparr>fs := (fs v)\<lparr>drv := d\<rparr>\<rparr>)"
      using i d off_data_cong[where good = good, OF d(3), of D] by (simp add: vol_inv_def table_ok_def tsec_def writes_left_def)
  qed (use d in \<open>simp_all add: table_frame_def\<close>)
qed

lemma write_same:
  assumes i: "vol_inv ok look good D v" and w: "swrite E (GetRealSectorNumber (fs v) x) bs (drv (fs v)) = (Inr (), d)"
    and d: "ok d" "look d = (\<lambda>y. if y \<in> W then f y else look (drv (fs v)) y)" "good d = good (drv (fs v))"
    and D: "W \<subseteq> D" "\<And>y. y \<in> W \<Longrightarrow> length (f y) = 512"
  shows "xWrite E x bs v = (Inr (), v\<lparr>fs := (fs v)\<lparr>drv := d\<rparr>\<rparr>)"
    "vol_inv ok look good D (v\<lparr>fs := (fs v)\<lparr>drv := d\<rparr>\<rparr>)"
    "vol_valid good D (v\<lparr>fs := (fs v)\<lparr>drv := d\<rparr>\<rparr>) = vol_valid good D v"
    "vol_next look good D (v\<lparr>fs := (fs v)\<lparr>drv := d\<rparr>\<rparr>) = vol_next look good D v"
    "vol_content look good D (v\<lparr>fs := (fs v)\<lparr>drv := d\<rparr>\<rparr>) =
       (\<lambda>y. if vol_valid good D v y \<and> GetRealSectorNumber (fs v) y \<in> W then f (GetRealSectorNumber (fs v) y)
            else vol_content look good D v y)"
proof -
  have "fs_write E (GetRealSectorNumber (fs v) x) bs (fs v) = (Inr (), (fs v)\<lparr>drv := d\<rparr>)" using w by (simp add: fs_write_def)
  then show "xWrite E x bs v = (Inr (), v\<lparr>fs := (fs v)\<lparr>drv := d\<rparr>\<rparr>)" unfolding xWrite_def by (rule on_fs_Inr)
  have off: "look d y = look (drv (fs v)) y" if "y \<notin> D" for y using D(1) d(2) that by auto
  have og: "off_data good D d = off_data good D (drv (fs v))" by (rule off_data_cong[OF d(3)])
  have nd: "tsec (fs v) (BlockId b) \<notin> D" if "b \<in> set (fsTableCache (fs v))" for b
    using i that by (auto simp: vol_inv_def table_ok_def off_data_def)
  show "vol_inv ok look good D (v\<lparr>fs := (fs v)\<lparr>drv := d\<rparr>\<rparr>)"
    using i d(1,2) og off nd D(2) by (auto simp: vol_inv_def table_ok_def tsec_def writes_left_def)
  show va: "vol_valid good D (v\<lparr>fs := (fs v)\<lparr>drv := d\<rparr>\<rparr>) = vol_valid good D v"
    by (rule valid_frame) (use d(3) in simp_all)
  have "fat look ((fs v)\<lparr>drv := d\<rparr>) x = fat look (fs v) x" if "vol_valid good D v x" for x
  proof -
    have "tsec (fs v) (BLOCK_ID x) \<notin> D" using that by (simp add: vol_valid_def off_data_def)
    then show ?thesis using off by (simp add: fat_def block_words_def tsec_def split: option.split)
  qed
  then show "vol_next look good D (v\<lparr>fs := (fs v)\<lparr>drv := d\<rparr>\<rparr>) = vol_next look good D v"
    using va by (simp add: vol_next_def fun_eq_iff)
  show "vol_content look good D (v\<lparr>fs := (fs v)\<lparr>drv := d\<rparr>\<rparr>) =
       (\<lambda>y. if vol_valid good D v y \<and> GetRealSectorNumber (fs v) y \<in> W then f (GetRealSectorNumber (fs v) y)
            else vol_content look good D v y)"
    using va d(2) by (auto simp: vol_content_def fun_eq_iff GetRealSectorNumber_def)
qed

end

sublocale fat_volume < vs: volume_store E "vol_inv ok look good D" "vol_next look good D" "vol_content look good D" "vol_valid good D"
proof
  fix v x and b :: sector
  assume i: "vol_inv ok look good D v"
  show "length (vol_content look good D v x) = 512"
    using i by (simp add: vol_content_def vol_inv_def table_ok_def zero_sector_def)
  assume va: "vol_valid good D v x"
  show "\<exists>t. on_fs (GetSectorEntryValue E x) v = (Inr (vol_next look good D v x), t) \<and> same_vol ok look good D v t"
    by (rule get_same[OF i va])
  let ?r = "GetRealSectorNumber (fs v) x"
  have g: "ok (drv (fs v))" "good (drv (fs v)) ?r" "?r \<in> D" using i va by (simp_all add: vol_inv_def vol_valid_def)
  obtain d where d: "sread E ?r 1 (drv (fs v)) = (Inr [look (drv (fs v)) ?r], d)" "ok d" "look d = look (drv (fs v))"
    "good d = good (drv (fs v))" using read_law[OF g(1,2)] by blast
  show "\<exists>t. xRead E x 1 v = (Inr [vol_content look good D v x], t) \<and> same_vol ok look good D v t"
    using read_same[OF i d] va by (auto simp: vol_content_def)
  assume b: "length b = 512"
  obtain d where d: "swrite E ?r [b] (drv (fs v)) = (Inr (), d)" "ok d" "look d = (look (drv (fs v)))(?r := b)"
    "good d = good (drv (fs v))" using write_law[OF g(1,2)] by blast
  have l: "look d = (\<lambda>y. if y \<in> {?r} then b else look (drv (fs v)) y)" using d(3) by (simp add: fun_eq_iff)
  note w = write_same[OF i d(1,2) l d(4)]
  have "vol_content look good D (v\<lparr>fs := (fs v)\<lparr>drv := d\<rparr>\<rparr>) = (vol_content look good D v)(x := b)"
    using w(5) g(3) b va real_inj[of "fs v"] by (auto simp: fun_eq_iff)
  then show "\<exists>t. xWrite E x [b] v = (Inr (), t) \<and> vol_inv ok look good D t \<and> vol_next look good D t = vol_next look good D v \<and>
      vol_content look good D t = (vol_content look good D v)(x := b) \<and> vol_valid good D t = vol_valid good D v \<and>
      FSpwd t = FSpwd v"
    using w(1-4) g(3) b by (intro exI[of _ "v\<lparr>fs := (fs v)\<lparr>drv := d\<rparr>\<rparr>"]) simp
qed


text \<open>A device that transfers up to eight sectors at once as it transfers them one by one.\<close>

locale fat_bulk = fat_volume +
  assumes bulk_read: "ok d \<Longrightarrow> n \<le> 8 \<Longrightarrow> \<forall>i < n. good d (x + of_nat i) \<Longrightarrow>
      \<exists>t. sread E x (of_nat n) d = (Inr (map (\<lambda>i. look d (x + of_nat i)) [0..<n]), t) \<and> ok t \<and> look t = look d \<and> good t = good d"
    and bulk_write: "ok d \<Longrightarrow> length bs \<le> 8 \<Longrightarrow> \<forall>i < length bs. good d (x + of_nat i) \<Longrightarrow>
      \<exists>t. swrite E x bs d = (Inr (), t) \<and> ok t \<and> good t = good d \<and>
        look t = (\<lambda>y. if unat (y - x) < length bs then bs ! unat (y - x) else look d y)"

sublocale fat_bulk < bv: bulk_volume E "vol_inv ok look good D" "vol_next look good D" "vol_content look good D" "vol_valid good D"
proof
  fix v x n
  assume i: "vol_inv ok look good D v" and n: "n \<le> 8" and va: "\<forall>k < n. vol_valid good D v (x + of_nat k)"
  have "ok (drv (fs v))" "\<forall>k < n. good (drv (fs v)) (GetRealSectorNumber (fs v) x + of_nat k)"
    using i va by (simp_all add: vol_inv_def vol_valid_def real_add)
  from bulk_read[OF this(1) n this(2)] obtain d where
    d: "sread E (GetRealSectorNumber (fs v) x) (of_nat n) (drv (fs v)) =
          (Inr (map (\<lambda>k. look (drv (fs v)) (GetRealSectorNumber (fs v) x + of_nat k)) [0..<n]), d)"
       "ok d" "look d = look (drv (fs v))" "good d = good (drv (fs v))" by blast
  have "map (\<lambda>k. look (drv (fs v)) (GetRealSectorNumber (fs v) x + of_nat k)) [0..<n] =
      map (\<lambda>k. vol_content look good D v (x + of_nat k)) [0..<n]"
    using va by (simp add: vol_content_def real_add)
  then show "\<exists>t. xRead E x (of_nat n) v = (Inr (map (\<lambda>k. vol_content look good D v (x + of_nat k)) [0..<n]), t) \<and>
      same_vol ok look good D v t"
    using read_same[OF i d] by auto
next
  fix v x and bs :: "sector list"
  assume i: "vol_inv ok look good D v" and n: "length bs \<le> 8"
    and va: "\<forall>k < length bs. vol_valid good D v (x + of_nat k) \<and> length (bs ! k) = 512"
  let ?r = "GetRealSectorNumber (fs v) x"
  have g: "ok (drv (fs v))" "\<forall>k < length bs. good (drv (fs v)) (?r + of_nat k) \<and> ?r + of_nat k \<in> D"
    using i va by (simp_all add: vol_inv_def vol_valid_def real_add)
  have "\<forall>k < length bs. good (drv (fs v)) (?r + of_nat k)" using g(2) by simp
  from bulk_write[OF g(1) n this] obtain d where d: "swrite E ?r bs (drv (fs v)) = (Inr (), d)" "ok d"
      "good d = good (drv (fs v))"
      "look d = (\<lambda>y. if unat (y - ?r) < length bs then bs ! unat (y - ?r) else look (drv (fs v)) y)" by blast
  let ?W = "{y. unat (y - ?r) < length bs}" and ?f = "\<lambda>y. bs ! unat (y - ?r)"
  have l: "look d = (\<lambda>y. if y \<in> ?W then ?f y else look (drv (fs v)) y)" using d(4) by simp
  have W: "?W \<subseteq> D"
  proof
    fix y assume y: "y \<in> ?W"
    then have "?r + of_nat (unat (y - ?r)) \<in> D" using g(2) by blast
    then show "y \<in> D" by simp
  qed
  have L: "y \<in> ?W \<Longrightarrow> length (?f y) = 512" for y using va by simp
  note w = write_same[OF i d(1,2) l d(3) W L]
  have sub: "GetRealSectorNumber (fs v) y - ?r = y - x" for y by (simp add: GetRealSectorNumber_def)
  have vy: "vol_valid good D v y" if "unat (y - x) < length bs" for y
  proof -
    have "vol_valid good D v (x + of_nat (unat (y - x)))" using va that by blast
    then show ?thesis by simp
  qed
  have c: "vol_content look good D (v\<lparr>fs := (fs v)\<lparr>drv := d\<rparr>\<rparr>) =
      (\<lambda>y. if unat (y - x) < length bs then bs ! unat (y - x) else vol_content look good D v y)"
    using w(5) sub vy by (auto simp: fun_eq_iff)
  show "\<exists>t. xWrite E x bs v = (Inr (), t) \<and> vol_inv ok look good D t \<and> vol_next look good D t = vol_next look good D v \<and>
      vol_content look good D t = (\<lambda>y. if unat (y - x) < length bs then bs ! unat (y - x) else vol_content look good D v y) \<and>
      vol_valid good D t = vol_valid good D v \<and> FSpwd t = FSpwd v"
    using w(1-4) c by (intro exI[of _ "v\<lparr>fs := (fs v)\<lparr>drv := d\<rparr>\<rparr>"]) simp
qed

section \<open>The drive of the kernel\<close>

text \<open>With the cache enabled, single sectors.\<close>

interpretation fv: fat_volume "drive_env L u" "drive_ok L" drive_look drive_good D for L u D
  by unfold_locales

text \<open>With the cache disabled, the device as it is.\<close>

definition raw_ok :: "drive \<Rightarrow> bool" where
  "raw_ok d \<longleftrightarrow> \<not> bEnableDiskCache d \<and> known_device (deviceType d)"

definition raw_look :: "drive \<Rightarrow> u32 \<Rightarrow> sector" where
  "raw_look d x = disk d (x + LBAStartSector d)"

definition raw_good :: "drive \<Rightarrow> u32 \<Rightarrow> bool" where
  "raw_good d x \<longleftrightarrow> unat (x + LBAStartSector d) + 1 < 2 ^ 32 \<and> x + LBAStartSector d \<notin> set (bad_sectors d)"

lemma no_wrap: "\<forall>i < n. unat (a + of_nat i :: u32) + 1 < 2 ^ 32 \<Longrightarrow> unat a + n < 2 ^ 32"
proof (induction n)
  case (Suc n)
  then have "unat a + n < 2 ^ 32" by simp
  moreover from this have "unat (a + of_nat n) = unat a + n" by (simp add: unat_word_ariths unat_of_nat mod_simps)
  ultimately show ?case using Suc.prems by auto
qed (use u32_bound in simp)

lemma range32_n: "unat a + n < 2 ^ 32 \<Longrightarrow> range32 a (a + of_nat n) = map (\<lambda>i. a + of_nat i) [0..<n]"
  by (simp add: range32_def unat_word_ariths unat_of_nat mod_simps)

lemma raw_read:
  assumes "raw_ok d" "\<forall>i < n. raw_good d (x + of_nat i)"
  shows "drive_read L x (of_nat n) d = (Inr (map (\<lambda>i. raw_look d (x + of_nat i)) [0..<n]), d)"
proof -
  let ?a = "x + LBAStartSector d"
  have e: "x + of_nat i + LBAStartSector d = ?a + of_nat i" for i by simp
  have w: "unat ?a + n < 2 ^ 32" using assms(2) by (intro no_wrap) (simp add: raw_good_def e)
  then have n: "unat (of_nat n :: u32) = n" by (simp add: unat_of_nat)
  have "\<forall>y \<in> set (range32 ?a (?a + of_nat n)). y \<notin> set (bad_sectors d)"
    using assms(2) by (auto simp: range32_n[OF w] raw_good_def e)
  then show ?thesis using assms(1) n
    by (auto simp: drive_read_def DiskDrive_Read_def raw_ok_def Let_def RawRead_def range32_n[OF w] raw_look_def e)
qed

lemma for_each_write:
  assumes "\<forall>i < length bs. a + of_nat i \<notin> set (bad_sectors d)" "unat a + length bs < 2 ^ 32"
  shows "for_each write_one (zip (map (\<lambda>i. a + of_nat i) [0..<length bs]) bs) d =
    (Inr (), d\<lparr>disk := (\<lambda>y. if unat (y - a) < length bs then bs ! unat (y - a) else disk d y)\<rparr>)"
  using assms
proof (induction bs arbitrary: a d)
  case (Cons b bs)
  let ?d = "d\<lparr>disk := (disk d)(a := b)\<rparr>"
  have m: "map (\<lambda>i. a + of_nat i) [0..<length (b # bs)] = a # map (\<lambda>i. (a + 1) + of_nat i) [0..<length bs]"
    by (simp add: map_upt_Suc del: upt_Suc)
  have u: "unat (a + 1) = unat a + 1" using Cons.prems(2) by (simp add: unat_word_ariths)
  have b0: "a \<notin> set (bad_sectors d)" using Cons.prems(1)[rule_format, of 0] by simp
  have bs: "\<forall>i < length bs. (a + 1) + of_nat i \<notin> set (bad_sectors ?d)"
  proof (intro allI impI)
    fix i assume "i < length bs"
    then have "a + of_nat (Suc i) \<notin> set (bad_sectors d)" by (intro Cons.prems(1)[rule_format]) simp
    then show "(a + 1) + of_nat i \<notin> set (bad_sectors ?d)" by (simp add: add.assoc)
  qed
  have "(\<lambda>y. if unat (y - (a + 1)) < length bs then bs ! unat (y - (a + 1)) else ((disk d)(a := b)) y) =
      (\<lambda>y. if unat (y - a) < length (b # bs) then (b # bs) ! unat (y - a) else disk d y)" (is "?l = ?r")
  proof
    fix y
    show "?l y = ?r y"
    proof (cases "y = a")
      case True
      have "a - (a + 1) = 0xFFFFFFFF" by simp
      then have "unat (a - (a + 1)) = 2 ^ 32 - 1" by (simp only:) simp
      then show ?thesis using True Cons.prems(2) by simp
    next
      case False
      then have "y - a \<noteq> 0" by simp
      then have "unat (y - a) = Suc (unat (y - a - 1))" by (simp add: unat_minus_one unat_gt_0)
      moreover have "y - a - 1 = y - (a + 1)" by simp
      ultimately show ?thesis using False by simp
    qed
  qed
  moreover have "for_each write_one (zip (map (\<lambda>i. (a + 1) + of_nat i) [0..<length bs]) bs) ?d =
      (Inr (), ?d\<lparr>disk := (\<lambda>y. if unat (y - (a + 1)) < length bs then bs ! unat (y - (a + 1)) else disk ?d y)\<rparr>)"
    by (rule Cons.IH) (use bs u Cons.prems(2) in simp_all)
  moreover have "zip (map (\<lambda>i. a + of_nat i) [0..<length (b # bs)]) (b # bs) =
      (a, b) # zip (map (\<lambda>i. (a + 1) + of_nat i) [0..<length bs]) bs" unfolding m by simp
  moreover have "write_one (a, b) d = (Inr (), ?d)" using b0 by (simp add: write_one_def)
  ultimately show ?case by (simp add: andThen_InrI cong del: if_weak_cong)
qed simp

lemma raw_write:
  assumes "raw_ok d" "\<forall>i < length bs. raw_good d (x + of_nat i)"
  shows "drive_write L x bs d = (Inr (), d\<lparr>disk := (\<lambda>y. if unat (y - (x + LBAStartSector d)) < length bs
      then bs ! unat (y - (x + LBAStartSector d)) else disk d y)\<rparr>)"
proof -
  let ?a = "x + LBAStartSector d"
  have e: "x + of_nat i + LBAStartSector d = ?a + of_nat i" for i by simp
  have w: "unat ?a + length bs < 2 ^ 32" using assms(2) by (intro no_wrap) (simp add: raw_good_def e)
  then show ?thesis using assms for_each_write[of bs ?a d]
    by (simp add: drive_write_def DiskDrive_Write_def raw_ok_def Let_def RawWrite_def range32_n[OF w] raw_good_def e)
qed

lemma raw_same: "raw_look (d\<lparr>disk := f\<rparr>) = (\<lambda>x. f (x + LBAStartSector d))" "raw_good (d\<lparr>disk := f\<rparr>) = raw_good d"
    "raw_ok (d\<lparr>disk := f\<rparr>) = raw_ok d"
  by (simp_all add: raw_look_def raw_good_def raw_ok_def fun_eq_iff)

interpretation rv: fat_bulk "drive_env L u" raw_ok raw_look raw_good D for L u D
proof
  fix d x n b and bs :: "sector list"
  assume ok: "raw_ok d"
  have e: "y + LBAStartSector d - (x + LBAStartSector d) = y - x" for y by simp
  show "\<exists>t. sread (drive_env L u) x (of_nat n) d = (Inr (map (\<lambda>i. raw_look d (x + of_nat i)) [0..<n]), t) \<and>
      raw_ok t \<and> raw_look t = raw_look d \<and> raw_good t = raw_good d"
    if "\<forall>i < n. raw_good d (x + of_nat i)"
    using raw_read[OF ok that] ok by (simp add: drive_env_def)
  show w: "\<exists>t. swrite (drive_env L u) x bs d = (Inr (), t) \<and> raw_ok t \<and> raw_good t = raw_good d \<and>
      raw_look t = (\<lambda>y. if unat (y - x) < length bs then bs ! unat (y - x) else raw_look d y)"
    if "\<forall>i < length bs. raw_good d (x + of_nat i)" for bs
    using raw_write[OF ok that] ok by (auto simp add: drive_env_def raw_same raw_look_def fun_eq_iff e)
  assume g: "raw_good d x"
  show "\<exists>t. sread (drive_env L u) x 1 d = (Inr [raw_look d x], t) \<and> raw_ok t \<and> raw_look t = raw_look d \<and> raw_good t = raw_good d"
    using raw_read[OF ok, of 1 x L] g ok by (simp add: drive_env_def)
  have "(\<lambda>y. if unat (y - x) < length [b] then [b] ! unat (y - x) else raw_look d y) = (raw_look d)(x := b)"
    by (auto simp: fun_eq_iff unsigned_eq_0_iff)
  then show "\<exists>t. swrite (drive_env L u) x [b] d = (Inr (), t) \<and> raw_ok t \<and> raw_look t = (raw_look d)(x := b) \<and> raw_good t = raw_good d"
    using w[of "[b]"] g by auto
qed

end
