(* ===== verification/FileProperties.thy ===== *)
theory FileProperties
  imports VolumeStore
begin

text \<open>
  What reading and overwriting a file does to the bytes of its chain of sectors, and what a stale descriptor reads.
\<close>

section \<open>Chains of sectors\<close>

text \<open>The sectors \<open>xs\<close> are the chain that starts with \<open>c\<close>.\<close>

fun chain :: "(u32 \<Rightarrow> u32) \<Rightarrow> u32 \<Rightarrow> u32 list \<Rightarrow> bool" where
  "chain nx c [] \<longleftrightarrow> c = EOC"
| "chain nx c (x # xs) \<longleftrightarrow> c = x \<and> x \<noteq> EOC \<and> chain nx (nx x) xs"

text \<open>The bytes of the sectors \<open>xs\<close>.\<close>

definition bytes :: "(u32 \<Rightarrow> sector) \<Rightarrow> u32 list \<Rightarrow> u8 list" where
  "bytes content xs = concat (map content xs)"

lemma length_bytes: "\<forall>x. length (content x) = 512 \<Longrightarrow> length (bytes content xs) = 512 * length xs"
  by (induction xs) (simp_all add: bytes_def)

lemma chain_drop: "chain nx c xs \<Longrightarrow> n < length xs \<Longrightarrow> chain nx (xs ! n) (drop n xs)"
proof (induction xs arbitrary: c n)
  case (Cons x xs)
  then show ?case by (cases n) auto
qed simp

lemma chain_nth_noteq: "chain nx c xs \<Longrightarrow> n < length xs \<Longrightarrow> xs ! n \<noteq> EOC"
  using chain_drop[of nx c xs n] by (cases "drop n xs") auto

text \<open>The place a descriptor remembers is on the chain.\<close>

definition on_chain :: "u32 list \<Rightarrow> FileDescriptor \<Rightarrow> bool" where
  "on_chain xs fd \<longleftrightarrow> 0 \<le> lastReadSectorIndex fd \<and> lastReadSectorIndex fd < int (length xs) \<and>
     lastReadSectorNo fd = xs ! nat (lastReadSectorIndex fd)"

lemma SetLast_run:
  "Directory_SetLastReadSectorDetails i x s =
     (Inr (), s\<lparr>desc := (desc s)\<lparr>lastReadSectorIndex := i, lastReadSectorNo := x\<rparr>\<rparr>)"
  by (simp add: Directory_SetLastReadSectorDetails_def modify_def)

lemma on_vol_Inr: "m (vol s) = (Inr x, v) \<Longrightarrow> on_vol m s = (Inr x, s\<lparr>vol := v\<rparr>)"
  by (simp add: on_vol_def)

section \<open>Reading\<close>

context volume_store
begin

text \<open>The same volume and the same descriptor but for the place it remembers.\<close>

abbreviation same :: "'d volume \<Rightarrow> 'd volume \<Rightarrow> bool" where
  "same \<equiv> same_volume I nxt content valid"

lemma same_refl: "I v \<Longrightarrow> same v v"
  by (simp add: same_volume_def)

lemma step:
  assumes "I (vol s)" "valid (vol s) x"
  shows "\<exists>v. on_vol (on_fs (GetSectorEntryValue E x)) s = (Inr (nxt (vol s) x), s\<lparr>vol := v\<rparr>) \<and> same (vol s) v"
  using next_law[OF assms] on_vol_Inr by metis

lemma skip:
  assumes "I (vol s)" "chain (nxt (vol s)) cur xs" "\<forall>x \<in> set xs. valid (vol s) x" "n < length xs"
  shows "\<exists>v. skip_sectors E n cur s = (Inr (xs ! n), s\<lparr>vol := v\<rparr>) \<and> same (vol s) v"
  using assms
proof (induction n arbitrary: s cur xs)
  case 0
  then have "cur = xs ! 0" by (cases xs) auto
  then show ?case using same_refl[OF 0(1)] by (intro exI[of _ "vol s"]) simp
next
  case (Suc n)
  obtain x ys where xs: "xs = x # ys" using Suc.prems(4) by (cases xs) auto
  have c: "cur = x" "chain (nxt (vol s)) (nxt (vol s) x) ys" using Suc.prems(2) xs by auto
  obtain v where v: "on_vol (on_fs (GetSectorEntryValue E x)) s = (Inr (nxt (vol s) x), s\<lparr>vol := v\<rparr>)" "same (vol s) v"
    using step[OF Suc.prems(1)] Suc.prems(3) xs by auto
  have "\<exists>w. skip_sectors E n (nxt (vol s) x) (s\<lparr>vol := v\<rparr>) = (Inr (ys ! n), s\<lparr>vol := v\<rparr>\<lparr>vol := w\<rparr>) \<and> same (vol (s\<lparr>vol := v\<rparr>)) w"
    by (rule Suc.IH) (use v(2) c Suc.prems(3,4) xs in \<open>auto simp: same_volume_def\<close>)
  then obtain w where w: "skip_sectors E n (nxt (vol s) x) (s\<lparr>vol := v\<rparr>) = (Inr (ys ! n), s\<lparr>vol := w\<rparr>)" "same v w" by auto
  have "same (vol s) w" using same_volume_trans[OF v(2) w(2)] .
  then show ?case using v(1) w(1) c(1) xs by (intro exI[of _ w]) (simp add: andThen_InrI)
qed

text \<open>
  The inner loop of reading, with \<open>cnt\<close> sectors of a row before and with \<open>cur\<close>, the first element of the chain:
  it adds sectors that follow \<open>cur\<close> on the disk, and stops when the bytes wanted are covered.
\<close>

lemma run:
  assumes "I (vol s)" "chain (nxt (vol s)) cur (cur # xs)" "\<forall>x \<in> set (cur # xs). valid (vol s) x"
    and "m + cnt = 8" "1 \<le> cnt" "0 < m" "2 \<le> cnt \<Longrightarrow> cnt * 512 - pos < rem" "pos < 512" "0 < rem"
    and "rem + pos \<le> 512 * (cnt + length xs)"
  shows "\<exists>n c v. sector_run E m pos rem cnt cur s = (Inr (n, min rem (n * 512 - pos), c), s\<lparr>vol := v\<rparr>) \<and> same (vol s) v \<and>
    cnt \<le> n \<and> n \<le> 8 \<and> n - cnt \<le> length xs \<and> (\<forall>i < n - cnt. xs ! i = cur + of_nat (Suc i)) \<and>
    (n * 512 - pos < rem \<longrightarrow> chain (nxt (vol s)) c (drop (n - cnt) xs))"
  using assms
proof (induction m arbitrary: s cur xs cnt)
  case (Suc m)
  note p = Suc.prems
  let ?nx = "nxt (vol s) cur"
  obtain v where v: "on_vol (on_fs (GetSectorEntryValue E cur)) s = (Inr ?nx, s\<lparr>vol := v\<rparr>)" "same (vol s) v"
    using step[OF p(1)] p(3) by auto
  have ch: "chain (nxt (vol s)) ?nx xs" using p(2) by simp
  have small: "cnt = 1" if "pos + rem \<le> 512"
  proof (rule ccontr)
    assume "cnt \<noteq> 1"
    then have "2 \<le> cnt" using p(5) by simp
    then show False using p(7) that by simp
  qed
  show ?case
  proof (cases "cur + 1 = ?nx \<and> ?nx \<noteq> EOC")
    case False
    show ?thesis
    proof (cases "cur + 1 = ?nx")
      case False
      then show ?thesis using v ch
        by (intro exI[of _ cnt] exI[of _ ?nx] exI[of _ v]) (use p in \<open>simp add: andThen_InrI\<close>)
    next
      case True
      then have e: "xs = []" using ch \<open>\<not> (cur + 1 = ?nx \<and> ?nx \<noteq> EOC)\<close> by (cases xs) auto
      have one: "cnt = 1"
      proof (rule ccontr)
        assume "cnt \<noteq> 1"
        then have "2 \<le> cnt" using p(5) by simp
        then show False using p(7,10) e by simp
      qed
      then have "pos + rem \<le> 512" using p(10) e by simp
      moreover from this have "rem \<le> 1024 - pos" "\<not> 512 - pos < rem" by linarith+
      ultimately show ?thesis using v True e one p(8,9)
        by (intro exI[of _ cnt] exI[of _ ?nx] exI[of _ v]) (simp add: andThen_InrI Let_def)
    qed
  next
    case True
    then obtain ys where xs: "xs = ?nx # ys" using ch by (cases xs) auto
    have cy: "chain (nxt (vol s)) (nxt (vol s) ?nx) ys" using ch xs by (cases ys) auto
    have s2: "I v" "nxt v = nxt (vol s)" "valid v = valid (vol s)" using v(2) by (simp_all add: same_volume_def)
    have adj: "ys ! 0 = ys ! 0" ..
    consider (fits) "rem \<le> (cnt + 1) * 512 - pos" | (full) "(cnt + 1) * 512 - pos < rem" "cnt + 1 = 8"
      | (more) "(cnt + 1) * 512 - pos < rem" "cnt + 1 \<noteq> 8" by linarith
    then show ?thesis
    proof cases
      case fits
      show ?thesis
      proof (cases "pos + rem \<le> 512")
        case True
        then have "\<not> cnt * 512 - pos < rem" using small by linarith
        then show ?thesis using True v fits small \<open>cur + 1 = ?nx \<and> ?nx \<noteq> EOC\<close> p(8,9)
          by (intro exI[of _ cnt] exI[of _ ?nx] exI[of _ v]) (simp add: andThen_InrI Let_def)
      next
        case False
        then show ?thesis using v fits \<open>cur + 1 = ?nx \<and> ?nx \<noteq> EOC\<close> p(4,6) xs
          by (intro exI[of _ "cnt + 1"] exI[of _ ?nx] exI[of _ v]) (simp add: andThen_InrI Let_def)
      qed
    next
      case full
      obtain w where w: "on_vol (on_fs (GetSectorEntryValue E ?nx)) (s\<lparr>vol := v\<rparr>) = (Inr (nxt v ?nx), s\<lparr>vol := w\<rparr>)" "same v w"
        using step[of "s\<lparr>vol := v\<rparr>" ?nx] p(3) xs s2 by auto
      have "same (vol s) w" using same_volume_trans[OF v(2) w(2)] .
      then show ?thesis using v(1) w(1) True full cy s2 xs
        by (intro exI[of _ "cnt + 1"] exI[of _ "nxt (vol s) ?nx"] exI[of _ w])
           (simp add: andThen_InrI Let_def MAX_SECTORS_PER_RW_def)
    next
      case more
      have "\<exists>n c w. sector_run E m pos rem (cnt + 1) ?nx (s\<lparr>vol := v\<rparr>) =
            (Inr (n, min rem (n * 512 - pos), c), s\<lparr>vol := v\<rparr>\<lparr>vol := w\<rparr>) \<and> same (vol (s\<lparr>vol := v\<rparr>)) w \<and>
          cnt + 1 \<le> n \<and> n \<le> 8 \<and> n - (cnt + 1) \<le> length ys \<and> (\<forall>i < n - (cnt + 1). ys ! i = ?nx + of_nat (Suc i)) \<and>
          (n * 512 - pos < rem \<longrightarrow> chain (nxt (vol (s\<lparr>vol := v\<rparr>))) c (drop (n - (cnt + 1)) ys))"
      proof (rule Suc.IH)
        show "chain (nxt (vol (s\<lparr>vol := v\<rparr>))) ?nx (?nx # ys)" using cy s2 True by simp
        show "rem + pos \<le> 512 * (cnt + 1 + length ys)" using p(10) xs by simp
      qed (use p xs s2 more in simp_all)
      then obtain n c w where r: "sector_run E m pos rem (cnt + 1) ?nx (s\<lparr>vol := v\<rparr>) =
            (Inr (n, min rem (n * 512 - pos), c), s\<lparr>vol := w\<rparr>)" "same v w" "cnt + 1 \<le> n" "n \<le> 8"
          "n - (cnt + 1) \<le> length ys" "\<forall>i < n - (cnt + 1). ys ! i = ?nx + of_nat (Suc i)"
          "n * 512 - pos < rem \<longrightarrow> chain (nxt (vol s)) c (drop (n - (cnt + 1)) ys)" using s2 by auto
      have nc: "n - cnt = Suc (n - (cnt + 1))" using r(3) by simp
      have "\<forall>i < n - cnt. xs ! i = cur + of_nat (Suc i)"
      proof (intro allI impI)
        fix i assume "i < n - cnt"
        then show "xs ! i = cur + of_nat (Suc i)" using r(6) nc xs True[THEN conjunct1, symmetric] by (cases i) (auto simp: algebra_simps)
      qed
      moreover have "same (vol s) w" using same_volume_trans[OF v(2) r(2)] .
      moreover have "sector_run E (Suc m) pos rem cnt cur s = (Inr (n, min rem (n * 512 - pos), c), s\<lparr>vol := w\<rparr>)"
        using v(1) r(1) True more by (simp add: andThen_InrI Let_def MAX_SECTORS_PER_RW_def)
      ultimately show ?thesis using r nc xs by (intro exI[of _ n] exI[of _ c] exI[of _ w]) simp
    qed
  qed
qed simp

end

lemma bytes_append: "bytes c (xs @ ys) = bytes c xs @ bytes c ys"
  by (simp add: bytes_def)

lemma bytes_split: "bytes c xs = bytes c (take n xs) @ bytes c (drop n xs)"
  by (metis append_take_drop_id bytes_append)

lemma map_row: "(\<And>i. i < n \<Longrightarrow> xs ! i = a + of_nat i) \<Longrightarrow> n \<le> length xs \<Longrightarrow> map (\<lambda>i. f (a + of_nat i)) [0..<n] = map f (take n xs)"
  by (rule nth_equalityI) auto

text \<open>The bytes of one round, when it covers what is wanted and when it does not.\<close>

lemma take_round:
  assumes "\<forall>x. length (c x) = 512" "n \<le> length xs"
  shows "rem \<le> n * 512 - pos \<Longrightarrow> take rem (drop pos (bytes c (take n xs))) = take rem (drop pos (bytes c xs))"
    and "n * 512 - pos < rem \<Longrightarrow> pos \<le> n * 512 \<Longrightarrow>
      take (n * 512 - pos) (drop pos (bytes c (take n xs))) @ take (rem - (n * 512 - pos)) (drop 0 (bytes c (drop n xs))) =
      take rem (drop pos (bytes c xs))"
proof -
  have l: "length (bytes c (take n xs)) = 512 * n" using length_bytes[OF assms(1)] assms(2) by simp
  note s = bytes_split[of c xs n]
  show "rem \<le> n * 512 - pos \<Longrightarrow> take rem (drop pos (bytes c (take n xs))) = take rem (drop pos (bytes c xs))"
    using l s by simp
  show "take (n * 512 - pos) (drop pos (bytes c (take n xs))) @ take (rem - (n * 512 - pos)) (drop 0 (bytes c (drop n xs))) =
      take rem (drop pos (bytes c xs))" if "n * 512 - pos < rem" "pos \<le> n * 512"
    using l s that by (simp add: mult.commute)
qed

context bulk_volume
begin

lemma rounds:
  assumes "I (vol s)" "chain (nxt (vol s)) cur xs" "\<forall>x \<in> set xs. valid (vol s) x"
    and "rem + pos \<le> 512 * length xs" "rem + pos \<le> 512 * fuel" "pos < 512" "0 < rem"
  shows "\<exists>v i. read_rounds E fuel pos rem lastIdx lastNo cnt cur s =
      (Inr (take rem (drop pos (bytes (content (vol s)) xs))), s\<lparr>vol := v, desc := (desc s)\<lparr>
         lastReadSectorIndex := lastIdx + int cnt + int i, lastReadSectorNo := xs ! i\<rparr>\<rparr>) \<and> i < length xs \<and> same (vol s) v"
  using assms
proof (induction fuel arbitrary: s cur xs pos rem lastIdx lastNo cnt)
  case (Suc fuel)
  note p = Suc.prems
  obtain ys where xs: "xs = cur # ys" "cur \<noteq> EOC" using p(2,4,7) by (cases xs) auto
  have "\<exists>n c v. sector_run E 7 pos rem 1 cur s = (Inr (n, min rem (n * 512 - pos), c), s\<lparr>vol := v\<rparr>) \<and> same (vol s) v \<and>
      1 \<le> n \<and> n \<le> 8 \<and> n - 1 \<le> length ys \<and> (\<forall>i < n - 1. ys ! i = cur + of_nat (Suc i)) \<and>
      (n * 512 - pos < rem \<longrightarrow> chain (nxt (vol s)) c (drop (n - 1) ys))"
    by (rule run) (use p xs in simp_all)
  then obtain n c v where r: "sector_run E 7 pos rem 1 cur s = (Inr (n, min rem (n * 512 - pos), c), s\<lparr>vol := v\<rparr>)"
      "same (vol s) v" "1 \<le> n" "n \<le> 8" "n - 1 \<le> length ys" "\<forall>i < n - 1. ys ! i = cur + of_nat (Suc i)"
      "n * 512 - pos < rem \<longrightarrow> chain (nxt (vol s)) c (drop (n - 1) ys)" by blast
  have nx: "n \<le> length xs" "drop (n - 1) ys = drop n xs" using r(3,5) xs by (auto simp: drop_Cons split: nat.split)
  have row: "xs ! i = cur + of_nat i" if "i < n" for i using r(6) xs that by (cases i) auto
  have s2: "I v" "nxt v = nxt (vol s)" "valid v = valid (vol s)" "content v = content (vol s)"
    using r(2) by (simp_all add: same_volume_def)
  have "\<forall>i < n. valid v (cur + of_nat i)"
    using row nx(1) p(3) s2(3) by (metis nth_mem order_less_le_trans)
  then obtain w where w: "xRead E cur (of_nat n) v = (Inr (map (\<lambda>i. content v (cur + of_nat i)) [0..<n]), w)" "same v w"
    using read_law[OF s2(1) r(4)] by blast
  have bs: "concat (map (\<lambda>i. content v (cur + of_nat i)) [0..<n]) = bytes (content (vol s)) (take n xs)"
    using map_row[where f = "content (vol s)", OF row nx(1)] s2(4) by (simp add: bytes_def)
  have l512: "\<forall>x. length (content (vol s) x) = 512" using content_length[OF p(1)] by blast
  have vw: "same (vol s) w" using same_volume_trans[OF r(2) w(2)] .
  have rd: "on_vol (xRead E cur (of_nat n)) (s\<lparr>vol := v\<rparr>) =
      (Inr (map (\<lambda>i. content v (cur + of_nat i)) [0..<n]), s\<lparr>vol := w\<rparr>)" using w(1) by (simp add: on_vol_def)
  show ?case
  proof (cases "rem \<le> n * 512 - pos")
    case True
    then have "read_rounds E (Suc fuel) pos rem lastIdx lastNo cnt cur s =
        (Inr (take rem (drop pos (bytes (content (vol s)) (take n xs)))), s\<lparr>vol := w, desc := (desc s)\<lparr>
         lastReadSectorIndex := lastIdx + int cnt, lastReadSectorNo := cur\<rparr>\<rparr>)"
      using r(1) rd xs(2) bs by (simp add: andThen_InrI Let_def min_absorb1 SetLast_run)
    then show ?thesis using take_round(1)[OF l512 nx(1) True] vw xs by (intro exI[of _ w] exI[of _ 0]) simp
  next
    case False
    have big: "512 \<le> n * 512" using r(3) by simp
    have "\<exists>u i. read_rounds E fuel 0 (rem - (n * 512 - pos)) (lastIdx + int cnt) cur n c (s\<lparr>vol := w\<rparr>) =
        (Inr (take (rem - (n * 512 - pos)) (drop 0 (bytes (content (vol (s\<lparr>vol := w\<rparr>))) (drop n xs)))),
         s\<lparr>vol := w\<rparr>\<lparr>vol := u, desc := (desc (s\<lparr>vol := w\<rparr>))\<lparr>
         lastReadSectorIndex := lastIdx + int cnt + int n + int i, lastReadSectorNo := drop n xs ! i\<rparr>\<rparr>) \<and>
        i < length (drop n xs) \<and> same (vol (s\<lparr>vol := w\<rparr>)) u"
    proof (rule Suc.IH)
      show "I (vol (s\<lparr>vol := w\<rparr>))" using vw by (simp add: same_volume_def)
      show "chain (nxt (vol (s\<lparr>vol := w\<rparr>))) c (drop n xs)" using r(7) False nx(2) vw by (simp add: same_volume_def)
      show "\<forall>x \<in> set (drop n xs). valid (vol (s\<lparr>vol := w\<rparr>)) x"
        using p(3) vw by (auto simp: same_volume_def dest: in_set_dropD)
      show "rem - (n * 512 - pos) + 0 \<le> 512 * length (drop n xs)" using p(4) nx(1) by (simp add: diff_mult_distrib2)
      show "rem - (n * 512 - pos) + 0 \<le> 512 * fuel" using p(5,6) big by simp
      show "0 < rem - (n * 512 - pos)" using False by simp
    qed simp
    then obtain u i where u: "read_rounds E fuel 0 (rem - (n * 512 - pos)) (lastIdx + int cnt) cur n c (s\<lparr>vol := w\<rparr>) =
        (Inr (take (rem - (n * 512 - pos)) (drop 0 (bytes (content (vol s)) (drop n xs)))),
         s\<lparr>vol := u, desc := (desc s)\<lparr>
         lastReadSectorIndex := lastIdx + int cnt + int n + int i, lastReadSectorNo := drop n xs ! i\<rparr>\<rparr>)"
        "i < length (drop n xs)" "same w u" using vw by (auto simp: same_volume_def)
    have "read_rounds E (Suc fuel) pos rem lastIdx lastNo cnt cur s =
        (Inr (take (n * 512 - pos) (drop pos (bytes (content (vol s)) (take n xs))) @
            take (rem - (n * 512 - pos)) (drop 0 (bytes (content (vol s)) (drop n xs)))),
         s\<lparr>vol := u, desc := (desc s)\<lparr>
         lastReadSectorIndex := lastIdx + int cnt + int n + int i, lastReadSectorNo := drop n xs ! i\<rparr>\<rparr>)"
      using r(1) rd u(1) xs(2) bs False by (simp add: andThen_InrI Let_def min_absorb2)
    also have "take (n * 512 - pos) (drop pos (bytes (content (vol s)) (take n xs))) @
            take (rem - (n * 512 - pos)) (drop 0 (bytes (content (vol s)) (drop n xs))) =
        take rem (drop pos (bytes (content (vol s)) xs))"
      by (rule take_round(2)[OF l512 nx(1)]) (use False p(6) big in simp_all)
    finally show ?thesis using u(2) same_volume_trans[OF vw u(3)]
      by (intro exI[of _ u] exI[of _ "n + i"]) (simp add: add.assoc)
  qed
qed simp

lemma bytes_drop:
  assumes "\<forall>x. length (c x) = 512"
  shows "k \<le> length xs \<Longrightarrow> bytes c (drop k xs) = drop (512 * k) (bytes c xs)"
  using length_bytes[OF assms, of "take k xs"] bytes_split[of c xs k] by simp

lemma start_on_chain:
  assumes "chain (nxt v) first xs" "xs \<noteq> []" "on_chain xs fd" "target < length xs"
  shows "\<exists>i. start_point fd target first = (i, xs ! i) \<and> i \<le> target"
proof (cases "lastReadSectorIndex fd > int target")
  case True
  then show ?thesis using assms(1,2) by (cases xs) (auto simp: start_point_def Directory_GetLastReadSectorDetails_def)
next
  case False
  then show ?thesis using assms(3)
    by (intro exI[of _ "nat (lastReadSectorIndex fd)"]) (simp add: start_point_def Directory_GetLastReadSectorDetails_def on_chain_def)
qed

lemma enough_rounds: "n + k mod 512 \<le> 512 * (n div 512 + 2)" for n k :: nat
proof -
  define q r m where "q = n div 512" and "r = n mod 512" and "m = k mod 512"
  have "m < 512" "r < 512" "n = 512 * q + r" by (simp_all add: q_def r_def m_def)
  then have "n + m \<le> 512 * (q + 2)" by simp
  then show ?thesis by (simp only: q_def m_def)
qed

text \<open>The number of bytes a read of \<open>n\<close> asks for; zero asks for all of them.\<close>

lemma FileRead:
  assumes i: "I (vol s)" and dir: "Directory_ReadDirEntryInfo N E cwd (fileName (desc s)) (vol s) = (Inr r, v)" "same (vol s) v"
    and f: "\<not> IsDirectory N (slot_node N r)" "chain (nxt (vol s)) (startSectorID (slot_node N r)) xs"
      "\<forall>x \<in> set xs. valid (vol s) x" "unat (nodeSize (slot_node N r)) \<le> 512 * length xs"
    and fd: "on_chain xs (desc s)" "offset (desc s) < nodeSize (slot_node N r)" "unat (nodeSize (slot_node N r)) < 2 ^ 31"
  shows "\<exists>t. Directory_FileRead N E cwd uiDataSize s =
      (Inr (take (if uiDataSize = 0 then unat (nodeSize (slot_node N r)) - unat (offset (desc s))
                  else min (unat uiDataSize) (unat (nodeSize (slot_node N r)) - unat (offset (desc s))))
              (drop (unat (offset (desc s))) (bytes (content (vol s)) xs))), t) \<and>
    same (vol s) (vol t) \<and> on_chain xs (desc t) \<and> offset (desc t) = offset (desc s)"
proof -
  let ?off = "offset (desc s)" and ?d = "slot_node N r" and ?b = "bytes (content (vol s)) xs"
  let ?size = "unat (nodeSize ?d)" and ?o = "unat ?off"
  define target where "target = ?o div 512"
  define left where "left = nodeSize ?d - ?off"
  define wanted where "wanted = read_wanted uiDataSize left"
  have ol: "?o < ?size" using fd(2) by (simp add: word_less_nat_alt)
  have lu: "unat left = ?size - ?o" unfolding left_def using fd(2) by (simp add: unat_sub word_le_nat_alt word_less_nat_alt)
  have wu: "unat wanted = (if uiDataSize = 0 then ?size - ?o else min (unat uiDataSize) (?size - ?o))"
    using lu by (auto simp: wanted_def read_wanted_def word_less_nat_alt min_def unat_gt_0)
  have w0: "0 < unat wanted" "unat wanted \<le> ?size - ?o" using wu ol by (auto simp: unat_gt_0 min_def split: if_splits)
  have tl: "target < length xs" using ol f(4) by (simp add: target_def)
  have s2: "I v" "nxt v = nxt (vol s)" "valid v = valid (vol s)" "content v = content (vol s)"
    using dir(2) by (simp_all add: same_volume_def)
  obtain i where sp: "start_point (desc s) target (startSectorID ?d) = (i, xs ! i)" "i \<le> target"
    using start_on_chain[OF f(2) _ fd(1) tl] tl by fastforce
  have il: "i < length xs" using sp(2) tl by simp
  have va: "\<forall>x \<in> set (drop i xs). valid (vol s) x" using f(3) by (auto dest: in_set_dropD)
  obtain w where w: "skip_sectors E (target - i) (xs ! i) (s\<lparr>vol := v\<rparr>) = (Inr (xs ! target), s\<lparr>vol := w\<rparr>)" "same v w"
    using skip[of "s\<lparr>vol := v\<rparr>" "xs ! i" "drop i xs" "target - i"] s2 chain_drop[OF f(2) il] diff_less_mono[OF tl sp(2)] sp(2) va
    by auto
  have vw: "same (vol s) w" using same_volume_trans[OF dir(2) w(2)] .
  let ?s = "s\<lparr>vol := w, desc := (desc s)\<lparr>lastReadSectorIndex := int target, lastReadSectorNo := xs ! target\<rparr>\<rparr>"
  have l512: "\<forall>x. length (content (vol s) x) = 512" using content_length[OF i] by blast
  have split: "512 * target + ?o mod 512 = ?o" by (simp add: target_def)
  have "\<exists>u k. read_rounds E (unat wanted div 512 + 2) (?o mod 512) (unat wanted) (int target) (xs ! target) 0 (xs ! target) ?s =
      (Inr (take (unat wanted) (drop (?o mod 512) (bytes (content (vol ?s)) (drop target xs)))), ?s\<lparr>vol := u, desc := (desc ?s)\<lparr>
         lastReadSectorIndex := int target + int 0 + int k, lastReadSectorNo := drop target xs ! k\<rparr>\<rparr>) \<and>
      k < length (drop target xs) \<and> same (vol ?s) u"
  proof (rule rounds)
    show "I (vol ?s)" using vw by (simp add: same_volume_def)
    show "chain (nxt (vol ?s)) (xs ! target) (drop target xs)" using chain_drop[OF f(2) tl] vw by (simp add: same_volume_def)
    show "\<forall>x \<in> set (drop target xs). valid (vol ?s) x" using f(3) vw by (auto simp: same_volume_def dest: in_set_dropD)
    have "unat wanted + ?o mod 512 + 512 * target \<le> 512 * length xs" using w0(2) ol f(4) split by linarith
    then show "unat wanted + ?o mod 512 \<le> 512 * length (drop target xs)" by (simp add: diff_mult_distrib2)
    show "unat wanted + ?o mod 512 \<le> 512 * (unat wanted div 512 + 2)"
      by (rule enough_rounds)
    show "?o mod 512 < 512" by simp
    show "0 < unat wanted" by (rule w0(1))
  qed
  then obtain u k where u: "read_rounds E (unat wanted div 512 + 2) (?o mod 512) (unat wanted) (int target) (xs ! target) 0 (xs ! target) ?s =
      (Inr (take (unat wanted) (drop (?o mod 512) (bytes (content (vol s)) (drop target xs)))),
       s\<lparr>vol := u, desc := (desc s)\<lparr>lastReadSectorIndex := int target + int k, lastReadSectorNo := xs ! (target + k)\<rparr>\<rparr>)"
      "target + k < length xs" "same w u" using vw by (auto simp: same_volume_def)
  have dr: "drop (?o mod 512) (bytes (content (vol s)) (drop target xs)) = drop ?o ?b"
    using bytes_drop[OF l512, of target xs] tl split by (simp add: add.commute)
  have on: "on_vol (Directory_ReadDirEntryInfo N E cwd (fileName (desc s))) s = (Inr r, s\<lparr>vol := v\<rparr>)"
    using dir(1) by (rule on_vol_Inr)
  have fits: "unat wanted < 2 ^ 31" using w0(2) fd(3) by linarith
  have "Directory_FileRead N E cwd uiDataSize s = (Inr (take (unat wanted) (drop ?o ?b)),
      s\<lparr>vol := u, desc := (desc s)\<lparr>lastReadSectorIndex := int target + int k, lastReadSectorNo := xs ! (target + k)\<rparr>\<rparr>)"
    using on f(1) fd(2) w(1) u(1) dr fits sp(1)
    by (simp add: Directory_FileRead_def Let_def andThen_InrI SetLast_run not_le target_def[symmetric]
        left_def[symmetric] wanted_def[symmetric] del: read_rounds.simps add_2_eq_Suc')
  moreover have "nat (int target + int k) = target + k" by simp
  ultimately show ?thesis using u(2) same_volume_trans[OF vw u(3)] by (auto simp: wu on_chain_def)
qed

end

end
