(* ===== verification/DirProperties.thy ===== *)
theory DirProperties
  imports FileProperties
begin

text \<open>
  Searching a directory (\<open>Directory_FindDirectory\<close> of \<open>filesystem/Directory.cpp\<close>) against a search of the list of
  its slots: what is found, and that the slot handed out for a new entry holds no entry.
\<close>

section \<open>The slots of a directory\<close>

text \<open>The slots of the sectors \<open>xs\<close> in the order of the search.\<close>

definition dir_slots :: "u32 list \<Rightarrow> (u32 \<times> nat) list" where
  "dir_slots xs = concat (map (\<lambda>x. map (Pair x) [0..<DIR_ENTRIES_PER_SECTOR]) xs)"

text \<open>The slots up to the \<open>n\<close>-th that is in use.\<close>

fun live_prefix :: "('a \<Rightarrow> bool) \<Rightarrow> nat \<Rightarrow> 'a list \<Rightarrow> 'a list" where
  "live_prefix P n [] = []"
| "live_prefix P n (p # ps) = (if n = 0 then [] else p # live_prefix P (if P p then n - 1 else n) ps)"

definition live :: "node_lib \<Rightarrow> (u32 \<Rightarrow> sector) \<Rightarrow> u32 \<times> nat \<Rightarrow> bool" where
  "live N c p \<longleftrightarrow> \<not> IsDeleted N (get_node N (c (fst p)) (snd p))"

definition entry_named :: "node_lib \<Rightarrow> (u32 \<Rightarrow> sector) \<Rightarrow> string \<Rightarrow> u32 \<times> nat \<Rightarrow> bool" where
  "entry_named N c szDirName p \<longleftrightarrow> live N c p \<and> nodeName (get_node N (c (fst p)) (snd p)) = szDirName"

text \<open>The slots of a directory with \<open>n\<close> entries that the search looks at.\<close>

abbreviation searched :: "node_lib \<Rightarrow> (u32 \<Rightarrow> sector) \<Rightarrow> nat \<Rightarrow> (u32 \<times> nat) list \<Rightarrow> (u32 \<times> nat) list" where
  "searched N c \<equiv> live_prefix (live N c)"

lemma live_prefix_append:
  "length (filter P ps) < n \<Longrightarrow> live_prefix P n (ps @ qs) = ps @ live_prefix P (n - length (filter P ps)) qs"
  by (induction ps arbitrary: n) auto

lemma live_prefix_full: "length (filter P ps) = n \<Longrightarrow> 0 < n \<Longrightarrow> P (last ps) \<Longrightarrow> ps \<noteq> [] \<Longrightarrow> live_prefix P n (ps @ qs) = ps"
proof (induction ps arbitrary: n)
  case (Cons p ps)
  show ?case
  proof (cases ps)
    case Nil
    then show ?thesis using Cons.prems by (cases qs) auto
  next
    case (Cons q qs)
    then have "filter P ps \<noteq> []" using Cons.prems(3) by (metis filter_empty_conv last_in_set last_ConsR list.distinct(1))
    then show ?thesis using Cons.IH Cons.prems Cons by auto
  qed
qed simp

text \<open>
  The search for \<open>t\<close> in the directory with the entry \<open>d\<close> and the sectors \<open>xs\<close> ends at the slot \<open>q\<close>. A path leads
  from directory to directory to its last component.
\<close>

definition finds ::
    "node_lib \<Rightarrow> (u32 \<Rightarrow> u32) \<Rightarrow> (u32 \<Rightarrow> sector) \<Rightarrow> (u32 \<Rightarrow> bool) \<Rightarrow> Node \<Rightarrow> u32 list \<Rightarrow> string \<Rightarrow> u32 \<times> nat \<Rightarrow> bool" where
  "finds N nx c valid d xs t q \<longleftrightarrow>
     IsDirectory N d \<and> 0 < nodeSize d \<and> t \<noteq> DIR_SPECIAL_CURRENT \<and> t \<noteq> DIR_SPECIAL_PARENT \<and>
     chain nx (startSectorID d) xs \<and> distinct xs \<and> (\<forall>x \<in> set xs. valid x) \<and> length xs < loop_bound N \<and>
     find (entry_named N c t) (searched N c (unat (nodeSize d)) (dir_slots xs)) = Some q"

inductive leads ::
    "node_lib \<Rightarrow> (u32 \<Rightarrow> u32) \<Rightarrow> (u32 \<Rightarrow> sector) \<Rightarrow> (u32 \<Rightarrow> bool) \<Rightarrow> Node \<Rightarrow> string list \<Rightarrow> u32 \<times> nat \<Rightarrow> bool"
  for N nx c valid where
  leads_last: "finds N nx c valid d xs t q \<Longrightarrow> leads N nx c valid d [t] q"
| leads_step: "finds N nx c valid d xs t q \<Longrightarrow> leads N nx c valid (get_node N (c (fst q)) (snd q)) (u # ts) p \<Longrightarrow>
    leads N nx c valid d (t # u # ts) p"

section \<open>One sector\<close>

text \<open>What the loop over the slots \<open>k, ..., 6\<close> of the sector \<open>x\<close> has done when it stops with \<open>r\<close>.\<close>

definition scanned_to :: "nat \<Rightarrow> nat" where "scanned_to j = min 7 (Suc j)"

definition scan_ok :: "node_lib \<Rightarrow> (u32 \<Rightarrow> sector) \<Rightarrow> string \<Rightarrow> u32 \<Rightarrow> u32 \<Rightarrow> nat \<Rightarrow> slot option \<Rightarrow> u32 \<Rightarrow> scan \<Rightarrow> bool" where
  "scan_ok N c nm dirSize x k del cnt r \<longleftrightarrow>
     (case r of
        Hit j \<Rightarrow> k \<le> j \<and> j < 7 \<and> entry_named N c nm (x, j) \<and> (\<forall>i \<in> {k..<j}. \<not> entry_named N c nm (x, i)) \<and>
          unat cnt + length (filter (live N c) (map (Pair x) [k..<j])) < unat dirSize
      | Past j del' cnt' \<Rightarrow> k \<le> j \<and> j \<le> 7 \<and> (\<forall>i \<in> {k..<scanned_to j}. \<not> entry_named N c nm (x, i)) \<and>
          unat cnt' = unat cnt + length (filter (live N c) (map (Pair x) [k..<scanned_to j])) \<and>
          (if j = 7 then cnt' < dirSize else cnt' = dirSize \<and> live N c (x, j)) \<and>
          (case del of Some d \<Rightarrow> del' = Some d
           | None \<Rightarrow> del' = None \<or> (\<exists>i < 7. \<not> live N c (x, i) \<and> del' = Some (x, word_of_nat i, c x))))"

lemma upt_step: "k < j \<Longrightarrow> [k..<j] = k # [Suc k..<j]"
  by (simp add: upt_rec)

lemma scan_ok_step:
  assumes "scan_ok N c nm dirSize x (Suc k) del' cnt' r" "\<not> entry_named N c nm (x, k)" "k < 7"
    and "unat cnt' = unat cnt + (if live N c (x, k) then 1 else 0)"
    and "del' = del \<or> del = None \<and> \<not> live N c (x, k) \<and> del' = Some (x, word_of_nat k, c x)"
  shows "scan_ok N c nm dirSize x k del cnt r"
proof (cases r)
  case (Hit j)
  then have j: "k < j" "Suc k \<le> j" using assms(1) by (auto simp: scan_ok_def)
  then have "{k..<j} = insert k {Suc k..<j}" by auto
  then show ?thesis using assms(1,2,4) Hit j by (cases "live N c (x, k)") (simp_all add: scan_ok_def upt_step[OF j(1)])
next
  case (Past j d n)
  then have j: "k < scanned_to j" "Suc k \<le> j" using assms(1,3) by (auto simp: scan_ok_def scanned_to_def)
  then have "{k..<scanned_to j} = insert k {Suc k..<scanned_to j}" by auto
  moreover have "case del of Some d' \<Rightarrow> d = Some d'
      | None \<Rightarrow> d = None \<or> (\<exists>i < 7. \<not> live N c (x, i) \<and> d = Some (x, word_of_nat i, c x))"
  proof (cases "del' = del")
    case True
    then show ?thesis using assms(1) Past by (simp add: scan_ok_def)
  next
    case False
    then have "del = None" "\<not> live N c (x, k)" "d = Some (x, word_of_nat k, c x)"
      using assms(1,5) Past by (auto simp: scan_ok_def)
    then show ?thesis using assms(3) by auto
  qed
  ultimately show ?thesis using assms(1,2,4) Past j(2)
    by (cases "live N c (x, k)") (simp_all add: scan_ok_def upt_step[OF j(1)] del: upt_Suc)
qed

lemma scan_spec:
  fixes dirSize cnt :: u32
  assumes "k + m = 7" "cnt < dirSize"
  shows "scan_ok N c nm dirSize x k del cnt (scan_slots N nm dirSize x (c x) k m del cnt)"
  using assms
proof (induction m arbitrary: k del cnt)
  case 0
  then show ?case by (simp add: scan_ok_def scanned_to_def split: option.split)
next
  case (Suc m)
  let ?n = "get_node N (c x) k"
  have k: "k < 7" "Suc k + m = 7" using Suc.prems(1) by auto
  have lv: "live N c (x, k) \<longleftrightarrow> \<not> IsDeleted N ?n" by (simp add: live_def)
  have nmd: "entry_named N c nm (x, k) \<longleftrightarrow> nodeName ?n = nm \<and> \<not> IsDeleted N ?n" by (auto simp: entry_named_def live_def)
  have u: "unat (cnt + 1) = unat cnt + 1"
    using Suc.prems(2) u32_bound[of dirSize] by (simp add: unat_word_ariths word_less_nat_alt)
  consider (hit) "nodeName ?n = nm \<and> \<not> IsDeleted N ?n" | (gone) "IsDeleted N ?n"
    | (stop) "nodeName ?n \<noteq> nm" "\<not> IsDeleted N ?n" "dirSize \<le> cnt + 1"
    | (more) "nodeName ?n \<noteq> nm" "\<not> IsDeleted N ?n" "\<not> dirSize \<le> cnt + 1" by auto
  then show ?case
  proof cases
    case hit
    then show ?thesis using k Suc.prems(2) nmd by (simp add: scan_ok_def Let_def word_less_nat_alt)
  next
    case gone
    show ?thesis
      by (rule scan_ok_step[where del' = "case del of None \<Rightarrow> Some (x, word_of_nat k, c x) | Some d \<Rightarrow> Some d" and cnt' = cnt])
        (use Suc.IH[OF k(2) Suc.prems(2)] gone k nmd lv in \<open>auto simp: Let_def split: option.split\<close>)
  next
    case stop
    have "cnt + 1 = dirSize" using u stop(3) Suc.prems(2) by (simp add: word_le_nat_alt word_less_nat_alt word_unat_eq_iff)
    moreover have "scanned_to k = Suc k" using k(1) by (simp add: scanned_to_def)
    ultimately show ?thesis using stop k nmd lv u by (auto simp: scan_ok_def Let_def split: option.split)
  next
    case more
    then have lt: "cnt + 1 < dirSize" by simp
    show ?thesis
      by (rule scan_ok_step[where del' = del and cnt' = "cnt + 1"])
        (use Suc.IH[OF k(2) lt] more k nmd lv u in \<open>auto simp: Let_def\<close>)
  qed
qed

section \<open>All sectors\<close>

lemma dir_slots_Cons: "dir_slots (x # xs) = map (Pair x) [0..<7] @ dir_slots xs"
  by (simp add: dir_slots_def DIR_ENTRIES_PER_SECTOR_def del: upt_Suc)

lemma dir_slots_mem: "p \<in> set (dir_slots xs) \<Longrightarrow> fst p \<in> set xs \<and> snd p < 7"
  by (auto simp: dir_slots_def DIR_ENTRIES_PER_SECTOR_def)

lemma live_prefix_subset: "set (live_prefix P n ps) \<subseteq> set ps"
  by (induction ps arbitrary: n) auto

lemma find_append: "\<forall>p \<in> set ps. \<not> Q p \<Longrightarrow> find Q (ps @ qs) = find Q qs"
  by (induction ps) auto

lemma find_none: "\<forall>p \<in> set ps. \<not> Q p \<Longrightarrow> find Q ps = None"
  by (simp add: find_None_iff)

lemma upt7: "j < 7 \<Longrightarrow> map (Pair x) [0..<7] = map (Pair x) [0..<j] @ (x, j) # map (Pair x) [Suc j..<7]"
  using upt_add_eq_append[of 0 j "7 - j"] upt_step[of j 7] by simp

text \<open>The part of a directory that the search looks at, by where the loop over a sector stopped.\<close>

lemma searched_hit:
  assumes "length (filter (live N c) (map (Pair x) [0..<j])) < n" "j < 7"
    and "entry_named N c nm (x, j)" "\<forall>i \<in> {0..<j}. \<not> entry_named N c nm (x, i)"
  shows "find (entry_named N c nm) (searched N c n (dir_slots (x # xs))) = Some (x, j)"
proof -
  have "searched N c n (dir_slots (x # xs)) = map (Pair x) [0..<j] @ searched N c (n - length (filter (live N c) (map (Pair x) [0..<j])))
      ((x, j) # map (Pair x) [Suc j..<7] @ dir_slots xs)"
    using live_prefix_append[OF assms(1)] by (simp add: dir_slots_Cons upt7[OF assms(2)] del: upt_Suc)
  then show ?thesis using assms by (simp add: find_append del: upt_Suc)
qed

lemma searched_stop:
  assumes "length (filter (live N c) (map (Pair x) [0..<Suc j])) = n" "live N c (x, j)" "j < 7"
  shows "searched N c n (dir_slots (x # xs)) = map (Pair x) [0..<Suc j]"
proof -
  have e: "dir_slots (x # xs) = map (Pair x) [0..<Suc j] @ map (Pair x) [Suc j..<7] @ dir_slots xs"
    by (simp add: dir_slots_Cons upt7[OF assms(3)])
  have "0 < n" using assms(1,2) by simp
  then show ?thesis unfolding e by (rule live_prefix_full[OF assms(1)]) (use assms(2) in simp_all)
qed

lemma searched_all:
  assumes "length (filter (live N c) (map (Pair x) [0..<7])) < n"
  shows "searched N c n (dir_slots (x # xs)) = map (Pair x) [0..<7] @
    searched N c (n - length (filter (live N c) (map (Pair x) [0..<7]))) (dir_slots xs)"
  using live_prefix_append[OF assms] by (simp add: dir_slots_Cons del: upt_Suc)

text \<open>
  What the search promises: the first entry with the name is found; if there is none, the slot handed out is not
  one of the entries.
\<close>

definition search_result ::
    "node_lib \<Rightarrow> (u32 \<Rightarrow> sector) \<Rightarrow> string \<Rightarrow> nat \<Rightarrow> u32 list \<Rightarrow> slot option \<Rightarrow> bool \<times> slot \<Rightarrow> bool" where
  "search_result N c nm n xs del r \<longleftrightarrow>
     (case find (entry_named N c nm) (searched N c n (dir_slots xs)) of
        Some (x, k) \<Rightarrow> r = (True, x, word_of_nat k, c x)
      | None \<Rightarrow> \<not> fst r \<and> (del = Some (snd r) \<or>
          (fst (snd r) \<in> insert EOC (set xs) \<and>
           (fst (snd r), unat (fst (snd (snd r)))) \<notin> set (filter (live N c) (searched N c n (dir_slots xs))))))"

lemma find_stop_result:
  assumes ok: "scan_ok N c nm dirSize x 0 del cnt (Past j del' cnt')" and j: "j \<noteq> 7"
    and r: "r = (if del' \<noteq> None then (False, the del') else if j < 6 then (False, x, word_of_nat (j + 1), c x)
        else if y \<noteq> EOC then (False, y, 0, dest) else (False, x, EOC_B, dest))"
    and y: "y = EOC \<or> y \<in> set xs" and x: "x \<notin> set xs"
  shows "search_result N c nm (unat dirSize - unat cnt) (x # xs) del r"
proof -
  have k: "j < 7" "live N c (x, j)" "cnt' = dirSize" "\<forall>i \<in> {0..<Suc j}. \<not> entry_named N c nm (x, i)"
    "unat cnt' = unat cnt + length (filter (live N c) (map (Pair x) [0..<Suc j]))"
    "case del of Some d \<Rightarrow> del' = Some d
     | None \<Rightarrow> del' = None \<or> (\<exists>i < 7. \<not> live N c (x, i) \<and> del' = Some (x, word_of_nat i, c x))"
    using ok j by (auto simp: scan_ok_def scanned_to_def)
  have s: "searched N c (unat dirSize - unat cnt) (dir_slots (x # xs)) = map (Pair x) [0..<Suc j]"
    by (rule searched_stop) (use k in simp_all)
  have none: "find (entry_named N c nm) (map (Pair x) [0..<Suc j]) = None"
    by (rule find_none) (use k(4) in \<open>auto simp del: upt_Suc\<close>)
  show ?thesis
  proof (cases "del' = None")
    case True
    have "unat (1 + word_of_nat j :: u8) = Suc j" using k(1) by (simp add: unat_word_ariths unat_of_nat)
    moreover have "y \<noteq> EOC \<Longrightarrow> y \<noteq> x" using x y by auto
    ultimately show ?thesis using True r y k(1)
      by (auto simp: search_result_def s none unat_of_nat EOC_B_def simp del: upt_Suc)
  next
    case False
    then obtain d where d: "del' = Some d" "r = (False, d)" using r by auto
    then show ?thesis using k(6) by (cases del) (auto simp: search_result_def s none unat_of_nat simp del: upt_Suc)
  qed
qed

lemma find_more_result:
  assumes ok: "scan_ok N c nm dirSize x 0 del cnt (Past 7 del' cnt')"
    and x: "x \<notin> set xs" "x \<noteq> EOC" and r: "search_result N c nm (unat dirSize - unat cnt') xs del' r"
  shows "search_result N c nm (unat dirSize - unat cnt) (x # xs) del r"
proof -
  have k: "cnt' < dirSize" "\<forall>p \<in> set (map (Pair x) [0..<7]). \<not> entry_named N c nm p"
    "unat cnt' = unat cnt + length (filter (live N c) (map (Pair x) [0..<7]))"
    "case del of Some d \<Rightarrow> del' = Some d
     | None \<Rightarrow> del' = None \<or> (\<exists>i < 7. \<not> live N c (x, i) \<and> del' = Some (x, word_of_nat i, c x))"
    using ok by (auto simp: scan_ok_def scanned_to_def simp del: upt_Suc)
  let ?S = "searched N c (unat dirSize - unat cnt') (dir_slots xs)"
  have s: "searched N c (unat dirSize - unat cnt) (dir_slots (x # xs)) = map (Pair x) [0..<7] @ ?S"
    using searched_all[of N c x "unat dirSize - unat cnt" xs] k(1,3) by (simp add: word_less_nat_alt del: upt_Suc)
  have f: "find (entry_named N c nm) (map (Pair x) [0..<7] @ ?S) = find (entry_named N c nm) ?S"
    by (rule find_append) (use k(2) in blast)
  have tail: "fst p \<noteq> x" if "p \<in> set ?S" for p
    using subsetD[OF live_prefix_subset that] dir_slots_mem[of p xs] x(1) by auto
  show ?thesis
  proof (cases "find (entry_named N c nm) ?S")
    case None
    then have nf: "\<not> fst r" using r by (simp add: search_result_def)
    show ?thesis
    proof (cases "del' = Some (snd r)")
      case True
      then show ?thesis using k(4) None nf tail
        by (cases del; cases r) (auto simp: search_result_def s f unat_of_nat simp del: upt_Suc)
    next
      case False
      then show ?thesis using r None nf x by (auto simp: search_result_def s f simp del: upt_Suc)
    qed
  qed (use r in \<open>auto simp: search_result_def s f simp del: upt_Suc\<close>)
qed

context volume_store
begin

lemma read1: "I v \<Longrightarrow> valid v x \<Longrightarrow> \<exists>t. xRead1 E x v = (Inr (content v x), t) \<and> same v t"
proof -
  assume "I v" "valid v x"
  from read1_law[OF this] obtain t where "xRead E x 1 v = (Inr [content v x], t)" "same v t" by blast
  then show "\<exists>t. xRead1 E x v = (Inr (content v x), t) \<and> same v t" by (simp add: xRead1_def andThen_InrI)
qed

lemma find_loop_spec:
  assumes "I v" "chain (nxt v) cur xs" "distinct xs" "\<forall>x \<in> set xs. valid v x" "length xs < fuel" "cnt < dirSize"
  shows "\<exists>r t. find_loop N E nm dirSize dest fuel cur del cnt v = (Inr r, t) \<and> same v t \<and>
    search_result N (content v) nm (unat dirSize - unat cnt) xs del r"
  using assms
proof (induction fuel arbitrary: cur xs del cnt v)
  case (Suc fuel)
  note p = Suc.prems
  show ?case
  proof (cases xs)
    case Nil
    then show ?thesis using p(1,2) same_refl[OF p(1)] by (cases del) (auto simp: search_result_def dir_slots_def)
  next
    case (Cons x ys)
    have c: "cur = x" "x \<noteq> EOC" "chain (nxt v) (nxt v x) ys" "x \<notin> set ys" using p(2,3) Cons by auto
    let ?sc = "scan_slots N nm dirSize x (content v x) 0 DIR_ENTRIES_PER_SECTOR del cnt"
    have ok: "scan_ok N (content v) nm dirSize x 0 del cnt ?sc"
      by (rule scan_spec) (simp_all add: DIR_ENTRIES_PER_SECTOR_def p(6))
    obtain t where t: "xRead1 E x v = (Inr (content v x), t)" "same v t" using read1[OF p(1)] p(4) Cons by auto
    have s2: "I t" "nxt t = nxt v" "valid t = valid v" "content t = content v" using t(2) by (simp_all add: same_volume_def)
    obtain u where u: "on_fs (GetSectorEntryValue E x) t = (Inr (nxt v x), u)" "same t u"
      using next_law[OF s2(1), of x] p(4) Cons s2 by auto
    have vu: "same v u" using same_volume_trans[OF t(2) u(2)] .
    show ?thesis
    proof (cases ?sc)
      case (Hit j)
      have "search_result N (content v) nm (unat dirSize - unat cnt) xs del (True, x, word_of_nat j, content v x)"
        unfolding Cons search_result_def
        by (subst searched_hit[where j = j and nm = nm]) (use ok Hit in \<open>auto simp: scan_ok_def\<close>)
      then show ?thesis using Hit t c(1,2) by (auto simp: andThen_InrI)
    next
      case (Past j del' cnt')
      have sc: "scan_ok N (content v) nm dirSize x 0 del cnt (Past j del' cnt')" using ok Past by simp
      show ?thesis
      proof (cases "j = 7")
        case False
        define r where "r = (if del' \<noteq> None then (False, the del') else if j < 6 then (False, x, word_of_nat (j + 1), content v x)
            else if nxt v x \<noteq> EOC then (False, nxt v x, 0, dest) else (False, x, EOC_B, dest))"
        have y: "nxt v x = EOC \<or> nxt v x \<in> set ys" using c(3) by (cases ys) auto
        have "j < 6 \<or> j = 6" "cnt' = dirSize" using sc False by (auto simp: scan_ok_def)
        then have "find_loop N E nm dirSize dest (Suc fuel) cur del cnt v = (Inr r, u)"
          using Past t(1) u(1) c(1,2) by (auto simp: andThen_InrI DIR_ENTRIES_PER_SECTOR_def r_def)
        then show ?thesis using find_stop_result[OF sc False r_def y c(4)] vu Cons by auto
      next
        case True
        then have lt: "cnt' < dirSize" using sc by (auto simp: scan_ok_def)
        have "\<exists>r w. find_loop N E nm dirSize dest fuel (nxt v x) del' cnt' u = (Inr r, w) \<and> same u w \<and>
            search_result N (content u) nm (unat dirSize - unat cnt') ys del' r"
          by (rule Suc.IH) (use vu c p Cons lt in \<open>auto simp: same_volume_def\<close>)
        then obtain r w where r: "find_loop N E nm dirSize dest fuel (nxt v x) del' cnt' u = (Inr r, w)" "same u w"
            "search_result N (content v) nm (unat dirSize - unat cnt') ys del' r" using vu by (auto simp: same_volume_def)
        have "find_loop N E nm dirSize dest (Suc fuel) cur del cnt v = (Inr r, w)"
          using Past t(1) u(1) c(1,2) r(1) lt True by (auto simp: andThen_InrI DIR_ENTRIES_PER_SECTOR_def)
        moreover have "scan_ok N (content v) nm dirSize x 0 del cnt (Past 7 del' cnt')" using sc True by simp
        ultimately show ?thesis using find_more_result[OF _ c(4,2) r(3)] same_volume_trans[OF vu r(2)] Cons by blast
      qed
    qed
  qed
qed simp

lemma FindDirectory_spec:
  assumes "I v" "IsDirectory N (DirEntry cwd)" "nm \<noteq> DIR_SPECIAL_CURRENT" "nm \<noteq> DIR_SPECIAL_PARENT"
    and "chain (nxt v) (startSectorID (DirEntry cwd)) xs" "distinct xs" "\<forall>x \<in> set xs. valid v x"
    and "length xs < loop_bound N" "0 < nodeSize (DirEntry cwd)"
  shows "\<exists>r t. Directory_FindDirectory N E cwd nm dest v = (Inr r, t) \<and> same v t \<and>
    search_result N (content v) nm (unat (nodeSize (DirEntry cwd))) xs None r"
  using find_loop_spec[OF assms(1,5,6,7,8,9)] assms(2,3,4) by (auto simp: Directory_FindDirectory_def Let_def)


lemma find_slot: "find (entry_named N c t) (searched N c n (dir_slots xs)) = Some q \<Longrightarrow> snd q < 7"
  using live_prefix_subset dir_slots_mem by (metis find_Some_iff nth_mem subsetD)

lemma finds_run:
  assumes "finds N (nxt v) (content v) (valid v) (DirEntry cwd) xs t q" "I v"
  shows "\<exists>w. Directory_FindDirectory N E cwd t dest v = (Inr (True, fst q, word_of_nat (snd q), content v (fst q)), w) \<and> same v w"
    "slot_node N (fst q, word_of_nat (snd q), content v (fst q)) = get_node N (content v (fst q)) (snd q)"
proof -
  note f = assms(1)[unfolded finds_def]
  obtain r w where r: "Directory_FindDirectory N E cwd t dest v = (Inr r, w)" "same v w"
    "search_result N (content v) t (unat (nodeSize (DirEntry cwd))) xs None r"
    using FindDirectory_spec[OF assms(2), of N cwd t xs dest] f by blast
  then show "\<exists>w. Directory_FindDirectory N E cwd t dest v = (Inr (True, fst q, word_of_nat (snd q), content v (fst q)), w) \<and> same v w"
    using f by (cases q) (auto simp: search_result_def)
  have "snd q < 7" using f find_slot by blast
  then show "slot_node N (fst q, word_of_nat (snd q), content v (fst q)) = get_node N (content v (fst q)) (snd q)"
    by (simp add: slot_node_def unat_of_nat)
qed

lemma walk:
  assumes "leads N (nxt v0) (content v0) (valid v0) d ts p" "I v" "same v0 v" "DirEntry cwd = d"
  shows "\<exists>w. walk_path N E cwd ts err r v = (Inr (fst p, word_of_nat (snd p), content v0 (fst p)), w) \<and> same v0 w"
  using assms
proof (induction arbitrary: cwd v r rule: leads.induct)
  case (leads_last d xs t q)
  have s: "nxt v0 = nxt v" "content v0 = content v" "valid v0 = valid v" using leads_last.prems(2) by (simp_all add: same_volume_def)
  then obtain w where "Directory_FindDirectory N E cwd t [] v = (Inr (True, fst q, word_of_nat (snd q), content v (fst q)), w)" "same v w"
    using finds_run(1)[where dest = "[]" and cwd = cwd and v = v] leads_last by metis
  then show ?case using same_volume_trans[OF leads_last.prems(2)] s by (auto simp: andThen_InrI)
next
  case (leads_step d xs t q u ts p)
  have s: "nxt v0 = nxt v" "content v0 = content v" "valid v0 = valid v" using leads_step.prems(2) by (simp_all add: same_volume_def)
  have f: "finds N (nxt v) (content v) (valid v) (DirEntry cwd) xs t q" using leads_step s by simp
  obtain w where w: "Directory_FindDirectory N E cwd t [] v = (Inr (True, fst q, word_of_nat (snd q), content v (fst q)), w)" "same v w"
    using finds_run(1)[OF f leads_step.prems(1)] by blast
  have dn: "DirEntry (slot_cwd N (fst q, word_of_nat (snd q), content v (fst q))) = get_node N (content v0 (fst q)) (snd q)"
    using finds_run(2)[OF f leads_step.prems(1)] s by (simp add: slot_cwd_def)
  have "same v0 w" using same_volume_trans[OF leads_step.prems(2) w(2)] .
  moreover from this have "I w" by (simp add: same_volume_def)
  ultimately show ?case using leads_step.IH[OF _ _ dn] w(1) by (auto simp: andThen_InrI)
qed

lemma ReadDirEntryInfo:
  assumes "I v" "szFileName \<noteq> []" "szFileName \<noteq> FS_ROOT_DIR"
    and "length (path_tokens szFileName) \<le> 10" "\<forall>t \<in> set (path_tokens szFileName). length t \<le> 32"
    and "leads N (nxt v) (content v) (valid v) (DirEntry (if hd szFileName = CHR ''/'' then FSpwd v else cwd)) (path_tokens szFileName) p"
  shows "\<exists>w. Directory_ReadDirEntryInfo N E cwd szFileName v = (Inr (fst p, word_of_nat (snd p), content v (fst p)), w) \<and> same v w"
  using walk[OF assms(6,1) same_refl[OF assms(1)] refl] assms(2-5)
  by (simp add: Directory_ReadDirEntryInfo_def StringDefTokenizer_def Let_def list_all_iff)

lemma leads_slot: "leads N nx c va d ts p \<Longrightarrow> snd p < 7"
  by (induction rule: leads.induct) (auto simp: finds_def dest: find_slot)

end

end
