(* ===== verification/NodeLayout.thy ===== *)
theory NodeLayout
  imports VolumeStore
begin

text \<open>
  A layout of directory sectors that meets \<open>node_lib_ok\<close>: entries of 64 bytes, with the fields of \<open>FS_Node\<close> one after
  the other. The properties of directories and files are shown to hold on volumes that use it.
\<close>

section \<open>Strings in fields of fixed length\<close>

definition byte_of_char :: "char \<Rightarrow> u8" where "byte_of_char c = word_of_nat (of_char c)"
definition char_of_byte :: "u8 \<Rightarrow> char" where "char_of_byte b = char_of (unat b)"

definition name_bytes :: "string \<Rightarrow> u8 list" where
  "name_bytes s = map byte_of_char s @ replicate (33 - length s) 0"

definition bytes_name :: "u8 list \<Rightarrow> string" where
  "bytes_name bs = map char_of_byte (takeWhile (\<lambda>b. b \<noteq> 0) bs)"

definition plain_name :: "string \<Rightarrow> bool" where
  "plain_name s \<longleftrightarrow> length s \<le> 32 \<and> CHR 0x00 \<notin> set s"

lemma char_byte: "char_of_byte (byte_of_char c) = c"
proof -
  have "of_char c < (256 :: nat)" by simp
  then show ?thesis by (simp add: char_of_byte_def byte_of_char_def unat_of_nat)
qed

lemma byte_of_char_0: "byte_of_char c = 0 \<longleftrightarrow> c = CHR 0x00"
proof
  assume "byte_of_char c = 0"
  then have "char_of_byte (byte_of_char c) = char_of_byte 0" by simp
  then show "c = CHR 0x00" unfolding char_byte by (simp add: char_of_byte_def char_of_def)
qed (simp add: byte_of_char_def)

lemma name_roundtrip: "plain_name s \<Longrightarrow> bytes_name (name_bytes s) = s"
proof -
  assume p: "plain_name s"
  have "takeWhile (\<lambda>b. b \<noteq> 0) (replicate n 0) = ([] :: u8 list)" for n by (cases n) auto
  moreover have "\<forall>b \<in> set (map byte_of_char s). b \<noteq> 0" using p by (auto simp: plain_name_def byte_of_char_0)
  ultimately have "takeWhile (\<lambda>b. b \<noteq> 0) (map byte_of_char s @ replicate n 0) = map byte_of_char s" for n
    by (subst takeWhile_append2) auto
  then show ?thesis by (simp add: bytes_name_def name_bytes_def char_byte comp_def)
qed

lemma length_name_bytes: "plain_name s \<Longrightarrow> length (name_bytes s) = 33"
  by (simp add: name_bytes_def plain_name_def)

section \<open>Entries\<close>

definition node_bytes :: "Node \<Rightarrow> u8 list" where
  "node_bytes n = name_bytes (nodeName n) @ bytes_of_u16 (attribute n) @ bytes_of_word (createdTime n) @
     bytes_of_word (accessedTime n) @ bytes_of_word (modifiedTime n) @ bytes_of_word (startSectorID n) @
     bytes_of_word (nodeSize n) @ bytes_of_word (parentSectorID n) @ [parentSectorPos n] @ bytes_of_word (nodeUserID n)"

definition bytes_node :: "u8 list \<Rightarrow> Node" where
  "bytes_node bs = \<lparr>nodeName = bytes_name (take 33 bs), attribute = u16_of_bytes (drop 33 bs),
     createdTime = u32_of_bytes (drop 35 bs), accessedTime = u32_of_bytes (drop 39 bs),
     modifiedTime = u32_of_bytes (drop 43 bs), startSectorID = u32_of_bytes (drop 47 bs),
     nodeSize = u32_of_bytes (drop 51 bs), parentSectorID = u32_of_bytes (drop 55 bs),
     parentSectorPos = bs ! 59, nodeUserID = u32_of_bytes (drop 60 bs)\<rparr>"

lemma length_node_bytes: "plain_name (nodeName n) \<Longrightarrow> length (node_bytes n) = 64"
  by (simp add: node_bytes_def length_name_bytes)

lemma drop_field: "length xs = n \<Longrightarrow> n \<le> k \<Longrightarrow> drop k (xs @ ys) = drop (k - n) ys"
  by simp

lemma node_fields:
  fixes A C7 :: "u8 list" and p :: u8
  assumes "length A = 33" "length B = 2" "length C1 = 4" "length C2 = 4" "length C3 = 4" "length C4 = 4" "length C5 = 4" "length C6 = 4"
  defines "bs \<equiv> A @ B @ C1 @ C2 @ C3 @ C4 @ C5 @ C6 @ [p] @ C7"
  shows "take 33 bs = A" "drop 33 bs = B @ C1 @ C2 @ C3 @ C4 @ C5 @ C6 @ [p] @ C7" "drop 35 bs = C1 @ C2 @ C3 @ C4 @ C5 @ C6 @ [p] @ C7"
    "drop 39 bs = C2 @ C3 @ C4 @ C5 @ C6 @ [p] @ C7" "drop 43 bs = C3 @ C4 @ C5 @ C6 @ [p] @ C7" "drop 47 bs = C4 @ C5 @ C6 @ [p] @ C7"
    "drop 51 bs = C5 @ C6 @ [p] @ C7" "drop 55 bs = C6 @ [p] @ C7" "bs ! 59 = p" "drop 60 bs = C7"
  using assms(1-8) by (simp_all add: bs_def drop_field nth_append)

lemma node_roundtrip:
  assumes "plain_name (nodeName n)"
  shows "bytes_node (node_bytes n) = n"
proof -
  note f = node_fields[OF length_name_bytes[OF assms] length_field_bytes(1) length_field_bytes(2) length_field_bytes(2)
      length_field_bytes(2) length_field_bytes(2) length_field_bytes(2) length_field_bytes(2)]
  have u: "u32_of_bytes (bytes_of_word w) = w" for w using u32_of_bytes_of[of w "[]"] by simp
  show ?thesis
    unfolding bytes_node_def node_bytes_def f u16_of_bytes_of u32_of_bytes_of u name_roundtrip[OF assms] by simp
qed

definition entry_get :: "sector \<Rightarrow> nat \<Rightarrow> Node" where
  "entry_get b k = bytes_node (take 64 (drop (64 * k) b))"

definition entry_put :: "sector \<Rightarrow> nat \<Rightarrow> Node \<Rightarrow> sector" where
  "entry_put b k n = take (64 * k) b @ node_bytes n @ drop (64 * k + 64) b"

definition layout_lib :: node_lib where
  "layout_lib = \<lparr>get_node = entry_get, put_node = entry_put, name_fits = plain_name,
     ATTR_TYPE_FILE = 0x8000, ATTR_TYPE_DIRECTORY = 0x4000, ATTR_DELETED_DIR = 0x1000, ATTR_DIR_DEFAULT = 0x1FF,
     O_RDONLY = 1, O_WRONLY = 2, O_RDWR = 4, O_APPEND = 8, O_TRUNC = 16,
     ROOT_DRIVE = - 2, CURRENT_DRIVE = - 1, FROM_FILE = - 3, loop_bound = 20\<rparr>"

lemma layout_fields [simp]:
  "get_node layout_lib = entry_get" "put_node layout_lib = entry_put" "name_fits layout_lib = plain_name"
  "loop_bound layout_lib = 20" "ATTR_DELETED_DIR layout_lib = 0x1000" "ATTR_TYPE_DIRECTORY layout_lib = 0x4000"
  by (simp_all add: layout_lib_def)

lemma entry_get_put:
  assumes "length b = 512" "k < 7" "j < 7" "plain_name (nodeName n)"
  shows "entry_get (entry_put b k n) j = (if j = k then n else entry_get b j)"
proof -
  note l = length_node_bytes[OF assms(4)]
  consider "j = k" | "j < k" | "k < j" by linarith
  then show ?thesis
  proof cases
    case 1
    then show ?thesis using assms l node_roundtrip[OF assms(4)] by (simp add: entry_get_def entry_put_def)
  next
    case 2
    then have "64 * j + 64 \<le> 64 * k" by simp
    then have "take 64 (drop (64 * j) (entry_put b k n)) = take 64 (drop (64 * j) b)"
      using assms l by (simp add: entry_put_def take_drop)
    then show ?thesis using 2 by (simp add: entry_get_def)
  next
    case 3
    then obtain m where "j = k + 1 + m" by (metis less_iff_Suc_add add.commute add_Suc_right plus_1_eq_Suc add.assoc)
    then have "drop (64 * j) (entry_put b k n) = drop (64 * j) b"
      using assms l by (simp add: entry_put_def algebra_simps)
    then show ?thesis using 3 by (simp add: entry_get_def)
  qed
qed

lemma layout_ok: "node_lib_ok layout_lib"
  unfolding node_lib_ok_def
proof (intro conjI allI impI)
  fix b :: sector and k j and n :: Node assume a: "length b = 512" "k < DIR_ENTRIES_PER_SECTOR" "j < DIR_ENTRIES_PER_SECTOR" "name_fits layout_lib (nodeName n)"
  then show "length (put_node layout_lib b k n) = 512"
    using length_node_bytes by (simp add: entry_put_def DIR_ENTRIES_PER_SECTOR_def)
  show "get_node layout_lib (put_node layout_lib b k n) j = (if j = k then n else get_node layout_lib b j)"
    using entry_get_put a by (simp add: DIR_ENTRIES_PER_SECTOR_def)
qed simp

section \<open>Small volumes\<close>

text \<open>A drive that holds the sectors of a list, and zeros elsewhere, with the cache of sectors enabled or not.\<close>

definition disk_of :: "(u32 \<times> sector) list \<Rightarrow> u32 \<Rightarrow> sector" where
  "disk_of ps x = (case map_of ps x of Some b \<Rightarrow> b | None \<Rightarrow> replicate 512 0)"

text \<open>Table sectors are 3 and 4 on it; \<open>next\<close> lists the entries of the first. Data sectors start at 5.\<close>

definition small_drive :: "bool \<Rightarrow> u32 list \<Rightarrow> (u32 \<times> sector) list \<Rightarrow> drive" where
  "small_drive useCache nexts ps = blank_drive\<lparr>bEnableDiskCache := useCache,
     disk := disk_of ((3, bytes_of (nexts @ replicate (128 - length nexts) 0)) # map (\<lambda>(x, b). (x + 5, b)) ps)\<rparr>"

definition small_volume :: "bool \<Rightarrow> u32 list \<Rightarrow> (u32 \<times> sector) list \<Rightarrow> PWD \<Rightarrow> drive volume" where
  "small_volume useCache nexts ps root =
     \<lparr>fs = (small_fs [] [])\<lparr>drv := small_drive useCache nexts ps\<rparr>, FSpwd = root\<rparr>"

definition data_area :: "u32 set" where "data_area = {x. 5 \<le> x \<and> x < 261}"


lemma small_volume_simps:
  "drv (fs (small_volume c nexts ps root)) = small_drive c nexts ps"
  "fsBootBlock (fs (small_volume c nexts ps root)) = small_boot"
  "fsTableCache (fs (small_volume c nexts ps root)) = []"
  "FSpwd (small_volume c nexts ps root) = root"
  by (simp_all add: small_volume_def small_fs_def)

definition sectors_ok :: "u32 list \<Rightarrow> (u32 \<times> sector) list \<Rightarrow> bool" where
  "sectors_ok nexts ps \<longleftrightarrow> length nexts \<le> 128 \<and> list_all (\<lambda>(x, b). length b = 512 \<and> x \<le> 255) ps"

lemma small_disk_length:
  assumes "sectors_ok nexts ps"
  shows "length (disk (small_drive c nexts ps) x) = 512"
proof -
  have "length (disk_of qs x) = 512" if "list_all (\<lambda>(x, b). length b = 512) qs" for qs
    using that by (auto simp: disk_of_def list_all_iff split: option.split dest: map_of_SomeD)
  moreover have "list_all (\<lambda>(x, b). length b = 512)
      ((3, bytes_of (nexts @ replicate (128 - length nexts) 0)) # map (\<lambda>(x, b). (x + 5, b)) ps)"
    using assms by (auto simp: sectors_ok_def length_bytes_of list_all_iff)
  ultimately show ?thesis by (simp add: small_drive_def)
qed

lemma small_look: "drive_look (small_drive c nexts ps) = disk (small_drive c nexts ps)"
  by (simp add: drive_look_def view_def small_drive_def blank_drive_def fun_eq_iff)

lemma small_raw_look: "raw_look (small_drive c nexts ps) = disk (small_drive c nexts ps)"
  by (simp add: raw_look_def small_drive_def blank_drive_def fun_eq_iff)

lemma small_good: "x < 300 \<Longrightarrow> drive_good (small_drive c nexts ps) x \<and> raw_good (small_drive c nexts ps) x"
  by (simp add: drive_good_def raw_good_def healthy_def known_device_def small_drive_def blank_drive_def
      word_less_nat_alt)

lemma small_cached_inv:
  assumes "sectors_ok nexts ps"
  shows "vol_inv (drive_ok plain_lib) drive_look drive_good D (small_volume True nexts ps root)"
proof -
  have "cache_inv (small_drive True nexts ps)" by (simp add: cache_inv_def small_drive_def blank_drive_def ordered_def)
  then show ?thesis using small_disk_length[OF assms] plain_lib_ok
    by (simp add: vol_inv_def table_ok_def sorted_cache_def writes_left_def small_volume_simps small_look drive_ok_def)
      (simp add: small_drive_def)
qed

lemma small_raw_inv:
  assumes "sectors_ok nexts ps"
  shows "vol_inv raw_ok raw_look raw_good D (small_volume False nexts ps root)"
  using small_disk_length[OF assms]
  by (simp add: vol_inv_def table_ok_def sorted_cache_def writes_left_def small_volume_simps small_raw_look raw_ok_def)
    (simp add: small_drive_def blank_drive_def known_device_def)

lemma small_valid:
  assumes "x \<le> 255" "\<And>y. y < 300 \<Longrightarrow> good (small_drive c nexts ps) y"
  shows "vol_valid good data_area (small_volume c nexts ps root) x"
proof -
  have "unat x \<le> 255" using assms(1) by (simp add: word_le_nat_alt)
  moreover have "unat (BLOCK_ID x) = unat x div 128" by (simp add: BLOCK_ID_def ENTRIES_PER_TABLE_SECTOR_def unat_div_distrib)
  ultimately have "unat (x + 5) = unat x + 5" "unat (BLOCK_ID x + 3) = unat (BLOCK_ID x) + 3" "unat (BLOCK_ID x) \<le> 1"
    by (simp_all add: unat_word_ariths)
  then have "x + 5 < 261" "5 \<le> x + 5" "BLOCK_ID x + 3 < 5" "x + 5 < 300" "BLOCK_ID x + 3 < 300" using \<open>unat x \<le> 255\<close>
    by (simp_all add: word_less_nat_alt word_le_nat_alt)
  moreover have "x \<le> last_cluster (fs (small_volume c nexts ps root))"
    using assms(1) by (simp add: last_cluster_def small_volume_simps small_boot_def word_le_nat_alt)
  moreover have "GetRealSectorNumber (fs (small_volume c nexts ps root)) x = x + 5"
    "tsec (fs (small_volume c nexts ps root)) (BLOCK_ID x) = BLOCK_ID x + 3"
    by (simp_all add: GetRealSectorNumber_def tsec_def small_volume_simps small_boot_def)
  ultimately show ?thesis using assms(2)[of "x + 5"] assms(2)[of "BLOCK_ID x + 3"]
    by (auto simp: vol_valid_def off_data_def data_area_def small_volume_simps)
qed

lemma small_content:
  assumes "x \<le> 255" "\<And>y. y < 300 \<Longrightarrow> good (small_drive c nexts ps) y"
    and "look (small_drive c nexts ps) = disk (small_drive c nexts ps)"
  shows "vol_content look good data_area (small_volume c nexts ps root) x = disk_of ps x"
proof -
  have "x + 5 \<noteq> 3"
  proof
    assume "x + 5 = 3"
    then have "unat (x + 5) = unat (3 :: u32)" by (rule arg_cong)
    moreover have "unat (x + 5) = unat x + 5" using assms(1) by (simp add: unat_word_ariths word_le_nat_alt)
    ultimately show False by simp
  qed
  moreover have "map_of (map (\<lambda>(x, b). (x + 5, b)) ps) (x + 5) = map_of ps x" by (induction ps) auto
  moreover have "GetRealSectorNumber (fs (small_volume c nexts ps root)) x = x + 5"
    by (simp add: GetRealSectorNumber_def small_volume_simps small_boot_def)
  ultimately show ?thesis using small_valid[where good = good and root = root, OF assms(1,2)] assms(3)
    by (simp add: vol_content_def small_volume_simps) (simp add: small_drive_def disk_of_def)
qed

lemma small_next:
  assumes "unat x < length nexts" "length nexts \<le> 128" "\<And>y. y < 300 \<Longrightarrow> good (small_drive c nexts ps) y"
    and "look (small_drive c nexts ps) = disk (small_drive c nexts ps)"
  shows "vol_next look good data_area (small_volume c nexts ps root) x = nexts ! unat x AND EOC"
proof -
  have x: "unat x < 128" using assms(1,2) by simp
  then have "x \<le> 255" by (simp add: word_le_nat_alt)
  note v = small_valid[where good = good and root = root, OF this assms(3)]
  have "unat (BLOCK_ID x) = 0" "unat (BLOCK_OFFSET x) = unat x"
    using x by (simp_all add: BLOCK_ID_def BLOCK_OFFSET_def ENTRIES_PER_TABLE_SECTOR_def unat_div_distrib unat_mod_distrib)
  then have b: "BLOCK_ID x = 0" "unat (BLOCK_OFFSET x) = unat x" by (simp_all add: unsigned_eq_0_iff)
  have "disk (small_drive c nexts ps) 3 = bytes_of (nexts @ replicate (128 - length nexts) 0)"
    by (simp add: small_drive_def disk_of_def)
  then show ?thesis using v assms(1,4) b
    by (simp add: vol_next_def fat_def block_words_def tsec_def small_volume_simps small_boot_def nth_append)
qed

end
