(* ===== verification/FileWriting.thy ===== *)
theory FileWriting
  imports FileProperties NodeLayout
begin

text \<open>
  Overwriting a part of a file (\<open>Directory_ActualFileWrite\<close> of \<open>filesystem/Directory.cpp\<close>): the buffer of up to
  eight sectors cannot be observed, and the bytes of the chain are the old ones with the data in place.
\<close>

section \<open>Bytes put into a chain\<close>

text \<open>
  The content \<open>d\<close> has the bytes \<open>data\<close> at position \<open>pos\<close> of the sectors \<open>xs\<close> and is \<open>c\<close> before them and in the other
  sectors; if the data end \<open>inside\<close> the file, what follows them is kept as well.
\<close>

definition placed :: "bool \<Rightarrow> nat \<Rightarrow> u8 list \<Rightarrow> u32 list \<Rightarrow> (u32 \<Rightarrow> sector) \<Rightarrow> (u32 \<Rightarrow> sector) \<Rightarrow> bool" where
  "placed inside pos data xs c d \<longleftrightarrow> (\<forall>y. y \<notin> set xs \<longrightarrow> d y = c y) \<and>
     take (pos + length data) (bytes d xs) = take pos (bytes c xs) @ data \<and>
     (inside \<longrightarrow> drop (pos + length data) (bytes d xs) = drop (pos + length data) (bytes c xs))"

lemma placed_last:
  assumes "length rem < 512" "length b = 512" "length (c x) = 512" "inside \<Longrightarrow> b = c x" "x \<notin> set ys"
  shows "placed inside 0 rem (x # ys) c (c(x := rem @ drop (length rem) b))"
proof -
  have "map (c(x := rem @ drop (length rem) b)) ys = map c ys" using assms(5) by simp
  then show ?thesis using assms by (simp add: placed_def bytes_def)
qed

lemma placed_step:
  assumes "512 \<le> length rem" "length (c x) = 512" "x \<notin> set ys"
    and "placed inside 0 (drop 512 rem) ys (c(x := take 512 rem)) d"
  shows "placed inside 0 rem (x # ys) c d"
proof -
  have d: "d x = take 512 rem" using assms(3,4) by (simp add: placed_def)
  have m: "map (c(x := take 512 rem)) ys = map c ys" using assms(3) by simp
  have l: "length (d x) = 512" "length rem - 512 + 512 = length rem" using d assms(1) by simp_all
  have "take (length rem) (bytes d (x # ys)) = d x @ take (length rem - 512) (bytes d ys)"
    "drop (length rem) (bytes d (x # ys)) = drop (length rem - 512) (bytes d ys)"
    "drop (length rem) (bytes c (x # ys)) = drop (length rem - 512) (bytes c ys)"
    using l assms(1,2) by (simp_all add: bytes_def)
  then show ?thesis using assms(4) d m by (auto simp: placed_def bytes_def)
qed

text \<open>The first sector of a write that does not start at its beginning.\<close>

lemma placed_part:
  assumes "length (c x) = 512" "pos + length data \<le> 512" "x \<notin> set ys"
  shows "placed True pos data (x # ys) c (c(x := take pos (c x) @ data @ drop (pos + length data) (c x)))"
proof -
  have "map (c(x := take pos (c x) @ data @ drop (pos + length data) (c x))) ys = map c ys" using assms(3) by simp
  then show ?thesis using assms by (simp add: placed_def bytes_def)
qed

lemma placed_part_step:
  assumes "length (c x) = 512" "pos \<le> 512" "512 - pos \<le> length data" "x \<notin> set ys"
    and "placed inside 0 (drop (512 - pos) data) ys (c(x := take pos (c x) @ take (512 - pos) data)) d"
  shows "placed inside pos data (x # ys) c d"
proof -
  have d: "d x = take pos (c x) @ take (512 - pos) data" using assms(4,5) by (simp add: placed_def)
  have m: "map (c(x := take pos (c x) @ take (512 - pos) data)) ys = map c ys" using assms(4) by simp
  have l: "length (d x) = 512" "pos + length data = 512 + (length data - (512 - pos))"
    using d assms(1-3) by simp_all
  have "take (pos + length data) (bytes d (x # ys)) = d x @ take (length data - (512 - pos)) (bytes d ys)"
    "drop (pos + length data) (bytes d (x # ys)) = drop (length data - (512 - pos)) (bytes d ys)"
    "drop (pos + length data) (bytes c (x # ys)) = drop (length data - (512 - pos)) (bytes c ys)"
    unfolding l(2) using l(1) assms(1) by (simp_all add: bytes_def)
  moreover have "take pos (bytes c (x # ys)) = take pos (c x)" using assms(1,2) by (simp add: bytes_def)
  ultimately show ?thesis using assms(5) d m by (auto simp: placed_def bytes_def)
qed

lemma placed_weaken: "placed True pos data xs c d \<Longrightarrow> placed inside pos data xs c d"
  by (simp add: placed_def)

lemma placed_skip:
  assumes l: "\<forall>x. length (c x) = 512" and "target \<le> length xs" "distinct xs"
    and "placed inside pos data (drop target xs) c d"
  shows "placed inside (512 * target + pos) data xs c d"
proof -
  have dis: "set (take target xs) \<inter> set (drop target xs) = {}" using assms(3) by (simp add: set_take_disj_set_drop_if_distinct)
  have keep: "bytes d (take target xs) = bytes c (take target xs)"
  proof -
    have "map d (take target xs) = map c (take target xs)"
      by (rule map_cong[OF refl]) (use assms(4) dis in \<open>auto simp: placed_def\<close>)
    then show ?thesis by (simp only: bytes_def)
  qed
  have len: "length (bytes c (take target xs)) = 512 * target" using length_bytes[OF l] assms(2) by simp
  have out: "y \<notin> set (drop target xs)" if "y \<notin> set xs" for y using that by (meson in_set_dropD)
  show ?thesis
    using assms(4) out len keep bytes_split[of c xs target] bytes_split[of d xs target]
    unfolding placed_def by (simp add: add.assoc)
qed

section \<open>The write buffer\<close>

text \<open>The sectors as they will be when the buffer is written.\<close>

definition pending :: "wbuffer \<Rightarrow> (u32 \<Rightarrow> sector) \<Rightarrow> u32 \<Rightarrow> sector" where
  "pending w c = (\<lambda>y. if unat (y - bufStart w) < length (bufSectors w) then bufSectors w ! unat (y - bufStart w) else c y)"

definition buffer_ok :: "(u32 \<Rightarrow> bool) \<Rightarrow> wbuffer \<Rightarrow> bool" where
  "buffer_ok valid w \<longleftrightarrow> length (bufSectors w) < 8 \<and>
     (bufSectors w \<noteq> [] \<longrightarrow> bufPrev w + 1 = bufStart w + of_nat (length (bufSectors w))) \<and>
     (\<forall>i < length (bufSectors w). valid (bufStart w + of_nat i) \<and> length (bufSectors w ! i) = 512)"

text \<open>The sectors \<open>xs\<close> are not in the buffer.\<close>

definition apart :: "wbuffer \<Rightarrow> u32 list \<Rightarrow> bool" where
  "apart w xs \<longleftrightarrow> (\<forall>y \<in> set xs. length (bufSectors w) \<le> unat (y - bufStart w))"

lemma pending_empty [simp]: "bufSectors w = [] \<Longrightarrow> pending w c = c"
  by (simp add: pending_def)

lemma small_diff: "n < 8 \<Longrightarrow> unat (a + of_nat n - a :: u32) = n"
  by (simp add: unat_of_nat)

lemma pending_append:
  assumes "length (bufSectors w) < 8" "x = bufStart w + of_nat (length (bufSectors w))"
  shows "pending (w\<lparr>bufPrev := p, bufSectors := bufSectors w @ [b]\<rparr>) c = (pending w c)(x := b)"
proof
  fix y
  let ?n = "length (bufSectors w)"
  have "unat (y - bufStart w) = ?n \<longleftrightarrow> y = x"
  proof
    assume "unat (y - bufStart w) = ?n"
    then have "of_nat (unat (y - bufStart w)) = (of_nat ?n :: u32)" by simp
    then show "y = x" using assms(2) by (simp add: algebra_simps)
  qed (use assms in \<open>simp add: unat_of_nat\<close>)
  then show "pending (w\<lparr>bufPrev := p, bufSectors := bufSectors w @ [b]\<rparr>) c y = ((pending w c)(x := b)) y"
    using assms by (auto simp: pending_def nth_append less_Suc_eq)
qed

lemma pending_fresh: "pending \<lparr>bufStart = x, bufPrev = p, bufSectors = [b]\<rparr> c = c(x := b)"
  by (auto simp: pending_def fun_eq_iff unsigned_eq_0_iff)

context bulk_volume
begin

text \<open>A state after sectors were written: the content is \<open>c\<close>, the rest as before.\<close>

definition wrote :: "'a fstate \<Rightarrow> (u32 \<Rightarrow> sector) \<Rightarrow> 'a fstate \<Rightarrow> bool" where
  "wrote s c t \<longleftrightarrow> I (vol t) \<and> nxt (vol t) = nxt (vol s) \<and> content (vol t) = c \<and> valid (vol t) = valid (vol s) \<and>
     FSpwd (vol t) = FSpwd (vol s) \<and> desc t = desc s"

lemma wrote_trans: "wrote s c t \<Longrightarrow> wrote t d u \<Longrightarrow> wrote s d u"
  by (simp add: wrote_def)

lemma flush_sectors:
  assumes "I (vol s)" "length (bufSectors w) \<le> 8"
    and "\<forall>i < length (bufSectors w). valid (vol s) (bufStart w + of_nat i) \<and> length (bufSectors w ! i) = 512"
  shows "\<exists>t. on_vol (xWrite E (bufStart w) (bufSectors w)) s = (Inr (), t) \<and> wrote s (pending w (content (vol s))) t"
proof -
  obtain v where "xWrite E (bufStart w) (bufSectors w) (vol s) = (Inr (), v)" "I v" "nxt v = nxt (vol s)"
      "content v = pending w (content (vol s))" "valid v = valid (vol s)" "FSpwd v = FSpwd (vol s)"
    using write_law[OF assms] by (auto simp: pending_def)
  then show ?thesis by (intro exI[of _ "s\<lparr>vol := v\<rparr>"]) (simp add: on_vol_def wrote_def)
qed

lemma flush_ok:
  assumes "I (vol s)" "buffer_ok (valid (vol s)) w"
  shows "\<exists>w' t. buffer_flush E w s = (Inr w', t) \<and> wrote s (pending w (content (vol s))) t"
proof (cases "bufSectors w = []")
  case True
  then show ?thesis using assms by (simp add: buffer_flush_def wrote_def)
next
  case False
  have "length (bufSectors w) \<le> 8"
    "\<forall>i < length (bufSectors w). valid (vol s) (bufStart w + of_nat i) \<and> length (bufSectors w ! i) = 512"
    using assms(2) by (auto simp: buffer_ok_def)
  from flush_sectors[OF assms(1) this] show ?thesis using False by (auto simp: buffer_flush_def andThen_InrI)
qed

lemma buffered_ok:
  assumes i: "I (vol s)" and w: "buffer_ok (valid (vol s)) w" and x: "valid (vol s) x" "length b = 512"
  shows "\<exists>w' t c. Directory_BufferedWrite E x b w s = (Inr w', t) \<and> wrote s c t \<and> buffer_ok (valid (vol t)) w' \<and>
    pending w' c = (pending w (content (vol s)))(x := b) \<and> (\<forall>ys. x \<notin> set ys \<longrightarrow> apart w ys \<longrightarrow> apart w' ys)"
proof -
  let ?fresh = "\<lparr>bufStart = x, bufPrev = x, bufSectors = [b]\<rparr>"
  have fr: "buffer_ok (valid (vol t)) ?fresh" if "valid (vol t) = valid (vol s)" for t using x that by (simp add: buffer_ok_def)
  have fa: "x \<notin> set ys \<Longrightarrow> apart ?fresh ys" for ys by (auto simp: apart_def Suc_le_eq unat_gt_0)
  have wr: "wrote s (content (vol s)) s" using i by (simp add: wrote_def)
  have len: "length (bufSectors w) < 8" using w by (simp add: buffer_ok_def)
  have le: "length (bufSectors w) \<le> 8"
    and w8: "\<forall>i < length (bufSectors w). valid (vol s) (bufStart w + of_nat i) \<and> length (bufSectors w ! i) = 512"
    using w by (simp_all add: buffer_ok_def)
  consider (empty) "bufSectors w = []" | (new) "bufSectors w \<noteq> []" "bufPrev w + 1 \<noteq> x"
    | (add) "bufSectors w \<noteq> []" "bufPrev w + 1 = x" by auto
  then show ?thesis
  proof cases
    case empty
    then show ?thesis using wr fr[of s] fa pending_fresh[of x x b]
      by (intro exI[of _ ?fresh] exI[of _ s] exI[of _ "content (vol s)"])
         (simp add: Directory_BufferedWrite_def Let_def MAX_SECTORS_PER_RW_def)
  next
    case new
    obtain t where t: "on_vol (xWrite E (bufStart w) (bufSectors w)) s = (Inr (), t)" "wrote s (pending w (content (vol s))) t"
      using flush_sectors[OF i le w8] by blast
    then show ?thesis using new fr[of t] fa pending_fresh[of x x b]
      by (intro exI[of _ ?fresh] exI[of _ t] exI[of _ "pending w (content (vol s))"])
         (simp add: Directory_BufferedWrite_def Let_def andThen_InrI wrote_def)
  next
    case add
    let ?w = "w\<lparr>bufPrev := x, bufSectors := bufSectors w @ [b]\<rparr>"
    have xe: "x = bufStart w + of_nat (length (bufSectors w))" using add w by (simp add: buffer_ok_def)
    note pe = pending_append[where p = x and b = b and c = "content (vol s)", OF len xe]
    have all: "\<forall>i < length (bufSectors ?w). valid (vol s) (bufStart ?w + of_nat i) \<and> length (bufSectors ?w ! i) = 512"
      using w x xe by (auto simp: buffer_ok_def nth_append less_Suc_eq)
    have ap: "apart ?w ys" if "x \<notin> set ys" "apart w ys" for ys
    proof -
      have "unat (y - bufStart w) \<noteq> length (bufSectors w)" if "y \<in> set ys" for y
      proof
        assume "unat (y - bufStart w) = length (bufSectors w)"
        then have "of_nat (unat (y - bufStart w)) = (of_nat (length (bufSectors w)) :: u32)" by simp
        then have "y = x" using xe by (simp add: algebra_simps)
        then show False using that \<open>x \<notin> set ys\<close> by simp
      qed
      then show ?thesis using that(2) by (force simp: apart_def Suc_le_eq le_less)
    qed
    show ?thesis
    proof (cases "length (bufSectors w) = 7")
      case True
      obtain t where t: "on_vol (xWrite E (bufStart ?w) (bufSectors ?w)) s = (Inr (), t)" "wrote s (pending ?w (content (vol s))) t"
        using flush_sectors[OF i _ all] len by auto
      then show ?thesis using add True pe
        by (intro exI[of _ "?w\<lparr>bufSectors := []\<rparr>"] exI[of _ t] exI[of _ "pending ?w (content (vol s))"])
           (simp add: Directory_BufferedWrite_def Let_def andThen_InrI MAX_SECTORS_PER_RW_def buffer_ok_def apart_def)
    next
      case False
      have "buffer_ok (valid (vol s)) ?w"
        using all len False xe by (auto simp: buffer_ok_def algebra_simps)
      then show ?thesis using add False wr pe ap
        by (intro exI[of _ ?w] exI[of _ s] exI[of _ "content (vol s)"])
           (simp add: Directory_BufferedWrite_def Let_def MAX_SECTORS_PER_RW_def)
    qed
  qed
qed


lemma wrote_read:
  assumes "I (vol s)" "valid (vol s) x"
  shows "\<exists>t. on_vol (xRead1 E x) s = (Inr (content (vol s) x), t) \<and> wrote s (content (vol s)) t"
proof -
  obtain v where "xRead E x 1 (vol s) = (Inr [content (vol s) x], v)" "same (vol s) v" using read1_law[OF assms] by blast
  then show ?thesis
    by (intro exI[of _ "s\<lparr>vol := v\<rparr>"]) (simp add: xRead1_def andThen_InrI on_vol_def wrote_def same_volume_def)
qed

lemma wrote_next:
  assumes "I (vol s)" "valid (vol s) x"
  shows "\<exists>t. on_vol (on_fs (GetSectorEntryValue E x)) s = (Inr (nxt (vol s) x), t) \<and> wrote s (content (vol s)) t"
proof -
  obtain v where "on_vol (on_fs (GetSectorEntryValue E x)) s = (Inr (nxt (vol s) x), s\<lparr>vol := v\<rparr>)" "same (vol s) v"
    using step[OF assms] by blast
  then show ?thesis by (intro exI[of _ "s\<lparr>vol := v\<rparr>"]) (simp add: wrote_def same_volume_def)
qed

lemma rounds_ok:
  assumes "I (vol s)" "chain (nxt (vol s)) cur xs" "distinct xs" "\<forall>x \<in> set xs. valid (vol s) x"
    and "length rem \<le> 512 * length xs" "rem \<noteq> []" "length b = 512" "buffer_ok (valid (vol s)) w" "apart w xs"
  shows "\<exists>t d. write_rounds E inside rem b prev cur False w s = (Inr (), t) \<and> wrote s d t \<and>
    placed inside 0 rem xs (pending w (content (vol s))) d"
  using assms
proof (induction "length rem" arbitrary: rem xs cur prev w s rule: less_induct)
  case less
  note p = less.prems
  obtain ys where xs: "xs = cur # ys" "cur \<noteq> EOC" using p(2,5,6) by (cases xs) auto
  have v: "valid (vol s) cur" "cur \<notin> set ys" using p(3,4) xs by auto
  have pc: "pending w (content (vol s)) cur = content (vol s) cur" using p(9) xs by (simp add: pending_def apart_def not_less)
  have l: "length (content (vol s) cur) = 512" using content_length[OF p(1)] .
  have al: "andThen (if cur = EOC \<or> False then andThen (on_vol (on_fs (AllocateSector E))) (\<lambda>x.
              andThen (on_vol (on_fs (SetSectorEntryValue E prev x))) (\<lambda>_. ret (x, True))) else ret (cur, False)) f = f (cur, False)" for f
    using xs by simp
  show ?case
  proof (cases "length rem < 512")
    case True
    obtain t1 b' where t1: "(if \<not> False \<and> inside then on_vol (xRead1 E cur) else ret b) s = (Inr b', t1)"
        "wrote s (content (vol s)) t1" "inside \<Longrightarrow> b' = content (vol s) cur" "length b' = 512"
      using wrote_read[OF p(1) v(1)] p(1,7) l by (cases inside) (auto simp: wrote_def)
    let ?b = "rem @ drop (length rem) b'"
    have s1: "I (vol t1)" "buffer_ok (valid (vol t1)) w" "valid (vol t1) cur" "length ?b = 512" "content (vol t1) = content (vol s)"
      using t1 p(8) v(1) True by (auto simp: wrote_def)
    from buffered_ok[OF s1(1-4)] obtain w' t2 c where t2: "Directory_BufferedWrite E cur ?b w t1 = (Inr w', t2)" "wrote t1 c t2"
        "buffer_ok (valid (vol t2)) w'" "pending w' c = (pending w (content (vol s)))(cur := ?b)" unfolding s1(5) by blast
    have "I (vol t2)" "content (vol t2) = c" using t2(2) by (simp_all add: wrote_def)
    from flush_ok[OF this(1) t2(3)] obtain w2 t3 where t3: "buffer_flush E w' t2 = (Inr w2, t3)" "wrote t2 (pending w' c) t3"
      unfolding \<open>content (vol t2) = c\<close> by blast
    have "write_rounds E inside rem b prev cur False w s = (Inr (), t3)"
      using True t1(1) t2(1) t3(1) by (subst write_rounds.simps) (simp only: al, simp add: andThen_InrI)
    moreover have "wrote s (pending w' c) t3" using wrote_trans[OF t1(2) wrote_trans[OF t2(2) t3(2)]] .
    moreover have "placed inside 0 rem xs (pending w (content (vol s))) (pending w' c)"
      unfolding t2(4) xs by (rule placed_last[OF True t1(4) _ _ v(2)]) (use pc l t1(3) in auto)
    ultimately show ?thesis by blast
  next
    case False
    have b: "length (take 512 rem) = 512" using False by simp
    from buffered_ok[OF p(1,8) v(1) b] obtain w' t2 c where
      t2: "Directory_BufferedWrite E cur (take 512 rem) w s = (Inr w', t2)" "wrote s c t2" "buffer_ok (valid (vol t2)) w'"
        "pending w' c = (pending w (content (vol s)))(cur := take 512 rem)"
        "\<forall>ys. cur \<notin> set ys \<longrightarrow> apart w ys \<longrightarrow> apart w' ys" by blast
    have s2: "I (vol t2)" "content (vol t2) = c" "valid (vol t2) = valid (vol s)" "nxt (vol t2) = nxt (vol s)"
      using t2(2) by (simp_all add: wrote_def)
    show ?thesis
    proof (cases "length rem = 512")
      case True
      from flush_ok[OF s2(1) t2(3)] obtain w2 t3 where t3: "buffer_flush E w' t2 = (Inr w2, t3)" "wrote t2 (pending w' c) t3"
        unfolding s2(2) by blast
      have "write_rounds E inside rem b prev cur False w s = (Inr (), t3)"
        using True t2(1) t3(1) by (subst write_rounds.simps) (simp only: al, simp add: andThen_InrI)
      moreover have "wrote s (pending w' c) t3" using wrote_trans[OF t2(2) t3(2)] .
      moreover have "placed inside 0 rem xs (pending w (content (vol s))) (pending w' c)"
        unfolding t2(4) xs by (rule placed_step) (use True pc l v(2) in \<open>auto simp: placed_def\<close>)
      ultimately show ?thesis by blast
    next
      case more: False
      obtain t3 where t3: "on_vol (on_fs (GetSectorEntryValue E cur)) t2 = (Inr (nxt (vol s) cur), t3)" "wrote t2 c t3"
        using wrote_next[OF s2(1), of cur] v(1) s2 by auto
      have s3: "I (vol t3)" "content (vol t3) = c" "valid (vol t3) = valid (vol s)" "nxt (vol t3) = nxt (vol s)"
        using t3(2) s2 by (simp_all add: wrote_def)
      have "\<exists>t d. write_rounds E inside (drop 512 rem) b cur (nxt (vol s) cur) False w' t3 = (Inr (), t) \<and> wrote t3 d t \<and>
          placed inside 0 (drop 512 rem) ys (pending w' (content (vol t3))) d"
      proof (rule less.hyps)
        show "length (drop 512 rem) < length rem" "drop 512 rem \<noteq> []" using False more by auto
        show "length (drop 512 rem) \<le> 512 * length ys" using p(5) xs by simp
        show "apart w' ys" using t2(5) v(2) p(9) xs by (auto simp: apart_def)
        show "chain (nxt (vol t3)) (nxt (vol s) cur) ys" using p(2) xs s3 by simp
        show "buffer_ok (valid (vol t3)) w'" using t2(3) s2 s3 by simp
      qed (use p xs s3 in auto)
      then obtain t d where t: "write_rounds E inside (drop 512 rem) b cur (nxt (vol s) cur) False w' t3 = (Inr (), t)"
          "wrote t3 d t" "placed inside 0 (drop 512 rem) ys ((pending w (content (vol s)))(cur := take 512 rem)) d"
        unfolding s3(2) t2(4) by blast
      have "write_rounds E inside rem b prev cur False w s = (Inr (), t)"
        using False more t2(1) t3(1) t(1) by (subst write_rounds.simps) (simp only: al, simp add: andThen_InrI)
      moreover have "wrote s d t" using wrote_trans[OF t2(2) wrote_trans[OF t3(2) t(2)]] .
      moreover have "placed inside 0 rem xs (pending w (content (vol s))) d"
        unfolding xs by (rule placed_step[OF _ _ v(2) t(3)]) (use False pc l in auto)
      ultimately show ?thesis by blast
    qed
  qed
qed


lemma seek:
  assumes "I (vol s)" "chain (nxt (vol s)) (xs ! i) (drop i xs)" "\<forall>x \<in> set xs. valid (vol s) x" "i + n < length xs"
  shows "\<exists>t prev'. seek_sectors E n i prev (xs ! i) s = (Inr (i + n, prev', xs ! (i + n)), t) \<and> wrote s (content (vol s)) t"
  using assms
proof (induction n arbitrary: s i prev)
  case 0
  then show ?case by (simp add: wrote_def)
next
  case (Suc n)
  have il: "i < length xs" "drop i xs = xs ! i # drop (Suc i) xs" using Suc.prems(4) by (auto simp: Cons_nth_drop_Suc)
  have c: "xs ! i \<noteq> EOC" "chain (nxt (vol s)) (nxt (vol s) (xs ! i)) (drop (Suc i) xs)" using Suc.prems(2) il by auto
  have nx: "nxt (vol s) (xs ! i) = xs ! Suc i"
    using c(2) Suc.prems(4) by (cases "drop (Suc i) xs") (auto simp: nth_via_drop)
  obtain t where t: "on_vol (on_fs (GetSectorEntryValue E (xs ! i))) s = (Inr (xs ! Suc i), t)" "wrote s (content (vol s)) t"
    using wrote_next[OF Suc.prems(1), of "xs ! i"] Suc.prems(3) il nx by auto
  have "\<exists>u prev'. seek_sectors E n (Suc i) (xs ! i) (xs ! Suc i) t = (Inr (Suc i + n, prev', xs ! (Suc i + n)), u) \<and>
      wrote t (content (vol t)) u"
    by (rule Suc.IH) (use t(2) c(2) nx Suc.prems(3,4) in \<open>auto simp: wrote_def\<close>)
  then obtain u prev' where "seek_sectors E n (Suc i) (xs ! i) (xs ! Suc i) t = (Inr (Suc i + n, prev', xs ! (Suc i + n)), u)"
      "wrote t (content (vol t)) u" by blast
  then show ?case using t c(1) by (intro exI[of _ u] exI[of _ prev']) (auto simp: andThen_InrI wrote_def)
qed

text \<open>The part of \<open>Directory_ActualFileWrite\<close> after the first sector of the write has been reached.\<close>

lemma write_from_ok:
  assumes i: "I (vol s)" and ch: "chain (nxt (vol s)) cur (cur # ys)" "distinct (cur # ys)" "\<forall>x \<in> set (cur # ys). valid (vol s) x"
    and d: "data \<noteq> []" "pos + length data \<le> 512 * length (cur # ys)" "pos < 512" "length junk = 512"
  shows "\<exists>t d. write_from E inside pos data junk prev cur s = (Inr (), t) \<and>
    wrote s d t \<and> placed inside pos data (cur # ys) (content (vol s)) d"
proof (cases "pos = 0")
  case True
  have "buffer_ok (valid (vol s)) empty_wbuffer" "apart empty_wbuffer (cur # ys)"
    by (simp_all add: buffer_ok_def apart_def empty_wbuffer_def)
  moreover have "length data \<le> 512 * length (cur # ys)" using d(2) True by simp
  ultimately obtain t c where
    "write_rounds E inside data junk prev cur False empty_wbuffer s = (Inr (), t)" "wrote s c t"
    "placed inside 0 data (cur # ys) (pending empty_wbuffer (content (vol s))) c"
    using rounds_ok[OF i ch _ d(1,4)] by blast
  then show ?thesis using True by (auto simp: write_from_def empty_wbuffer_def)
next
  case False
  let ?c = "content (vol s)"
  define n where "n = min (length data) (512 - pos)"
  define bb where "bb = take pos (?c cur) @ take n data @ drop (pos + n) (?c cur)"
  have l: "length (?c x) = 512" for x using content_length[OF i] .
  have v: "valid (vol s) cur" "cur \<notin> set ys" using ch by auto
  have bl: "length bb = 512" using l[of cur] d(3) by (simp add: bb_def n_def min_def)
  obtain t1 where t1: "on_vol (xRead1 E cur) s = (Inr (?c cur), t1)" "wrote s ?c t1" using wrote_read[OF i v(1)] by blast
  have s1: "I (vol t1)" "valid (vol t1) cur" "content (vol t1) = ?c" "desc t1 = desc s" using t1(2) v(1) by (simp_all add: wrote_def)
  obtain w where w: "xWrite E cur [bb] (vol t1) = (Inr (), w)" "I w" "nxt w = nxt (vol t1)" "content w = ?c(cur := bb)"
      "valid w = valid (vol t1)" "FSpwd w = FSpwd (vol t1)"
    using write1_law[OF s1(1,2) bl] s1(3) by auto
  let ?t2 = "t1\<lparr>vol := w\<rparr>"
  have t2: "on_vol (xWrite E cur [bb]) t1 = (Inr (), ?t2)" "wrote s (?c(cur := bb)) ?t2"
    using w t1(2) by (simp_all add: on_vol_def wrote_def)
  have run: "write_from E inside pos data junk prev cur s =
      (if n = length data then ret () else andThen (on_vol (on_fs (GetSectorEntryValue E cur))) (\<lambda>uiNextSectorID.
         write_rounds E inside (drop n data) bb cur uiNextSectorID False empty_wbuffer)) ?t2"
  proof -
    have r1: "andThen (on_vol (xRead1 E cur)) f s = f (?c cur) t1" for f :: "sector \<Rightarrow> ('a fstate, dir_error, unit) comp"
      using t1(1) by (simp add: andThen_def)
    have r2: "andThen (on_vol (xWrite E cur [bb])) f t1 = f () ?t2" for f :: "unit \<Rightarrow> ('a fstate, dir_error, unit) comp"
      using t2(1) by (simp add: andThen_def)
    show ?thesis using False r2 by (simp add: write_from_def Let_def r1 n_def[symmetric] bb_def[symmetric])
  qed
  show ?thesis
  proof (cases "n = length data")
    case True
    then have fits: "pos + length data \<le> 512" using d(3) by (simp add: n_def)
    have "placed inside pos data (cur # ys) ?c (?c(cur := bb))"
      using placed_weaken[OF placed_part[where c = ?c, OF l fits v(2)]] True by (simp add: bb_def)
    then show ?thesis using run t2 True by (intro exI[of _ ?t2] exI[of _ "?c(cur := bb)"]) simp
  next
    case more: False
    then have n: "n = 512 - pos" "512 - pos < length data" by (auto simp: n_def min_def split: if_splits)
    have s2: "I (vol ?t2)" "content (vol ?t2) = ?c(cur := bb)" "nxt (vol ?t2) = nxt (vol s)" "valid (vol ?t2) = valid (vol s)"
      using t2(2) by (simp_all add: wrote_def)
    have vt: "valid (vol ?t2) cur" using s2(4) v(1) by simp
    obtain t3 where t3: "on_vol (on_fs (GetSectorEntryValue E cur)) ?t2 = (Inr (nxt (vol s) cur), t3)" "wrote ?t2 (?c(cur := bb)) t3"
      using wrote_next[OF s2(1) vt] unfolding s2(2,3) by blast
    have s3: "I (vol t3)" "content (vol t3) = ?c(cur := bb)" "nxt (vol t3) = nxt (vol s)" "valid (vol t3) = valid (vol s)"
      using t3(2) s2 by (simp_all add: wrote_def)
    have "\<exists>t d. write_rounds E inside (drop n data) bb cur (nxt (vol s) cur) False empty_wbuffer t3 = (Inr (), t) \<and>
        wrote t3 d t \<and> placed inside 0 (drop n data) ys (pending empty_wbuffer (content (vol t3))) d"
    proof (rule rounds_ok)
      show "length (drop n data) \<le> 512 * length ys" using d(2,3) n by simp
      show "drop n data \<noteq> []" using n by simp
      show "length bb = 512" by (rule bl)
    qed (use ch s3 in \<open>auto simp: buffer_ok_def apart_def empty_wbuffer_def\<close>)
    then obtain t4 e where t4: "write_rounds E inside (drop n data) bb cur (nxt (vol s) cur) False empty_wbuffer t3 = (Inr (), t4)"
        "wrote t3 e t4" "placed inside 0 (drop n data) ys (?c(cur := bb)) e" by (auto simp: s3(2) empty_wbuffer_def)
    have be: "bb = take pos (?c cur) @ take (512 - pos) data" using n l[of cur] d(3) by (simp add: bb_def)
    have "placed inside pos data (cur # ys) ?c e"
      by (rule placed_part_step[OF l _ _ v(2)]) (use t4(3) n d(3) be in simp_all)
    moreover have "wrote s e t4" using wrote_trans[OF t2(2) wrote_trans[OF t3(2) t4(2)]] .
    ultimately show ?thesis using run more t3(1) t4(1) by (intro exI[of _ t4] exI[of _ e]) (simp add: andThen_def)
  qed
qed


lemma ActualFileWrite:
  assumes i: "I (vol s)" and f: "chain (nxt (vol s)) (startSectorID dirFile) xs" "distinct xs" "\<forall>x \<in> set xs. valid (vol s) x"
    and fd: "on_chain xs (desc s)" and d: "data \<noteq> []" "unat (offset (desc s)) + length data \<le> 512 * length xs"
    and b: "512 * length xs < 2 ^ 32" "length junk = 512"
  shows "\<exists>t d. Directory_ActualFileWrite E junk data dirFile s = (Inr dirFile, t) \<and> I (vol t) \<and> nxt (vol t) = nxt (vol s) \<and>
    valid (vol t) = valid (vol s) \<and> FSpwd (vol t) = FSpwd (vol s) \<and> content (vol t) = d \<and> on_chain xs (desc t) \<and>
    placed (unat (offset (desc s)) + length data < unat (nodeSize dirFile)) (unat (offset (desc s))) data xs (content (vol s)) d"
proof -
  let ?o = "unat (offset (desc s))"
  define target where "target = ?o div 512"
  define pos where "pos = ?o mod 512"
  define inside where "inside = (offset (desc s) + word_of_nat (length data) < nodeSize dirFile)"
  have split: "512 * target + pos = ?o" "pos < 512" by (simp_all add: target_def pos_def)
  have dl: "0 < length data" using d(1) by simp
  have tl: "target < length xs" using d(2) dl split by linarith
  have "?o + length data < 2 ^ 32" using d(2) b(1) by linarith
  then have "unat (offset (desc s) + word_of_nat (length data)) = ?o + length data"
    by (simp add: unat_word_ariths unat_of_nat mod_simps)
  then have ins: "inside \<longleftrightarrow> ?o + length data < unat (nodeSize dirFile)" by (simp add: inside_def word_less_nat_alt)
  obtain i0 where sp: "start_point (desc s) target (startSectorID dirFile) = (i0, xs ! i0)" "i0 \<le> target"
    using start_on_chain[OF f(1) _ fd tl] tl by fastforce
  have il: "i0 < length xs" "i0 + (target - i0) < length xs" "i0 + (target - i0) = target" using sp(2) tl by simp_all
  obtain t1 prev where t1: "seek_sectors E (target - i0) i0 EOC (xs ! i0) s = (Inr (target, prev, xs ! target), t1)"
      "wrote s (content (vol s)) t1"
    using seek[OF i chain_drop[OF f(1) il(1)] f(3) il(2), of EOC] unfolding il(3) by blast
  let ?t2 = "t1\<lparr>desc := (desc t1)\<lparr>lastReadSectorIndex := int target, lastReadSectorNo := xs ! target\<rparr>\<rparr>"
  have zs: "drop target xs = xs ! target # drop (Suc target) xs" using tl by (simp add: Cons_nth_drop_Suc)
  have s2: "I (vol ?t2)" "nxt (vol ?t2) = nxt (vol s)" "content (vol ?t2) = content (vol s)" "valid (vol ?t2) = valid (vol s)"
      "FSpwd (vol ?t2) = FSpwd (vol s)" "desc t1 = desc s"
    using t1(2) by (simp_all add: wrote_def)
  have "xs ! target \<noteq> EOC" by (rule chain_nth_noteq[OF f(1) tl])
  have "chain (nxt (vol ?t2)) (xs ! target) (drop target xs)" using chain_drop[OF f(1) tl] s2(2) by simp
  moreover have "distinct (drop target xs)" using f(2) by simp
  moreover have "\<forall>x \<in> set (drop target xs). valid (vol ?t2) x" using f(3) s2(4) by (metis in_set_dropD)
  moreover have "pos + length data \<le> 512 * length (drop target xs)" using d(2) split by (simp add: diff_mult_distrib2)
  ultimately have pre: "chain (nxt (vol ?t2)) (xs ! target) (xs ! target # drop (Suc target) xs)"
      "distinct (xs ! target # drop (Suc target) xs)" "\<forall>x \<in> set (xs ! target # drop (Suc target) xs). valid (vol ?t2) x"
      "pos + length data \<le> 512 * length (xs ! target # drop (Suc target) xs)"
    unfolding zs by blast+
  obtain t e where t: "wrote ?t2 e t" "placed inside pos data (drop target xs) (content (vol s)) e"
    "write_from E inside pos data junk prev (xs ! target) ?t2 = (Inr (), t)"
    using write_from_ok[OF s2(1) pre(1-3) d(1) pre(4) split(2) b(2)] unfolding zs s2(3) by blast
  have "Directory_ActualFileWrite E junk data dirFile s = (Inr dirFile, t)"
    using t1(1) t(3) sp(1) \<open>xs ! target \<noteq> EOC\<close>
    by (simp add: Directory_ActualFileWrite_def Let_def target_def[symmetric] pos_def[symmetric] inside_def[symmetric]
        andThen_InrI SetLast_run)
  moreover have "placed inside ?o data xs (content (vol s)) e"
    using placed_skip[of "content (vol s)" target xs inside pos data e] content_length[OF i] tl f(2) t(2) split(1) by simp
  moreover have "on_chain xs (desc t)" using t(1) tl by (simp add: wrote_def on_chain_def)
  ultimately show ?thesis using t(1) s2 ins by (auto simp: wrote_def)
qed

end

end
