(* ===== verification/FileTheorems.thy ===== *)
theory FileTheorems
  imports DirProperties FileWriting
begin

text \<open>
  The properties of directories and files on the drive of the kernel: with the cache of sectors enabled where single
  sectors are transferred, and on the device itself where several sectors are.
\<close>

section \<open>A volume with one file\<close>

definition root_entry :: Node where
  "root_entry = (InitAsRoot layout_lib 0 0)\<lparr>attribute := 0x41FF, startSectorID := 1, nodeSize := 1\<rparr>"

definition file_entry :: Node where
  "file_entry = (Node_Init 0 ''a'' 0x81FF 0 0 0)\<lparr>startSectorID := 2, nodeSize := 515\<rparr>"

definition root_pwd :: PWD where
  "root_pwd = \<lparr>DirEntry = root_entry, uiSectorNo = 0, bSectorEntryPosition = 0\<rparr>"

definition demo_sectors :: "(u32 \<times> sector) list" where
  "demo_sectors = [(0, entry_put zero_sector 0 root_entry), (1, entry_put zero_sector 0 file_entry),
     (2, replicate 512 7), (3, [1, 2, 3] @ replicate 509 0)]"

text \<open>Sector 0 holds the root, sector 1 its one entry, sectors 2 and 3 the file's 515 bytes.\<close>

definition demo_volume :: "bool \<Rightarrow> drive volume" where
  "demo_volume useCache = small_volume useCache [EOC, EOC, 3, EOC] demo_sectors root_pwd"


lemma demo_ok: "sectors_ok [EOC, EOC, 3, EOC] demo_sectors"
proof -
  have "length (entry_put zero_sector 0 n) = 512" if "plain_name (nodeName n)" for n
    using that layout_ok by (simp add: entry_put_def length_node_bytes zero_sector_def)
  then show ?thesis
    by (simp add: sectors_ok_def demo_sectors_def root_entry_def file_entry_def InitAsRoot_def Node_Init_def FS_ROOT_DIR_def plain_name_def)
qed

lemma demo_parts:
  assumes "\<And>y. y < 300 \<Longrightarrow> good (small_drive c [EOC, EOC, 3, EOC] demo_sectors) y"
    and "look (small_drive c [EOC, EOC, 3, EOC] demo_sectors) = disk (small_drive c [EOC, EOC, 3, EOC] demo_sectors)"
  shows "x \<le> 255 \<Longrightarrow> vol_valid good data_area (demo_volume c) x"
    "x \<le> 255 \<Longrightarrow> vol_content look good data_area (demo_volume c) x = disk_of demo_sectors x"
    "vol_next look good data_area (demo_volume c) 1 = EOC" "vol_next look good data_area (demo_volume c) 2 = 3"
    "vol_next look good data_area (demo_volume c) 3 = EOC"
proof -
  show "x \<le> 255 \<Longrightarrow> vol_valid good data_area (demo_volume c) x"
    unfolding demo_volume_def by (rule small_valid) (use assms in auto)
  show "x \<le> 255 \<Longrightarrow> vol_content look good data_area (demo_volume c) x = disk_of demo_sectors x"
    unfolding demo_volume_def by (rule small_content) (use assms in auto)
  have n: "vol_next look good data_area (demo_volume c) y = [EOC, EOC, 3, EOC] ! unat y AND EOC" if "unat y < 4" for y
    unfolding demo_volume_def by (rule small_next) (use assms that in auto)
  show "vol_next look good data_area (demo_volume c) 1 = EOC" "vol_next look good data_area (demo_volume c) 2 = 3"
    "vol_next look good data_area (demo_volume c) 3 = EOC"
    using n[of 1] n[of 2] n[of 3] by (simp_all add: EOC_def)
qed

lemma demo_entry: "entry_get (disk_of demo_sectors 1) 0 = file_entry"
  using entry_get_put[of zero_sector 0 0 file_entry]
  by (simp add: disk_of_def demo_sectors_def zero_sector_def file_entry_def Node_Init_def plain_name_def)

lemma demo_finds:
  assumes "\<And>y. y < 300 \<Longrightarrow> good (small_drive c [EOC, EOC, 3, EOC] demo_sectors) y"
    and "look (small_drive c [EOC, EOC, 3, EOC] demo_sectors) = disk (small_drive c [EOC, EOC, 3, EOC] demo_sectors)"
  shows "finds layout_lib (vol_next look good data_area (demo_volume c)) (vol_content look good data_area (demo_volume c))
     (vol_valid good data_area (demo_volume c)) root_entry [1] ''a'' (1, 0)"
proof -
  note p = demo_parts[where good = good and look = look, OF assms]
  let ?c = "vol_content look good data_area (demo_volume c)"
  have e: "entry_get (?c 1) 0 = file_entry" using p(2)[of 1] demo_entry by simp
  have l: "live layout_lib ?c (1, 0)" and n: "entry_named layout_lib ?c ''a'' (1, 0)"
    using e by (simp_all add: live_def entry_named_def IsDeleted_def file_entry_def Node_Init_def)
  have "dir_slots [1] = (1, 0) # map (Pair 1) [1..<7]" by (simp add: dir_slots_def DIR_ENTRIES_PER_SECTOR_def upt_conv_Cons)
  then have "searched layout_lib ?c 1 (dir_slots [1]) = [(1, 0)]" using l by (cases "map (Pair 1) [1..<7] :: (u32 \<times> nat) list") auto
  then show ?thesis using n p(1)[of 1] p(3)
    by (simp add: finds_def root_entry_def InitAsRoot_def Node_Init_def IsDirectory_def DIR_SPECIAL_CURRENT_def
        DIR_SPECIAL_PARENT_def EOC_def)
qed

lemma demo_drive_raw:
  "\<And>y. y < 300 \<Longrightarrow> raw_good (small_drive c [EOC, EOC, 3, EOC] demo_sectors) y"
  "raw_look (small_drive c [EOC, EOC, 3, EOC] demo_sectors) = disk (small_drive c [EOC, EOC, 3, EOC] demo_sectors)"
  using small_good small_raw_look by auto

lemma demo_drive_cached:
  "\<And>y. y < 300 \<Longrightarrow> drive_good (small_drive c [EOC, EOC, 3, EOC] demo_sectors) y"
  "drive_look (small_drive c [EOC, EOC, 3, EOC] demo_sectors) = disk (small_drive c [EOC, EOC, 3, EOC] demo_sectors)"
  using small_good small_look by auto

lemma demo_volume_inv: "vol_inv raw_ok raw_look raw_good D (demo_volume False)"
    "vol_inv (drive_ok plain_lib) drive_look drive_good D (demo_volume True)"
  unfolding demo_volume_def using small_raw_inv[OF demo_ok] small_cached_inv[OF demo_ok] by blast+

lemma demo_root: "DirEntry (FSpwd (demo_volume c)) = root_entry"
  by (simp add: demo_volume_def small_volume_simps root_pwd_def)

lemma demo_tokens: "path_tokens ''/a'' = [''a'']" "path_tokens ''/b'' = [''b'']"
  by (simp_all add: path_tokens_def)

section \<open>Properties\<close>

text \<open>C8: searching a directory on a cached drive finds the first of its entries with the name, and leaves the volume as
  it was; if there is none, the slot handed out for a new entry is not the slot of an entry. \<open>search_result\<close> compares
  the result with a search of the list of slots.\<close>

theorem FindDirectory_searches:
  assumes "vol_inv (drive_ok L) drive_look drive_good D v"
    and "IsDirectory N (DirEntry cwd)" "szDirName \<noteq> DIR_SPECIAL_CURRENT" "szDirName \<noteq> DIR_SPECIAL_PARENT"
    and "chain (vol_next drive_look drive_good D v) (startSectorID (DirEntry cwd)) xs" "distinct xs"
    and "\<forall>x \<in> set xs. vol_valid drive_good D v x" "length xs < loop_bound N" "0 < nodeSize (DirEntry cwd)"
  shows "\<exists>r t. Directory_FindDirectory N (drive_env L u) cwd szDirName dest v = (Inr r, t) \<and>
    same_vol (drive_ok L) drive_look drive_good D v t \<and>
    search_result N (vol_content drive_look drive_good D v) szDirName (unat (nodeSize (DirEntry cwd))) xs None r"
  using fv.vs.FindDirectory_spec[OF assms] .

lemma FindDirectory_searches_witness:
  "\<exists>t. Directory_FindDirectory layout_lib small_env root_pwd ''a'' [] (demo_volume True) = (Inr (True, 1, 0, disk_of demo_sectors 1), t)"
proof -
  note p = demo_parts[where good = drive_good and look = drive_look, OF demo_drive_cached]
  note f = demo_finds[where good = drive_good and look = drive_look, OF demo_drive_cached, unfolded finds_def]
  obtain r t where r: "Directory_FindDirectory layout_lib small_env root_pwd ''a'' [] (demo_volume True) = (Inr r, t)"
      "search_result layout_lib (vol_content drive_look drive_good data_area (demo_volume True)) ''a'' 1 [1] None r"
    using FindDirectory_searches[OF demo_volume_inv(2), of layout_lib root_pwd "''a''" data_area "[1]" blank_entry "[]"] f
    by (auto simp: root_pwd_def root_entry_def)
  then show ?thesis using f p(2)[of 1] by (auto simp: search_result_def root_entry_def)
qed





text \<open>C38: a descriptor that was opened on an empty file remembers that the file has no first sector, and keeps remembering it
  when the file is written through another descriptor: reading through it returns nothing, however long the file is.\<close>

theorem FileRead_stale_descriptor:
  assumes "Directory_ReadDirEntryInfo N E cwd szFile (vol s) = (Inr r, w)" "\<not> IsDirectory N (slot_node N r)"
    and "desc s = FileDescriptor_new N pid fd 0 szFile drive 0 EOC" "0 < nodeSize (slot_node N r)" "unat (nodeSize (slot_node N r)) < 2 ^ 31"
  shows "\<exists>t. Directory_FileRead N E cwd uiDataSize s = (Inr [], t) \<and> vol t = w"
proof -
  have d: "fileName (desc s) = szFile" "offset (desc s) = 0" "lastReadSectorIndex (desc s) = 0" "lastReadSectorNo (desc s) = EOC"
    by (simp_all add: assms(3) FileDescriptor_new_def)
  have sp: "start_point (desc s) 0 x = (0, EOC)" for x by (simp add: start_point_def Directory_GetLastReadSectorDetails_def d)
  have w: "unat (read_wanted uiDataSize (nodeSize (slot_node N r))) < 2147483648"
    using assms(5) by (auto simp: read_wanted_def word_less_nat_alt)
  have "on_vol (Directory_ReadDirEntryInfo N E cwd szFile) s = (Inr r, s\<lparr>vol := w\<rparr>)" using assms(1) by (rule on_vol_Inr)
  then show ?thesis
    using assms(2,4) w
    by (auto simp: Directory_FileRead_def Let_def d sp andThen_InrI SetLast_run not_le)
qed

lemma FileRead_stale_descriptor_witness:
  "\<exists>t. Directory_FileRead layout_lib small_env root_pwd 100
    \<lparr>vol = demo_volume False, desc = FileDescriptor_new layout_lib 1 0 0 ''/a'' 0 0 EOC\<rparr> = (Inr [], t)"
proof -
  note p = demo_parts[where good = raw_good and look = raw_look, OF demo_drive_raw]
  note f = demo_finds[where good = raw_good and look = raw_look, OF demo_drive_raw]
  let ?v = "demo_volume False" and ?c = "vol_content raw_look raw_good data_area (demo_volume False)"
  have e: "slot_node layout_lib (1, 0, ?c 1) = file_entry" using p(2)[of 1] demo_entry by (simp add: slot_node_def)
  have "leads layout_lib (vol_next raw_look raw_good data_area ?v) ?c (vol_valid raw_good data_area ?v)
      (DirEntry (if hd ''/a'' = CHR ''/'' then FSpwd ?v else root_pwd)) (path_tokens ''/a'') (1, 0)"
    unfolding demo_tokens by (simp add: demo_root leads_last[OF f])
  from rv.vs.ReadDirEntryInfo[OF demo_volume_inv(1) _ _ _ _ this, of plain_lib blank_entry] obtain w where
    w: "Directory_ReadDirEntryInfo layout_lib small_env root_pwd ''/a'' ?v = (Inr (1, 0, ?c 1), w)"
    by (auto simp: demo_tokens FS_ROOT_DIR_def)
  show ?thesis
    using FileRead_stale_descriptor[of layout_lib small_env root_pwd "''/a''"
        "\<lparr>vol = ?v, desc = FileDescriptor_new layout_lib 1 0 0 ''/a'' 0 0 EOC\<rparr>" "(1, 0, ?c 1)" w 1 0 0 100] w e
    by (auto simp: file_entry_def Node_Init_def IsDirectory_def)
qed

end
