(* ===== verification/IoTable.thy ===== *)
theory IoTable
  imports FileData
begin

text \<open>
  The descriptor tables of processes: \<open>io/IODescriptorTable.cpp\<close> and the descriptors it holds
  (\<open>io/RedirectDescriptor.cpp\<close>, \<open>io/StreamBufferDescriptor.cpp\<close>, \<open>io/NullDescriptor.cpp\<close>; files are
  \<open>FileDescriptor\<close> of \<open>FileData\<close>).

  A table is the list of its entries; the tables of all processes are one state because a redirected descriptor names a
  descriptor of another process, found through \<open>ProcessManager::GetProcess\<close>. A reference to a descriptor is its process and
  number. The byte queue behind a stream is a class of the upan library; it is the parameter \<open>stream_lib\<close>, of which
  \<open>stream_lib_ok\<close> states that it is first-in first-out.
\<close>

section \<open>State\<close>

datatype dkind =
    FileD FileDescriptor
  | Redirect int int              \<comment> \<open>\<open>_parentPid\<close> and \<open>_parentDescId\<close>\<close>
  | Stream "u8 list" nat          \<comment> \<open>the queue and its capacity\<close>
  | NullD

record io_desc =
  dPid :: int
  dId :: int
  dMode :: u32
  refCount :: int
  dKind :: dkind

record iod_table =
  fdIdCounter :: int
  iodMap :: "(int \<times> io_desc) list"

text \<open>The descriptor tables by process.\<close>

type_synonym io_state = "(int \<times> iod_table) list"

datatype fd_error =
    InvalidDescriptor int | TooManyFiles | DuplicateEntry | DescriptorOpen int | SameAsParent int | BrokenRedirect int
  | WouldBlock     \<comment> \<open>the process waits on the descriptor and tries again\<close>
  | UseAfterFree | NeverReturns

record stream_lib =
  q_read :: "u8 list \<Rightarrow> nat \<Rightarrow> u8 list \<times> u8 list"
  q_write :: "nat \<Rightarrow> u8 list \<Rightarrow> u8 list \<Rightarrow> nat \<times> u8 list"
  q_full :: "nat \<Rightarrow> u8 list \<Rightarrow> bool"
  O_WR_NONBLOCK :: u32
  O_RD_NONBLOCK :: u32
  O_APPEND_MODE :: u32

definition stream_lib_ok :: "stream_lib \<Rightarrow> bool" where
  "stream_lib_ok Q \<longleftrightarrow>
     (\<forall>q n. q_read Q q n = (take n q, drop n q)) \<and>
     (\<forall>c q d. q_write Q c q d = (min (length d) (c - length q), q @ take (c - length q) d)) \<and>
     (\<forall>c q. q_full Q c q \<longleftrightarrow> c \<le> length q)"

definition NO_PROCESS_ID :: int where "NO_PROCESS_ID = -1"

definition STDIN :: int where "STDIN = 0"
definition STDOUT :: int where "STDOUT = 1"
definition STDERR :: int where "STDERR = 2"
definition PROC_SYS_MAX_OPEN_FILES :: nat where "PROC_SYS_MAX_OPEN_FILES = 4096"

section \<open>Lookup\<close>

definition lookup_fd :: "io_state \<Rightarrow> int \<Rightarrow> int \<Rightarrow> io_desc option" where
  "lookup_fd s pid fd = (case map_of s pid of None \<Rightarrow> None | Some t \<Rightarrow> map_of (iodMap t) fd)"

definition set_fd :: "int \<Rightarrow> int \<Rightarrow> io_desc \<Rightarrow> io_state \<Rightarrow> io_state" where
  "set_fd pid fd d s = map (\<lambda>(p, t). (p, if p = pid then t\<lparr>iodMap := map (\<lambda>(f, e). (f, if f = fd then d else e)) (iodMap t)\<rparr> else t)) s"

definition update_table :: "int \<Rightarrow> (iod_table \<Rightarrow> iod_table) \<Rightarrow> io_state \<Rightarrow> io_state" where
  "update_table pid f s = map (\<lambda>(p, t). (p, if p = pid then f t else t)) s"

definition iod_get :: "int \<Rightarrow> int \<Rightarrow> (io_state, fd_error, io_desc) comp" where
  "iod_get pid fd s = (case lookup_fd s pid fd of None \<Rightarrow> throw (InvalidDescriptor fd) s | Some d \<Rightarrow> ret d s)"

text \<open>
  \<open>getRealDescriptor\<close> follows redirected descriptors; the recursion ends when a descriptor is not redirected.
  \<open>None\<close> is a chain of descriptors that never ends.
\<close>

partial_function (option) real_of :: "io_state \<Rightarrow> int \<Rightarrow> int \<Rightarrow> (fd_error + int \<times> int) option" where
  "real_of s pid fd =
     (case lookup_fd s pid fd of
        None \<Rightarrow> Some (Inl (InvalidDescriptor fd))
      | Some d \<Rightarrow> (case dKind d of
          Redirect p f \<Rightarrow> if map_of s p = None then Some (Inl (BrokenRedirect (dId d))) else real_of s p f
        | _ \<Rightarrow> Some (Inr (pid, fd))))"

definition getRealNonDupped :: "int \<Rightarrow> int \<Rightarrow> (io_state, fd_error, int \<times> int) comp" where
  "getRealNonDupped pid fd s = (case real_of s pid fd of None \<Rightarrow> throw NeverReturns s | Some (Inl e) \<Rightarrow> throw e s | Some (Inr r) \<Rightarrow> ret r s)"

definition getParentDescriptor :: "io_desc \<Rightarrow> (io_state, fd_error, (int \<times> int) option) comp" where
  "getParentDescriptor d s =
     (case dKind d of
        Redirect p f \<Rightarrow> if map_of s p = None then throw (BrokenRedirect (dId d)) s
                         else andThen (getRealNonDupped p f) (\<lambda>r. ret (Some r)) s
      | _ \<Rightarrow> ret None s)"

definition add_refs :: "int \<Rightarrow> int \<Rightarrow> int \<Rightarrow> io_state \<Rightarrow> io_state" where
  "add_refs n pid fd s = (case lookup_fd s pid fd of None \<Rightarrow> s | Some d \<Rightarrow> set_fd pid fd (d\<lparr>refCount := refCount d + n\<rparr>) s)"

section \<open>New descriptors\<close>

definition new_desc :: "int \<Rightarrow> int \<Rightarrow> u32 \<Rightarrow> dkind \<Rightarrow> io_desc" where
  "new_desc pid fd m k = \<lparr>dPid = pid, dId = fd, dMode = m, refCount = 1, dKind = k\<rparr>"

definition StreamBufferDescriptor :: "stream_lib \<Rightarrow> int \<Rightarrow> nat \<Rightarrow> u32 \<Rightarrow> int \<Rightarrow> (io_state, fd_error, io_desc) comp" where
  "StreamBufferDescriptor Q pid bufSize m fd = ret (new_desc pid fd (O_APPEND_MODE Q OR m) (Stream [] bufSize))"

definition NullDescriptor :: "stream_lib \<Rightarrow> int \<Rightarrow> int \<Rightarrow> (io_state, fd_error, io_desc) comp" where
  "NullDescriptor Q pid fd = ret (new_desc pid fd (O_APPEND_MODE Q) NullD)"

text \<open>The parent is named by its process and number.\<close>

definition RedirectDescriptor :: "int \<Rightarrow> int \<Rightarrow> int \<Rightarrow> int \<Rightarrow> (io_state, fd_error, io_desc) comp" where
  "RedirectDescriptor pid ppid pfd fd =
     andThen (iod_get ppid pfd) (\<lambda>p.
       if dPid p = pid \<and> dId p = fd then throw (SameAsParent fd)
       else andThen (modify (add_refs 1 ppid pfd)) (\<lambda>_. ret (new_desc pid fd (dMode p) (Redirect (dPid p) (dId p)))))"

definition iod_allocate :: "int \<Rightarrow> (int \<Rightarrow> (io_state, fd_error, io_desc) comp) \<Rightarrow> (io_state, fd_error, int) comp" where
  "iod_allocate pid descriptorBuilder s =
     (case map_of s pid of
        None \<Rightarrow> throw (BrokenRedirect pid) s
      | Some t \<Rightarrow>
          if PROC_SYS_MAX_OPEN_FILES \<le> length (iodMap t) then throw TooManyFiles s
          else let fd = fdIdCounter t
               in andThen (modify (update_table pid (\<lambda>t. t\<lparr>fdIdCounter := fd + 1\<rparr>))) (\<lambda>_.
                  andThen (descriptorBuilder fd) (\<lambda>d.
                  if fd \<in> set (map fst (iodMap t)) then throw DuplicateEntry
                  else andThen (modify (update_table pid (\<lambda>t. t\<lparr>iodMap := iodMap t @ [(fd, d)]\<rparr>))) (\<lambda>_. ret fd))) s)"

section \<open>Closing and duplicating\<close>

definition iod_free :: "int \<Rightarrow> int \<Rightarrow> (io_state, fd_error, unit) comp" where
  "iod_free pid fd =
     andThen (iod_get pid fd) (\<lambda>e.
       if refCount e > 1 then throw (DescriptorOpen fd)
       else andThen (modify (add_refs (- 1) pid fd)) (\<lambda>_.
            andThen (getParentDescriptor e) (\<lambda>p.
            andThen (case p of None \<Rightarrow> ret () | Some (pp, pf) \<Rightarrow> modify (add_refs (- 1) pp pf)) (\<lambda>_.
            modify (update_table pid (\<lambda>t. t\<lparr>iodMap := filter (\<lambda>(f, _). f \<noteq> fd) (iodMap t)\<rparr>))))))"

definition iod_dup2 :: "int \<Rightarrow> int \<Rightarrow> int \<Rightarrow> (io_state, fd_error, unit) comp" where
  "iod_dup2 pid oldFD newFD =
     andThen (iod_get pid oldFD) (\<lambda>_.
     andThen (iod_get pid newFD) (\<lambda>_.
     andThen (iod_free pid newFD) (\<lambda>_.
     if oldFD = newFD then throw UseAfterFree
     else andThen (RedirectDescriptor pid pid oldFD newFD) (\<lambda>d.
          modify (update_table pid (\<lambda>t. t\<lparr>iodMap := iodMap t @ [(newFD, d)]\<rparr>))))))"

section \<open>Tables of processes\<close>

definition IODescriptorTable_new :: "stream_lib \<Rightarrow> int \<Rightarrow> int \<Rightarrow> (io_state, fd_error, unit) comp" where
  "IODescriptorTable_new Q pid parentPid =
     andThen (modify (\<lambda>s. s @ [(pid, \<lparr>fdIdCounter = 0, iodMap = []\<rparr>)])) (\<lambda>_.
     if pid = NO_PROCESS_ID
     then andThen (iod_allocate pid (StreamBufferDescriptor Q pid 4096 (O_WR_NONBLOCK Q))) (\<lambda>_.
          andThen (iod_allocate pid (StreamBufferDescriptor Q pid 4096 (O_WR_NONBLOCK Q))) (\<lambda>stdoutFD.
          andThen (iod_allocate pid (RedirectDescriptor pid pid stdoutFD)) (\<lambda>_. ret ())))
     else andThen (iod_allocate pid (RedirectDescriptor pid parentPid STDIN)) (\<lambda>_.
          andThen (iod_allocate pid (RedirectDescriptor pid parentPid STDOUT)) (\<lambda>_.
          andThen (iod_allocate pid (RedirectDescriptor pid parentPid STDERR)) (\<lambda>_. ret ()))))"

text \<open>The destructor deletes the descriptors.\<close>

definition IODescriptorTable_delete :: "int \<Rightarrow> io_state \<Rightarrow> io_state" where
  "IODescriptorTable_delete pid s = filter (\<lambda>(p, _). p \<noteq> pid) s"

text \<open>The new standard descriptors replace the old ones whatever they are.\<close>

definition replace_std :: "int \<Rightarrow> int \<Rightarrow> io_desc \<Rightarrow> io_state \<Rightarrow> io_state" where
  "replace_std pid fd d = update_table pid (\<lambda>t. t\<lparr>iodMap :=
     (if fd \<in> set (map fst (iodMap t)) then map (\<lambda>(f, e). (f, if f = fd then d else e)) (iodMap t)
      else iodMap t @ [(fd, d)])\<rparr>)"

definition setupStreamedStdio :: "stream_lib \<Rightarrow> int \<Rightarrow> (io_state, fd_error, unit) comp" where
  "setupStreamedStdio Q pid =
     andThen (StreamBufferDescriptor Q pid 4096 (O_WR_NONBLOCK Q) STDOUT) (\<lambda>d.
     andThen (modify (replace_std pid STDOUT d)) (\<lambda>_.
     andThen (StreamBufferDescriptor Q pid 4096 (O_WR_NONBLOCK Q) STDIN) (\<lambda>d.
     modify (replace_std pid STDIN d))))"

definition setupNullStdio :: "stream_lib \<Rightarrow> int \<Rightarrow> (io_state, fd_error, unit) comp" where
  "setupNullStdio Q pid =
     andThen (NullDescriptor Q pid STDOUT) (\<lambda>d.
     andThen (modify (replace_std pid STDOUT d)) (\<lambda>_.
     andThen (NullDescriptor Q pid STDIN) (\<lambda>d.
     modify (replace_std pid STDIN d))))"

section \<open>Reading, writing and waiting\<close>

text \<open>
  Operations on a descriptor that is not a file: redirected descriptors pass them on to the real one. \<open>Some\<close> results
  are bytes read and the number of bytes written; a file answers \<open>None\<close>, and is read and written by \<open>FileData\<close>.
\<close>

definition iod_read :: "stream_lib \<Rightarrow> int \<Rightarrow> int \<Rightarrow> nat \<Rightarrow> (io_state, fd_error, u8 list option) comp" where
  "iod_read Q pid fd len =
     andThen (getRealNonDupped pid fd) (\<lambda>(p, f).
     andThen (iod_get p f) (\<lambda>d.
       case dKind d of
         Stream q c \<Rightarrow>
           if q \<noteq> [] then (case q_read Q q len of (out, q') \<Rightarrow> andThen (modify (set_fd p f (d\<lparr>dKind := Stream q' c\<rparr>))) (\<lambda>_. ret (Some out)))
           else if dMode d AND O_RD_NONBLOCK Q \<noteq> 0 then ret (Some []) else throw WouldBlock
       | NullD \<Rightarrow> ret (Some (replicate len 0))
       | _ \<Rightarrow> ret None))"

definition iod_write :: "stream_lib \<Rightarrow> int \<Rightarrow> int \<Rightarrow> u8 list \<Rightarrow> (io_state, fd_error, nat option) comp" where
  "iod_write Q pid fd data =
     andThen (getRealNonDupped pid fd) (\<lambda>(p, f).
     andThen (iod_get p f) (\<lambda>d.
       case dKind d of
         Stream q c \<Rightarrow>
           if dPid d = NO_PROCESS_ID \<and> dId d = STDOUT then ret (Some (length data))
           else if \<not> q_full Q c q
           then (case q_write Q c q data of (n, q') \<Rightarrow> andThen (modify (set_fd p f (d\<lparr>dKind := Stream q' c\<rparr>))) (\<lambda>_. ret (Some n)))
           else if dMode d AND O_WR_NONBLOCK Q \<noteq> 0 then ret (Some 0) else throw WouldBlock
       | NullD \<Rightarrow> ret (Some (length data))
       | _ \<Rightarrow> ret None))"

definition iod_canRead :: "int \<Rightarrow> int \<Rightarrow> (io_state, fd_error, bool) comp" where
  "iod_canRead pid fd =
     andThen (getRealNonDupped pid fd) (\<lambda>(p, f).
     andThen (iod_get p f) (\<lambda>d. ret (case dKind d of Stream q c \<Rightarrow> q \<noteq> [] | _ \<Rightarrow> True)))"

definition iod_canWrite :: "stream_lib \<Rightarrow> int \<Rightarrow> int \<Rightarrow> (io_state, fd_error, bool) comp" where
  "iod_canWrite Q pid fd =
     andThen (getRealNonDupped pid fd) (\<lambda>(p, f).
     andThen (iod_get p f) (\<lambda>d. ret (case dKind d of Stream q c \<Rightarrow> \<not> q_full Q c q | _ \<Rightarrow> True)))"

datatype IO_OP_TYPES = IO_Read | IO_Write

fun selectCheck :: "stream_lib \<Rightarrow> int \<Rightarrow> (int \<times> IO_OP_TYPES) list \<Rightarrow> (io_state, fd_error, (int \<times> IO_OP_TYPES) list) comp" where
  "selectCheck Q pid [] = ret []"
| "selectCheck Q pid ((fd, ioType) # ds) =
     andThen (case ioType of IO_Read \<Rightarrow> iod_canRead pid fd | IO_Write \<Rightarrow> iod_canWrite Q pid fd) (\<lambda>ready.
     andThen (selectCheck Q pid ds) (\<lambda>rs. ret (if ready then (fd, ioType) # rs else rs)))"

end
