(* ===== verification/Scheduler.thy ===== *)
theory Scheduler
  imports IoTable
begin

text \<open>
  Processes and their scheduler: \<open>process/ProcessManager.cpp\<close>, \<open>process/SchedulableProcess.cpp\<close>,
  \<open>process/AutonomousProcess.cpp\<close>, \<open>process/ProcessGroup.cpp\<close>, with the timer flags of \<open>kernel/PIT.cpp\<close>, the interrupt
  counters of \<open>kernel/IrqManager.cpp\<close> and \<open>kernel/ResourceMutex.cpp\<close>.

  The processes are one table from process ids to their data, the lists of the scheduler hold process ids, and an
  iterator into a list is the element it stands on, \<open>None\<close> at the end. What the machine does between the switch to a process
  and the switch back is the function \<open>runProcess\<close> of the record \<open>cpu\<close>; the virtual functions of a process that deal with
  its memory and registers are the other functions of it, on a machine state \<open>'m\<close>.
\<close>

section \<open>State\<close>

datatype PROCESS_STATUS =
    NEW | RUN | WAIT_SLEEP | WAIT_INT | WAIT_CHILD | TERMINATED | RELEASED | WAIT_RESOURCE | WAIT_KERNEL_SERVICE
  | WAIT_EVENT | WAIT_IO_DESCRIPTORS

datatype RESOURCE_KEYS =
    RESOURCE_NIL | RESOURCE_FDD | RESOURCE_HDD | RESOURCE_UHCI_FRM_BUF | RESOURCE_USD | RESOURCE_GENERIC_DISK

definition MAX_NO_PROCESS :: int where "MAX_NO_PROCESS = 3500"
definition NO_IRQ :: int where "NO_IRQ = 999"

record ProcessStateInfo =
  sleepTime :: u32
  waitIrq :: int
  waitChildProcId :: int
  waitResourceId :: RESOURCE_KEYS
  eventCompleted :: bool
  kernelServiceComplete :: bool
  ioDescriptors :: "(int \<times> IO_OP_TYPES) list"

definition ProcessStateInfo_new :: ProcessStateInfo where
  "ProcessStateInfo_new = \<lparr>sleepTime = 0, waitIrq = NO_IRQ, waitChildProcId = NO_PROCESS_ID, waitResourceId = RESOURCE_NIL,
     eventCompleted = False, kernelServiceComplete = False, ioDescriptors = []\<rparr>"

text \<open>\<open>threads\<close> and \<open>nextThread\<close> are the \<open>_threadSchedulerList\<close> and \<open>_nextThreadIt\<close> of an \<open>AutonomousProcess\<close>.\<close>

record SchedulableProcess =
  processID :: int
  mainThreadID :: int
  parentProcessID :: int
  status :: PROCESS_STATUS
  stateInfo :: ProcessStateInfo
  processGroup :: int
  childProcessIDs :: "int list"
  threads :: "int list"
  nextThread :: "int option"

record ProcessGroup =
  iProcessCount :: int
  fgProcessList :: "int list"

record 'm sched =
  objects :: "(int \<times> SchedulableProcess) list"
  processMap :: "int list"
  processSchedulerList :: "int list"
  schedIt :: "int option"
  currentProcessID :: int
  upanixKernelProcessID :: int
  nextPid :: int
  resourceList :: "RESOURCE_KEYS \<Rightarrow> bool"
  clockCount :: u32
  bContextSwitch :: bool
  iTaskSwitch :: bool
  kernelMode :: bool
  interruptCount :: "int \<Rightarrow> u32"
  groups :: "(int \<times> ProcessGroup) list"
  groupIdSeq :: int
  fgProcessGroup :: "int option"
  kernelModeStateInfo :: ProcessStateInfo
  ioTables :: io_state
  machine :: 'm

record 'm cpu =
  loadContext :: "int \<Rightarrow> 'm \<Rightarrow> 'm"
  storeContext :: "int \<Rightarrow> 'm \<Rightarrow> 'm"
  deAllocateResources :: "SchedulableProcess \<Rightarrow> 'm \<Rightarrow> 'm"
  unlockMutexes :: "int \<Rightarrow> 'm \<Rightarrow> 'm"
  runProcess :: "int \<Rightarrow> 'm sched \<Rightarrow> 'm sched"
  streams :: stream_lib

datatype sched_error =
    NoParentProcess int | MaxProcessLimit | IoFailed fd_error
  | ProcessDeleted int      \<comment> \<open>a process object is used after it has been deleted\<close>
  | SchedulerEnds           \<comment> \<open>the list of the scheduler is empty\<close>

section \<open>The table of processes\<close>

text \<open>The object of a process, as its pointers reach it; the map of the manager finds those that have been added to it.\<close>

definition process_at :: "int \<Rightarrow> 'm sched \<Rightarrow> SchedulableProcess option" where
  "process_at pid s = map_of (objects s) pid"

definition GetSchedulableProcess :: "int \<Rightarrow> 'm sched \<Rightarrow> SchedulableProcess option" where
  "GetSchedulableProcess pid s = (if pid \<in> set (processMap s) then process_at pid s else None)"

definition upd_proc :: "int \<Rightarrow> (SchedulableProcess \<Rightarrow> SchedulableProcess) \<Rightarrow> 'm sched \<Rightarrow> 'm sched" where
  "upd_proc pid f s = s\<lparr>objects := map (\<lambda>(q, p). (q, if q = pid then f p else p)) (objects s)\<rparr>"

definition setStatus :: "int \<Rightarrow> PROCESS_STATUS \<Rightarrow> 'm sched \<Rightarrow> 'm sched" where
  "setStatus pid st = upd_proc pid (\<lambda>p. p\<lparr>status := st\<rparr>)"

definition upd_info :: "int \<Rightarrow> (ProcessStateInfo \<Rightarrow> ProcessStateInfo) \<Rightarrow> 'm sched \<Rightarrow> 'm sched" where
  "upd_info pid f = upd_proc pid (\<lambda>p. p\<lparr>stateInfo := f (stateInfo p)\<rparr>)"

definition addChildProcessID :: "int \<Rightarrow> SchedulableProcess \<Rightarrow> SchedulableProcess" where
  "addChildProcessID c p = p\<lparr>childProcessIDs := if c \<in> set (childProcessIDs p) then childProcessIDs p else insort c (childProcessIDs p)\<rparr>"

definition removeChildProcessID :: "int \<Rightarrow> SchedulableProcess \<Rightarrow> SchedulableProcess" where
  "removeChildProcessID c p = p\<lparr>childProcessIDs := remove1 c (childProcessIDs p)\<rparr>"

definition isChildThread :: "SchedulableProcess \<Rightarrow> bool" where
  "isChildThread p \<longleftrightarrow> processID p \<noteq> mainThreadID p"

definition AddToProcessMap :: "int \<Rightarrow> ('m sched, sched_error, unit) comp" where
  "AddToProcessMap pid s =
     (if int (length (processMap s)) + 1 > MAX_NO_PROCESS then throw MaxProcessLimit s
      else (Inr (), s\<lparr>processMap := (if pid \<in> set (processMap s) then processMap s else processMap s @ [pid])\<rparr>))"

definition RemoveFromProcessMap :: "int \<Rightarrow> 'm sched \<Rightarrow> 'm sched" where
  "RemoveFromProcessMap pid s = s\<lparr>processMap := filter (\<lambda>q. q \<noteq> pid) (processMap s)\<rparr>"

text \<open>The object is deleted, and with it the descriptor table of a process.\<close>

definition delete_process :: "int \<Rightarrow> 'm sched \<Rightarrow> 'm sched" where
  "delete_process pid s = s\<lparr>objects := filter (\<lambda>(q, _). q \<noteq> pid) (objects s), ioTables := IODescriptorTable_delete pid (ioTables s)\<rparr>"

definition AddToSchedulerList :: "int \<Rightarrow> ('m sched, sched_error, unit) comp" where
  "AddToSchedulerList pid =
     andThen (AddToProcessMap pid) (\<lambda>_.
     modify (\<lambda>s. (setStatus pid RUN s)\<lparr>processSchedulerList := processSchedulerList s @ [pid]\<rparr>))"

text \<open>\<open>GetCurProcId\<close> and \<open>DoPollWait\<close>.\<close>

definition GetCurProcId :: "'m sched \<Rightarrow> int" where
  "GetCurProcId s = (if kernelMode s then NO_PROCESS_ID else currentProcessID s)"

definition DoPollWait :: "'m sched \<Rightarrow> bool" where
  "DoPollWait s \<longleftrightarrow> kernelMode s \<or> \<not> iTaskSwitch s"

definition IsAlive :: "int \<Rightarrow> 'm sched \<Rightarrow> bool" where
  "IsAlive pid s = (case GetSchedulableProcess pid s of None \<Rightarrow> False | Some p \<Rightarrow> status p \<noteq> TERMINATED \<and> status p \<noteq> RELEASED)"

definition IsChildAlive :: "int \<Rightarrow> 'm sched \<Rightarrow> bool" where
  "IsChildAlive c s = (if c < 0 \<or> c \<ge> MAX_NO_PROCESS then False
     else case GetSchedulableProcess c s of None \<Rightarrow> False | Some p \<Rightarrow> parentProcessID p = currentProcessID s)"

section \<open>Process groups\<close>

definition upd_group :: "int \<Rightarrow> (ProcessGroup \<Rightarrow> ProcessGroup) \<Rightarrow> 'm sched \<Rightarrow> 'm sched" where
  "upd_group g f s = s\<lparr>groups := map (\<lambda>(h, x). (h, if h = g then f x else x)) (groups s)\<rparr>"

definition ProcessGroup_new :: "bool \<Rightarrow> 'm sched \<Rightarrow> int \<times> 'm sched" where
  "ProcessGroup_new isFG s =
     (let g = groupIdSeq s + 1
      in (g, s\<lparr>groupIdSeq := g, groups := groups s @ [(g, \<lparr>iProcessCount = 0, fgProcessList = []\<rparr>)],
              fgProcessGroup := (if isFG then Some g else fgProcessGroup s)\<rparr>))"

definition PutOnFGProcessList :: "int \<Rightarrow> ProcessGroup \<Rightarrow> ProcessGroup" where
  "PutOnFGProcessList pid g = g\<lparr>fgProcessList := pid # fgProcessList g\<rparr>"

definition RemoveFromFGProcessList :: "int \<Rightarrow> ProcessGroup \<Rightarrow> ProcessGroup" where
  "RemoveFromFGProcessList pid g = g\<lparr>fgProcessList := filter (\<lambda>x. x \<noteq> pid) (fgProcessList g)\<rparr>"

definition IsFGProcess :: "int \<Rightarrow> ProcessGroup \<Rightarrow> bool" where
  "IsFGProcess pid g = (case fgProcessList g of [] \<Rightarrow> False | x # _ \<Rightarrow> x = pid)"

text \<open>A process leaves its group; the last one deletes it.\<close>

definition leave_group :: "int \<Rightarrow> int \<Rightarrow> 'm sched \<Rightarrow> 'm sched" where
  "leave_group pid g s =
     (let s1 = upd_group g (\<lambda>x. (RemoveFromFGProcessList pid x)\<lparr>iProcessCount := iProcessCount x - 1\<rparr>) s
      in case map_of (groups s1) g of
           Some x \<Rightarrow> if iProcessCount x = 0 then s1\<lparr>groups := filter (\<lambda>(h, _). h \<noteq> g) (groups s1)\<rparr> else s1
         | None \<Rightarrow> s1)"

section \<open>New processes\<close>

text \<open>
  The constructor of \<open>SchedulableProcess\<close>, as far as it concerns the manager: the id of the new process. A thread names
  the process it belongs to as its parent and main thread.
\<close>

definition SchedulableProcess_object :: "int \<Rightarrow> int \<Rightarrow> int \<Rightarrow> int \<Rightarrow> SchedulableProcess" where
  "SchedulableProcess_object pid main parentID g =
     \<lparr>processID = pid, mainThreadID = main, parentProcessID = parentID, status = NEW, stateInfo = ProcessStateInfo_new,
      processGroup = g, childProcessIDs = [], threads = [], nextThread = None\<rparr>"

definition join_group :: "int \<Rightarrow> int \<Rightarrow> bool \<Rightarrow> 'm sched \<Rightarrow> int \<times> 'm sched" where
  "join_group pid parentID isFG s =
     (let (g, s2) = (case GetSchedulableProcess parentID s of
                       None \<Rightarrow> ProcessGroup_new isFG s
                     | Some pp \<Rightarrow> (processGroup pp, s));
          s3 = upd_group g (\<lambda>x. x\<lparr>iProcessCount := iProcessCount x + 1\<rparr>) s2
      in (g, if isFG then upd_group g (PutOnFGProcessList pid) s3 else s3))"

definition SchedulableProcess_new :: "int \<Rightarrow> bool \<Rightarrow> bool \<Rightarrow> 'm sched \<Rightarrow> int \<times> 'm sched" where
  "SchedulableProcess_new parentID isThread isFG s =
     (let pid = nextPid s
      in case join_group pid parentID isFG (s\<lparr>nextPid := pid + 1\<rparr>) of (g, t) \<Rightarrow>
           (pid, t\<lparr>objects := objects t @ [(pid, SchedulableProcess_object pid (if isThread then parentID else pid) parentID g)]\<rparr>))"

text \<open>
  \<open>Create\<close> and \<open>CreateKernelProcess\<close>: \<open>init\<close> is what the constructor of the derived class does with the machine; it
  may throw, and then the object is gone. The new process is made known to its parent before it is put on the list of
  the scheduler.
\<close>

definition CreateProcess ::
    "'m cpu \<Rightarrow> (int \<Rightarrow> ('m, unit, unit) comp) \<Rightarrow> int \<Rightarrow> bool \<Rightarrow> 'm sched \<Rightarrow> int \<times> 'm sched" where
  "CreateProcess V init parentID isFG s =
     (case SchedulableProcess_new parentID False isFG s of (pid, s1) \<Rightarrow>
        case IODescriptorTable_new (streams V) pid parentID (ioTables s1) of
          (Inl e, io) \<Rightarrow> (-1, delete_process pid (s1\<lparr>ioTables := io\<rparr>))
        | (Inr _, io) \<Rightarrow>
            (case init pid (machine s1) of
               (Inl _, m) \<Rightarrow> (-1, delete_process pid (s1\<lparr>ioTables := io, machine := m\<rparr>))
             | (Inr _, m) \<Rightarrow>
                 let s2 = s1\<lparr>ioTables := io, machine := m\<rparr>;
                     s3 = (if GetSchedulableProcess parentID s2 = None then s2 else upd_proc parentID (addChildProcessID pid) s2)
                 in (case AddToSchedulerList pid s3 of
                       (Inl _, s4) \<Rightarrow> (-1, s4)
                     | (Inr _, s4) \<Rightarrow> (pid, s4))))"

text \<open>The process that owns a new thread: the parent itself or, for a thread, the process it belongs to.\<close>

definition GetThreadParentProcess :: "int \<Rightarrow> 'm sched \<Rightarrow> int option" where
  "GetThreadParentProcess pid s = map_option mainThreadID (GetSchedulableProcess pid s)"

definition addToThreadScheduler :: "int \<Rightarrow> int \<Rightarrow> 'm sched \<Rightarrow> 'm sched" where
  "addToThreadScheduler main tid s = setStatus tid RUN (upd_proc main (\<lambda>x. x\<lparr>threads := threads x @ [tid]\<rparr>) s)"

definition CreateThreadTask :: "'m cpu \<Rightarrow> (int \<Rightarrow> ('m, unit, unit) comp) \<Rightarrow> int \<Rightarrow> 'm sched \<Rightarrow> int \<times> 'm sched" where
  "CreateThreadTask V init parentID s =
     (case GetThreadParentProcess parentID s of
        None \<Rightarrow> (-1, s)
      | Some main \<Rightarrow>
          (case SchedulableProcess_new main True False s of (tid, s1) \<Rightarrow>
             (case init tid (machine s1) of
                (Inl _, m) \<Rightarrow> (-1, (s1\<lparr>machine := m\<rparr>)\<lparr>objects := filter (\<lambda>(q, _). q \<noteq> tid) (objects s1)\<rparr>)
              | (Inr _, m) \<Rightarrow>
                  (case AddToProcessMap tid (addToThreadScheduler main tid (s1\<lparr>machine := m\<rparr>)) of
                     (Inl _, s3) \<Rightarrow> (-1, s3)
                   | (Inr _, s3) \<Rightarrow> (tid, s3)))))"

section \<open>The end of a process\<close>

definition Release :: "int \<Rightarrow> 'm sched \<Rightarrow> 'm sched" where
  "Release pid = setStatus pid RELEASED"

text \<open>
  The children of a process that ends: those that have ended are released, the others go to the parent, if there was one
  when the loop began.
\<close>

fun redirect_children :: "int option \<Rightarrow> int list \<Rightarrow> 'm sched \<Rightarrow> 'm sched" where
  "redirect_children pp [] s = s"
| "redirect_children pp (c # cs) s = redirect_children pp cs
     (case GetSchedulableProcess c s of
        None \<Rightarrow> s
      | Some p \<Rightarrow> if status p = TERMINATED then Release c s
                  else case pp of
                         None \<Rightarrow> s
                       | Some q \<Rightarrow> upd_proc q (addChildProcessID c) (upd_proc c (\<lambda>p. p\<lparr>parentProcessID := q\<rparr>) s))"

text \<open>\<open>Destroy\<close> after the threads are gone; for a thread this is all of it.\<close>

definition Destroy_own :: "'m cpu \<Rightarrow> int \<Rightarrow> 'm sched \<Rightarrow> 'm sched" where
  "Destroy_own V pid s =
     (case process_at pid s of
        None \<Rightarrow> s
      | Some p \<Rightarrow>
          let pp = (case GetSchedulableProcess (parentProcessID p) s of None \<Rightarrow> None | Some _ \<Rightarrow> Some (parentProcessID p));
              s1 = redirect_children pp (childProcessIDs p) s;
              s2 = s1\<lparr>machine := deAllocateResources V p (machine s1)\<rparr>;
              s3 = leave_group pid (processGroup p) s2;
              s4 = s3\<lparr>machine := unlockMutexes V pid (machine s3)\<rparr>
          in if parentProcessID p = NO_PROCESS_ID then Release pid s4 else s4)"

fun destroy_threads :: "'m cpu \<Rightarrow> int list \<Rightarrow> 'm sched \<Rightarrow> 'm sched" where
  "destroy_threads V [] s = s"
| "destroy_threads V (t # ts) s = destroy_threads V ts (delete_process t (RemoveFromProcessMap t (Release t
     (case process_at t s of
        None \<Rightarrow> s
      | Some p \<Rightarrow> if status p \<noteq> TERMINATED \<and> status p \<noteq> RELEASED
                  then Destroy_own V t (setStatus t TERMINATED s) else s))))"

definition DestroyThreads :: "'m cpu \<Rightarrow> int \<Rightarrow> 'm sched \<Rightarrow> 'm sched" where
  "DestroyThreads V pid s =
     (case process_at pid s of
        None \<Rightarrow> s
      | Some p \<Rightarrow> upd_proc pid (\<lambda>p. p\<lparr>threads := []\<rparr>) (destroy_threads V (threads p) s))"

definition Destroy :: "'m cpu \<Rightarrow> int \<Rightarrow> 'm sched \<Rightarrow> 'm sched" where
  "Destroy V pid s = Destroy_own V pid (DestroyThreads V pid (setStatus pid TERMINATED s))"

text \<open>
  \<open>Kill\<close>: a process that kills itself is marked and gives up the processor; \<open>True\<close> means that it does.
\<close>

definition ProcessManager_Yield :: "'m sched \<Rightarrow> 'm sched" where
  "ProcessManager_Yield s = s\<lparr>iTaskSwitch := False, bContextSwitch := True\<rparr>"

definition ProcessManager_Exit :: "'m sched \<Rightarrow> 'm sched" where
  "ProcessManager_Exit s = s\<lparr>iTaskSwitch := False, bContextSwitch := False\<rparr>"

definition Kill :: "'m cpu \<Rightarrow> int \<Rightarrow> 'm sched \<Rightarrow> bool \<times> 'm sched" where
  "Kill V pid s =
     (if IsAlive pid s
      then if pid = GetCurProcId s then (True, ProcessManager_Yield (setStatus pid TERMINATED s))
           else (False, Destroy V pid s)
      else (False, s))"

section \<open>Waiting\<close>

text \<open>
  A process that waits gives up the processor and goes on when the scheduler comes back to it. \<open>Polls\<close> is a wait in a loop
  that keeps the processor.
\<close>

datatype wait_result = Returns | Yields | Polls

definition wait_as :: "PROCESS_STATUS \<Rightarrow> (ProcessStateInfo \<Rightarrow> ProcessStateInfo) \<Rightarrow> 'm sched \<Rightarrow> wait_result \<times> 'm sched" where
  "wait_as st f s =
     (Yields, ProcessManager_Yield (setStatus (currentProcessID s) st (upd_info (currentProcessID s) f (s\<lparr>iTaskSwitch := False\<rparr>))))"

definition Sleep :: "u32 \<Rightarrow> 'm sched \<Rightarrow> wait_result \<times> 'm sched" where
  "Sleep uiSleepTime s =
     (if DoPollWait s then (Polls, s)
      else wait_as WAIT_SLEEP (\<lambda>i. i\<lparr>sleepTime := clockCount s + uiSleepTime\<rparr>) s)"

definition WaitOnInterrupt :: "int \<Rightarrow> 'm sched \<Rightarrow> wait_result \<times> 'm sched" where
  "WaitOnInterrupt irq s = (if DoPollWait s then (Polls, s) else wait_as WAIT_INT (\<lambda>i. i\<lparr>waitIrq := irq\<rparr>) s)"

definition WaitForEvent :: "'m sched \<Rightarrow> wait_result \<times> 'm sched" where
  "WaitForEvent s = (if DoPollWait s then (Polls, s) else wait_as WAIT_EVENT (\<lambda>i. i) s)"

definition WaitOnChild :: "int \<Rightarrow> 'm sched \<Rightarrow> wait_result \<times> 'm sched" where
  "WaitOnChild iChildProcessID s =
     (if GetCurProcId s < 0 then (Returns, s)
      else if iChildProcessID < 0 \<or> iChildProcessID \<ge> MAX_NO_PROCESS then (Returns, s)
      else wait_as WAIT_CHILD (\<lambda>i. i\<lparr>waitChildProcId := iChildProcessID\<rparr>) s)"

definition WaitOnResource :: "RESOURCE_KEYS \<Rightarrow> 'm sched \<Rightarrow> wait_result \<times> 'm sched" where
  "WaitOnResource r s =
     (if GetCurProcId s < 0 then (Returns, s) else wait_as WAIT_RESOURCE (\<lambda>i. i\<lparr>waitResourceId := r\<rparr>) s)"

definition WaitOnIODescriptors :: "(int \<times> IO_OP_TYPES) list \<Rightarrow> 'm sched \<Rightarrow> wait_result \<times> 'm sched" where
  "WaitOnIODescriptors ds s =
     (if GetCurProcId s < 0 then (Returns, s) else wait_as WAIT_IO_DESCRIPTORS (\<lambda>i. i\<lparr>ioDescriptors := ds\<rparr>) s)"

definition WaitOnIODescriptor :: "int \<Rightarrow> IO_OP_TYPES \<Rightarrow> 'm sched \<Rightarrow> wait_result \<times> 'm sched" where
  "WaitOnIODescriptor fd w = WaitOnIODescriptors [(fd, w)]"

definition WaitOnKernelService :: "'m sched \<Rightarrow> wait_result \<times> 'm sched" where
  "WaitOnKernelService s =
     (if GetCurProcId s < 0 then (Returns, s) else wait_as WAIT_KERNEL_SERVICE (\<lambda>i. i\<lparr>kernelServiceComplete := False\<rparr>) s)"

definition WakeUpFromKSWait :: "int \<Rightarrow> 'm sched \<Rightarrow> 'm sched" where
  "WakeUpFromKSWait pid = upd_info pid (\<lambda>i. i\<lparr>kernelServiceComplete := True\<rparr>)"

text \<open>The event flag of a process, or of the kernel when there is no such process.\<close>

definition EventCompleted :: "int \<Rightarrow> 'm sched \<Rightarrow> 'm sched" where
  "EventCompleted pid s =
     (if GetSchedulableProcess pid s = None then s\<lparr>kernelModeStateInfo := (kernelModeStateInfo s)\<lparr>eventCompleted := True\<rparr>\<rparr>
      else upd_info pid (\<lambda>i. i\<lparr>eventCompleted := True\<rparr>) s)"

definition IsEventCompleted :: "int \<Rightarrow> 'm sched \<Rightarrow> bool \<times> 'm sched" where
  "IsEventCompleted pid s =
     (case GetSchedulableProcess pid s of
        None \<Rightarrow> (eventCompleted (kernelModeStateInfo s), s\<lparr>kernelModeStateInfo := (kernelModeStateInfo s)\<lparr>eventCompleted := False\<rparr>\<rparr>)
      | Some p \<Rightarrow> (eventCompleted (stateInfo p), upd_info pid (\<lambda>i. i\<lparr>eventCompleted := False\<rparr>) s))"

text \<open>Interrupts: a signal counts up, a consumer takes one.\<close>

definition Signal :: "int \<Rightarrow> 'm sched \<Rightarrow> 'm sched" where
  "Signal irq s = s\<lparr>interruptCount := (interruptCount s)(irq := interruptCount s irq + 1)\<rparr>"

definition Consume :: "int \<Rightarrow> 'm sched \<Rightarrow> bool \<times> 'm sched" where
  "Consume irq s =
     (if interruptCount s irq > 0 then (True, s\<lparr>interruptCount := (interruptCount s)(irq := interruptCount s irq - 1)\<rparr>) else (False, s))"

definition WakeupProcessOnInterrupt :: "SchedulableProcess \<Rightarrow> 'm sched \<Rightarrow> bool \<times> 'm sched" where
  "WakeupProcessOnInterrupt p s =
     (if waitIrq (stateInfo p) = NO_IRQ then (True, s)
      else case Consume (waitIrq (stateInfo p)) s of
             (True, t) \<Rightarrow> (True, setStatus (processID p) RUN t)
           | (False, t) \<Rightarrow> (False, t))"

text \<open>The lock of a resource: whoever finds it busy waits until it is not.\<close>

definition ResourceMutex_Lock :: "RESOURCE_KEYS \<Rightarrow> bool \<Rightarrow> 'm sched \<Rightarrow> (bool \<times> wait_result) \<times> 'm sched" where
  "ResourceMutex_Lock r blocking s =
     (let s1 = s\<lparr>iTaskSwitch := False\<rparr>
      in if \<not> resourceList s1 r
         then ((True, Returns), s1\<lparr>resourceList := (resourceList s1)(r := True), iTaskSwitch := True\<rparr>)
         else if \<not> blocking then ((False, Returns), s1)
         else case WaitOnResource r s1 of
                (Returns, t) \<Rightarrow> ((True, Returns), t\<lparr>iTaskSwitch := True\<rparr>)
              | (w, t) \<Rightarrow> ((True, w), t))"

definition ResourceMutex_UnLock :: "RESOURCE_KEYS \<Rightarrow> 'm sched \<Rightarrow> 'm sched" where
  "ResourceMutex_UnLock r s = s\<lparr>resourceList := (resourceList s)(r := False)\<rparr>"

text \<open>A tick of the timer; every tenth asks the running process to give up the processor.\<close>

definition PIT_Handler :: "'m sched \<Rightarrow> 'm sched" where
  "PIT_Handler s =
     (let c = clockCount s + 1; s1 = s\<lparr>clockCount := c\<rparr>
      in if c mod 10 = 0 \<and> iTaskSwitch s1 \<and> \<not> kernelMode s1 then s1\<lparr>bContextSwitch := True\<rparr> else s1)"

section \<open>The scheduler\<close>

text \<open>
  What \<open>DoContextSwitch\<close> does before it loads a process: \<open>True\<close> when the process is to be loaded.
\<close>

definition wake :: "'m cpu \<Rightarrow> SchedulableProcess \<Rightarrow> ('m sched, sched_error, bool) comp" where
  "wake V p s =
     (let pid = processID p; info = stateInfo p
      in case status p of
        RELEASED \<Rightarrow> (Inr False, s)
      | TERMINATED \<Rightarrow> (Inr False, if parentProcessID p = upanixKernelProcessID s then Release pid s else s)
      | WAIT_SLEEP \<Rightarrow>
          if clockCount s \<ge> sleepTime info
          then (Inr True, setStatus pid RUN (upd_info pid (\<lambda>i. i\<lparr>sleepTime := 0\<rparr>) s))
          else (Inr False, s)
      | WAIT_INT \<Rightarrow> (case WakeupProcessOnInterrupt p s of (b, t) \<Rightarrow> (Inr b, t))
      | WAIT_EVENT \<Rightarrow> (case IsEventCompleted pid s of
            (True, t) \<Rightarrow> (Inr True, setStatus pid RUN t)
          | (False, t) \<Rightarrow> (Inr False, t))
      | WAIT_IO_DESCRIPTORS \<Rightarrow>
          (case selectCheck (streams V) (mainThreadID p) (ioDescriptors info) (ioTables s) of
             (Inl e, io) \<Rightarrow> (Inl (IoFailed e), s\<lparr>ioTables := io\<rparr>)
           | (Inr rs, io) \<Rightarrow>
               if rs = [] then (Inr False, s\<lparr>ioTables := io\<rparr>)
               else (Inr True, setStatus pid RUN (upd_info pid (\<lambda>i. i\<lparr>ioDescriptors := rs\<rparr>) (s\<lparr>ioTables := io\<rparr>))))
      | WAIT_CHILD \<Rightarrow>
          (let c = waitChildProcId info; done = setStatus pid RUN \<circ> upd_info pid (\<lambda>i. i\<lparr>waitChildProcId := NO_PROCESS_ID\<rparr>)
           in if c < 0 then (Inr True, done s)
              else case GetSchedulableProcess c s of
                None \<Rightarrow> (Inr True, done (upd_proc pid (removeChildProcessID c) s))
              | Some cp \<Rightarrow>
                  if parentProcessID cp \<noteq> currentProcessID s then (Inr True, done (upd_proc pid (removeChildProcessID c) s))
                  else if status cp = TERMINATED then (Inr True, done (upd_proc pid (removeChildProcessID c) (Release c s)))
                  else (Inr False, s))
      | WAIT_RESOURCE \<Rightarrow>
          (let r = waitResourceId info
           in if r = RESOURCE_NIL then (Inr True, setStatus pid RUN s)
              else if \<not> resourceList s r
              then (Inr True, setStatus pid RUN (upd_info pid (\<lambda>i. i\<lparr>waitResourceId := RESOURCE_NIL\<rparr>) s))
              else (Inr False, s))
      | WAIT_KERNEL_SERVICE \<Rightarrow>
          if kernelServiceComplete info
          then (Inr True, setStatus pid RUN (upd_info pid (\<lambda>i. i\<lparr>kernelServiceComplete := False\<rparr>) s))
          else (Inr False, s)
      | RUN \<Rightarrow> (Inr True, s)
      | NEW \<Rightarrow> (Inr False, s))"

text \<open>The switch to a process and back.\<close>

definition dispatch :: "'m cpu \<Rightarrow> int \<Rightarrow> ('m sched, sched_error, unit) comp" where
  "dispatch V pid s =
     (let s1 = s\<lparr>machine := loadContext V pid (machine s), bContextSwitch := False, kernelMode := False\<rparr>;
          s2 = (runProcess V pid s1)\<lparr>kernelMode := True\<rparr>
      in case process_at pid s2 of
           None \<Rightarrow> throw (ProcessDeleted pid) s2
         | Some p \<Rightarrow>
             let s3 = s2\<lparr>machine := storeContext V pid (machine s2)\<rparr>;
                 s4 = (if \<not> bContextSwitch s3 \<or> status p = TERMINATED then Destroy V pid s3 else s3)
             in (Inr (), s4\<lparr>iTaskSwitch := True\<rparr>))"

definition DoContextSwitch :: "'m cpu \<Rightarrow> int \<Rightarrow> ('m sched, sched_error, unit) comp" where
  "DoContextSwitch V pid s =
     (case process_at pid s of
        None \<Rightarrow> throw (ProcessDeleted pid) s
      | Some p \<Rightarrow> andThen (wake V p) (\<lambda>go. if go then dispatch V pid else ret ()) (s\<lparr>currentProcessID := pid\<rparr>))"

text \<open>The element after one of a list, and the first element; \<open>None\<close> is the end.\<close>

definition after :: "int \<Rightarrow> int list \<Rightarrow> int option" where
  "after x xs = (case dropWhile (\<lambda>y. y \<noteq> x) xs of _ # y # _ \<Rightarrow> Some y | _ \<Rightarrow> None)"

definition begin_of :: "int list \<Rightarrow> int option" where
  "begin_of xs = (case xs of [] \<Rightarrow> None | x # _ \<Rightarrow> Some x)"

text \<open>
  \<open>forSchedule\<close>: a process and its threads take turns; threads that have been released are deleted on the way. The
  result is the process or thread to schedule.
\<close>

function pick_thread :: "int \<Rightarrow> int list \<Rightarrow> int option \<Rightarrow> 'm sched \<Rightarrow> int \<times> 'm sched" where
  "pick_thread pid ts it s =
     (case (case it of None \<Rightarrow> begin_of ts | Some t \<Rightarrow> Some t) of
        None \<Rightarrow> (pid, upd_proc pid (\<lambda>p. p\<lparr>threads := ts, nextThread := None\<rparr>) s)
      | Some t \<Rightarrow>
          if t \<in> set ts \<and> (case process_at t s of None \<Rightarrow> False | Some p \<Rightarrow> status p = RELEASED)
          then pick_thread pid (remove1 t ts) (after t ts) (delete_process t (RemoveFromProcessMap t s))
          else (t, upd_proc pid (\<lambda>p. p\<lparr>threads := ts, nextThread := after t ts\<rparr>) s))"
  by pat_completeness auto
termination
  by (relation "measure (\<lambda>(_, ts, _). length ts)") (auto simp: length_remove1 dest: length_pos_if_in_set)

declare pick_thread.simps [simp del]

definition forSchedule :: "int \<Rightarrow> 'm sched \<Rightarrow> int \<times> 'm sched" where
  "forSchedule pid s =
     (case process_at pid s of
        None \<Rightarrow> (pid, s)
      | Some p \<Rightarrow>
          if status p = TERMINATED \<or> status p = RELEASED then (pid, s)
          else if nextThread p = None then (pid, upd_proc pid (\<lambda>p. p\<lparr>nextThread := begin_of (threads p)\<rparr>) s)
          else pick_thread pid (threads p) (nextThread p) s)"

text \<open>One round of the loop of \<open>StartScheduler\<close>; the result is the process that was scheduled.\<close>

definition sched_round :: "'m cpu \<Rightarrow> ('m sched, sched_error, int) comp" where
  "sched_round V s =
     (case (case schedIt s of None \<Rightarrow> begin_of (processSchedulerList s) | Some x \<Rightarrow> Some x) of
        None \<Rightarrow> throw SchedulerEnds s
      | Some x \<Rightarrow>
          (case forSchedule x s of (pid, s1) \<Rightarrow>
             andThen (DoContextSwitch V pid) (\<lambda>_ s2.
               let s3 = s2\<lparr>schedIt := after x (processSchedulerList s2)\<rparr>
               in case process_at pid s3 of
                    None \<Rightarrow> throw (ProcessDeleted pid) s3
                  | Some p \<Rightarrow>
                      if \<not> isChildThread p \<and> status p = RELEASED
                      then (Inr pid, delete_process pid (RemoveFromProcessMap pid (s3\<lparr>processSchedulerList := remove1 x (processSchedulerList s3)\<rparr>)))
                      else (Inr pid, s3)) s1))"

text \<open>\<open>StartScheduler\<close> for a number of rounds; the processes scheduled.\<close>

fun StartScheduler :: "'m cpu \<Rightarrow> nat \<Rightarrow> ('m sched, sched_error, int list) comp" where
  "StartScheduler V 0 = ret []"
| "StartScheduler V (Suc n) = andThen (sched_round V) (\<lambda>x. andThen (StartScheduler V n) (\<lambda>xs. ret (x # xs)))"

end
