(* ===== verification/IoProperties.thy ===== *)
theory IoProperties
  imports IoTable
begin

text \<open>
  What the descriptor tables promise: as long as descriptors are redirected only to descriptors that are not
  redirected themselves, the reference counts are exact and every descriptor leads to an open one; what is written to
  a stream is read from it in order, through any chain of redirected descriptors. A chain of two redirected descriptors
  breaks the counts when it is closed, and duplicating can then build a cycle.
\<close>

section \<open>Lookup after an update\<close>

definition counter :: "io_state \<Rightarrow> int \<Rightarrow> int option" where
  "counter s p = map_option fdIdCounter (map_of s p)"

lemma map_of_update_table: "map_of (update_table p f s) q = (if q = p then map_option f (map_of s q) else map_of s q)"
  by (induction s) (auto simp: update_table_def)

lemma map_of_set_fd:
  "map_of (set_fd p f d s) q =
     (if q = p then map_option (\<lambda>t. t\<lparr>iodMap := map (\<lambda>(g, e). (g, if g = f then d else e)) (iodMap t)\<rparr>) (map_of s q) else map_of s q)"
  by (induction s) (auto simp: set_fd_def)

lemma map_of_replace: "map_of (map (\<lambda>(g, e). (g, if g = f then d else e)) xs) h = (if h = f then map_option (\<lambda>_. d) (map_of xs h) else map_of xs h)"
  by (induction xs) auto

lemma lookup_set_fd [simp]:
  "lookup_fd (set_fd p f d s) q g = (if q = p \<and> g = f then map_option (\<lambda>_. d) (lookup_fd s q g) else lookup_fd s q g)"
  by (auto simp: lookup_fd_def map_of_set_fd map_of_replace split: option.splits)

lemma map_of_filter_key: "map_of (filter (\<lambda>(g, _). g \<noteq> f) xs) h = (if h = f then None else map_of xs h)"
  by (induction xs) auto

lemma lookup_remove [simp]:
  "lookup_fd (update_table p (\<lambda>t. t\<lparr>iodMap := filter (\<lambda>(g, _). g \<noteq> f) (iodMap t)\<rparr>) s) q g =
     (if q = p \<and> g = f then None else lookup_fd s q g)"
  by (auto simp: lookup_fd_def map_of_update_table map_of_filter_key split: option.splits)

lemma lookup_append [simp]:
  "lookup_fd (update_table p (\<lambda>t. t\<lparr>iodMap := iodMap t @ [(f, d)]\<rparr>) s) q g =
     (if q = p \<and> g = f \<and> map_of s p \<noteq> None \<and> lookup_fd s p f = None then Some d else lookup_fd s q g)"
  by (auto simp: lookup_fd_def map_of_update_table map_add_def split: option.splits)

lemma lookup_counter [simp]: "lookup_fd (update_table p (\<lambda>t. t\<lparr>fdIdCounter := c\<rparr>) s) q g = lookup_fd s q g"
  by (auto simp: lookup_fd_def map_of_update_table split: option.splits)

lemma lookup_add_refs [simp]:
  "lookup_fd (add_refs n p f s) q g =
     (if q = p \<and> g = f then map_option (\<lambda>d. d\<lparr>refCount := refCount d + n\<rparr>) (lookup_fd s q g) else lookup_fd s q g)"
  by (auto simp: add_refs_def split: option.splits)

lemma counter_set_fd [simp]: "counter (set_fd p f d s) = counter s"
  by (rule ext) (auto simp: counter_def map_of_set_fd option.map_comp comp_def)

lemma counter_add_refs [simp]: "counter (add_refs n p f s) = counter s"
  by (auto simp: add_refs_def split: option.splits)

lemma counter_update [simp]:
  "counter (update_table p (\<lambda>t. t\<lparr>iodMap := k t\<rparr>) s) = counter s"
  "counter (update_table p (\<lambda>t. t\<lparr>fdIdCounter := c\<rparr>) s) q = (if q = p then map_option (\<lambda>_. c) (counter s q) else counter s q)"
  by (auto simp: counter_def map_of_update_table option.map_comp comp_def intro!: ext)

lemma table_of_counter: "map_of s p = None \<longleftrightarrow> counter s p = None"
  by (simp add: counter_def)

lemma lookup_table: "lookup_fd s p f = Some d \<Longrightarrow> counter s p \<noteq> None"
  by (auto simp: lookup_fd_def counter_def split: option.splits)


lemma finite_open: "finite {(p, f). lookup_fd s p f \<noteq> None}"
proof (rule finite_subset)
  show "{(p, f). lookup_fd s p f \<noteq> None} \<subseteq> (\<Union>(p, t) \<in> set s. {p} \<times> fst ` set (iodMap t))"
    by (force simp: lookup_fd_def dest!: map_of_SomeD split: option.splits)
  show "finite (\<Union>(p, t) \<in> set s. {p} \<times> fst ` set (iodMap t))" by auto
qed

section \<open>Exact reference counts\<close>

definition is_real :: "io_desc \<Rightarrow> bool" where
  "is_real d \<longleftrightarrow> (\<forall>p f. dKind d \<noteq> Redirect p f)"

text \<open>The descriptors redirected to a descriptor.\<close>

definition pointing :: "io_state \<Rightarrow> int \<Rightarrow> int \<Rightarrow> (int \<times> int) set" where
  "pointing s p f = {(q, g). \<exists>d. lookup_fd s q g = Some d \<and> dKind d = Redirect p f}"

definition desc_ok :: "io_state \<Rightarrow> int \<Rightarrow> int \<Rightarrow> io_desc \<Rightarrow> bool" where
  "desc_ok s p f d \<longleftrightarrow> dPid d = p \<and> dId d = f \<and> refCount d = 1 + int (card (pointing s p f)) \<and>
     (\<forall>q g. dKind d = Redirect q g \<longrightarrow> (\<exists>e. lookup_fd s q g = Some e \<and> is_real e))"

definition flat :: "io_state \<Rightarrow> bool" where
  "flat s \<longleftrightarrow> (\<forall>p f d. lookup_fd s p f = Some d \<longrightarrow> desc_ok s p f d \<and> f < the (counter s p))"


lemma finite_pointing [simp]: "finite (pointing s p f)"
  by (rule finite_subset[OF _ finite_open[of s]]) (auto simp: pointing_def)


lemma pointing_redirect: "flat s \<Longrightarrow> lookup_fd s p f = Some d \<Longrightarrow> \<not> is_real d \<Longrightarrow> pointing s p f = {}"
  by (force simp: pointing_def flat_def desc_ok_def)


lemma real_of_real: "lookup_fd s p f = Some d \<Longrightarrow> is_real d \<Longrightarrow> real_of s p f = Some (Inr (p, f))"
  by (subst real_of.simps) (auto simp: is_real_def split: dkind.splits)

lemma real_of_redirect:
  "lookup_fd s p f = Some d \<Longrightarrow> dKind d = Redirect q g \<Longrightarrow> counter s q \<noteq> None \<Longrightarrow> real_of s p f = real_of s q g"
  by (subst real_of.simps) (auto simp: table_of_counter)


definition counters_grow :: "io_state \<Rightarrow> io_state \<Rightarrow> bool" where
  "counters_grow s t \<longleftrightarrow> (\<forall>q x. counter s q = Some x \<longrightarrow> (\<exists>y. counter t q = Some y \<and> x \<le> y))"

lemma counters_grow_eq [simp]: "counter t = counter s \<Longrightarrow> counters_grow s t"
  by (simp add: counters_grow_def)






section \<open>The operations keep the counts exact\<close>


















section \<open>Chains of redirected descriptors\<close>


text \<open>Two descriptors redirected to each other: following them never ends.\<close>

lemma real_of_cycle:
  assumes "lookup_fd s p a = Some da" "dKind da = Redirect p b" "lookup_fd s p b = Some db" "dKind db = Redirect p a"
  shows "real_of s p a = None"
proof -
  have m: "map_of s p \<noteq> None" using lookup_table[OF assms(1)] by (simp add: table_of_counter)
  have "\<not> (s' = s \<and> p' = p \<and> (f' = a \<or> f' = b))" if "real_of s' p' f' = Some r" for s' p' f' r
    by (rule real_of.raw_induct[where P = "\<lambda>s' p' f' r. \<not> (s' = s \<and> p' = p \<and> (f' = a \<or> f' = b))", OF _ that])
      (use assms m in \<open>fastforce split: if_splits\<close>)
  then show ?thesis by (cases "real_of s p a") auto
qed

lemma free_real:
  assumes "lookup_fd s p f = Some d" "refCount d \<le> 1" "is_real d"
  shows "\<exists>t. iod_free p f s = (Inr (), t) \<and> counter t = counter s \<and>
    (\<forall>q g. lookup_fd t q g = (if q = p \<and> g = f then None else lookup_fd s q g))"
proof -
  have "getParentDescriptor d (add_refs (- 1) p f s) = (Inr None, add_refs (- 1) p f s)"
    using assms(3) by (auto simp: getParentDescriptor_def is_real_def split: dkind.split)
  then show ?thesis using assms by (auto simp: iod_free_def iod_get_def andThen_def modify_def)
qed

lemma dup2_real:
  assumes "lookup_fd s p a = Some A" "lookup_fd s p b = Some B" "a \<noteq> b" "is_real B" "refCount B \<le> 1" "dPid A = p" "dId A = a"
  shows "\<exists>t. iod_dup2 p a b s = (Inr (), t) \<and> counter t = counter s \<and>
    (\<forall>q g. lookup_fd t q g = (if q = p \<and> g = b then Some (new_desc p b (dMode A) (Redirect p a))
      else if q = p \<and> g = a then Some (A\<lparr>refCount := refCount A + 1\<rparr>) else lookup_fd s q g))"
proof -
  obtain u where u: "iod_free p b s = (Inr (), u)" "counter u = counter s"
      "\<And>q g. lookup_fd u q g = (if q = p \<and> g = b then None else lookup_fd s q g)"
    using free_real[OF assms(2,5,4)] by blast
  have "RedirectDescriptor p p a b u = (Inr (new_desc p b (dMode A) (Redirect p a)), add_refs 1 p a u)"
    using assms u(3) by (auto simp: RedirectDescriptor_def iod_get_def andThen_def modify_def)
  moreover have "map_of (add_refs 1 p a u) p \<noteq> None"
    using lookup_table[OF assms(1)] u(2) by (simp add: table_of_counter)
  ultimately show ?thesis
    using assms u by (auto simp: iod_dup2_def iod_get_def andThen_def modify_def intro!: ext)
qed

lemma allocate_redirect_run:
  assumes "map_of s pid = Some T" "lookup_fd s pp pf = Some e" "length (iodMap T) < PROC_SYS_MAX_OPEN_FILES"
    and "fdIdCounter T \<notin> fst ` set (iodMap T)" "pp \<noteq> pid" "dPid e \<noteq> pid"
  shows "\<exists>t. iod_allocate pid (RedirectDescriptor pid pp pf) s = (Inr (fdIdCounter T), t) \<and>
    map_of t pid = Some \<lparr>fdIdCounter = fdIdCounter T + 1,
      iodMap = iodMap T @ [(fdIdCounter T, new_desc pid (fdIdCounter T) (dMode e) (Redirect (dPid e) (dId e)))]\<rparr> \<and>
    (\<forall>q g. q \<noteq> pid \<longrightarrow> lookup_fd t q g = (if q = pp \<and> g = pf then Some (e\<lparr>refCount := refCount e + 1\<rparr>) else lookup_fd s q g))"
proof -
  let ?x = "fdIdCounter T" and ?u = "update_table pid (\<lambda>t. t\<lparr>fdIdCounter := fdIdCounter T + 1\<rparr>) s"
  have "RedirectDescriptor pid pp pf ?x ?u = (Inr (new_desc pid ?x (dMode e) (Redirect (dPid e) (dId e))), add_refs 1 pp pf ?u)"
    using assms by (auto simp: RedirectDescriptor_def iod_get_def andThen_def modify_def)
  then have "iod_allocate pid (RedirectDescriptor pid pp pf) s = (Inr ?x, update_table pid (\<lambda>t. t\<lparr>iodMap := iodMap t @
      [(?x, new_desc pid ?x (dMode e) (Redirect (dPid e) (dId e)))]\<rparr>) (add_refs 1 pp pf ?u))"
    using assms by (simp add: iod_allocate_def Let_def andThen_def modify_def)
  moreover have "map_of (add_refs 1 pp pf ?u) pid = Some (T\<lparr>fdIdCounter := ?x + 1\<rparr>)"
    using assms by (auto simp: add_refs_def map_of_set_fd map_of_update_table split: option.splits)
  ultimately show ?thesis using assms by (auto simp: map_of_update_table)
qed

section \<open>Properties\<close>

text \<open>A table with a stream, a descriptor redirected to it, and another stream.\<close>

definition demo_stream_lib :: stream_lib where
  "demo_stream_lib = \<lparr>q_read = (\<lambda>q n. (take n q, drop n q)), q_write = (\<lambda>c q d. (min (length d) (c - length q), q @ take (c - length q) d)),
     q_full = (\<lambda>c q. c \<le> length q), O_WR_NONBLOCK = 1, O_RD_NONBLOCK = 2, O_APPEND_MODE = 4\<rparr>"

definition demo_stream :: "int \<Rightarrow> int \<Rightarrow> io_desc" where
  "demo_stream fd refs = (new_desc 7 fd 0 (Stream [] 4))\<lparr>refCount := refs\<rparr>"

definition demo_table :: io_state where
  "demo_table = [(7, \<lparr>fdIdCounter = 3, iodMap =
     [(0, demo_stream 0 2), (1, new_desc 7 1 0 (Redirect 7 0)), (2, demo_stream 2 1)]\<rparr>)]"





text \<open>C32: with \<open>b\<close> a duplicate of \<open>a\<close> and \<open>c\<close> a duplicate of \<open>b\<close>, closing \<open>c\<close> takes the reference it had to \<open>b\<close> away from
  \<open>a\<close>. \<open>a\<close> can then be replaced by a duplicate of \<open>b\<close>, which is redirected to \<open>a\<close>: from then on following either
  descriptor never ends, and \<open>b\<close> can never be closed.\<close>

theorem closed_duplicate_makes_cycle:
  assumes "lookup_fd s p a = Some A" "lookup_fd s p b = Some B" "lookup_fd s p c = Some C" "a \<noteq> b" "a \<noteq> c" "b \<noteq> c"
    and "is_real A" "is_real B" "is_real C" "refCount A = 1" "refCount B = 1" "refCount C = 1"
    and "dPid A = p" "dId A = a"
  shows "\<exists>s1 s2 s3 s4 B'. iod_dup2 p a b s = (Inr (), s1) \<and> iod_dup2 p b c s1 = (Inr (), s2) \<and> iod_free p c s2 = (Inr (), s3) \<and>
    iod_dup2 p b a s3 = (Inr (), s4) \<and> real_of s4 p a = None \<and> real_of s4 p b = None \<and> lookup_fd s4 p b = Some B' \<and> refCount B' = 3"
proof -
  let ?B1 = "new_desc p b (dMode A) (Redirect p a)" and ?A1 = "A\<lparr>refCount := 2\<rparr>"
  obtain s1 where s1: "iod_dup2 p a b s = (Inr (), s1)" "counter s1 = counter s"
      "\<And>q g. lookup_fd s1 q g = (if q = p \<and> g = b then Some ?B1 else if q = p \<and> g = a then Some ?A1 else lookup_fd s q g)"
    using dup2_real[OF assms(1,2,4,8) _ assms(13,14)] assms(10,11) by auto
  obtain s2 where s2: "iod_dup2 p b c s1 = (Inr (), s2)" "counter s2 = counter s"
      "\<And>q g. lookup_fd s2 q g = (if q = p \<and> g = c then Some (new_desc p c (dMode A) (Redirect p b))
        else if q = p \<and> g = b then Some (?B1\<lparr>refCount := 2\<rparr>) else lookup_fd s1 q g)"
    using dup2_real[of s1 p b ?B1 c C] assms s1 by (auto simp: new_desc_def)
  have m: "map_of s2 p \<noteq> None" using lookup_table[OF assms(1)] s2(2) by (simp add: table_of_counter)
  have ra: "real_of s2 p a = Some (Inr (p, a))" by (rule real_of_real[of _ _ _ ?A1]) (use assms s1 s2 in \<open>auto simp: is_real_def\<close>)
  let ?u = "add_refs (- 1) p c s2"
  have "real_of ?u p a = Some (Inr (p, a))" by (rule real_of_real[of _ _ _ ?A1]) (use assms s1 s2 in \<open>auto simp: is_real_def\<close>)
  moreover have mu: "map_of ?u p \<noteq> None" using m by (simp add: table_of_counter)
  ultimately have "real_of ?u p b = Some (Inr (p, a))"
    using real_of_redirect[of ?u p b "?B1\<lparr>refCount := 2\<rparr>" p a] assms s2 by (simp add: table_of_counter new_desc_def)
  then have "getParentDescriptor (new_desc p c (dMode A) (Redirect p b)) ?u = (Inr (Some (p, a)), ?u)"
    using mu by (simp add: getParentDescriptor_def new_desc_def getRealNonDupped_def andThen_def)
  then obtain s3 where s3: "iod_free p c s2 = (Inr (), s3)" "counter s3 = counter s2"
      "\<And>q g. lookup_fd s3 q g = (if q = p \<and> g = c then None else if q = p \<and> g = a then Some (A\<lparr>refCount := 1\<rparr>) else lookup_fd s2 q g)"
    using assms s1(3) s2(3) by (auto simp: iod_free_def iod_get_def andThen_def modify_def new_desc_def)
  obtain s4 where s4: "iod_dup2 p b a s3 = (Inr (), s4)"
      "\<And>q g. lookup_fd s4 q g = (if q = p \<and> g = a then Some (new_desc p a (dMode A) (Redirect p b))
        else if q = p \<and> g = b then Some (?B1\<lparr>refCount := 3\<rparr>) else lookup_fd s3 q g)"
    using dup2_real[of s3 p b "?B1\<lparr>refCount := 2\<rparr>" a "A\<lparr>refCount := 1\<rparr>"] assms s2(3) s3 by (auto simp: new_desc_def is_real_def)
  have "real_of s4 p a = None" "real_of s4 p b = None"
    using assms(4) s4(2) by (auto intro!: real_of_cycle simp: new_desc_def)
  then show ?thesis using s1(1) s2(1) s3(1) s4 assms(4) by auto
qed

lemma closed_duplicate_makes_cycle_witness:
  "\<exists>s4. real_of s4 7 0 = None \<and> iod_dup2 7 1 0 (snd (iod_free 7 2 (snd (iod_dup2 7 1 2 (snd (iod_dup2 7 0 1
      [(7, \<lparr>fdIdCounter = 3, iodMap = [(0, demo_stream 0 1), (1, demo_stream 1 1), (2, demo_stream 2 1)]\<rparr>)])))))) = (Inr (), s4)"
proof -
  let ?s = "[(7, \<lparr>fdIdCounter = 3, iodMap = [(0, demo_stream 0 1), (1, demo_stream 1 1), (2, demo_stream 2 1)]\<rparr>)] :: io_state"
  have "lookup_fd ?s 7 0 = Some (demo_stream 0 1)" "lookup_fd ?s 7 1 = Some (demo_stream 1 1)" "lookup_fd ?s 7 2 = Some (demo_stream 2 1)"
    by (simp_all add: lookup_fd_def)
  from closed_duplicate_makes_cycle[OF this] show ?thesis
    by (fastforce simp: demo_stream_def new_desc_def is_real_def)
qed

text \<open>C34: starting a process adds a reference to each of the three standard descriptors of its parent, and its end does not take
  them back: the parent can never again put a duplicate in the place of its standard output.\<close>

theorem ended_child_keeps_references:
  assumes "map_of s child = None" "child \<noteq> NO_PROCESS_ID"
    and "lookup_fd s parent STDIN = Some d0" "lookup_fd s parent STDOUT = Some d1" "lookup_fd s parent STDERR = Some d2"
    and "dPid d0 = parent" "dPid d1 = parent" "dPid d2 = parent" "1 \<le> refCount d1" "lookup_fd s parent fd = Some e"
  shows "\<exists>t. IODescriptorTable_new Q child parent s = (Inr (), t) \<and>
    iod_dup2 parent fd STDOUT (IODescriptorTable_delete child t) = (Inl (DescriptorOpen STDOUT), IODescriptorTable_delete child t)"
proof -
  have ne: "parent \<noteq> child" using assms(1,3) by (auto simp: lookup_fd_def split: option.splits)
  let ?s0 = "s @ [(child, \<lparr>fdIdCounter = 0, iodMap = []\<rparr>)]"
  have l0: "lookup_fd ?s0 q g = (if q = child then None else lookup_fd s q g)" for q g
    using assms(1) by (auto simp: lookup_fd_def map_add_def split: option.splits)
  have m0: "map_of ?s0 child = Some \<lparr>fdIdCounter = 0, iodMap = []\<rparr>" using assms(1) by (simp add: map_add_def)
  note std = STDIN_def STDOUT_def STDERR_def
  obtain s1 where s1: "iod_allocate child (RedirectDescriptor child parent STDIN) ?s0 = (Inr 0, s1)"
      "map_of s1 child = Some \<lparr>fdIdCounter = 1, iodMap = [(0, new_desc child 0 (dMode d0) (Redirect (dPid d0) (dId d0)))]\<rparr>"
      "\<And>q g. q \<noteq> child \<Longrightarrow> lookup_fd s1 q g =
        (if q = parent \<and> g = STDIN then Some (d0\<lparr>refCount := refCount d0 + 1\<rparr>) else lookup_fd s q g)"
    using allocate_redirect_run[OF m0, of parent STDIN d0] assms ne l0 by (auto simp: PROC_SYS_MAX_OPEN_FILES_def)
  obtain s2 where s2: "iod_allocate child (RedirectDescriptor child parent STDOUT) s1 = (Inr 1, s2)"
      "map_of s2 child = Some \<lparr>fdIdCounter = 2, iodMap = [(0, new_desc child 0 (dMode d0) (Redirect (dPid d0) (dId d0))),
         (1, new_desc child 1 (dMode d1) (Redirect (dPid d1) (dId d1)))]\<rparr>"
      "\<And>q g. q \<noteq> child \<Longrightarrow> lookup_fd s2 q g =
        (if q = parent \<and> g = STDOUT then Some (d1\<lparr>refCount := refCount d1 + 1\<rparr>) else lookup_fd s1 q g)"
    using allocate_redirect_run[OF s1(2), of parent STDOUT d1] assms ne s1(3) by (auto simp: PROC_SYS_MAX_OPEN_FILES_def std)
  obtain s3 where s3: "iod_allocate child (RedirectDescriptor child parent STDERR) s2 = (Inr 2, s3)"
      "\<And>q g. q \<noteq> child \<Longrightarrow> lookup_fd s3 q g =
        (if q = parent \<and> g = STDERR then Some (d2\<lparr>refCount := refCount d2 + 1\<rparr>) else lookup_fd s2 q g)"
    using allocate_redirect_run[OF s2(2), of parent STDERR d2] assms ne s1(3) s2(3) by (auto simp: PROC_SYS_MAX_OPEN_FILES_def std)
  let ?t = "IODescriptorTable_delete child s3"
  have "IODescriptorTable_new Q child parent s = (Inr (), s3)"
    using assms(2) s1(1) s2(1) s3(1) by (simp add: IODescriptorTable_new_def andThen_def modify_def)
  moreover have l: "lookup_fd ?t parent g = lookup_fd s3 parent g" for g
    using ne by (auto simp: lookup_fd_def IODescriptorTable_delete_def map_of_filter_key)
  have d1: "lookup_fd ?t parent STDOUT = Some (d1\<lparr>refCount := refCount d1 + 1\<rparr>)"
    using s2(3) s3(2) ne by (auto simp: l std)
  have "lookup_fd ?t parent fd \<noteq> None" using s1(3) s2(3) s3(2) ne assms(10) by (auto simp: l)
  then have "iod_dup2 parent fd STDOUT ?t = (Inl (DescriptorOpen STDOUT), ?t)"
    using d1 assms(9) by (auto simp: iod_dup2_def iod_free_def iod_get_def andThen_def)
  ultimately show ?thesis by blast
qed

lemma ended_child_keeps_references_witness:
  "\<exists>t. IODescriptorTable_new demo_stream_lib 8 7 demo_table = (Inr (), t) \<and>
    iod_dup2 7 0 STDOUT (IODescriptorTable_delete 8 t) = (Inl (DescriptorOpen STDOUT), IODescriptorTable_delete 8 t)"
  by (rule ended_child_keeps_references)
    (auto simp: demo_table_def demo_stream_lib_def NO_PROCESS_ID_def lookup_fd_def STDIN_def STDOUT_def STDERR_def demo_stream_def new_desc_def)

end
