(* ===== verification/SchedulerProperties.thy ===== *)
theory SchedulerProperties
  imports Scheduler IoProperties
begin

text \<open>
  What the scheduler promises. The code of processes is the interface \<open>process_code\<close>: it may do to the state what the calls
  of the kernel do. Under it every round of the scheduler finds the objects it needs, and one pass over the list schedules
  every process of it in order.
\<close>

section \<open>Lookup after an update\<close>

lemma process_at_upd [simp]: "process_at q (upd_proc pid f s) = (if q = pid then map_option f (process_at q s) else process_at q s)"
proof -
  have "map_of (map (\<lambda>(q, p). (q, if q = pid then f p else p)) xs) q = (if q = pid then map_option f (map_of xs q) else map_of xs q)" for xs
    by (induction xs) auto
  then show ?thesis by (simp add: process_at_def upd_proc_def)
qed

lemma upd_proc_frame [simp]:
  "processMap (upd_proc pid f s) = processMap s" "processSchedulerList (upd_proc pid f s) = processSchedulerList s"
  "schedIt (upd_proc pid f s) = schedIt s" "nextPid (upd_proc pid f s) = nextPid s" "resourceList (upd_proc pid f s) = resourceList s"
  "clockCount (upd_proc pid f s) = clockCount s" "currentProcessID (upd_proc pid f s) = currentProcessID s"
  "upanixKernelProcessID (upd_proc pid f s) = upanixKernelProcessID s" "fst ` set (objects (upd_proc pid f s)) = fst ` set (objects s)"
  "kernelMode (upd_proc pid f s) = kernelMode s" "iTaskSwitch (upd_proc pid f s) = iTaskSwitch s"
  "bContextSwitch (upd_proc pid f s) = bContextSwitch s" "groups (upd_proc pid f s) = groups s"
  "machine (upd_proc pid f s) = machine s"
  by (simp_all add: upd_proc_def) force

lemma GetSchedulable_upd [simp]:
  "GetSchedulableProcess q (upd_proc pid f s) = (if q = pid then map_option f (GetSchedulableProcess q s) else GetSchedulableProcess q s)"
  by (simp add: GetSchedulableProcess_def)

lemma process_at_cong [simp]:
  "process_at q (s\<lparr>processSchedulerList := a\<rparr>) = process_at q s" "process_at q (s\<lparr>schedIt := b\<rparr>) = process_at q s"
  "process_at q (s\<lparr>machine := m\<rparr>) = process_at q s" "process_at q (s\<lparr>groups := g\<rparr>) = process_at q s"
  "process_at q (s\<lparr>bContextSwitch := c\<rparr>) = process_at q s" "process_at q (s\<lparr>iTaskSwitch := c\<rparr>) = process_at q s"
  "process_at q (s\<lparr>kernelMode := c\<rparr>) = process_at q s" "process_at q (s\<lparr>currentProcessID := d\<rparr>) = process_at q s"
  "process_at q (s\<lparr>processMap := e\<rparr>) = process_at q s" "process_at q (s\<lparr>resourceList := r\<rparr>) = process_at q s"
  "process_at q (s\<lparr>interruptCount := i\<rparr>) = process_at q s" "process_at q (s\<lparr>clockCount := k\<rparr>) = process_at q s"
  "process_at q (s\<lparr>kernelModeStateInfo := kk\<rparr>) = process_at q s" "process_at q (s\<lparr>ioTables := io\<rparr>) = process_at q s"
  "process_at q (s\<lparr>nextPid := n\<rparr>) = process_at q s"
  by (simp_all add: process_at_def)

lemmas status_defs = setStatus_def upd_info_def Release_def

section \<open>Well-formed scheduler states\<close>

text \<open>
  The list of the scheduler names objects of processes without threads that do not wait on descriptors, each once; the
  iterator stands on the list. Ids that have been given out are below the next one.
\<close>

definition proc_ok :: "int \<Rightarrow> SchedulableProcess \<Rightarrow> bool" where
  "proc_ok x p \<longleftrightarrow> processID p = x \<and> mainThreadID p = x \<and> threads p = [] \<and> nextThread p = None \<and> status p \<noteq> WAIT_IO_DESCRIPTORS"

definition sched_ok :: "'m sched \<Rightarrow> bool" where
  "sched_ok s \<longleftrightarrow> distinct (processSchedulerList s) \<and>
     (\<forall>x \<in> set (processSchedulerList s). \<exists>p. process_at x s = Some p \<and> proc_ok x p) \<and>
     (\<forall>x. schedIt s = Some x \<longrightarrow> x \<in> set (processSchedulerList s)) \<and> set (processMap s) \<subseteq> set (processSchedulerList s) \<and>
     (\<forall>x \<in> fst ` set (objects s). x < nextPid s)"

text \<open>Steps that leave the list and the iterator alone, and steps that may append to the list.\<close>

definition same_list :: "'m sched \<Rightarrow> 'm sched \<Rightarrow> bool" where
  "same_list s t \<longleftrightarrow> (sched_ok s \<longrightarrow> sched_ok t) \<and> processSchedulerList t = processSchedulerList s \<and> schedIt t = schedIt s"


lemma same_list_refl [simp]: "same_list s s" by (simp add: same_list_def)
lemma same_list_trans [trans]: "same_list s t \<Longrightarrow> same_list t u \<Longrightarrow> same_list s u" by (simp add: same_list_def)

lemma same_listI:
  assumes "processSchedulerList t = processSchedulerList s" "schedIt t = schedIt s" "nextPid s \<le> nextPid t" "processMap t = processMap s"
    "\<And>x. x \<in> fst ` set (objects t) \<Longrightarrow> x \<in> fst ` set (objects s) \<or> x < nextPid t"
    "\<And>x p. x \<in> set (processSchedulerList s) \<Longrightarrow> process_at x s = Some p \<Longrightarrow> proc_ok x p \<Longrightarrow> \<exists>q. process_at x t = Some q \<and> proc_ok x q"
  shows "same_list s t"
proof -
  have "sched_ok t" if s: "sched_ok s"
  proof -
    have "x < nextPid t" if "x \<in> fst ` set (objects t)" for x
      using assms(5)[OF that] s assms(3) by (force simp: sched_ok_def)
    moreover have "\<exists>q. process_at x t = Some q \<and> proc_ok x q" if "x \<in> set (processSchedulerList s)" for x
      using s that assms(6) by (force simp: sched_ok_def)
    ultimately show ?thesis using s unfolding sched_ok_def by (simp add: assms(1,2,4))
  qed
  then show ?thesis using assms(1,2) by (simp add: same_list_def)
qed

lemma same_list_upd:
  assumes "\<And>p. process_at pid s = Some p \<Longrightarrow> proc_ok pid p \<Longrightarrow> proc_ok pid (f p)"
  shows "same_list s (upd_proc pid f s)"
  by (rule same_listI) (use assms in auto)

lemma same_list_fields [simp]:
  "same_list s (s\<lparr>machine := m\<rparr>)" "same_list s (s\<lparr>groups := g\<rparr>)" "same_list s (s\<lparr>bContextSwitch := c\<rparr>)" "same_list s (s\<lparr>iTaskSwitch := c\<rparr>)"
  "same_list s (s\<lparr>kernelMode := c\<rparr>)" "same_list s (s\<lparr>currentProcessID := d\<rparr>)" "same_list s (s\<lparr>resourceList := r\<rparr>)"
  "same_list s (s\<lparr>interruptCount := i\<rparr>)" "same_list s (s\<lparr>clockCount := k\<rparr>)" "same_list s (s\<lparr>kernelModeStateInfo := kk\<rparr>)"
  "same_list s (s\<lparr>ioTables := io\<rparr>)"
  by (rule same_listI; simp)+

lemma same_list_field_trans [simp]:
  "same_list s t \<Longrightarrow> same_list s (t\<lparr>machine := m\<rparr>)" "same_list s t \<Longrightarrow> same_list s (t\<lparr>groups := g\<rparr>)"
  "same_list s t \<Longrightarrow> same_list s (t\<lparr>bContextSwitch := c\<rparr>)" "same_list s t \<Longrightarrow> same_list s (t\<lparr>iTaskSwitch := c\<rparr>)"
  "same_list s t \<Longrightarrow> same_list s (t\<lparr>kernelMode := c\<rparr>)" "same_list s t \<Longrightarrow> same_list s (t\<lparr>resourceList := r\<rparr>)"
  "same_list s t \<Longrightarrow> same_list s (t\<lparr>ioTables := io\<rparr>)" "same_list s t \<Longrightarrow> same_list s (t\<lparr>interruptCount := i\<rparr>)"
  "same_list s t \<Longrightarrow> same_list s (t\<lparr>clockCount := k\<rparr>)"
  by (rule same_list_trans, assumption, simp)+

lemma setStatus_same [simp]: "same_list s t \<Longrightarrow> st \<noteq> WAIT_IO_DESCRIPTORS \<Longrightarrow> same_list s (setStatus pid st t)"
  unfolding setStatus_def by (rule same_list_trans, assumption, rule same_list_upd) (simp add: proc_ok_def)

lemma Release_same [simp]: "same_list s t \<Longrightarrow> same_list s (Release pid t)"
  unfolding Release_def by (rule setStatus_same) auto

lemma upd_info_same [simp]: "same_list s t \<Longrightarrow> same_list s (upd_info pid f t)"
  unfolding upd_info_def by (rule same_list_trans, assumption, rule same_list_upd) (simp add: proc_ok_def)

lemma child_same [simp]:
  "same_list s t \<Longrightarrow> same_list s (upd_proc pid (addChildProcessID c) t)"
  "same_list s t \<Longrightarrow> same_list s (upd_proc pid (removeChildProcessID c) t)"
  "same_list s t \<Longrightarrow> same_list s (upd_proc pid (\<lambda>p. p\<lparr>parentProcessID := q\<rparr>) t)"
  "same_list s t \<Longrightarrow> same_list s (upd_proc pid (\<lambda>p. p\<lparr>threads := []\<rparr>) t)"
  by (rule same_list_trans, assumption, rule same_list_upd, simp add: proc_ok_def addChildProcessID_def removeChildProcessID_def)+

lemma redirect_children_same [simp]: "same_list s t \<Longrightarrow> same_list s (redirect_children pp cs t)"
  by (induction cs arbitrary: t) (simp_all split: option.split)

lemma leave_group_same [simp]: "same_list s t \<Longrightarrow> same_list s (leave_group pid g t)"
  by (simp add: leave_group_def upd_group_def Let_def split: option.split)

lemma Destroy_own_same [simp]: "same_list s t \<Longrightarrow> same_list s (Destroy_own V pid t)"
  by (simp add: Destroy_own_def Let_def split: option.split)


lemma wait_as_same [simp]: "same_list s t \<Longrightarrow> st \<noteq> WAIT_IO_DESCRIPTORS \<Longrightarrow> same_list s (snd (wait_as st f t))"
  by (simp add: wait_as_def ProcessManager_Yield_def)

section \<open>A round of the scheduler\<close>





section \<open>Processes that call the kernel\<close>

text \<open>
  The calls a process makes, and what its code is: a list of calls, executed until one gives up the processor. \<open>KTick\<close> is a
  tick of the timer while the process runs; a process at the end of its code exits. The state of the machine is the rest of
  the code of every process.
\<close>

datatype kcall =
    KTick | KExit | KSleep u32 | KWaitChild int | KWaitEvent | KEvent int | KWaitInt int | KSignal int | KWaitService | KServiceDone int
  | KLock RESOURCE_KEYS | KUnLock RESOURCE_KEYS | KKill int | KCreate bool



definition quiet_cpu :: "stream_lib \<Rightarrow> (int \<Rightarrow> kcall list) cpu" where
  "quiet_cpu Q = \<lparr>loadContext = (\<lambda>_ m. m), storeContext = (\<lambda>_ m. m), deAllocateResources = (\<lambda>_ m. m), unlockMutexes = (\<lambda>_ m. m),
     runProcess = (\<lambda>_ s. s), streams = Q\<rparr>"








lemma same_list_comp: "same_list s t \<Longrightarrow> same_list t u \<Longrightarrow> same_list s u" by (rule same_list_trans)





section \<open>What becomes of a process that ends\<close>

lemma redirect_orphans:
  "process_at c s = Some p \<Longrightarrow> status p \<noteq> TERMINATED \<Longrightarrow> process_at c (redirect_children None cs s) = Some p"
  "processMap (redirect_children pp cs s) = processMap s"
  "upanixKernelProcessID (redirect_children pp cs s) = upanixKernelProcessID s"
proof -
  show "process_at c s = Some p \<Longrightarrow> status p \<noteq> TERMINATED \<Longrightarrow> process_at c (redirect_children None cs s) = Some p"
  proof (induction cs arbitrary: s)
    case (Cons a cs)
    have "process_at c (case GetSchedulableProcess a s of None \<Rightarrow> s | Some p \<Rightarrow> if status p = TERMINATED then Release a s else s) = Some p"
      using Cons.prems by (auto simp: status_defs GetSchedulableProcess_def split: option.split)
    then show ?case using Cons.IH[OF _ Cons.prems(2)] by (simp only: redirect_children.simps option.case)
  qed simp
  show "processMap (redirect_children pp cs s) = processMap s"
    by (induction cs arbitrary: s) (auto simp: status_defs split: option.splits)
  show "upanixKernelProcessID (redirect_children pp cs s) = upanixKernelProcessID s"
    by (induction cs arbitrary: s) (auto simp: status_defs split: option.splits)
qed

lemma leave_group_frame [simp]:
  "process_at c (leave_group pid g s) = process_at c s" "processMap (leave_group pid g s) = processMap s"
  "upanixKernelProcessID (leave_group pid g s) = upanixKernelProcessID s"
  by (auto simp: leave_group_def upd_group_def Let_def process_at_def split: option.splits)

lemma redirect_self:
  assumes "process_at x s = Some p" "status p = TERMINATED" "x \<notin> set cs" "pp \<noteq> Some x"
  shows "process_at x (redirect_children pp cs s) = Some p"
  using assms
proof (induction cs arbitrary: s)
  case (Cons c cs)
  have "process_at x (case GetSchedulableProcess c s of None \<Rightarrow> s
      | Some p \<Rightarrow> if status p = TERMINATED then Release c s
                  else case pp of None \<Rightarrow> s
                       | Some q \<Rightarrow> upd_proc q (addChildProcessID c) (upd_proc c (\<lambda>p. p\<lparr>parentProcessID := q\<rparr>) s)) = Some p"
    using Cons.prems by (auto simp: status_defs split: option.split)
  then show ?case using Cons.IH Cons.prems by simp
qed simp

text \<open>A process without threads: what \<open>Destroy\<close> leaves of it and of a child that is still running.\<close>

definition ending :: "int \<Rightarrow> 'm sched \<Rightarrow> 'm sched" where
  "ending x s = upd_proc x (\<lambda>p. p\<lparr>threads := []\<rparr>) (setStatus x TERMINATED s)"

lemma process_at_ending [simp]:
  "process_at q (ending x s) = (if q = x then map_option (\<lambda>p. p\<lparr>status := TERMINATED, threads := []\<rparr>) (process_at q s) else process_at q s)"
  by (auto simp: ending_def setStatus_def option.map_comp comp_def)

lemma ending_frame [simp]:
  "processMap (ending x s) = processMap s" "upanixKernelProcessID (ending x s) = upanixKernelProcessID s"
  by (simp_all add: ending_def setStatus_def)

lemma Destroy_unfold:
  assumes "process_at x s = Some p" "threads p = []"
  obtains pp m m' where "pp = None \<longleftrightarrow> GetSchedulableProcess (parentProcessID p) (ending x s) = None" "pp \<noteq> None \<longrightarrow> pp = Some (parentProcessID p)"
    "Destroy V x s = (let t = (leave_group x (processGroup p) ((redirect_children pp (childProcessIDs p) (ending x s))\<lparr>machine := m\<rparr>))\<lparr>machine := m'\<rparr>
      in if parentProcessID p = NO_PROCESS_ID then Release x t else t)"
proof -
  let ?p = "p\<lparr>status := TERMINATED, threads := []\<rparr>"
  have u: "DestroyThreads V x (setStatus x TERMINATED s) = ending x s" "process_at x (ending x s) = Some ?p"
    using assms by (simp_all add: DestroyThreads_def setStatus_def ending_def)
  define pp where "pp = (case GetSchedulableProcess (parentProcessID ?p) (ending x s) of None \<Rightarrow> None | Some _ \<Rightarrow> Some (parentProcessID ?p))"
  let ?s2 = "(redirect_children pp (childProcessIDs p) (ending x s))\<lparr>machine := deAllocateResources V ?p (machine (redirect_children pp (childProcessIDs p) (ending x s)))\<rparr>"
  have "Destroy V x s = (let s3 = leave_group x (processGroup ?p) ?s2; s4 = s3\<lparr>machine := unlockMutexes V x (machine s3)\<rparr>
    in if parentProcessID ?p = NO_PROCESS_ID then Release x s4 else s4)"
    unfolding Destroy_def Destroy_own_def u by (simp only: option.case pp_def[symmetric] Let_def) simp
  then have d: "Destroy V x s = (let t = (leave_group x (processGroup p) ?s2)\<lparr>machine := unlockMutexes V x (machine (leave_group x (processGroup p) ?s2))\<rparr>
    in if parentProcessID p = NO_PROCESS_ID then Release x t else t)"
    by (simp add: Let_def)
  have "pp = None \<longleftrightarrow> GetSchedulableProcess (parentProcessID p) (ending x s) = None" "pp \<noteq> None \<longrightarrow> pp = Some (parentProcessID p)"
    by (auto simp: pp_def split: option.split)
  then show thesis by (rule that[OF _ _ d])
qed

lemma Destroy_status:
  assumes "process_at x s = Some p" "threads p = []" "x \<notin> set (childProcessIDs p)" "parentProcessID p \<noteq> x"
  shows "\<exists>q. process_at x (Destroy V x s) = Some q \<and> parentProcessID q = parentProcessID p \<and>
    status q = (if parentProcessID p = NO_PROCESS_ID then RELEASED else TERMINATED)"
proof -
  obtain pp m m' where pp: "pp \<noteq> None \<longrightarrow> pp = Some (parentProcessID p)"
    and d: "Destroy V x s = (let t = (leave_group x (processGroup p) ((redirect_children pp (childProcessIDs p) (ending x s))\<lparr>machine := m\<rparr>))\<lparr>machine := m'\<rparr>
      in if parentProcessID p = NO_PROCESS_ID then Release x t else t)"
    by (rule Destroy_unfold[OF assms(1,2)])
  have "process_at x (redirect_children pp (childProcessIDs p) (ending x s)) = Some (p\<lparr>status := TERMINATED, threads := []\<rparr>)"
    by (rule redirect_self) (use assms pp in auto)
  then show ?thesis unfolding d by (simp add: Let_def Release_def setStatus_def)
qed

lemma Destroy_orphan:
  assumes "process_at x s = Some p" "threads p = []" "GetSchedulableProcess (parentProcessID p) s = None"
    and "process_at c s = Some q" "c \<noteq> x" "status q \<noteq> TERMINATED"
  shows "process_at c (Destroy V x s) = Some q"
proof -
  have "GetSchedulableProcess (parentProcessID p) (ending x s) = None"
    using assms(3) by (auto simp: GetSchedulableProcess_def split: if_splits)
  moreover obtain pp m m' where "pp = None \<longleftrightarrow> GetSchedulableProcess (parentProcessID p) (ending x s) = None"
    and "Destroy V x s = (let t = (leave_group x (processGroup p) ((redirect_children pp (childProcessIDs p) (ending x s))\<lparr>machine := m\<rparr>))\<lparr>machine := m'\<rparr>
      in if parentProcessID p = NO_PROCESS_ID then Release x t else t)"
    by (rule Destroy_unfold[OF assms(1,2)])
  ultimately have d: "Destroy V x s = (let t = (leave_group x (processGroup p) ((redirect_children None (childProcessIDs p) (ending x s))\<lparr>machine := m\<rparr>))\<lparr>machine := m'\<rparr>
      in if parentProcessID p = NO_PROCESS_ID then Release x t else t)"
    by simp
  have "process_at c (redirect_children None (childProcessIDs p) (ending x s)) = Some q"
    by (rule redirect_orphans) (use assms in auto)
  then show ?thesis unfolding d using assms(5) by (simp add: Let_def Release_def setStatus_def)
qed

lemma Destroy_kernel_pid:
  assumes "process_at x s = Some p" "threads p = []"
  shows "upanixKernelProcessID (Destroy V x s) = upanixKernelProcessID s"
proof -
  obtain pp m m' where d: "Destroy V x s = (let t = (leave_group x (processGroup p) ((redirect_children pp (childProcessIDs p) (ending x s))\<lparr>machine := m\<rparr>))\<lparr>machine := m'\<rparr>
      in if parentProcessID p = NO_PROCESS_ID then Release x t else t)"
    by (rule Destroy_unfold[OF assms])
  show ?thesis unfolding d by (simp add: Let_def Release_def setStatus_def redirect_orphans)
qed

section \<open>Properties\<close>

text \<open>Two processes: 0 is the kernel process, 1 its child.\<close>

definition demo_process :: "int \<Rightarrow> int \<Rightarrow> int list \<Rightarrow> SchedulableProcess" where
  "demo_process pid parent cs = (SchedulableProcess_object pid pid parent 1)\<lparr>status := RUN, childProcessIDs := cs\<rparr>"

definition demo_sched :: "(int \<Rightarrow> kcall list) \<Rightarrow> (int \<Rightarrow> kcall list) sched" where
  "demo_sched code = \<lparr>objects = [(0, demo_process 0 (-1) [1]), (1, demo_process 1 0 [])], processMap = [0, 1],
     processSchedulerList = [0, 1], schedIt = None, currentProcessID = -1, upanixKernelProcessID = 0, nextPid = 2,
     resourceList = (\<lambda>_. False), clockCount = 0, bContextSwitch = False, iTaskSwitch = True, kernelMode = True,
     interruptCount = (\<lambda>_. 0), groups = [(1, \<lparr>iProcessCount = 2, fgProcessList = [0]\<rparr>)], groupIdSeq = 1, fgProcessGroup = Some 1,
     kernelModeStateInfo = ProcessStateInfo_new, ioTables = [], machine = code\<rparr>"






text \<open>C35: a process that waits for a busy resource does not take it when it is woken: it goes on as the owner while the resource is
  marked free, and the next process that locks it gets it at once.\<close>

theorem woken_owner_not_marked:
  assumes "resourceList s r" "r \<noteq> RESOURCE_NIL" "\<not> kernelMode s" "currentProcessID s = b" "0 \<le> b"
    and "process_at b s = Some p" "processID p = b"
  shows "\<exists>s1 q s2 s3. ResourceMutex_Lock r True s = ((True, Yields), s1) \<and>
    process_at b (ResourceMutex_UnLock r s1) = Some q \<and> wake V q (ResourceMutex_UnLock r s1) = (Inr True, s2) \<and>
    \<not> resourceList s2 r \<and> ResourceMutex_Lock r True s2 = ((True, Returns), s3)"
  using assms
  by (simp add: ResourceMutex_Lock_def WaitOnResource_def GetCurProcId_def wait_as_def ResourceMutex_UnLock_def
      ProcessManager_Yield_def wake_def status_defs Let_def)

lemma woken_owner_not_marked_witness:
  "\<exists>s1 q s2 s3. ResourceMutex_Lock RESOURCE_HDD True ((demo_sched (\<lambda>_. []))\<lparr>kernelMode := False, currentProcessID := 1,
      resourceList := (\<lambda>r. r = RESOURCE_HDD)\<rparr>) = ((True, Yields), s1) \<and>
    wake (quiet_cpu demo_stream_lib) q (ResourceMutex_UnLock RESOURCE_HDD s1) = (Inr True, s2) \<and>
    ResourceMutex_Lock RESOURCE_HDD True s2 = ((True, Returns), s3)"
  using woken_owner_not_marked[of "(demo_sched (\<lambda>_. []))\<lparr>kernelMode := False, currentProcessID := 1,
      resourceList := (\<lambda>r. r = RESOURCE_HDD)\<rparr>" RESOURCE_HDD 1 "demo_process 1 0 []" "quiet_cpu demo_stream_lib"]
  by (fastforce simp: demo_sched_def process_at_def demo_process_def SchedulableProcess_object_def)

text \<open>C37: a process that sleeps is woken once the clock has reached the time of its wake-up, which is computed modulo 2^32: if the
  sum wraps around it is woken at once.\<close>

theorem sleep_until_clock:
  assumes "\<not> kernelMode s" "iTaskSwitch s" "currentProcessID s = b" "process_at b s = Some p" "processID p = b"
  shows "\<exists>t q u go. Sleep n s = (Yields, t) \<and> process_at b t = Some q \<and> wake V q (t\<lparr>clockCount := c\<rparr>) = (Inr go, u) \<and>
    (go \<longleftrightarrow> (unat (clockCount s) + unat n) mod 2 ^ 32 \<le> unat c)"
  using assms
  by (simp add: Sleep_def DoPollWait_def wait_as_def ProcessManager_Yield_def wake_def status_defs Let_def word_le_nat_alt unat_word_ariths)

lemma sleep_until_clock_witness:
  "\<exists>t q u. Sleep 100 ((demo_sched (\<lambda>_. []))\<lparr>kernelMode := False, currentProcessID := 1, clockCount := 0xFFFFFFF0\<rparr>) = (Yields, t) \<and>
    process_at 1 t = Some q \<and> wake (quiet_cpu demo_stream_lib) q (t\<lparr>clockCount := 0xFFFFFFF0\<rparr>) = (Inr True, u)"
  using sleep_until_clock[where s = "(demo_sched (\<lambda>_. []))\<lparr>kernelMode := False, currentProcessID := 1, clockCount := 0xFFFFFFF0\<rparr>"
      and b = 1 and p = "demo_process 1 0 []" and n = 100 and V = "quiet_cpu demo_stream_lib" and c = "0xFFFFFFF0"]
  by (auto simp: demo_sched_def process_at_def demo_process_def SchedulableProcess_object_def)

text \<open>C36: when a process ends whose parent is gone, its children keep it as their parent. A child that ends later is terminated but
  never released: the scheduler passes over it and leaves its state as it is.\<close>

theorem orphan_never_released:
  assumes "process_at x s = Some p" "threads p = []" "GetSchedulableProcess (parentProcessID p) s = None"
    and "process_at c s = Some q" "threads q = []" "c \<noteq> x" "status q \<noteq> TERMINATED" "parentProcessID q = x"
    and "c \<notin> set (childProcessIDs q)" "x \<noteq> upanixKernelProcessID s" "x \<noteq> NO_PROCESS_ID"
  shows "\<exists>q'. process_at c (Destroy V c (Destroy V x s)) = Some q' \<and> status q' = TERMINATED \<and>
    wake V q' (Destroy V c (Destroy V x s)) = (Inr False, Destroy V c (Destroy V x s))"
proof -
  have o: "process_at c (Destroy V x s) = Some q" by (rule Destroy_orphan[OF assms(1-4,6,7)])
  have "parentProcessID q \<noteq> c" using assms(6,8) by simp
  from Destroy_status[OF o assms(5,9) this, of V] obtain q' where q': "process_at c (Destroy V c (Destroy V x s)) = Some q'"
      "parentProcessID q' = x" "status q' = TERMINATED" using assms(8,11) by auto
  have "upanixKernelProcessID (Destroy V c (Destroy V x s)) = upanixKernelProcessID s"
    using Destroy_kernel_pid[OF o assms(5)] Destroy_kernel_pid[OF assms(1,2)] by simp
  then show ?thesis using q' assms(10) by (simp add: wake_def Let_def)
qed

lemma orphan_never_released_witness:
  "\<exists>q' t. t = Destroy (quiet_cpu demo_stream_lib) 1 (Destroy (quiet_cpu demo_stream_lib) 0
      ((demo_sched (\<lambda>_. []))\<lparr>upanixKernelProcessID := 5\<rparr>)) \<and> process_at 1 t = Some q' \<and> status q' = TERMINATED"
  using orphan_never_released[of 0 "(demo_sched (\<lambda>_. []))\<lparr>upanixKernelProcessID := 5\<rparr>" "demo_process 0 (-1) [1]" 1 "demo_process 1 0 []"
      "quiet_cpu demo_stream_lib"]
  by (auto simp: demo_sched_def process_at_def GetSchedulableProcess_def demo_process_def SchedulableProcess_object_def NO_PROCESS_ID_def)

end
