(* ===== verification/Partition.thy ===== *)
theory Partition
  imports FatProperties
begin

text \<open>
  The partition table of a disk: \<open>drivers/PartitionManager.cpp\<close>, with the reads and writes of raw disks from
  \<open>drivers/DeviceDrive.cpp\<close>.

  A raw disk is a function from sectors to their 512 bytes; the drivers behind it fail for the sectors \<open>rawFails\<close>.
  A reverse iterator stays on its element when the list grows. The loops that follow a chain on the disk take fuel: they end
  only where the disk says so.
\<close>

section \<open>Raw disks\<close>

datatype RAW_DISK_TYPES = ATA_HARD_DISK | USB_SCSI_DISK | FLOPPY_DISK

record RawDiskDrive =
  rawType :: RAW_DISK_TYPES
  rawSizeInSectors :: u32
  rawSectors :: "u32 \<Rightarrow> sector"
  rawFails :: "u32 \<Rightarrow> bool"

datatype part_error =
    UnknownDevice | DiskError | BadSignature | PrimaryFull | ExtExists | NoPrimary | NoSpace | NoExt | TableEmpty
  | EmptyList      \<comment> \<open>an element is taken from an empty list\<close>
  | NeverEnds

definition RawDiskDrive_Read :: "u32 \<Rightarrow> (RawDiskDrive, part_error, sector) comp" where
  "RawDiskDrive_Read sec d =
     (if rawType d = FLOPPY_DISK then throw UnknownDevice d
      else if rawFails d sec then throw DiskError d else ret (rawSectors d sec) d)"

definition RawDiskDrive_Write :: "u32 \<Rightarrow> sector \<Rightarrow> (RawDiskDrive, part_error, unit) comp" where
  "RawDiskDrive_Write sec b d =
     (if rawType d = FLOPPY_DISK then throw UnknownDevice d
      else if rawFails d sec then throw DiskError d else (Inr (), d\<lparr>rawSectors := (rawSectors d)(sec := b)\<rparr>))"

section \<open>Entries of the master boot record\<close>

record MBRPartitionInfo =
  BootIndicator :: u8
  StartHead :: u8
  StartSector :: u8
  StartCylinder :: u8
  SystemIndicator :: u8
  EndHead :: u8
  EndSector :: u8
  EndCylinder :: u8
  LBAStartSector :: u32
  LBANoOfSectors :: u32

datatype Types = ACTIVE | EXTENEDED | NORMAL

definition SI_EXT :: u8 where "SI_EXT = 5"
definition SI_EMTY :: u8 where "SI_EMTY = 1"
definition SI_GPT :: u8 where "SI_GPT = 0xEE"
definition DEF_START_SEC :: u32 where "DEF_START_SEC = 63"
definition MAX_NO_OF_PRIMARY_PARTITIONS :: nat where "MAX_NO_OF_PRIMARY_PARTITIONS = 4"

definition MBR_empty :: MBRPartitionInfo where
  "MBR_empty = \<lparr>BootIndicator = 0, StartHead = 0, StartSector = 0, StartCylinder = 0, SystemIndicator = 0, EndHead = 0,
     EndSector = 0, EndCylinder = 0, LBAStartSector = 0, LBANoOfSectors = 0\<rparr>"

definition MBRPartitionInfo_new :: "u32 \<Rightarrow> u32 \<Rightarrow> Types \<Rightarrow> MBRPartitionInfo" where
  "MBRPartitionInfo_new lbaStart sz type =
     \<lparr>BootIndicator = (if type = ACTIVE then 0x80 else 0), StartHead = 255, StartSector = 255, StartCylinder = 254,
      SystemIndicator = (if type = EXTENEDED then SI_EXT else SI_EMTY), EndHead = 255, EndSector = 255, EndCylinder = 254,
      LBAStartSector = lbaStart, LBANoOfSectors = sz\<rparr>"

definition MBR_IsEmpty :: "MBRPartitionInfo \<Rightarrow> bool" where
  "MBR_IsEmpty p \<longleftrightarrow> SystemIndicator p = 0 \<or> LBANoOfSectors p = 0"

text \<open>The layout of an entry in a sector.\<close>

definition mbr_bytes :: "MBRPartitionInfo \<Rightarrow> u8 list" where
  "mbr_bytes p = [BootIndicator p, StartHead p, StartSector p, StartCylinder p, SystemIndicator p, EndHead p, EndSector p,
     EndCylinder p] @ bytes_of_word (LBAStartSector p) @ bytes_of_word (LBANoOfSectors p)"

definition mbr_of :: "u8 list \<Rightarrow> MBRPartitionInfo" where
  "mbr_of bs = \<lparr>BootIndicator = bs ! 0, StartHead = bs ! 1, StartSector = bs ! 2, StartCylinder = bs ! 3, SystemIndicator = bs ! 4,
     EndHead = bs ! 5, EndSector = bs ! 6, EndCylinder = bs ! 7, LBAStartSector = u32_of_bytes (drop 8 bs),
     LBANoOfSectors = u32_of_bytes (drop 12 bs)\<rparr>"

definition mbr_pos :: "nat \<Rightarrow> nat" where "mbr_pos i = 0x1BE + 16 * i"

definition mbr_at :: "sector \<Rightarrow> nat \<Rightarrow> MBRPartitionInfo" where
  "mbr_at b i = mbr_of (take 16 (drop (mbr_pos i) b))"

definition mbr_put :: "sector \<Rightarrow> nat \<Rightarrow> MBRPartitionInfo \<Rightarrow> sector" where
  "mbr_put b i p = take (mbr_pos i) b @ mbr_bytes p @ drop (mbr_pos i + 16) b"

definition mbr_table :: "sector \<Rightarrow> MBRPartitionInfo list" where
  "mbr_table b = map (mbr_at b) [0..<MAX_NO_OF_PRIMARY_PARTITIONS]"

section \<open>The table of partitions\<close>

record PartitionEntry =
  pStart :: u32
  pSize :: u32
  pFsId :: u8

record ExtPartitionTable =
  currentPartition :: MBRPartitionInfo
  actualStartSector :: u32

record PartitionTable =
  bIsGPTPartition :: bool
  bIsMBRPartition :: bool
  bIsExtPartitionPresent :: bool
  extPartitionEntry :: MBRPartitionInfo
  primaryPartitions :: "MBRPartitionInfo list"
  extPartitions :: "ExtPartitionTable list"
  partitions :: "PartitionEntry list"
  ptDisk :: RawDiskDrive

definition on_disk :: "(RawDiskDrive, part_error, 'a) comp \<Rightarrow> (PartitionTable, part_error, 'a) comp" where
  "on_disk m s = (case m (ptDisk s) of (r, d) \<Rightarrow> (r, s\<lparr>ptDisk := d\<rparr>))"

abbreviation disk_Read :: "u32 \<Rightarrow> (PartitionTable, part_error, sector) comp" where
  "disk_Read sec \<equiv> on_disk (RawDiskDrive_Read sec)"

abbreviation disk_Write :: "u32 \<Rightarrow> sector \<Rightarrow> (PartitionTable, part_error, unit) comp" where
  "disk_Write sec b \<equiv> on_disk (RawDiskDrive_Write sec b)"

text \<open>
  The loop of \<open>VerifyMBR\<close>: \<open>None\<close> when the first entry announces a GPT, otherwise the number of active partitions, whether
  the entries are in order, and the number of their sectors.
\<close>

fun verify_loop :: "bool \<Rightarrow> MBRPartitionInfo list \<Rightarrow> nat \<Rightarrow> bool \<Rightarrow> u32 \<Rightarrow> u32 \<Rightarrow> (nat \<times> bool \<times> u32) option" where
  "verify_loop first [] act part prevEnd cnt = Some (act, part, cnt)"
| "verify_loop first (p # ps) act part prevEnd cnt =
     (let act' = (if BootIndicator p = 0x80 then act + 1 else act)
      in if MBR_IsEmpty p then Some (act', part, cnt)
         else if LBAStartSector p > prevEnd
         then if first \<and> SystemIndicator p = SI_GPT then None
              else verify_loop False ps act' True (LBAStartSector p + LBANoOfSectors p - 1) (cnt + LBANoOfSectors p)
         else Some (act', False, cnt))"

definition VerifyMBR :: "MBRPartitionInfo list \<Rightarrow> PartitionTable \<Rightarrow> PartitionTable" where
  "VerifyMBR ps s =
     (case verify_loop True ps 0 False 0 0 of
        None \<Rightarrow> s\<lparr>bIsGPTPartition := True\<rparr>
      | Some (act, part, cnt) \<Rightarrow> s\<lparr>bIsMBRPartition := \<not> (\<not> part \<or> act \<noteq> 1 \<or> cnt > rawSizeInSectors (ptDisk s))\<rparr>)"

text \<open>The GUID partition table: \<open>EFI PART\<close>, the first sector of the entries, and four entries in a sector.\<close>

definition EFI_SIG :: "u8 list" where "EFI_SIG = [0x45, 0x46, 0x49, 0x20, 0x50, 0x41, 0x52, 0x54]"

definition CheckSignature :: "sector \<Rightarrow> bool" where
  "CheckSignature b \<longleftrightarrow> take 8 b = EFI_SIG"

definition GPT_entry :: "sector \<Rightarrow> nat \<Rightarrow> u8 list" where
  "GPT_entry b i = take 128 (drop (128 * i) b)"

definition GPT_IsEmpty :: "u8 list \<Rightarrow> bool" where
  "GPT_IsEmpty e \<longleftrightarrow> take 16 e = replicate 16 0"

definition GPT_partition :: "u8 list \<Rightarrow> PartitionEntry" where
  "GPT_partition e = \<lparr>pStart = u32_of_bytes (drop 32 e), pSize = u32_of_bytes (drop 40 e) - u32_of_bytes (drop 32 e) + 1, pFsId = SI_EMTY\<rparr>"

fun ReadGPT_loop :: "nat \<Rightarrow> u32 \<Rightarrow> (PartitionTable, part_error, unit) comp" where
  "ReadGPT_loop 0 sec = throw NeverEnds"
| "ReadGPT_loop (Suc fuel) sec =
     andThen (disk_Read sec) (\<lambda>b.
       let used = takeWhile (\<lambda>e. \<not> GPT_IsEmpty e) (map (GPT_entry b) [0..<4])
       in andThen (modify (\<lambda>s. s\<lparr>partitions := partitions s @ map GPT_partition used\<rparr>)) (\<lambda>_.
          if length used < 4 then ret () else ReadGPT_loop fuel (sec + 1)))"

definition ReadGPT :: "nat \<Rightarrow> (PartitionTable, part_error, unit) comp" where
  "ReadGPT fuel =
     andThen (disk_Read 1) (\<lambda>b.
       if \<not> CheckSignature b then throw BadSignature else ReadGPT_loop fuel (u32_of_bytes (drop 72 b)))"

text \<open>The entries of the boot sector, up to the first empty one; the last extended one counts.\<close>

definition entry_of :: "u32 \<Rightarrow> MBRPartitionInfo \<Rightarrow> PartitionEntry" where
  "entry_of base p = \<lparr>pStart = LBAStartSector p + base, pSize = LBANoOfSectors p, pFsId = SystemIndicator p\<rparr>"

fun read_primaries :: "MBRPartitionInfo list \<Rightarrow> PartitionTable \<Rightarrow> PartitionTable" where
  "read_primaries [] s = s"
| "read_primaries (p # ps) s =
     (if MBR_IsEmpty p then s
      else read_primaries ps
        (if SystemIndicator p = SI_EXT then s\<lparr>bIsExtPartitionPresent := True, extPartitionEntry := p\<rparr>
         else s\<lparr>primaryPartitions := primaryPartitions s @ [p], partitions := partitions s @ [entry_of 0 p]\<rparr>))"

text \<open>The chain of extended partitions: each sector has an entry for its partition and one for the next sector.\<close>

fun read_ext :: "nat \<Rightarrow> u32 \<Rightarrow> u32 \<Rightarrow> (PartitionTable, part_error, unit) comp" where
  "read_ext 0 uiStartExtSectorID sec = throw NeverEnds"
| "read_ext (Suc fuel) uiStartExtSectorID sec =
     andThen (disk_Read sec) (\<lambda>b.
       if MBR_IsEmpty (mbr_at b 0) then ret ()
       else andThen (modify (\<lambda>s. s\<lparr>extPartitions := extPartitions s @ [\<lparr>currentPartition = mbr_at b 0, actualStartSector = sec\<rparr>],
                                     partitions := partitions s @ [entry_of sec (mbr_at b 0)]\<rparr>)) (\<lambda>_.
            if MBR_IsEmpty (mbr_at b 1) then ret ()
            else read_ext fuel uiStartExtSectorID (uiStartExtSectorID + LBAStartSector (mbr_at b 1))))"

definition ReadMBRPartition :: "nat \<Rightarrow> MBRPartitionInfo list \<Rightarrow> (PartitionTable, part_error, unit) comp" where
  "ReadMBRPartition fuel ps =
     andThen (modify (read_primaries ps)) (\<lambda>_ s.
       if \<not> bIsExtPartitionPresent s then ret () s
       else read_ext fuel (LBAStartSector (extPartitionEntry s)) (LBAStartSector (extPartitionEntry s)) s)"

definition PartitionTable_empty :: "RawDiskDrive \<Rightarrow> PartitionTable" where
  "PartitionTable_empty d = \<lparr>bIsGPTPartition = False, bIsMBRPartition = False, bIsExtPartitionPresent = False, extPartitionEntry = MBR_empty,
     primaryPartitions = [], extPartitions = [], partitions = [], ptDisk = d\<rparr>"

definition PartitionTable_new :: "nat \<Rightarrow> RawDiskDrive \<Rightarrow> (part_error + unit) \<times> PartitionTable" where
  "PartitionTable_new fuel d =
     andThen (disk_Read 0) (\<lambda>b.
     andThen (modify (VerifyMBR (mbr_table b))) (\<lambda>_ s.
       if bIsMBRPartition s then ReadMBRPartition fuel (mbr_table b) s
       else if bIsGPTPartition s then ReadGPT fuel s
       else ret () s)) (PartitionTable_empty d)"

section \<open>Creating and deleting\<close>

definition with_signature :: "sector \<Rightarrow> sector" where
  "with_signature b = b[510 := 0x55, 511 := 0xAA]"

definition clear_boot :: "nat \<Rightarrow> sector \<Rightarrow> sector" where
  "clear_boot n b = fold (\<lambda>i b. b[mbr_pos i := 0]) [0..<n] b"

definition CreatePrimaryPartitionEntry :: "u32 \<Rightarrow> Types \<Rightarrow> (PartitionTable, part_error, unit) comp" where
  "CreatePrimaryPartitionEntry uiSizeInSectors type0 s =
     (let ps = primaryPartitions s; n = length ps
      in if n = MAX_NO_OF_PRIMARY_PARTITIONS then throw PrimaryFull s
         else if bIsExtPartitionPresent s then throw ExtExists s
         else if ps = [] \<and> type0 = EXTENEDED then throw NoPrimary s
         else
           let type = (if ps = [] then ACTIVE else type0);
               used = (if ps = [] then DEF_START_SEC else LBAStartSector (last ps) + LBANoOfSectors (last ps));
               total = rawSizeInSectors (ptDisk s)
           in if total \<ge> used \<and> total - used < uiSizeInSectors then throw NoSpace s
              else andThen (disk_Read 0) (\<lambda>b.
                let b' = with_signature b;
                    b'' = (if type = ACTIVE then clear_boot n b' else b');
                    pi = MBRPartitionInfo_new used uiSizeInSectors type
                in andThen (modify (\<lambda>s. s\<lparr>primaryPartitions :=
                        (if type = ACTIVE then map (\<lambda>p. p\<lparr>BootIndicator := 0\<rparr>) ps else ps) @ [pi]\<rparr>)) (\<lambda>_.
                   disk_Write 0 (mbr_put b'' n pi))) s)"

definition CreateExtPartitionEntry :: "u32 \<Rightarrow> (PartitionTable, part_error, unit) comp" where
  "CreateExtPartitionEntry uiSizeInSectors s =
     (if \<not> bIsExtPartitionPresent s then throw NoExt s
      else
        let es = extPartitions s; ext = extPartitionEntry s;
            used = (if es = [] then 0
                    else actualStartSector (last es) + LBAStartSector (currentPartition (last es))
                       + LBANoOfSectors (currentPartition (last es)) - LBAStartSector ext);
            total = LBANoOfSectors ext
        in if total \<ge> used \<and> total - used < uiSizeInSectors then throw NoSpace s
           else
             let info = MBRPartitionInfo_new DEF_START_SEC (uiSizeInSectors - DEF_START_SEC) NORMAL;
                 sec = used + LBAStartSector ext
             in andThen (modify (\<lambda>s. s\<lparr>extPartitions := es @ [\<lparr>currentPartition = info, actualStartSector = sec\<rparr>]\<rparr>)) (\<lambda>_.
                andThen (disk_Read sec) (\<lambda>b.
                andThen (disk_Write sec (mbr_put (mbr_put (with_signature b) 0 info) 1 MBR_empty)) (\<lambda>_.
                if es = [] then ret ()
                else andThen (disk_Read (actualStartSector (last es))) (\<lambda>b'.
                     disk_Write (actualStartSector (last es)) (mbr_put b' 1 (MBRPartitionInfo_new used uiSizeInSectors EXTENEDED)))))) s)"

definition pop_back :: "(PartitionTable, part_error, unit) comp" where
  "pop_back s = (if partitions s = [] then throw EmptyList s else (Inr (), s\<lparr>partitions := butlast (partitions s)\<rparr>))"

fun delete_exts :: "ExtPartitionTable list \<Rightarrow> (PartitionTable, part_error, unit) comp" where
  "delete_exts [] = ret ()"
| "delete_exts (e # es) =
     andThen (disk_Read (actualStartSector e)) (\<lambda>b.
     andThen (disk_Write (actualStartSector e) (mbr_put (mbr_put b 0 MBR_empty) 1 MBR_empty)) (\<lambda>_.
     andThen pop_back (\<lambda>_. delete_exts es)))"

definition DeletePrimaryPartition :: "(PartitionTable, part_error, unit) comp" where
  "DeletePrimaryPartition s =
     (if primaryPartitions s = [] then throw TableEmpty s
      else andThen (disk_Read 0) (\<lambda>b.
           andThen (\<lambda>s. if bIsExtPartitionPresent s
                         then andThen (delete_exts (extPartitions s)) (\<lambda>_.
                              modify (\<lambda>s. s\<lparr>extPartitions := [], bIsExtPartitionPresent := False, extPartitionEntry := MBR_empty\<rparr>)) s
                         else andThen (modify (\<lambda>s. s\<lparr>primaryPartitions := butlast (primaryPartitions s)\<rparr>)) (\<lambda>_. pop_back) s) (\<lambda>_ t.
           disk_Write 0 (mbr_put b (length (primaryPartitions t)) MBR_empty) t)) s)"

definition DeleteExtPartition :: "(PartitionTable, part_error, unit) comp" where
  "DeleteExtPartition s =
     (let es = extPartitions s
      in if es = [] \<or> \<not> bIsExtPartitionPresent s then throw TableEmpty s
         else andThen (if butlast es = [] then ret ()
                       else andThen (disk_Read (actualStartSector (last (butlast es)))) (\<lambda>b.
                            disk_Write (actualStartSector (last (butlast es))) (mbr_put b 1 MBR_empty))) (\<lambda>_.
              andThen (disk_Read (actualStartSector (last es))) (\<lambda>b.
              andThen (disk_Write (actualStartSector (last es)) (mbr_put (mbr_put b 0 MBR_empty) 1 MBR_empty)) (\<lambda>_.
              andThen (modify (\<lambda>s. s\<lparr>extPartitions := butlast es\<rparr>)) (\<lambda>_. pop_back)))) s)"

text \<open>\<open>ClearPartitionTable\<close> deletes while there are partitions; the fuel is the number of them.\<close>

fun clear_loop :: "nat \<Rightarrow> (PartitionTable, part_error, unit) comp" where
  "clear_loop 0 s = (if partitions s = [] then ret () s else throw NeverEnds s)"
| "clear_loop (Suc fuel) s = (if partitions s = [] then ret () s else andThen DeletePrimaryPartition (\<lambda>_. clear_loop fuel) s)"

definition ClearPartitionTable :: "(PartitionTable, part_error, unit) comp" where
  "ClearPartitionTable s = clear_loop (length (partitions s)) s"

text \<open>The type byte of the partition that starts at a sector is set when it is formatted.\<close>

fun find_start :: "u32 \<Rightarrow> MBRPartitionInfo list \<Rightarrow> nat \<Rightarrow> nat option" where
  "find_start sec [] i = None"
| "find_start sec (p # ps) i = (if LBAStartSector p = sec then Some i else find_start sec ps (Suc i))"

definition UpdateSystemIndicator :: "u32 \<Rightarrow> u8 \<Rightarrow> (RawDiskDrive, part_error, unit) comp" where
  "UpdateSystemIndicator uiLBAStartSector uiSystemIndicator =
     andThen (RawDiskDrive_Read 0) (\<lambda>b.
       RawDiskDrive_Write 0 (case find_start uiLBAStartSector (mbr_table b) 0 of
         None \<Rightarrow> b | Some i \<Rightarrow> b[mbr_pos i + 4 := uiSystemIndicator]))"

end
