(* ===== verification/PartitionProperties.thy ===== *)
theory PartitionProperties
  imports Partition
begin

text \<open>
  What the partition table promises: the entries of a sector are a table of four records, partitions that are created lie one
  after the other on the disk, and the table of a disk read again is the table in memory.
\<close>

section \<open>A sector as a table of four entries\<close>

lemma length_mbr_bytes [simp]: "length (mbr_bytes p) = 16"
  by (simp add: mbr_bytes_def)

lemma u32_of_field: "u32_of_bytes (bytes_of_word w) = w"
  using u32_of_bytes_of[of w "[]"] by simp

lemma mbr_of_bytes [simp]: "mbr_of (mbr_bytes p) = p"
  by (cases p) (simp add: mbr_of_def mbr_bytes_def u32_of_bytes_of u32_of_field numeral_nat)

lemma length_mbr_put [simp]: "i < 4 \<Longrightarrow> length b = 512 \<Longrightarrow> length (mbr_put b i p) = 512"
  by (simp add: mbr_put_def mbr_pos_def)

lemma length_mbr_table [simp]: "length (mbr_table b) = 4"
  by (simp add: mbr_table_def MAX_NO_OF_PRIMARY_PARTITIONS_def)

lemma mbr_table_nth: "i < 4 \<Longrightarrow> mbr_table b ! i = mbr_at b i"
  by (simp add: mbr_table_def MAX_NO_OF_PRIMARY_PARTITIONS_def)

lemma mbr_table_eqI: "(\<And>i. i < 4 \<Longrightarrow> mbr_at b i = ps ! i) \<Longrightarrow> length ps = 4 \<Longrightarrow> mbr_table b = ps"
  by (rule nth_equalityI) (simp_all add: mbr_table_nth)

lemma mbr_put_nth:
  assumes "i < 4" "length b = 512" "k < 512"
  shows "mbr_put b i p ! k = (if mbr_pos i \<le> k \<and> k < mbr_pos i + 16 then mbr_bytes p ! (k - mbr_pos i) else b ! k)"
proof -
  have l: "length (take (mbr_pos i) b) = mbr_pos i" and le: "mbr_pos i + 16 \<le> 512" using assms by (simp_all add: mbr_pos_def)
  consider "k < mbr_pos i" | "mbr_pos i \<le> k" "k < mbr_pos i + 16" | "mbr_pos i + 16 \<le> k" by linarith
  then show ?thesis
  proof cases
    case 2
    then obtain m where "k = mbr_pos i + m" "m < 16" using le_Suc_ex by fastforce
    then show ?thesis using assms l le by (simp add: mbr_put_def nth_append)
  next
    case 3
    then obtain m where "k = mbr_pos i + 16 + m" using le_Suc_ex by blast
    then show ?thesis using assms l le by (simp add: mbr_put_def nth_append add.assoc)
  qed (use assms l in \<open>simp_all add: mbr_put_def nth_append\<close>)
qed

lemma mbr_slice_put:
  assumes "i < 4" "j < 4" "length b = 512"
  shows "take 16 (drop (mbr_pos j) (mbr_put b i p)) = (if j = i then mbr_bytes p else take 16 (drop (mbr_pos j) b))"
proof (rule nth_equalityI)
  have j: "mbr_pos j + 16 \<le> 512" using assms by (simp add: mbr_pos_def)
  then show "length (take 16 (drop (mbr_pos j) (mbr_put b i p))) = length (if j = i then mbr_bytes p else take 16 (drop (mbr_pos j) b))"
    using assms by simp
  fix k assume "k < length (take 16 (drop (mbr_pos j) (mbr_put b i p)))"
  then have k: "k < 16" by simp
  have "mbr_pos i \<le> mbr_pos j + k \<and> mbr_pos j + k < mbr_pos i + 16 \<longleftrightarrow> j = i" using k by (auto simp: mbr_pos_def)
  then show "take 16 (drop (mbr_pos j) (mbr_put b i p)) ! k = (if j = i then mbr_bytes p else take 16 (drop (mbr_pos j) b)) ! k"
    using assms j k by (simp add: mbr_put_nth)
qed

lemma mbr_table_put: "i < 4 \<Longrightarrow> length b = 512 \<Longrightarrow> mbr_table (mbr_put b i p) = (mbr_table b)[i := p]"
  by (rule mbr_table_eqI) (auto simp: mbr_at_def mbr_slice_put nth_list_update mbr_table_nth)

lemma mbr_slice_update:
  assumes "j < 4" "length b = 512"
  shows "take 16 (drop (mbr_pos j) (b[k := x])) =
    (if mbr_pos j \<le> k \<and> k < mbr_pos j + 16 then (take 16 (drop (mbr_pos j) b))[k - mbr_pos j := x] else take 16 (drop (mbr_pos j) b))"
  using assms by (intro nth_equalityI) (auto simp: mbr_pos_def nth_list_update)

lemma mbr_table_signature [simp]: "length b = 512 \<Longrightarrow> mbr_table (with_signature b) = mbr_table b"
proof (rule mbr_table_eqI)
  fix i :: nat assume "length b = 512" "i < 4"
  then show "mbr_at (with_signature b) i = mbr_table b ! i"
    using mbr_slice_update[of i "b[510 := 0x55]" 511 "0xAA"] mbr_slice_update[of i b 510 "0x55"]
    by (simp add: with_signature_def mbr_at_def mbr_table_nth mbr_pos_def)
qed simp

lemma length_with_signature [simp]: "length (with_signature b) = length b"
  by (simp add: with_signature_def)



lemma length_clear_boot [simp]: "length (clear_boot n b) = length b"
  unfolding clear_boot_def by (induction n) auto


section \<open>Partitions one after the other\<close>

fun laid :: "u32 \<Rightarrow> MBRPartitionInfo list \<Rightarrow> u32 \<Rightarrow> bool" where
  "laid a [] e \<longleftrightarrow> a \<le> e"
| "laid a (p # ps) e \<longleftrightarrow> a \<le> e \<and> LBAStartSector p = a \<and> LBANoOfSectors p \<noteq> 0 \<and> LBANoOfSectors p \<le> e - a
     \<and> laid (a + LBANoOfSectors p) ps e"

fun end_sector :: "u32 \<Rightarrow> MBRPartitionInfo list \<Rightarrow> u32" where
  "end_sector a [] = a"
| "end_sector a (p # ps) = end_sector (LBAStartSector p + LBANoOfSectors p) ps"





lemma laid_map: "(\<And>p. LBAStartSector (f p) = LBAStartSector p \<and> LBANoOfSectors (f p) = LBANoOfSectors p) \<Longrightarrow>
    laid a (map f ps) e = laid a ps e"
  by (induction ps arbitrary: a) auto

lemma end_sector_map: "(\<And>p. LBAStartSector (f p) = LBAStartSector p \<and> LBANoOfSectors (f p) = LBANoOfSectors p) \<Longrightarrow>
    end_sector a (map f ps) = end_sector a ps"
  by (induction ps arbitrary: a) auto




section \<open>The table in memory is the table on the disk\<close>

definition active_count :: "MBRPartitionInfo list \<Rightarrow> nat" where
  "active_count ps = length (filter (\<lambda>p. BootIndicator p = 0x80) ps)"


lemma MBR_empty_simps [simp]: "MBR_IsEmpty MBR_empty" "BootIndicator MBR_empty = 0"
  by (simp_all add: MBR_empty_def MBR_IsEmpty_def)

lemma new_simps [simp]:
  "LBAStartSector (MBRPartitionInfo_new a n t) = a" "LBANoOfSectors (MBRPartitionInfo_new a n t) = n"
  "SystemIndicator (MBRPartitionInfo_new a n t) = (if t = EXTENEDED then SI_EXT else SI_EMTY)"
  "BootIndicator (MBRPartitionInfo_new a n t) = (if t = ACTIVE then 0x80 else 0)"
  by (simp_all add: MBRPartitionInfo_new_def)

lemma active_count_simps [simp]: "active_count [] = 0" "active_count (p # ps) = (if BootIndicator p = 0x80 then 1 else 0) + active_count ps"
  "active_count (ps @ qs) = active_count ps + active_count qs"
  by (simp_all add: active_count_def)

lemma active_count_cleared [simp]: "active_count (map (\<lambda>p. p\<lparr>BootIndicator := 0\<rparr>) ps) = 0"
  by (induction ps) simp_all


text \<open>The state after a creation that succeeds.\<close>

definition cleared :: "Types \<Rightarrow> MBRPartitionInfo list \<Rightarrow> MBRPartitionInfo list" where
  "cleared type ps = (if type = ACTIVE then map (\<lambda>p. p\<lparr>BootIndicator := 0\<rparr>) ps else ps)"




lemma cleared_simps [simp]: "length (cleared t ps) = length ps" "laid a (cleared t ps) e = laid a ps e"
  "end_sector a (cleared t ps) = end_sector a ps" "active_count (cleared t ps) = (if t = ACTIVE then 0 else active_count ps)"
  "(\<forall>p\<in>set (cleared t ps). SystemIndicator p = i) = (\<forall>p\<in>set ps. SystemIndicator p = i)"
  by (simp_all add: cleared_def laid_map end_sector_map)



section \<open>Reading the table of a disk\<close>



lemma SI_distinct [simp]: "SI_EMTY \<noteq> SI_GPT" "SI_EMTY \<noteq> SI_EXT" "SI_EMTY \<noteq> 0"
  by (simp_all add: SI_EMTY_def SI_GPT_def SI_EXT_def)





section \<open>The properties\<close>




lemma blank_table: "mbr_table (replicate 512 0) = replicate 4 MBR_empty"
proof (rule mbr_table_eqI)
  fix i :: nat assume "i < 4"
  moreover from this have "min (512 - mbr_pos i) 16 = 16" by (simp add: mbr_pos_def)
  ultimately show "mbr_at (replicate 512 0) i = replicate 4 MBR_empty ! i"
    by (simp add: mbr_at_def mbr_of_def MBR_empty_def u32_of_bytes_def word_of_bytes_def min.commute)
qed simp

definition blank_disk :: RawDiskDrive where
  "blank_disk = \<lparr>rawType = ATA_HARD_DISK, rawSizeInSectors = 1000, rawSectors = \<lambda>_. replicate 512 0, rawFails = \<lambda>_. False\<rparr>"


section \<open>The chain of extended partitions\<close>

lemma andThen_fst_Inl: "m s = (Inr v, u) \<Longrightarrow> fst (f v u) = Inl e \<Longrightarrow> fst (andThen m f s) = Inl e"
  by (simp add: andThen_def)

lemma disk_Read_run:
  "rawType (ptDisk s) \<noteq> FLOPPY_DISK \<Longrightarrow> \<not> rawFails (ptDisk s) sec \<Longrightarrow> disk_Read sec s = (Inr (rawSectors (ptDisk s) sec), s)"
  by (simp add: on_disk_def RawDiskDrive_Read_def)

definition put_sector :: "u32 \<Rightarrow> sector \<Rightarrow> PartitionTable \<Rightarrow> PartitionTable" where
  "put_sector sec b s = s\<lparr>ptDisk := (ptDisk s)\<lparr>rawSectors := (rawSectors (ptDisk s))(sec := b)\<rparr>\<rparr>"

lemma disk_Write_run:
  "rawType (ptDisk s) \<noteq> FLOPPY_DISK \<Longrightarrow> \<not> rawFails (ptDisk s) sec \<Longrightarrow> disk_Write sec b s = (Inr (), put_sector sec b s)"
  by (simp add: on_disk_def RawDiskDrive_Write_def put_sector_def)

text \<open>A sector whose second entry leads back to itself.\<close>

lemma read_ext_cycle:
  assumes "\<not> MBR_IsEmpty (mbr_at b 0)" "\<not> MBR_IsEmpty (mbr_at b 1)" "start + LBAStartSector (mbr_at b 1) = sec"
  shows "rawType (ptDisk s) \<noteq> FLOPPY_DISK \<Longrightarrow> \<not> rawFails (ptDisk s) sec \<Longrightarrow> rawSectors (ptDisk s) sec = b \<Longrightarrow>
    fst (read_ext fuel start sec s) = Inl NeverEnds"
proof (induction fuel arbitrary: s)
  case (Suc fuel)
  have "fst (read_ext fuel start sec (s\<lparr>extPartitions := es, partitions := ps\<rparr>)) = Inl NeverEnds" for es ps
    using Suc by simp
  then show ?case using Suc.prems assms by (simp add: disk_Read_run andThen_def modify_def)
qed simp

text \<open>What a table read from a disk says of every disk with the same boot sector.\<close>

lemma read_primaries_ext:
  "bIsExtPartitionPresent (read_primaries ps s) \<longleftrightarrow>
     bIsExtPartitionPresent s \<or> filter (\<lambda>p. SystemIndicator p = SI_EXT) (takeWhile (\<lambda>p. \<not> MBR_IsEmpty p) ps) \<noteq> []"
  "extPartitionEntry (read_primaries ps s) = (let xs = filter (\<lambda>p. SystemIndicator p = SI_EXT) (takeWhile (\<lambda>p. \<not> MBR_IsEmpty p) ps)
     in if xs = [] then extPartitionEntry s else last xs)"
  by (induction ps arbitrary: s) (simp_all add: Let_def)

lemma read_ext_frame: "extPartitionEntry (snd (read_ext fuel a sec s)) = extPartitionEntry s
    \<and> bIsExtPartitionPresent (snd (read_ext fuel a sec s)) = bIsExtPartitionPresent s
    \<and> ptDisk (snd (read_ext fuel a sec s)) = ptDisk s"
  by (induction fuel arbitrary: sec s)
    (auto simp: andThen_def modify_def on_disk_def RawDiskDrive_Read_def split: prod.splits sum.splits)

lemma read_primaries_frame: "ptDisk (read_primaries ps s) = ptDisk s"
  by (induction ps arbitrary: s) simp_all

lemma ReadGPT_frame: "bIsExtPartitionPresent (snd (ReadGPT fuel s)) = bIsExtPartitionPresent s"
proof -
  have "bIsExtPartitionPresent (snd (ReadGPT_loop n sec s)) = bIsExtPartitionPresent s" for n sec s
    by (induction n arbitrary: sec s)
      (auto simp: andThen_def modify_def on_disk_def RawDiskDrive_Read_def Let_def split: prod.splits sum.splits)
  then show ?thesis by (auto simp: ReadGPT_def andThen_def on_disk_def RawDiskDrive_Read_def)
qed

lemma VerifyMBR_frame: "ptDisk (VerifyMBR ps s) = ptDisk s" "extPartitionEntry (VerifyMBR ps s) = extPartitionEntry s"
  "bIsExtPartitionPresent (VerifyMBR ps s) = bIsExtPartitionPresent s"
  "rawSizeInSectors (ptDisk s) = rawSizeInSectors (ptDisk t) \<Longrightarrow> bIsMBRPartition s = bIsMBRPartition t \<Longrightarrow>
    bIsMBRPartition (VerifyMBR ps s) = bIsMBRPartition (VerifyMBR ps t)"
  by (auto simp: VerifyMBR_def split: option.splits)

lemma table_with_ext:
  assumes n: "PartitionTable_new fuel d = (r, s)" and x: "bIsExtPartitionPresent s"
    and g: "rawType d \<noteq> FLOPPY_DISK" "\<not> rawFails d 0"
    and d': "rawType d' = rawType d" "rawFails d' = rawFails d" "rawSizeInSectors d' = rawSizeInSectors d" "rawSectors d' 0 = rawSectors d 0"
  shows "ptDisk s = d" "\<exists>u. ptDisk u = d' \<and>
    PartitionTable_new fuel' d' = read_ext fuel' (LBAStartSector (extPartitionEntry s)) (LBAStartSector (extPartitionEntry s)) u"
proof -
  let ?ps = "mbr_table (rawSectors d 0)"
  have new: "PartitionTable_new f q = (let v = VerifyMBR ?ps (PartitionTable_empty q) in if bIsMBRPartition v then ReadMBRPartition f ?ps v
      else if bIsGPTPartition v then ReadGPT f v else (Inr (), v))"
    if "rawType q = rawType d" "rawFails q = rawFails d" "rawSectors q 0 = rawSectors d 0" for f q
    using that g by (simp add: PartitionTable_new_def disk_Read_run PartitionTable_empty_def andThen_def modify_def Let_def)
  let ?v = "\<lambda>q. VerifyMBR ?ps (PartitionTable_empty q)"
  let ?p = "\<lambda>q. read_primaries ?ps (?v q)"
  have e: "\<not> bIsExtPartitionPresent (?v d)" by (simp add: VerifyMBR_frame) (simp add: PartitionTable_empty_def)
  have m: "bIsMBRPartition (?v d)"
  proof (rule ccontr)
    assume "\<not> bIsMBRPartition (?v d)"
    then have "bIsExtPartitionPresent s = bIsExtPartitionPresent (?v d)"
      using n new[of d fuel] ReadGPT_frame[of fuel "?v d"] by (auto simp: Let_def split: if_splits)
    then show False using x e by simp
  qed
  have s: "s = snd (ReadMBRPartition fuel ?ps (?v d))" using n new[of d fuel] m by (simp add: Let_def)
  have px: "bIsExtPartitionPresent (?p d)"
    using x s read_ext_frame[of fuel _ _ "?p d"] by (auto simp: ReadMBRPartition_def andThen_def modify_def split: if_splits)
  then have s2: "s = snd (read_ext fuel (LBAStartSector (extPartitionEntry (?p d))) (LBAStartSector (extPartitionEntry (?p d))) (?p d))"
    using s by (simp add: ReadMBRPartition_def andThen_def modify_def)
  then have es: "extPartitionEntry s = extPartitionEntry (?p d)" "ptDisk s = ptDisk (?p d)" using read_ext_frame by simp_all
  then show "ptDisk s = d" by (simp add: read_primaries_frame VerifyMBR_frame PartitionTable_empty_def)
  have m': "bIsMBRPartition (?v d')" using m VerifyMBR_frame(4)[of "PartitionTable_empty d'" "PartitionTable_empty d" ?ps] d'(3)
    by (simp add: PartitionTable_empty_def)
  have "bIsExtPartitionPresent (?p d') = bIsExtPartitionPresent (?p d) \<and> extPartitionEntry (?p d') = extPartitionEntry (?p d)"
    by (simp add: read_primaries_ext VerifyMBR_frame PartitionTable_empty_def Let_def)
  then have "PartitionTable_new fuel' d' = read_ext fuel' (LBAStartSector (extPartitionEntry s)) (LBAStartSector (extPartitionEntry s)) (?p d')"
    using new[OF d'(1,2,4), of fuel'] m' px es by (simp add: Let_def ReadMBRPartition_def andThen_def modify_def)
  then show "\<exists>u. ptDisk u = d' \<and>
    PartitionTable_new fuel' d' = read_ext fuel' (LBAStartSector (extPartitionEntry s)) (LBAStartSector (extPartitionEntry s)) u"
    by (intro exI[of _ "?p d'"]) (simp add: read_primaries_frame VerifyMBR_frame PartitionTable_empty_def)
qed

text \<open>The first extended partition, and the second one behind it.\<close>

definition ext_info :: "u32 \<Rightarrow> MBRPartitionInfo" where
  "ext_info n = MBRPartitionInfo_new DEF_START_SEC (n - DEF_START_SEC) NORMAL"

definition ext_sector :: "u32 \<Rightarrow> sector \<Rightarrow> sector" where
  "ext_sector n b = mbr_put (mbr_put (with_signature b) 0 (ext_info n)) 1 MBR_empty"

lemma create_first_ext:
  assumes "bIsExtPartitionPresent s" "extPartitions s = []" "rawType (ptDisk s) \<noteq> FLOPPY_DISK"
    "sec = LBAStartSector (extPartitionEntry s)" "\<not> rawFails (ptDisk s) sec" "n \<le> LBANoOfSectors (extPartitionEntry s)"
  shows "CreateExtPartitionEntry n s = (Inr (), put_sector sec (ext_sector n (rawSectors (ptDisk s) sec))
    (s\<lparr>extPartitions := [\<lparr>currentPartition = ext_info n, actualStartSector = sec\<rparr>]\<rparr>))"
  using assms by (simp add: CreateExtPartitionEntry_def Let_def andThen_def modify_def disk_Read_run disk_Write_run ext_sector_def ext_info_def not_less)

lemma create_second_ext:
  assumes "bIsExtPartitionPresent s" "extPartitions s = [\<lparr>currentPartition = ext_info 0, actualStartSector = sec\<rparr>]"
    "rawType (ptDisk s) \<noteq> FLOPPY_DISK"
    "sec = LBAStartSector (extPartitionEntry s)" "\<not> rawFails (ptDisk s) sec" "n \<le> LBANoOfSectors (extPartitionEntry s)"
  obtains es where "CreateExtPartitionEntry n s = (Inr (), put_sector sec (mbr_put (ext_sector n (rawSectors (ptDisk s) sec)) 1
      (MBRPartitionInfo_new 0 n EXTENEDED)) (s\<lparr>extPartitions := es\<rparr>))"
proof
  show "CreateExtPartitionEntry n s = (Inr (), put_sector sec (mbr_put (ext_sector n (rawSectors (ptDisk s) sec)) 1
      (MBRPartitionInfo_new 0 n EXTENEDED))
      (s\<lparr>extPartitions := extPartitions s @ [\<lparr>currentPartition = ext_info n, actualStartSector = sec\<rparr>]\<rparr>))"
    using assms by (simp add: CreateExtPartitionEntry_def Let_def andThen_def modify_def disk_Read_run disk_Write_run ext_sector_def
        ext_info_def not_less put_sector_def)
qed

text \<open>C33:
  An extended partition of size 0 is accepted. It gets \<open>2 ^ 32 - 63\<close> sectors, so that the next one is put into the same
  sector, whose second entry then leads back to itself: the table of the disk can never be read again, however long one waits.
\<close>

theorem zero_extended_partition_hangs:
  assumes n: "PartitionTable_new fuel d = (r, s)" "bIsExtPartitionPresent s" "extPartitions s = []"
    and g: "rawType d \<noteq> FLOPPY_DISK" "\<not> rawFails d 0"
    and sec: "sec = LBAStartSector (extPartitionEntry s)" "sec \<noteq> 0" "\<not> rawFails d sec" "length (rawSectors d sec) = 512"
    and sz: "uiSizeInSectors \<noteq> 0" "uiSizeInSectors \<noteq> 63" "uiSizeInSectors \<le> LBANoOfSectors (extPartitionEntry s)"
  shows "\<exists>t u. CreateExtPartitionEntry 0 s = (Inr (), t) \<and> CreateExtPartitionEntry uiSizeInSectors t = (Inr (), u)
    \<and> (\<forall>fuel'. fst (PartitionTable_new fuel' (ptDisk u)) = Inl NeverEnds)"
proof -
  have d: "ptDisk s = d" using table_with_ext(1)[OF n(1,2) g, of d] by simp
  let ?b = "ext_sector 0 (rawSectors d sec)"
  let ?t = "put_sector sec ?b (s\<lparr>extPartitions := [\<lparr>currentPartition = ext_info 0, actualStartSector = sec\<rparr>]\<rparr>)"
  have t: "CreateExtPartitionEntry 0 s = (Inr (), ?t)"
    using create_first_ext[OF n(2,3), of sec 0] d g sec by simp
  let ?c = "mbr_put (ext_sector uiSizeInSectors ?b) 1 (MBRPartitionInfo_new 0 uiSizeInSectors EXTENEDED)"
  obtain es where u: "CreateExtPartitionEntry uiSizeInSectors ?t = (Inr (), put_sector sec ?c (?t\<lparr>extPartitions := es\<rparr>))"
    using create_second_ext[of ?t sec uiSizeInSectors] n(2) d g sec sz(3) by (auto simp: put_sector_def)
  let ?u = "put_sector sec ?c (?t\<lparr>extPartitions := es\<rparr>)"
  have l: "length ?b = 512" using sec(4) by (simp add: ext_sector_def)
  have "mbr_table (ext_sector uiSizeInSectors ?b) = ((mbr_table ?b)[0 := ext_info uiSizeInSectors])[1 := MBR_empty]"
    "length (ext_sector uiSizeInSectors ?b) = 512"
    using l by (simp_all add: ext_sector_def[of uiSizeInSectors] mbr_table_put)
  then have "mbr_at ?c 0 = ext_info uiSizeInSectors" "mbr_at ?c 1 = MBRPartitionInfo_new 0 uiSizeInSectors EXTENEDED"
    by (simp_all add: mbr_table_nth[symmetric] mbr_table_put)
  then have c: "\<not> MBR_IsEmpty (mbr_at ?c 0)" "\<not> MBR_IsEmpty (mbr_at ?c 1)" "sec + LBAStartSector (mbr_at ?c 1) = sec"
    using sz(1,2) by (simp_all add: MBR_IsEmpty_def ext_info_def DEF_START_SEC_def SI_EXT_def)
  have "fst (PartitionTable_new fuel' (ptDisk ?u)) = Inl NeverEnds" for fuel'
  proof -
    obtain v where v: "ptDisk v = ptDisk ?u" "PartitionTable_new fuel' (ptDisk ?u) = read_ext fuel' sec sec v"
      using table_with_ext(2)[OF n(1,2) g, of "ptDisk ?u" fuel'] d sec(1,2) by (auto simp: put_sector_def)
    show ?thesis unfolding v(2)
      by (rule read_ext_cycle[OF c]) (use v(1) g sec(3) d in \<open>simp_all add: put_sector_def\<close>)
  qed
  then show ?thesis using t u by blast
qed

definition ext_disk :: RawDiskDrive where
  "ext_disk = blank_disk\<lparr>rawSectors := (rawSectors blank_disk)
     (0 := mbr_put (mbr_put (replicate 512 0) 0 (MBRPartitionInfo_new 63 37 ACTIVE)) 1 (MBRPartitionInfo_new 100 500 EXTENEDED))\<rparr>"

lemma ext_disk_read: "PartitionTable_new 1 ext_disk = (Inr (), \<lparr>bIsGPTPartition = False, bIsMBRPartition = True,
    bIsExtPartitionPresent = True, extPartitionEntry = MBRPartitionInfo_new 100 500 EXTENEDED,
    primaryPartitions = [MBRPartitionInfo_new 63 37 ACTIVE], extPartitions = [], partitions = [entry_of 0 (MBRPartitionInfo_new 63 37 ACTIVE)],
    ptDisk = ext_disk\<rparr>)"
proof -
  have m: "mbr_table (rawSectors ext_disk 0) = [MBRPartitionInfo_new 63 37 ACTIVE, MBRPartitionInfo_new 100 500 EXTENEDED, MBR_empty, MBR_empty]"
  proof -
    have "mbr_table (replicate 512 0) = [MBR_empty, MBR_empty, MBR_empty, MBR_empty]"
      by (rule trans[OF blank_table]) (simp add: numeral_eq_Suc)
    then show ?thesis by (simp add: ext_disk_def mbr_table_put)
  qed
  have z: "mbr_at (rawSectors ext_disk 100) 0 = MBR_empty"
    using blank_table by (simp add: ext_disk_def blank_disk_def mbr_table_nth[symmetric])
  have f: "rawType ext_disk = ATA_HARD_DISK" "\<not> rawFails ext_disk sec" "rawSizeInSectors ext_disk = 1000" for sec
    by (simp_all add: ext_disk_def blank_disk_def)
  show ?thesis
    by (simp add: PartitionTable_new_def PartitionTable_empty_def disk_Read_run f andThen_def modify_def VerifyMBR_def m
        ReadMBRPartition_def MBR_IsEmpty_def[of "MBRPartitionInfo_new _ _ _"] SI_EXT_def SI_GPT_def SI_EMTY_def z)
qed

theorem zero_extended_partition_hangs_witness:
  "\<exists>t u. CreateExtPartitionEntry 0 (snd (PartitionTable_new 1 ext_disk)) = (Inr (), t) \<and> CreateExtPartitionEntry 200 t = (Inr (), u)
    \<and> (\<forall>fuel'. fst (PartitionTable_new fuel' (ptDisk u)) = Inl NeverEnds)"
  unfolding ext_disk_read snd_conv
  by (rule zero_extended_partition_hangs[OF ext_disk_read, where sec = 100])
    (simp_all add: ext_disk_def blank_disk_def)

end
