(* ===== verification/Session.thy ===== *)
theory Session
  imports Scheduler Partition
begin

text \<open>
  The drives of the system and the process that uses them: \<open>DiskDrive\<close> and \<open>DiskDriveManager\<close> of
  \<open>drivers/DeviceDrive.cpp\<close>, \<open>kernel/MountManager.cpp\<close>, \<open>process/ProcessEnv.cpp\<close>, and what
  \<open>SchedulableProcess\<close> says about the permissions of files.

  The state is that of the drives, of the process that runs, and of the descriptors; the locks around it are left out.
  A pointer to a drive is the drive's id, which is never given out twice. A raw disk is named; the devices behind it and
  behind a drive are those of \<open>Partition\<close> and of \<open>DiskStore\<close>. The two tasks that a drive starts for its cache are
  \<open>FlushDirtyCacheSectors\<close> and \<open>LFU_Run\<close>, which \<open>DiskStore\<close> models; their scheduling is left out.
\<close>

section \<open>State\<close>

record 'd DiskDrive =
  Id :: int
  DriveName :: string
  DeviceType :: DEVICE_TYPE
  DriveNumber :: int
  LBAStart :: u32
  MaxSectorsInFreePoolCache :: nat
  RawDisk :: string
  Mounted :: bool
  volume :: "'d volume"

text \<open>The process that runs: the parts of \<open>Process\<close> that file operations use, and its page of environment variables.\<close>

record process_env =
  procId :: int
  isKernelProcess :: bool
  procDriveID :: int
  procPWD :: PWD
  procUserID :: u32
  envList :: "(string \<times> string) list"

record 'd session =
  driveList :: "'d DiskDrive list"
  idSequence :: int
  rawDiskList :: "(string \<times> RawDiskDrive) list"
  curProc :: process_env
  iods :: io_state
  szRootDriveName :: string
  iRootDriveID :: int
  bInitStatus :: bool

datatype session_error =
    Dir dir_error | Fd fd_error | Raw part_error
  | AlreadyMounted | NotMounted | UnmountCurrent | RawDriveExists | BadSeekType
  | ReaderBug      \<comment> \<open>the reader's case that should not happen\<close>
  | UserListCorrupted | CloseFailed

type_synonym ('d, 'a) session_comp = "('d session, session_error, 'a) comp"

section \<open>Environment variables\<close>

text \<open>Sixteen entries in a page; the value of an unused one is empty. A string that does not fit overruns its entry.\<close>

definition NO_OF_ENVS :: nat where "NO_OF_ENVS = 16"

definition ProcessEnv_Get :: "string \<Rightarrow> (string \<times> string) list \<Rightarrow> string option" where
  "ProcessEnv_Get szEnvVar env = map_of env szEnvVar"

fun set_first :: "('a \<Rightarrow> bool) \<Rightarrow> 'a \<Rightarrow> 'a list \<Rightarrow> 'a list option" where
  "set_first P y [] = None"
| "set_first P y (x # xs) = (if P x then Some (y # xs) else map_option ((#) x) (set_first P y xs))"

definition ProcessEnv_Set :: "string \<Rightarrow> string \<Rightarrow> (string \<times> string) list \<Rightarrow> bool \<times> (string \<times> string) list" where
  "ProcessEnv_Set szEnvVar szEnvValue env =
     (case set_first (\<lambda>(x, v). x = szEnvVar) (szEnvVar, szEnvValue) env of
        Some env' \<Rightarrow> (True, env')
      | None \<Rightarrow> (case set_first (\<lambda>(x, v). v = []) (szEnvVar, szEnvValue) env of
          Some env' \<Rightarrow> (True, env')
        | None \<Rightarrow> (False, env)))"

definition ProcessEnv_InitializeForKernelProcess :: "(string \<times> string) list \<Rightarrow> (string \<times> string) list" where
  "ProcessEnv_InitializeForKernelProcess env = snd (ProcessEnv_Set ''PWD'' FS_ROOT_DIR (map (\<lambda>(x, v). (x, [])) env))"

definition set_env :: "string \<Rightarrow> string \<Rightarrow> ('d, unit) session_comp" where
  "set_env x v s =
     (if length x < 56 \<and> length v < 200
      then (Inr (), s\<lparr>curProc := (curProc s)\<lparr>envList := snd (ProcessEnv_Set x v (envList (curProc s)))\<rparr>\<rparr>)
      else throw (Dir Undefined) s)"

section \<open>Permissions\<close>

definition ATTR_READ :: u16 where "ATTR_READ = 4"
definition ATTR_WRITE :: u16 where "ATTR_WRITE = 2"

definition G_OWNER :: "u16 \<Rightarrow> u16" where "G_OWNER perm = drop_bit 6 perm AND 7"
definition G_OTHERS :: "u16 \<Rightarrow> u16" where "G_OTHERS perm = perm AND 7"
definition S_OWNER :: "u16 \<Rightarrow> u16" where "S_OWNER perm = push_bit 6 (perm AND 7)"
definition S_GROUP :: "u16 \<Rightarrow> u16" where "S_GROUP perm = push_bit 3 (perm AND 7)"
definition S_OTHERS :: "u16 \<Rightarrow> u16" where "S_OTHERS perm = perm AND 7"
definition HAS_READ_PERM :: "u16 \<Rightarrow> bool" where "HAS_READ_PERM perm \<longleftrightarrow> perm AND 7 AND ATTR_READ \<noteq> 0"
definition HAS_WRITE_PERM :: "u16 \<Rightarrow> bool" where "HAS_WRITE_PERM perm \<longleftrightarrow> perm AND 7 AND ATTR_WRITE \<noteq> 0"
definition FILE_PERM :: "u16 \<Rightarrow> u16" where "FILE_PERM attr = attr AND 0x1FF"
definition FILE_TYPE :: "u16 \<Rightarrow> u16" where "FILE_TYPE attr = attr AND 0xF000"

datatype FILE_USER_TYPE = USER_OWNER | USER_GROUP | USER_OTHERS

definition fileUserType :: "process_env \<Rightarrow> Node \<Rightarrow> FILE_USER_TYPE" where
  "fileUserType p n =
     (if isKernelProcess p \<or> procUserID p = ROOT_USER_ID \<or> nodeUserID n = procUserID p then USER_OWNER else USER_OTHERS)"

definition hasFilePermission :: "node_lib \<Rightarrow> process_env \<Rightarrow> Node \<Rightarrow> u8 \<Rightarrow> bool" where
  "hasFilePermission N p n m =
     (let usMode = FILE_PERM (attribute n);
          (bHasRead, bHasWrite) = (case fileUserType p n of
              USER_OWNER \<Rightarrow> (HAS_READ_PERM (G_OWNER usMode), HAS_WRITE_PERM (G_OWNER usMode))
            | USER_OTHERS \<Rightarrow> (HAS_READ_PERM (G_OTHERS usMode), HAS_WRITE_PERM (G_OTHERS usMode))
            | USER_GROUP \<Rightarrow> (False, False))
      in if m AND O_RDONLY N \<noteq> 0 then bHasRead \<or> bHasWrite
         else if m AND O_WRONLY N \<noteq> 0 \<or> m AND O_RDWR N \<noteq> 0 \<or> m AND O_APPEND N \<noteq> 0 then bHasWrite
         else False)"

section \<open>Finding drives\<close>

definition GetByDriveName :: "string \<Rightarrow> bool \<Rightarrow> 'd session \<Rightarrow> 'd DiskDrive option" where
  "GetByDriveName driveName bCheckMount s = find (\<lambda>d. DriveName d = driveName \<and> (Mounted d \<or> \<not> bCheckMount)) (driveList s)"

text \<open>The root drive is looked up by its name until it has been found once.\<close>

definition MountManager_GetRootDriveID :: "node_lib \<Rightarrow> 'd session \<Rightarrow> int \<times> 'd session" where
  "MountManager_GetRootDriveID N s =
     (if iRootDriveID s = CURRENT_DRIVE N
      then (case GetByDriveName (szRootDriveName s) False s of
          None \<Rightarrow> (if procId (curProc s) \<noteq> NO_PROCESS_ID then procDriveID (curProc s) else CURRENT_DRIVE N, s)
        | Some d \<Rightarrow> (Id d, s\<lparr>iRootDriveID := Id d\<rparr>))
      else (iRootDriveID s, s))"

definition GetByID :: "node_lib \<Rightarrow> int \<Rightarrow> bool \<Rightarrow> ('d, 'd DiskDrive) session_comp" where
  "GetByID N iID bCheckMount s =
     (case (if iID = ROOT_DRIVE N then MountManager_GetRootDriveID N s
            else if iID = CURRENT_DRIVE N then (procDriveID (curProc s), s) else (iID, s)) of (i, t) \<Rightarrow>
        (case find (\<lambda>d. Id d = i \<and> (Mounted d \<or> \<not> bCheckMount)) (driveList t) of
           None \<Rightarrow> throw (Dir DriveNotFound) t
         | Some d \<Rightarrow> ret d t))"

text \<open>Work on the volume of a drive; the descriptors and the process stay as they are.\<close>

definition lift_error :: "('e \<Rightarrow> session_error) \<Rightarrow> ('e + 'a) \<Rightarrow> session_error + 'a" where
  "lift_error f r = (case r of Inl e \<Rightarrow> Inl (f e) | Inr x \<Rightarrow> Inr x)"

definition put_drive :: "int \<Rightarrow> ('d DiskDrive \<Rightarrow> 'd DiskDrive) \<Rightarrow> 'd session \<Rightarrow> 'd session" where
  "put_drive i f s = s\<lparr>driveList := map (\<lambda>d. if Id d = i then f d else d) (driveList s)\<rparr>"

definition drive_of :: "int \<Rightarrow> 'd session \<Rightarrow> 'd DiskDrive option" where
  "drive_of i s = find (\<lambda>d. Id d = i) (driveList s)"

definition on_drive :: "int \<Rightarrow> ('d volume, dir_error, 'a) comp \<Rightarrow> ('d, 'a) session_comp" where
  "on_drive i m s =
     (case drive_of i s of
        None \<Rightarrow> throw (Dir DriveNotFound) s
      | Some d \<Rightarrow> (case m (volume d) of (r, v) \<Rightarrow> (lift_error Dir r, put_drive i (\<lambda>d. d\<lparr>volume := v\<rparr>) s)))"

definition on_iods :: "(io_state, fd_error, 'a) comp \<Rightarrow> ('d, 'a) session_comp" where
  "on_iods m s = (case m (iods s) of (r, t) \<Rightarrow> (lift_error Fd r, s\<lparr>iods := t\<rparr>))"

text \<open>The directory a path of the drive starts from.\<close>

definition start_dir :: "int \<Rightarrow> int \<Rightarrow> 'd session \<Rightarrow> CWD" where
  "start_dir iDriveID i s =
     (if procDriveID (curProc s) = iDriveID then procPWD (curProc s)
      else (case drive_of i s of None \<Rightarrow> procPWD (curProc s) | Some d \<Rightarrow> FSpwd (volume d)))"

section \<open>Mounting\<close>

definition AllocateFreePoolQueue :: "nat \<Rightarrow> 'd fsys \<Rightarrow> 'd fsys" where
  "AllocateFreePoolQueue sz s = s\<lparr>freePoolQueue := [], freePoolSize := sz\<rparr>"

text \<open>A queue without room stands for none.\<close>

definition UnallocateFreePoolQueue :: "'d fsys \<Rightarrow> 'd fsys" where
  "UnallocateFreePoolQueue s = s\<lparr>freePoolQueue := [], freePoolSize := 0\<rparr>"

text \<open>\<open>fl\<close> writes the dirty sectors of the drive's cache to the device; its result is not looked at.\<close>

definition flush_drive :: "('d \<Rightarrow> 'd) \<Rightarrow> ('d volume, dir_error, unit) comp" where
  "flush_drive fl = modify (\<lambda>v. v\<lparr>fs := (fs v)\<lparr>drv := fl (drv (fs v))\<rparr>\<rparr>)"

definition Mount :: "node_lib \<Rightarrow> 'd fs_env \<Rightarrow> int \<Rightarrow> ('d, unit) session_comp" where
  "Mount N E i s =
     (case drive_of i s of
        None \<Rightarrow> throw (Dir DriveNotFound) s
      | Some d \<Rightarrow>
          if Mounted d then throw AlreadyMounted s
          else andThen (on_drive i (modify (\<lambda>v. v\<lparr>fs := AllocateFreePoolQueue (MaxSectorsInFreePoolCache d) (fs v)\<rparr>))) (\<lambda>_.
               andThen (on_drive i (on_fs (ReadFSBootBlock E))) (\<lambda>_.
               andThen (on_drive i (on_fs (LoadFreeSectors E))) (\<lambda>_.
               andThen (on_drive i (ReadRootDirectory N E)) (\<lambda>_.
               modify (put_drive i (\<lambda>d. d\<lparr>Mounted := True\<rparr>)))))) s)"

definition UnMount :: "'d fs_env \<Rightarrow> ('d \<Rightarrow> 'd) \<Rightarrow> u8 list \<Rightarrow> int \<Rightarrow> ('d, unit) session_comp" where
  "UnMount E fl junk i s =
     (case drive_of i s of
        None \<Rightarrow> throw (Dir DriveNotFound) s
      | Some d \<Rightarrow>
          if \<not> Mounted d then throw NotMounted s
          else andThen (on_drive i (on_fs (WriteFSBootBlock E junk))) (\<lambda>_.
               andThen (on_drive i (on_fs (FlushTableCache E MAX_SECTORS_IN_TABLE_CACHE))) (\<lambda>_.
               andThen (on_drive i (flush_drive fl)) (\<lambda>_.
               andThen (on_drive i (modify (\<lambda>v. v\<lparr>fs := UnallocateFreePoolQueue (fs v)\<rparr>))) (\<lambda>_.
               modify (put_drive i (\<lambda>d. d\<lparr>Mounted := False\<rparr>)))))) s)"

definition DiskDrive_Format :: "node_lib \<Rightarrow> 'd fs_env \<Rightarrow> ('d \<Rightarrow> 'd) \<Rightarrow> u8 list \<Rightarrow> BootBlock \<Rightarrow> u32 \<Rightarrow> int \<Rightarrow> ('d, unit) session_comp" where
  "DiskDrive_Format N E fl junk b0 now i =
     andThen (on_drive i (on_fs (Format E junk b0 (\<lambda>sec. put_node N junk 0 (InitAsRoot N now sec))))) (\<lambda>_.
     andThen (modify (put_drive i (\<lambda>d. d\<lparr>Mounted := False\<rparr>))) (\<lambda>_.
     on_drive i (flush_drive fl)))"

section \<open>The list of drives\<close>

definition DiskDriveManager_Create :: "string \<Rightarrow> DEVICE_TYPE \<Rightarrow> int \<Rightarrow> u32 \<Rightarrow> string \<Rightarrow> nat \<Rightarrow> 'd volume \<Rightarrow> 'd session \<Rightarrow> 'd session" where
  "DiskDriveManager_Create name devType driveNo lba raw maxPool v s =
     s\<lparr>driveList := driveList s @ [\<lparr>Id = idSequence s, DriveName = name, DeviceType = devType, DriveNumber = driveNo, LBAStart = lba,
         MaxSectorsInFreePoolCache = maxPool, RawDisk = raw, Mounted = False, volume = v\<rparr>],
       idSequence := idSequence s + 1\<rparr>"

definition CreateRawDisk :: "string \<Rightarrow> RawDiskDrive \<Rightarrow> ('d, unit) session_comp" where
  "CreateRawDisk name d s =
     (if name \<in> set (map fst (rawDiskList s)) then throw RawDriveExists s
      else (Inr (), s\<lparr>rawDiskList := rawDiskList s @ [(name, d)]\<rparr>))"

fun erase_first :: "('a \<Rightarrow> bool) \<Rightarrow> 'a list \<Rightarrow> 'a list" where
  "erase_first P [] = []"
| "erase_first P (x # xs) = (if P x then xs else x # erase_first P xs)"

definition RemoveRawDiskEntry :: "string \<Rightarrow> 'd session \<Rightarrow> bool \<times> 'd session" where
  "RemoveRawDiskEntry name s =
     (name \<in> set (map fst (rawDiskList s)), s\<lparr>rawDiskList := erase_first (\<lambda>(n, d). n = name) (rawDiskList s)\<rparr>)"

definition GetRawDiskByName :: "string \<Rightarrow> 'd session \<Rightarrow> RawDiskDrive option" where
  "GetRawDiskByName name s = map_of (rawDiskList s) name"

text \<open>An exception while a drive is unmounted ends the loop.\<close>

fun remove_loop :: "'d fs_env \<Rightarrow> ('d \<Rightarrow> 'd) \<Rightarrow> u8 list \<Rightarrow> ('d DiskDrive \<Rightarrow> bool) \<Rightarrow> 'd DiskDrive list \<Rightarrow> ('d, unit) session_comp" where
  "remove_loop E fl junk removeClause [] = ret ()"
| "remove_loop E fl junk removeClause (d # ds) =
     andThen (if removeClause d
              then andThen (if Mounted d then UnMount E fl junk (Id d) else ret ()) (\<lambda>_.
                   modify (\<lambda>s. s\<lparr>driveList := filter (\<lambda>e. Id e \<noteq> Id d) (driveList s)\<rparr>))
              else ret ()) (\<lambda>_. remove_loop E fl junk removeClause ds)"

definition RemoveEntryByCondition :: "'d fs_env \<Rightarrow> ('d \<Rightarrow> 'd) \<Rightarrow> u8 list \<Rightarrow> ('d DiskDrive \<Rightarrow> bool) \<Rightarrow> ('d, unit) session_comp" where
  "RemoveEntryByCondition E fl junk removeClause s = remove_loop E fl junk removeClause (driveList s) s"

definition DiskDriveManager_Change :: "string \<Rightarrow> ('d, bool) session_comp" where
  "DiskDriveManager_Change szDriveName s =
     (case GetByDriveName szDriveName False s of
        None \<Rightarrow> ret False s
      | Some d \<Rightarrow>
          andThen (modify (\<lambda>s. s\<lparr>curProc := (curProc s)\<lparr>procDriveID := Id d, procPWD := FSpwd (volume d)\<rparr>\<rparr>)) (\<lambda>_.
          andThen (set_env ''PWD'' (nodeName (DirEntry (FSpwd (volume d))))) (\<lambda>_. ret True)) s)"

record DriveStat =
  statName :: string
  statMounted :: bool
  statSize :: u32
  statTotal :: u64
  statUsed :: u64

definition DriveStat_of :: "'d DiskDrive \<Rightarrow> DriveStat" where
  "DriveStat_of d = \<lparr>statName = take 32 (DriveName d), statMounted = Mounted d, statSize = drvSizeInSectors (fs (volume d)),
     statTotal = (if Mounted d then TotalSize (fs (volume d)) else 0), statUsed = (if Mounted d then UsedSize (fs (volume d)) else 0)\<rparr>"

text \<open>The list that \<open>GetList\<close> stores in the caller's heap.\<close>

definition DiskDriveManager_GetList :: "'d session \<Rightarrow> DriveStat list" where
  "DiskDriveManager_GetList s = map DriveStat_of (driveList s)"

definition GetCurrentDriveStat :: "node_lib \<Rightarrow> ('d, DriveStat) session_comp" where
  "GetCurrentDriveStat N s =
     andThen (GetByID N (procDriveID (curProc s)) True) (\<lambda>d. ret ((DriveStat_of d)\<lparr>statTotal := 0, statUsed := 0\<rparr>)) s"

definition MountDrive :: "node_lib \<Rightarrow> 'd fs_env \<Rightarrow> string \<Rightarrow> ('d, unit) session_comp" where
  "MountDrive N E szDriveName s =
     (case GetByDriveName szDriveName False s of None \<Rightarrow> throw (Dir DriveNotFound) s | Some d \<Rightarrow> Mount N E (Id d) s)"

text \<open>\<open>bKernel\<close>: the kernel itself, or a kernel process, calls.\<close>

definition UnMountDrive :: "'d fs_env \<Rightarrow> ('d \<Rightarrow> 'd) \<Rightarrow> u8 list \<Rightarrow> bool \<Rightarrow> string \<Rightarrow> ('d, unit) session_comp" where
  "UnMountDrive E fl junk bKernel szDriveName s =
     (case GetByDriveName szDriveName False s of
        None \<Rightarrow> throw (Dir DriveNotFound) s
      | Some d \<Rightarrow>
          if \<not> bKernel \<and> Id d = procDriveID (curProc s) then throw UnmountCurrent s
          else UnMount E fl junk (Id d) s)"

definition on_raw :: "string \<Rightarrow> (RawDiskDrive, part_error, 'a) comp \<Rightarrow> ('d, 'a) session_comp" where
  "on_raw name m s =
     (case GetRawDiskByName name s of
        None \<Rightarrow> throw (Dir Undefined) s
      | Some d \<Rightarrow> (case m d of (r, d') \<Rightarrow>
          (lift_error Raw r, s\<lparr>rawDiskList := map (\<lambda>(n, e). (n, if n = name then d' else e)) (rawDiskList s)\<rparr>)))"

definition FormatDrive ::
    "node_lib \<Rightarrow> 'd fs_env \<Rightarrow> ('d \<Rightarrow> 'd) \<Rightarrow> u8 list \<Rightarrow> BootBlock \<Rightarrow> u32 \<Rightarrow> string \<Rightarrow> ('d, unit) session_comp" where
  "FormatDrive N E fl junk b0 now szDriveName s =
     (case GetByDriveName szDriveName False s of
        None \<Rightarrow> throw (Dir DriveNotFound) s
      | Some d \<Rightarrow> andThen (DiskDrive_Format N E fl junk b0 now (Id d)) (\<lambda>_.
          if DeviceType d = DEV_ATA_IDE \<or> DeviceType d = DEV_SCSI_USB_DISK
          then on_raw (RawDisk d) (UpdateSystemIndicator (LBAStart d) 0x93) else ret ()) s)"

definition GetResourceType_device :: "DEVICE_TYPE \<Rightarrow> RESOURCE_KEYS" where
  "GetResourceType_device t =
     (case t of DEV_FLOPPY \<Rightarrow> RESOURCE_FDD | DEV_ATA_IDE \<Rightarrow> RESOURCE_HDD | DEV_SCSI_USB_DISK \<Rightarrow> RESOURCE_USD | _ \<Rightarrow> RESOURCE_GENERIC_DISK)"

definition GetResourceType_raw :: "RAW_DISK_TYPES \<Rightarrow> RESOURCE_KEYS" where
  "GetResourceType_raw t = (case t of ATA_HARD_DISK \<Rightarrow> RESOURCE_HDD | USB_SCSI_DISK \<Rightarrow> RESOURCE_USD | _ \<Rightarrow> RESOURCE_GENERIC_DISK)"

end
