(* ===== verification/FileOps.thy ===== *)
theory FileOps
  imports Session
begin

text \<open>
  The file operations of processes: \<open>filesystem/FileOperations.cpp\<close>, \<open>io/FileDescriptor.cpp\<close>,
  \<open>filesystem/BufferedReader.cpp\<close>, the functions of \<open>filesystem/Directory.cpp\<close> that work for a process, and the mounting of
  the first drives in \<open>kernel/MountManager.cpp\<close>.

  \<open>now\<close> is the time of day and \<open>junk\<close> what a buffer on the stack holds. A process uses its descriptors through the tables of
  \<open>IoTable\<close>; an open file is an entry of kind \<open>FileD\<close>. Lists that are stored in the caller's heap are results.
\<close>

section \<open>Paths with a drive\<close>

definition ROOT_DRIVE_SYN :: string where "ROOT_DRIVE_SYN = ''ROOT''"

text \<open>
  \<open>None\<close> leaves the number of the drive uninitialised. The copy of the path has room for 100 characters.
\<close>

definition FileOperations_ParseFilePathWithDrive :: "node_lib \<Rightarrow> string \<Rightarrow> ('d, string \<times> int option) session_comp" where
  "FileOperations_ParseFilePathWithDrive N szFileNameWithDrive s =
     (let i = String_Chr szFileNameWithDrive CHR ''@'';
          szDriveName = take (nat i) szFileNameWithDrive;
          szFileName = (if i = - 1 \<or> i > 32 then szFileNameWithDrive else drop (nat i + 1) szFileNameWithDrive)
      in if 100 \<le> length szFileName then throw (Dir Undefined) s
         else if i = - 1 then ret (szFileName, Some (procDriveID (curProc s))) s
         else if i > 32 then ret (szFileName, None) s
         else case (if szDriveName = ROOT_DRIVE_SYN then None else GetByDriveName szDriveName False s) of
             None \<Rightarrow> (case MountManager_GetRootDriveID N s of (r, t) \<Rightarrow> ret (szFileName, Some r) t)
           | Some d \<Rightarrow> ret (szFileName, Some (Id d)) s)"

definition parse_path :: "node_lib \<Rightarrow> string \<Rightarrow> ('d, string \<times> int) session_comp" where
  "parse_path N p = andThen (FileOperations_ParseFilePathWithDrive N p) (\<lambda>(f, d).
     case d of None \<Rightarrow> throw (Dir Undefined) | Some i \<Rightarrow> ret (f, i))"

text \<open>A drive that must be mounted, with the directory that paths on it start from.\<close>

definition drive_and_dir :: "node_lib \<Rightarrow> int \<Rightarrow> ('d, int \<times> CWD) session_comp" where
  "drive_and_dir N iDriveID =
     andThen (GetByID N iDriveID True) (\<lambda>d s. ret (Id d, start_dir iDriveID (Id d) s) s)"

section \<open>Directories of a process\<close>

definition Directory_GetDirEntry :: "node_lib \<Rightarrow> 'd fs_env \<Rightarrow> string \<Rightarrow> int \<Rightarrow> ('d, Node) session_comp" where
  "Directory_GetDirEntry N E szFileName iDriveID =
     andThen (drive_and_dir N iDriveID) (\<lambda>(i, cwd). on_drive i (entry_at_path N E cwd szFileName))"

definition Directory_GetDirEntryForCreateDelete :: "node_lib \<Rightarrow> 'd fs_env \<Rightarrow> int \<Rightarrow> string \<Rightarrow> ('d, string \<times> slot) session_comp" where
  "Directory_GetDirEntryForCreateDelete N E iDriveID szDirPath =
     andThen (GetByID N iDriveID True) (\<lambda>d s.
       on_drive (Id d) (parent_of N E
         (if szDirPath = [] \<or> hd szDirPath = CHR ''/'' \<or> procDriveID (curProc s) \<noteq> iDriveID then FSpwd (volume d) else procPWD (curProc s))
         szDirPath) s)"

text \<open>The present directory of the process follows its entry when that is the parent.\<close>

definition refresh_pwd :: "int \<Rightarrow> slot \<Rightarrow> Node \<Rightarrow> 'd session \<Rightarrow> 'd session" where
  "refresh_pwd i parent p s =
     (let pwd = procPWD (curProc s)
      in if i = procDriveID (curProc s) \<and> fst parent = uiSectorNo pwd \<and> fst (snd parent) = bSectorEntryPosition pwd
         then s\<lparr>curProc := (curProc s)\<lparr>procPWD := pwd\<lparr>DirEntry := p\<rparr>\<rparr>\<rparr> else s)"

definition Directory_Create ::
    "node_lib \<Rightarrow> 'd fs_env \<Rightarrow> sector \<Rightarrow> u32 \<Rightarrow> int \<Rightarrow> slot \<Rightarrow> string \<Rightarrow> u16 \<Rightarrow> ('d, unit) session_comp" where
  "Directory_Create N E junk now iDriveID parent szDirName usDirAttribute =
     andThen (GetByID N iDriveID True) (\<lambda>d s.
       andThen (on_drive (Id d) (create_in N E junk now (procUserID (curProc s)) parent szDirName usDirAttribute)) (\<lambda>p.
         modify (refresh_pwd (Id d) parent p)) s)"

definition Directory_Delete :: "node_lib \<Rightarrow> 'd fs_env \<Rightarrow> int \<Rightarrow> slot \<Rightarrow> string \<Rightarrow> ('d, unit) session_comp" where
  "Directory_Delete N E iDriveID parent szDirName =
     andThen (GetByID N iDriveID True) (\<lambda>d.
       andThen (on_drive (Id d) (delete_in N E parent szDirName)) (\<lambda>p. modify (refresh_pwd (Id d) parent p)))"

definition Directory_GetDirectoryContent :: "node_lib \<Rightarrow> 'd fs_env \<Rightarrow> string \<Rightarrow> int \<Rightarrow> ('d, int \<times> Node list) session_comp" where
  "Directory_GetDirectoryContent N E szFileName iDriveID =
     andThen (drive_and_dir N iDriveID) (\<lambda>(i, cwd). on_drive i (content_at N E cwd szFileName))"

definition Directory_SyncPWD :: "node_lib \<Rightarrow> 'd fs_env \<Rightarrow> ('d, unit) session_comp" where
  "Directory_SyncPWD N E s =
     andThen (GetByID N (procDriveID (curProc s)) True) (\<lambda>d s. let pwd = procPWD (curProc s) in
       andThen (on_drive (Id d) (xRead1 E (uiSectorNo pwd))) (\<lambda>b.
         modify (\<lambda>s. s\<lparr>curProc := (curProc s)\<lparr>procPWD := pwd\<lparr>DirEntry := get_node N b (unat (bSectorEntryPosition pwd))\<rparr>\<rparr>\<rparr>)) s) s"

text \<open>The path of a directory from its parents, in buffers of 256 characters.\<close>

fun pwd_loop :: "node_lib \<Rightarrow> 'd fs_env \<Rightarrow> nat \<Rightarrow> Node \<Rightarrow> string \<Rightarrow> ('d volume, dir_error, string) comp" where
  "pwd_loop N E 0 n tmp = throw NoReturn"
| "pwd_loop N E (Suc fuel) n tmp =
     (let p = FS_ROOT_DIR @ nodeName n @ tmp
      in if 256 \<le> length p then throw Undefined
         else andThen (xRead1 E (parentSectorID n)) (\<lambda>b.
              let n' = get_node N b (unat (parentSectorPos n))
              in if nodeName n' = FS_ROOT_DIR then ret p else pwd_loop N E fuel n' p))"

definition Directory_Change :: "node_lib \<Rightarrow> 'd fs_env \<Rightarrow> string \<Rightarrow> int \<Rightarrow> ('d, unit) session_comp" where
  "Directory_Change N E szFileName iDriveID =
     andThen (GetByID N iDriveID True) (\<lambda>d s.
       andThen (on_drive (Id d) (Directory_ReadDirEntryInfo N E (start_dir iDriveID (Id d) s) szFileName)) (\<lambda>r.
       let dirFile = slot_node N r in
       if \<not> IsDirectory N dirFile then throw (Dir (NotADirectory szFileName))
       else andThen (modify (\<lambda>s. s\<lparr>curProc := (curProc s)\<lparr>procDriveID := iDriveID, procPWD := slot_cwd N r\<rparr>\<rparr>)) (\<lambda>_.
            andThen (if nodeName dirFile = FS_ROOT_DIR then ret FS_ROOT_DIR
                     else on_drive (Id d) (pwd_loop N E (loop_bound N) dirFile [])) (\<lambda>p.
            set_env ''PWD'' (DriveName d @ ''@'' @ p)))) s)"

definition Directory_PresentWorkingDirectory :: "('d, string) session_comp" where
  "Directory_PresentWorkingDirectory s =
     (case ProcessEnv_Get ''PWD'' (envList (curProc s)) of None \<Rightarrow> throw (Dir PwdNotSet) s | Some p \<Rightarrow> ret p s)"

section \<open>Open files\<close>

definition file_at :: "int \<times> int \<Rightarrow> 'd session \<Rightarrow> FileDescriptor option" where
  "file_at r s = (case lookup_fd (iods s) (fst r) (snd r) of
     None \<Rightarrow> None | Some d \<Rightarrow> (case dKind d of FileD fd \<Rightarrow> Some fd | _ \<Rightarrow> None))"

definition set_file :: "int \<times> int \<Rightarrow> FileDescriptor \<Rightarrow> 'd session \<Rightarrow> 'd session" where
  "set_file r fd s = (case lookup_fd (iods s) (fst r) (snd r) of
     None \<Rightarrow> s | Some d \<Rightarrow> s\<lparr>iods := set_fd (fst r) (snd r) (d\<lparr>dKind := FileD fd\<rparr>) (iods s)\<rparr>)"

text \<open>Work on a file that is open, on its drive.\<close>

definition on_file :: "int \<times> int \<Rightarrow> int \<Rightarrow> ('d fstate, dir_error, 'a) comp \<Rightarrow> ('d, 'a) session_comp" where
  "on_file r i m s =
     (case file_at r s of None \<Rightarrow> throw (Dir Undefined) s | Some fd \<Rightarrow>
       (case drive_of i s of None \<Rightarrow> throw (Dir DriveNotFound) s | Some d \<Rightarrow>
         (case m \<lparr>vol = volume d, desc = fd\<rparr> of
            (x, t) \<Rightarrow> (lift_error Dir x, set_file r (desc t) (put_drive i (\<lambda>d. d\<lparr>volume := vol t\<rparr>) s)))))"

definition DIR_ACCESS_TIME :: u8 where "DIR_ACCESS_TIME = 1"
definition DIR_MODIFIED_TIME :: u8 where "DIR_MODIFIED_TIME = 2"

definition stamp :: "u32 \<Rightarrow> u8 \<Rightarrow> Node \<Rightarrow> Node" where
  "stamp now bTimeType n =
     (let n' = (if bTimeType AND DIR_ACCESS_TIME \<noteq> 0 then n\<lparr>accessedTime := now\<rparr> else n)
      in if bTimeType AND DIR_MODIFIED_TIME \<noteq> 0 then n'\<lparr>modifiedTime := now\<rparr> else n')"

definition update_time :: "node_lib \<Rightarrow> 'd fs_env \<Rightarrow> u32 \<Rightarrow> CWD \<Rightarrow> string \<Rightarrow> u8 \<Rightarrow> ('d volume, dir_error, unit) comp" where
  "update_time N E now cwd szFileName bTimeType =
     andThen (Directory_ReadDirEntryInfo N E cwd szFileName) (\<lambda>(sec, pos, b).
       xWrite E sec [put_node N b (unat pos) (stamp now bTimeType (get_node N b (unat pos)))])"

definition FileOperations_UpdateTime :: "node_lib \<Rightarrow> 'd fs_env \<Rightarrow> u32 \<Rightarrow> string \<Rightarrow> int \<Rightarrow> u8 \<Rightarrow> ('d, unit) session_comp" where
  "FileOperations_UpdateTime N E now szFileName iDriveID bTimeType s =
     andThen (drive_and_dir N (if iDriveID = CURRENT_DRIVE N then procDriveID (curProc s) else iDriveID)) (\<lambda>(i, cwd).
       on_drive i (update_time N E now cwd szFileName bTimeType)) s"

definition add_offset :: "u32 \<Rightarrow> FileDescriptor \<Rightarrow> FileDescriptor" where
  "add_offset n fd = fd\<lparr>offset := offset fd + n\<rparr>"

definition advance :: "int \<times> int \<Rightarrow> u32 \<Rightarrow> 'd session \<Rightarrow> 'd session" where
  "advance r n s = (case file_at r s of None \<Rightarrow> s | Some fd \<Rightarrow> set_file r (add_offset n fd) s)"

definition FileDescriptor_read :: "node_lib \<Rightarrow> 'd fs_env \<Rightarrow> u32 \<Rightarrow> int \<times> int \<Rightarrow> u32 \<Rightarrow> ('d, u8 list) session_comp" where
  "FileDescriptor_read N E now r len s =
     (case file_at r s of
        None \<Rightarrow> throw (Dir Undefined) s
      | Some fd \<Rightarrow>
          andThen (drive_and_dir N (driveID fd)) (\<lambda>(i, cwd).
          andThen (on_file r i (Directory_FileRead N E cwd len)) (\<lambda>bs.
          andThen (FileOperations_UpdateTime N E now (fileName fd) (driveID fd) DIR_ACCESS_TIME) (\<lambda>_.
          andThen (modify (advance r (word_of_nat (length bs)))) (\<lambda>_. ret bs)))) s)"

definition WRITE_LIMIT :: nat where "WRITE_LIMIT = 1024 * 1024"

text \<open>
  The loop over portions of at most 1 MB; \<open>rem\<close> is \<open>uiIncLen\<close>. Every portion is taken from the start of the caller's buffer.
\<close>

function write_portions :: "node_lib \<Rightarrow> 'd fs_env \<Rightarrow> sector \<Rightarrow> CWD \<Rightarrow> u8 list \<Rightarrow> int \<times> int \<Rightarrow> int \<Rightarrow> nat \<Rightarrow> ('d, unit) session_comp" where
  "write_portions N E junk cwd data r i rem =
     (let n = (if rem > WRITE_LIMIT then WRITE_LIMIT else rem)
      in andThen (on_file r i (Directory_FileWrite N E junk cwd (take n data))) (\<lambda>_.
         andThen (modify (advance r (word_of_nat n))) (\<lambda>_.
         if rem - n = 0 then ret () else write_portions N E junk cwd data r i (rem - n))))"
  by pat_completeness auto
termination
  by (relation "measure (\<lambda>(_, _, _, _, _, _, _, rem). rem)") (auto simp: WRITE_LIMIT_def split: if_splits)

declare write_portions.simps [simp del]

definition FileDescriptor_write ::
    "node_lib \<Rightarrow> 'd fs_env \<Rightarrow> sector \<Rightarrow> u32 \<Rightarrow> int \<times> int \<Rightarrow> u8 list \<Rightarrow> ('d, nat) session_comp" where
  "FileDescriptor_write N E junk now r data s =
     (case file_at r s of
        None \<Rightarrow> throw (Dir Undefined) s
      | Some fd \<Rightarrow>
          if \<not> (fdMode fd AND O_WRONLY N \<noteq> 0 \<or> fdMode fd AND O_RDWR N \<noteq> 0 \<or> fdMode fd AND O_APPEND N \<noteq> 0)
          then throw (Dir (NoPermission (fileName fd))) s
          else andThen (drive_and_dir N (driveID fd)) (\<lambda>(i, cwd).
               andThen (write_portions N E junk cwd data r i (length data)) (\<lambda>_.
               andThen (FileOperations_UpdateTime N E now (fileName fd) (driveID fd) (DIR_ACCESS_TIME OR DIR_MODIFIED_TIME)) (\<lambda>_.
               ret (length data)))) s)"

datatype seek_type = SEEK_SET | SEEK_CUR | SEEK_END | SEEK_OTHER int

text \<open>The sum of the \<open>int\<close> argument and an unsigned offset is taken modulo 2^32 and read as an \<open>int\<close>.\<close>

definition seek_target :: "seek_type \<Rightarrow> u32 \<Rightarrow> FileDescriptor \<Rightarrow> session_error + u32" where
  "seek_target seekType off fd =
     (let to = (\<lambda>x. if sint x < 0 then Inl (Dir InvalidSeek) else Inr x)
      in case seekType of SEEK_SET \<Rightarrow> to off | SEEK_CUR \<Rightarrow> to (off + offset fd) | SEEK_END \<Rightarrow> to (off + fileSize fd)
         | SEEK_OTHER _ \<Rightarrow> Inl BadSeekType)"

definition FileDescriptor_seek :: "int \<times> int \<Rightarrow> seek_type \<Rightarrow> u32 \<Rightarrow> ('d, unit) session_comp" where
  "FileDescriptor_seek r seekType off s =
     (case file_at r s of
        None \<Rightarrow> throw (Dir Undefined) s
      | Some fd \<Rightarrow> (case seek_target seekType off fd of
          Inl e \<Rightarrow> throw e s
        | Inr x \<Rightarrow> (Inr (), set_file r (fd\<lparr>offset := x\<rparr>) s)))"

text \<open>A descriptor of any kind, named by its process and number. Seeking does nothing on one that is not a file.\<close>

definition desc_read :: "node_lib \<Rightarrow> 'd fs_env \<Rightarrow> stream_lib \<Rightarrow> u32 \<Rightarrow> int \<times> int \<Rightarrow> u32 \<Rightarrow> ('d, u8 list) session_comp" where
  "desc_read N E Q now r len s =
     (case file_at r s of
        Some fd \<Rightarrow> FileDescriptor_read N E now r len s
      | None \<Rightarrow> andThen (on_iods (iod_read Q (fst r) (snd r) (unat len))) (\<lambda>x.
          case x of None \<Rightarrow> throw (Dir Undefined) | Some bs \<Rightarrow> ret bs) s)"

definition desc_seek :: "int \<times> int \<Rightarrow> seek_type \<Rightarrow> u32 \<Rightarrow> ('d, unit) session_comp" where
  "desc_seek r seekType off s = (case file_at r s of Some fd \<Rightarrow> FileDescriptor_seek r seekType off s | None \<Rightarrow> ret () s)"

definition desc_offset :: "int \<times> int \<Rightarrow> 'd session \<Rightarrow> u32" where
  "desc_offset r s = (case file_at r s of Some fd \<Rightarrow> offset fd | None \<Rightarrow> 0)"

definition real_fd :: "int \<Rightarrow> ('d, int \<times> int) session_comp" where
  "real_fd fd s = on_iods (getRealNonDupped (procId (curProc s)) fd) s"

section \<open>File operations\<close>

text \<open>Exceptions can be caught, undefined behaviour and loops that do not end cannot.\<close>

definition is_exception :: "session_error \<Rightarrow> bool" where
  "is_exception e \<longleftrightarrow> e \<notin> {Dir Undefined, Dir NoReturn, Fd UseAfterFree, Fd NeverReturns, Fd WouldBlock}"

definition catching :: "('d, 'a) session_comp \<Rightarrow> 'a \<Rightarrow> ('d, 'a) session_comp" where
  "catching m x s = (case m s of (Inl e, t) \<Rightarrow> if is_exception e then (Inr x, t) else (Inl e, t) | (Inr v, t) \<Rightarrow> (Inr v, t))"

definition FileOperations_ValidateAndGetFileAttr :: "node_lib \<Rightarrow> u16 \<Rightarrow> u16 \<Rightarrow> session_error + u16" where
  "FileOperations_ValidateAndGetFileAttr N usFileType usMode =
     (let t = FILE_TYPE usFileType
      in if t = ATTR_TYPE_FILE N \<or> t = ATTR_TYPE_DIRECTORY N then Inr (t OR FILE_PERM usMode) else Inl (Dir (BadFileType t)))"

definition may_write :: "node_lib \<Rightarrow> string \<Rightarrow> slot \<Rightarrow> ('d, unit) session_comp" where
  "may_write N szFilePath parent s =
     (if hasFilePermission N (curProc s) (slot_node N parent) (O_RDWR N) then ret () s else throw (Dir (NoPermission szFilePath)) s)"

definition FileOperations_Create ::
    "node_lib \<Rightarrow> 'd fs_env \<Rightarrow> sector \<Rightarrow> u32 \<Rightarrow> string \<Rightarrow> u16 \<Rightarrow> u16 \<Rightarrow> ('d, unit) session_comp" where
  "FileOperations_Create N E junk now szFilePath usFileType usMode =
     andThen (parse_path N szFilePath) (\<lambda>(szFile, iDriveID).
     case FileOperations_ValidateAndGetFileAttr N usFileType usMode of
       Inl e \<Rightarrow> throw e
     | Inr usFileAttr \<Rightarrow>
         andThen (Directory_GetDirEntryForCreateDelete N E iDriveID szFile) (\<lambda>(szDirName, parent).
         andThen (may_write N szFilePath parent) (\<lambda>_.
         Directory_Create N E junk now iDriveID parent szDirName usFileAttr)))"

definition FileOperations_GetDirEntry :: "node_lib \<Rightarrow> 'd fs_env \<Rightarrow> string \<Rightarrow> ('d, Node) session_comp" where
  "FileOperations_GetDirEntry N E szFileName =
     andThen (parse_path N szFileName) (\<lambda>(szFile, iDriveID).
     andThen (drive_and_dir N iDriveID) (\<lambda>(i, cwd).
     andThen (on_drive i (Directory_ReadDirEntryInfo N E cwd szFile)) (\<lambda>r. ret (slot_node N r))))"

definition FileOperations_Delete :: "node_lib \<Rightarrow> 'd fs_env \<Rightarrow> string \<Rightarrow> ('d, unit) session_comp" where
  "FileOperations_Delete N E szFilePath =
     andThen (parse_path N szFilePath) (\<lambda>(szFile, iDriveID).
     andThen (Directory_GetDirEntryForCreateDelete N E iDriveID szFile) (\<lambda>(szDirName, parent).
     andThen (may_write N szFilePath parent) (\<lambda>_.
     andThen (FileOperations_GetDirEntry N E szFilePath) (\<lambda>fileDirEntry s.
       if fileUserType (curProc s) fileDirEntry \<noteq> USER_OWNER then throw (Dir (NoPermission szFilePath)) s
       else Directory_Delete N E iDriveID parent szDirName s))))"

text \<open>\<open>allocate\<close> with a builder that works on the drives as well.\<close>

definition session_allocate :: "int \<Rightarrow> (int \<Rightarrow> ('d, io_desc) session_comp) \<Rightarrow> ('d, int) session_comp" where
  "session_allocate pid descriptorBuilder s =
     (case map_of (iods s) pid of
        None \<Rightarrow> throw (Fd (BrokenRedirect pid)) s
      | Some t \<Rightarrow>
          if PROC_SYS_MAX_OPEN_FILES \<le> length (iodMap t) then throw (Fd TooManyFiles) s
          else let fd = fdIdCounter t
               in andThen (on_iods (modify (update_table pid (\<lambda>t. t\<lparr>fdIdCounter := fd + 1\<rparr>)))) (\<lambda>_.
                  andThen (descriptorBuilder fd) (\<lambda>d.
                  if fd \<in> set (map fst (iodMap t)) then throw (Fd DuplicateEntry)
                  else andThen (on_iods (modify (update_table pid (\<lambda>t. t\<lparr>iodMap := iodMap t @ [(fd, d)]\<rparr>)))) (\<lambda>_. ret fd))) s)"

definition FileOperations_Open ::
    "node_lib \<Rightarrow> 'd fs_env \<Rightarrow> sector \<Rightarrow> u32 \<Rightarrow> string \<Rightarrow> u8 \<Rightarrow> ('d, int) session_comp" where
  "FileOperations_Open N E junk now szFileName m =
     andThen (parse_path N szFileName) (\<lambda>(szFile, iDriveID).
     andThen (GetByID N iDriveID True) (\<lambda>d.
     andThen (Directory_GetDirEntry N E szFile iDriveID) (\<lambda>dirEntry s.
       if \<not> IsFile N dirEntry then throw (Dir (NotFound szFileName)) s
       else if \<not> hasFilePermission N (curProc s) dirEntry m then throw (Dir (NoPermission szFileName)) s
       else andThen (if m AND O_TRUNC N \<noteq> 0
                     then andThen (FileOperations_Delete N E szFileName) (\<lambda>_.
                          andThen (FileOperations_Create N E junk now szFileName (FILE_TYPE (attribute dirEntry)) (FILE_PERM (attribute dirEntry))) (\<lambda>_.
                          Directory_GetDirEntry N E szFile iDriveID))
                     else ret dirEntry) (\<lambda>e s.
            session_allocate (procId (curProc s)) (\<lambda>fd.
              andThen (on_drive (Id d) (FullPath N E e)) (\<lambda>path.
              ret (new_desc (procId (curProc s)) fd (ucast m)
                (FileD (FileDescriptor_new N (procId (curProc s)) fd m path iDriveID (nodeSize e) (startSectorID e)))))) s) s)))"

definition FileOperations_Close :: "int \<Rightarrow> ('d, bool) session_comp" where
  "FileOperations_Close fd s =
     catching (andThen (on_iods (iod_free (procId (curProc s)) fd)) (\<lambda>_. ret True)) False s"

text \<open>
  A line is read in chunks of 64 bytes. The text of a chunk ends at its first newline or zero byte; after a newline
  inside the chunk the file is set back to the byte behind it.
\<close>

definition CHUNK_SIZE :: nat where "CHUNK_SIZE = 64"
definition NEWLINE :: u8 where "NEWLINE = 10"

definition chunk_text :: "u8 list \<Rightarrow> u8 list" where
  "chunk_text bs = takeWhile (\<lambda>b. b \<noteq> 0) (takeWhile (\<lambda>b. b \<noteq> NEWLINE) bs)"

fun read_chunks ::
    "(u32 \<Rightarrow> ('s, session_error, u8 list) comp) \<Rightarrow> (u32 \<Rightarrow> ('s, session_error, unit) comp) \<Rightarrow> nat \<Rightarrow> u8 list list \<Rightarrow>
     ('s, session_error, u8 list list) comp" where
  "read_chunks fread fseekCur 0 buffers = throw (Dir NoReturn)"
| "read_chunks fread fseekCur (Suc fuel) buffers =
     andThen (fread (word_of_nat CHUNK_SIZE)) (\<lambda>bs.
       if bs = [] then ret buffers
       else let i = length (takeWhile (\<lambda>b. b \<noteq> NEWLINE) bs); off = int i - int (length bs) + 1;
                buffers' = buffers @ [chunk_text bs]
            in if off < 0 then andThen (fseekCur (word_of_int off)) (\<lambda>_. ret buffers')
               else read_chunks fread fseekCur fuel buffers')"

definition FileOperations_ReadLine ::
    "node_lib \<Rightarrow> 'd fs_env \<Rightarrow> stream_lib \<Rightarrow> u32 \<Rightarrow> int \<Rightarrow> ('d, u8 list option) session_comp" where
  "FileOperations_ReadLine N E Q now fd =
     andThen (real_fd fd) (\<lambda>r.
     andThen (read_chunks (desc_read N E Q now r) (desc_seek r SEEK_CUR) (loop_bound N) []) (\<lambda>buffers.
     ret (if buffers = [] then None else Some (concat buffers))))"

definition FileOperations_Exists :: "node_lib \<Rightarrow> 'd fs_env \<Rightarrow> string \<Rightarrow> u16 \<Rightarrow> ('d, bool) session_comp" where
  "FileOperations_Exists N E szFileName usFileType =
     catching (andThen (parse_path N szFileName) (\<lambda>(szFile, iDriveID).
       andThen (Directory_GetDirEntry N E szFile iDriveID) (\<lambda>dirEntry.
       ret (attribute dirEntry AND usFileType = usFileType)))) False"

definition FileOperations_GetOffset :: "int \<Rightarrow> ('d, u32) session_comp" where
  "FileOperations_GetOffset fd = andThen (real_fd fd) (\<lambda>r s. ret (desc_offset r s) s)"

definition FileOperations_GetFileOpenMode :: "int \<Rightarrow> ('d, u8) session_comp" where
  "FileOperations_GetFileOpenMode fd =
     andThen (real_fd fd) (\<lambda>r. andThen (on_iods (iod_get (fst r) (snd r))) (\<lambda>d. ret (ucast (dMode d))))"

text \<open>The terminating zero of a path as long as the buffer is written behind it.\<close>

definition FileOperations_GetCWD :: "node_lib \<Rightarrow> 'd fs_env \<Rightarrow> nat \<Rightarrow> ('d, string) session_comp" where
  "FileOperations_GetCWD N E iBufSize s =
     andThen (GetByID N (procDriveID (curProc s)) True) (\<lambda>d.
     andThen (on_drive (Id d) (FullPath N E (DirEntry (procPWD (curProc s))))) (\<lambda>fullPath.
       if length fullPath > iBufSize then throw (Dir BufferTooSmall)
       else if length fullPath = iBufSize then throw (Dir Undefined)
       else ret fullPath)) s"

record FileStat =
  st_dev :: int
  st_mode :: u16
  st_uid :: u32
  st_size :: u32
  st_atime :: u32
  st_mtime :: u32
  st_ctime :: u32
  st_blksize :: u32
  st_blocks :: u32

definition FileStat_of :: "int \<Rightarrow> Node \<Rightarrow> FileStat" where
  "FileStat_of dev n = \<lparr>st_dev = dev, st_mode = attribute n, st_uid = nodeUserID n, st_size = nodeSize n, st_atime = accessedTime n,
     st_mtime = modifiedTime n, st_ctime = createdTime n, st_blksize = 512,
     st_blocks = nodeSize n div 512 + (if nodeSize n mod 512 \<noteq> 0 then 1 else 0)\<rparr>"

text \<open>A path with its drive, or a path on the drive given.\<close>

definition path_on :: "node_lib \<Rightarrow> string \<Rightarrow> int \<Rightarrow> ('d, string \<times> int) session_comp" where
  "path_on N szFileName iDriveID =
     (if iDriveID = FROM_FILE N then parse_path N szFileName
      else if 100 \<le> length szFileName then throw (Dir Undefined) else ret (szFileName, iDriveID))"

definition FileOperations_GetStat :: "node_lib \<Rightarrow> 'd fs_env \<Rightarrow> string \<Rightarrow> int \<Rightarrow> ('d, FileStat) session_comp" where
  "FileOperations_GetStat N E szFileName iDriveID =
     andThen (path_on N szFileName iDriveID) (\<lambda>(szFile, iDriveID).
     andThen (GetByID N iDriveID True) (\<lambda>d s.
       andThen (on_drive (Id d) (Directory_ReadDirEntryInfo N E (start_dir iDriveID (Id d) s) szFile)) (\<lambda>r.
       ret (FileStat_of (DriveNumber d) (slot_node N r))) s))"

definition FileOperations_GetStatFD :: "node_lib \<Rightarrow> 'd fs_env \<Rightarrow> int \<Rightarrow> ('d, FileStat) session_comp" where
  "FileOperations_GetStatFD N E iFD =
     andThen (real_fd iFD) (\<lambda>r s. case file_at r s of
         None \<Rightarrow> throw (Dir Undefined) s
       | Some fd \<Rightarrow> FileOperations_GetStat N E (fileName fd) (driveID fd) s)"

definition FileOperations_SyncPWD :: "node_lib \<Rightarrow> 'd fs_env \<Rightarrow> ('d, unit) session_comp" where
  "FileOperations_SyncPWD N E = Directory_SyncPWD N E"

definition FileOperations_ChangeDir :: "node_lib \<Rightarrow> 'd fs_env \<Rightarrow> string \<Rightarrow> ('d, unit) session_comp" where
  "FileOperations_ChangeDir N E szFileName =
     andThen (parse_path N szFileName) (\<lambda>(szFile, iDriveID). Directory_Change N E szFile iDriveID)"

definition FileOperations_GetDirectoryContent :: "node_lib \<Rightarrow> 'd fs_env \<Rightarrow> string \<Rightarrow> ('d, int \<times> Node list) session_comp" where
  "FileOperations_GetDirectoryContent N E szPathAddress =
     andThen (parse_path N szPathAddress) (\<lambda>(szPath, iDriveID). Directory_GetDirectoryContent N E szPath iDriveID)"

definition FileOperations_FileAccess :: "node_lib \<Rightarrow> 'd fs_env \<Rightarrow> string \<Rightarrow> int \<Rightarrow> u8 \<Rightarrow> ('d, bool) session_comp" where
  "FileOperations_FileAccess N E szFileName iDriveID m =
     catching (andThen (path_on N szFileName iDriveID) (\<lambda>(szFile, iDriveID).
       andThen (Directory_GetDirEntry N E szFile iDriveID) (\<lambda>dirEntry s.
       ret (IsFile N dirEntry \<and> hasFilePermission N (curProc s) dirEntry m) s))) False"

definition FileOperations_Dup2 :: "int \<Rightarrow> int \<Rightarrow> ('d, unit) session_comp" where
  "FileOperations_Dup2 oldFD newFD s = on_iods (iod_dup2 (procId (curProc s)) oldFD newFD) s"

section \<open>Reading through a buffer\<close>

record BufferedReader =
  brFile :: "int \<times> int"      \<comment> \<open>\<open>_file\<close>\<close>
  m_uiOffSet :: u32
  m_szBuffer :: "u8 list"     \<comment> \<open>its length is \<open>m_uiBufferSize\<close>\<close>

definition OVERFLOW_ADJUST :: u32 where "OVERFLOW_ADJUST = 2"

definition m_uiBufferSize :: "BufferedReader \<Rightarrow> u32" where
  "m_uiBufferSize b = word_of_nat (length (m_szBuffer b))"

definition BufferedReader_new ::
    "node_lib \<Rightarrow> 'd fs_env \<Rightarrow> stream_lib \<Rightarrow> sector \<Rightarrow> u32 \<Rightarrow> string \<Rightarrow> u32 \<Rightarrow> u32 \<Rightarrow> ('d, BufferedReader) session_comp" where
  "BufferedReader_new N E Q junk now szFileName uiOffSet uiBufferSize =
     andThen (FileOperations_Open N E junk now szFileName (O_RDONLY N)) (\<lambda>fd s.
       let r = (procId (curProc s), fd)
       in case andThen (desc_seek r SEEK_SET uiOffSet) (\<lambda>_. desc_read N E Q now r uiBufferSize) s of
            (Inl e, t) \<Rightarrow> if is_exception e then andThen (FileOperations_Close fd) (\<lambda>_. throw e) t else (Inl e, t)
          | (Inr bs, t) \<Rightarrow> ret \<lparr>brFile = r, m_uiOffSet = uiOffSet, m_szBuffer = bs\<rparr> t)"

definition BufferedReader_delete :: "BufferedReader \<Rightarrow> ('d, bool) session_comp" where
  "BufferedReader_delete b = FileOperations_Close (snd (brFile b))"

definition BufferedReader_Seek :: "BufferedReader \<Rightarrow> u32 \<Rightarrow> ('d, unit) session_comp" where
  "BufferedReader_Seek b uiOffSet = desc_seek (brFile b) SEEK_SET uiOffSet"

text \<open>A copy of \<open>n\<close> bytes from position \<open>k\<close> of the buffer.\<close>

definition from_buffer :: "BufferedReader \<Rightarrow> u32 \<Rightarrow> u32 \<Rightarrow> ('s, session_error, u8 list) comp" where
  "from_buffer b k n s =
     (if unat k + unat n \<le> length (m_szBuffer b) then ret (take (unat n) (drop (unat k) (m_szBuffer b))) s else throw (Dir Undefined) s)"

text \<open>Where a request lies relative to the buffer: inside, apart, over its end, over its start, around it.\<close>

datatype reader_case = Buffered | UnBuffered | OverEnd | OverStart | Around | NoCase

definition reader_case_of :: "u32 \<Rightarrow> u32 \<Rightarrow> u32 \<Rightarrow> u32 \<Rightarrow> reader_case" where
  "reader_case_of start bsize cur iLen =
     (if cur \<ge> start \<and> cur + iLen \<le> start + bsize then Buffered
      else if cur + iLen < start \<or> cur > start + bsize then UnBuffered
      else if cur \<ge> start \<and> cur \<le> start + bsize - OVERFLOW_ADJUST \<and> cur + iLen > start + bsize then OverEnd
      else if cur + iLen \<ge> start \<and> cur + iLen \<le> start + bsize \<and> cur < start then OverStart
      else if cur + iLen > start + bsize \<and> cur < start then Around
      else NoCase)"

text \<open>A read of fewer bytes than asked for leaves a gap before what is copied behind it.\<close>

definition no_gap :: "u8 list \<Rightarrow> u32 \<Rightarrow> 'a \<Rightarrow> ('s, session_error, 'a) comp" where
  "no_gap bs n x = (if length bs = unat n then ret x else throw (Dir Undefined))"

text \<open>\<open>DoRead\<close> uses its file through \<open>getOffset\<close>, \<open>read\<close> and \<open>seek\<close> only.\<close>

definition DoRead ::
    "('s, session_error, u32) comp \<Rightarrow> (u32 \<Rightarrow> ('s, session_error, u8 list) comp) \<Rightarrow> (u32 \<Rightarrow> ('s, session_error, unit) comp) \<Rightarrow>
     BufferedReader \<Rightarrow> u32 \<Rightarrow> ('s, session_error, u8 list) comp" where
  "DoRead foffset fread fseek b iLen =
     andThen foffset (\<lambda>cur.
       let start = m_uiOffSet b; bsize = m_uiBufferSize b
       in case reader_case_of start bsize cur iLen of
            Buffered \<Rightarrow> from_buffer b (cur - start) iLen
          | UnBuffered \<Rightarrow> fread iLen
          | OverEnd \<Rightarrow> let n = bsize - (cur - start) - OVERFLOW_ADJUST in
              andThen (from_buffer b (cur - start) n) (\<lambda>bs.
              andThen (fseek (cur + n)) (\<lambda>_.
              andThen (fread (iLen - n)) (\<lambda>more. ret (bs @ more))))
          | OverStart \<Rightarrow> let n = start - cur in
              andThen (fread n) (\<lambda>bs.
              andThen (from_buffer b 0 (iLen - n)) (\<lambda>more. no_gap bs n (bs @ more)))
          | Around \<Rightarrow> let n = start - cur; m = bsize - OVERFLOW_ADJUST in
              andThen (fread n) (\<lambda>bs.
              andThen (from_buffer b 0 m) (\<lambda>more. let k = word_of_nat (length bs) + m in
              andThen (fseek (cur + k)) (\<lambda>_.
              andThen (fread (iLen - k)) (\<lambda>rest. no_gap bs n (bs @ more @ rest)))))
          | NoCase \<Rightarrow> throw ReaderBug)"

definition BufferedReader_Read ::
    "node_lib \<Rightarrow> 'd fs_env \<Rightarrow> stream_lib \<Rightarrow> u32 \<Rightarrow> BufferedReader \<Rightarrow> u32 \<Rightarrow> ('d, u8 list) session_comp" where
  "BufferedReader_Read N E Q now b =
     DoRead (FileOperations_GetOffset (snd (brFile b))) (desc_read N E Q now (brFile b)) (desc_seek (brFile b) SEEK_SET) b"

section \<open>The first drives\<close>

definition MountManager_GetBootMountDrive :: "DEVICE_TYPE \<Rightarrow> u8 \<Rightarrow> string" where
  "MountManager_GetBootMountDrive bBootDevice bBootPartitionID =
     (let part = (\<lambda>c. char_of ((of_char c + unat bBootPartitionID) mod 256 :: nat))
      in case bBootDevice of
           DEV_FLOPPY \<Rightarrow> ''floppya''
         | DEV_ATA_IDE \<Rightarrow> ''hdd'' @ [part CHR ''a'']
         | DEV_SCSI_USB_DISK \<Rightarrow> ''usd'' @ [part CHR ''a'']
         | _ \<Rightarrow> ''floppya'')"

definition MountManager_Initialize :: "node_lib \<Rightarrow> DEVICE_TYPE \<Rightarrow> u8 \<Rightarrow> 'd session \<Rightarrow> 'd session" where
  "MountManager_Initialize N bBootDevice bBootPartitionID s =
     (let t = s\<lparr>bInitStatus := False, szRootDriveName := MountManager_GetBootMountDrive bBootDevice bBootPartitionID\<rparr>
      in case GetByDriveName (szRootDriveName t) False t of
           None \<Rightarrow> t\<lparr>bInitStatus := False, iRootDriveID := CURRENT_DRIVE N\<rparr>
         | Some d \<Rightarrow> t)"

text \<open>The name in the list of mounts without its last byte; an empty file writes before the buffer.\<close>

definition MountManager_GetHomeMountDrive :: "node_lib \<Rightarrow> 'd fs_env \<Rightarrow> stream_lib \<Rightarrow> sector \<Rightarrow> u32 \<Rightarrow> u32 \<Rightarrow> ('d, string option) session_comp" where
  "MountManager_GetHomeMountDrive N E Q junk now uiSize =
     andThen (catching (andThen (FileOperations_Open N E junk now ''ROOT@/.mount.lst'' (O_RDONLY N)) (\<lambda>fd s.
       andThen (desc_read N E Q now (procId (curProc s), fd) uiSize) (\<lambda>bs. ret (Some bs)) s)) None) (\<lambda>x.
     case x of None \<Rightarrow> ret None
     | Some bs \<Rightarrow> if bs = [] then throw (Dir Undefined)
         else ret (Some (map (\<lambda>b. char_of (unat b)) (takeWhile (\<lambda>b. b \<noteq> 0) (butlast bs)))))"

definition MountManager_MountDrive :: "node_lib \<Rightarrow> 'd fs_env \<Rightarrow> string \<Rightarrow> ('d, unit) session_comp" where
  "MountManager_MountDrive N E szDriveName s =
     (case GetByDriveName szDriveName False s of
        None \<Rightarrow> throw (Dir DriveNotFound) s
      | Some d \<Rightarrow>
          andThen (Mount N E (Id d)) (\<lambda>_.
          andThen (modify (\<lambda>s. case drive_of (Id d) s of None \<Rightarrow> s
            | Some d \<Rightarrow> s\<lparr>curProc := (curProc s)\<lparr>procDriveID := Id d, procPWD := FSpwd (volume d)\<rparr>\<rparr>)) (\<lambda>_.
          FileOperations_ChangeDir N E FS_ROOT_DIR)) s)"

definition MountManager_MountDrives :: "node_lib \<Rightarrow> 'd fs_env \<Rightarrow> stream_lib \<Rightarrow> sector \<Rightarrow> u32 \<Rightarrow> ('d, unit) session_comp" where
  "MountManager_MountDrives N E Q junk now s =
     (if \<not> bInitStatus s then ret () s
      else andThen (MountManager_MountDrive N E (szRootDriveName s)) (\<lambda>_.
           andThen (MountManager_GetHomeMountDrive N E Q junk now 32) (\<lambda>h.
           case h of None \<Rightarrow> ret ()
           | Some szHomeDriveName \<Rightarrow>
               if szRootDriveName s \<noteq> szHomeDriveName then MountManager_MountDrive N E szHomeDriveName else ret ())) s)"

definition MountManager_SetRootDrive :: "'d DiskDrive \<Rightarrow> 'd session \<Rightarrow> 'd session" where
  "MountManager_SetRootDrive d s = s\<lparr>szRootDriveName := DriveName d, iRootDriveID := Id d\<rparr>"

end
