(* ===== verification/FileSession.thy ===== *)
theory FileSession
  imports FileOps FileTheorems IoProperties
begin

text \<open>
  What an open file promises to its users: reads return the bytes of the file at the offset, writes inside the file put
  the data there, and both move the offset. The promises are derived from the contract of volumes (\<open>bulk_volume\<close>), are the
  contract \<open>file_contents\<close> of \<open>BufferedReader\<close> and \<open>FileOperations_ReadLine\<close>, and hold on the drives of the kernel.
\<close>

section \<open>Paths that stay valid\<close>

lemma finds_mono: "finds N nx c va d xs t q \<Longrightarrow> (\<And>x. va x \<Longrightarrow> vb x) \<Longrightarrow> finds N nx c vb d xs t q"
  by (simp add: finds_def)

lemma leads_mono: "leads N nx c va d ts p \<Longrightarrow> (\<And>x. va x \<Longrightarrow> vb x) \<Longrightarrow> leads N nx c vb d ts p"
proof (induction rule: leads.induct)
  case (leads_last d xs t q)
  then show ?case by (blast intro: leads.leads_last finds_mono)
next
  case (leads_step d xs t q u ts p)
  then show ?case by (blast intro: leads.leads_step finds_mono)
qed

lemma finds_valid: "finds N nx c va d xs t q \<Longrightarrow> va (fst q) \<and> snd q < 7"
  by (auto simp: finds_def find_Some_iff dest!: dir_slots_mem[OF subsetD[OF live_prefix_subset nth_mem]])

lemma leads_valid: "leads N nx c va d ts p \<Longrightarrow> va (fst p) \<and> snd p < 7"
  by (induction rule: leads.induct) (auto dest: finds_valid)

text \<open>Entries whose name and attribute are kept are found as before.\<close>

definition same_name :: "Node \<Rightarrow> Node \<Rightarrow> bool" where
  "same_name n m \<longleftrightarrow> nodeName n = nodeName m \<and> attribute n = attribute m"

lemma live_prefix_cong: "(\<And>p. p \<in> set ps \<Longrightarrow> P p = Q p) \<Longrightarrow> live_prefix P n ps = live_prefix Q n ps"
  by (induction ps arbitrary: n) auto

lemma finds_same_names:
  assumes "finds N nx c va d xs t q"
    and "\<And>x k. va x \<Longrightarrow> k < 7 \<Longrightarrow> same_name (get_node N (c' x) k) (get_node N (c x) k)"
  shows "finds N nx c' va d xs t q"
proof -
  have v: "\<forall>x \<in> set xs. va x" using assms(1) by (simp add: finds_def)
  have l: "live N c' p = live N c p" "entry_named N c' t p = entry_named N c t p" if "p \<in> set (dir_slots xs)" for p
    using assms(2) v dir_slots_mem[OF that] by (auto simp: live_def entry_named_def same_name_def IsDeleted_def)
  have "searched N c' n (dir_slots xs) = searched N c n (dir_slots xs)" for n
    using l(1) by (intro live_prefix_cong) blast
  moreover have "find (entry_named N c' t) ys = find (entry_named N c t) ys" if "set ys \<subseteq> set (dir_slots xs)" for ys
    using that l(2) by (induction ys) auto
  ultimately show ?thesis using assms(1) live_prefix_subset[of _ _ "dir_slots xs"] by (simp add: finds_def)
qed

text \<open>
  Changing the file at the end of a path, but not its name and attribute, and sectors that are not among those of the
  directories.
\<close>

lemma leads_file_changed:
  assumes "leads N nx c va d ts p" "\<not> IsDirectory N (get_node N (c (fst p)) (snd p))"
    and "\<And>x k. va x \<Longrightarrow> k < 7 \<Longrightarrow> (x, k) \<noteq> p \<Longrightarrow> get_node N (c' x) k = get_node N (c x) k"
    and "same_name (get_node N (c' (fst p)) (snd p)) (get_node N (c (fst p)) (snd p))"
  shows "leads N nx c' va d ts p"
  using assms
proof (induction rule: leads.induct)
  case (leads_last d xs t q)
  have "same_name (get_node N (c' x) k) (get_node N (c x) k)" if "va x" "k < 7" for x k
    using leads_last.prems(2)[OF that] leads_last.prems(3) by (cases "(x, k) = q") (auto simp: same_name_def)
  then show ?case using finds_same_names[OF leads_last(1)] by (blast intro: leads.leads_last)
next
  case (leads_step d xs t q u ts p)
  have "same_name (get_node N (c' x) k) (get_node N (c x) k)" if "va x" "k < 7" for x k
    using leads_step.prems(2)[OF that] leads_step.prems(3) by (cases "(x, k) = p") (auto simp: same_name_def)
  then have f: "finds N nx c' va d xs t q" using finds_same_names[OF leads_step(1)] by blast
  have "IsDirectory N (get_node N (c (fst q)) (snd q))" using leads_step(2) by (cases rule: leads.cases) (auto simp: finds_def)
  then have "q \<noteq> p" using leads_step.prems(1) by blast
  then have "get_node N (c' (fst q)) (snd q) = get_node N (c (fst q)) (snd q)"
    using leads_step.prems(2)[of "fst q" "snd q"] finds_valid[OF leads_step(1)] by simp
  then have "leads N nx c' va (get_node N (c' (fst q)) (snd q)) (u # ts) p" using leads_step.IH[OF leads_step.prems] by metis
  then show ?case by (rule leads.leads_step[OF f])
qed

section \<open>A file on a volume\<close>

text \<open>
  The path \<open>path\<close> leads from the entry \<open>d\<close> to the slot \<open>p\<close> of the file \<open>f\<close>, whose sectors \<open>xs\<close> are not sectors of the
  directories on the way.
\<close>

definition file_view ::
    "node_lib \<Rightarrow> (u32 \<Rightarrow> u32) \<Rightarrow> (u32 \<Rightarrow> sector) \<Rightarrow> (u32 \<Rightarrow> bool) \<Rightarrow> Node \<Rightarrow> string \<Rightarrow> u32 \<times> nat \<Rightarrow> u32 list \<Rightarrow> Node \<Rightarrow> bool" where
  "file_view N nx c va d path p xs f \<longleftrightarrow>
     path \<noteq> [] \<and> path \<noteq> FS_ROOT_DIR \<and> length (path_tokens path) \<le> 10 \<and> (\<forall>t \<in> set (path_tokens path). length t \<le> 32) \<and>
     leads N nx c (\<lambda>x. va x \<and> x \<notin> set xs) d (path_tokens path) p \<and> get_node N (c (fst p)) (snd p) = f \<and>
     \<not> IsDirectory N f \<and> name_fits N (nodeName f) \<and> chain nx (startSectorID f) xs \<and> distinct xs \<and> (\<forall>x \<in> set xs. va x) \<and>
     unat (nodeSize f) \<le> 512 * length xs \<and> 512 * length xs < 2 ^ 31"

lemma file_viewD:
  assumes "file_view N nx c va d path p xs f"
  shows "path \<noteq> []" "path \<noteq> FS_ROOT_DIR" "length (path_tokens path) \<le> 10" "\<forall>t \<in> set (path_tokens path). length t \<le> 32"
    "leads N nx c (\<lambda>x. va x \<and> x \<notin> set xs) d (path_tokens path) p" "leads N nx c va d (path_tokens path) p"
    "get_node N (c (fst p)) (snd p) = f" "\<not> IsDirectory N f" "name_fits N (nodeName f)" "chain nx (startSectorID f) xs" "distinct xs"
    "\<forall>x \<in> set xs. va x" "unat (nodeSize f) \<le> 512 * length xs" "512 * length xs < 2 ^ 31" "va (fst p)" "fst p \<notin> set xs" "snd p < 7"
proof -
  note v = assms[unfolded file_view_def]
  show l: "leads N nx c (\<lambda>x. va x \<and> x \<notin> set xs) d (path_tokens path) p" using v by blast
  then show "leads N nx c va d (path_tokens path) p" by (rule leads_mono) blast
  show "va (fst p)" "fst p \<notin> set xs" "snd p < 7" using leads_valid[OF l] by blast+
  show "get_node N (c (fst p)) (snd p) = f" using v by simp
qed (use assms in \<open>simp_all add: file_view_def\<close>)

definition file_bytes :: "(u32 \<Rightarrow> sector) \<Rightarrow> u32 list \<Rightarrow> Node \<Rightarrow> u8 list" where
  "file_bytes c xs f = take (unat (nodeSize f)) (bytes c xs)"

lemma stamp_frame [simp]: "nodeName (stamp now b n) = nodeName n" "attribute (stamp now b n) = attribute n"
  "startSectorID (stamp now b n) = startSectorID n" "nodeSize (stamp now b n) = nodeSize n" "IsDirectory N (stamp now b n) = IsDirectory N n"
  by (simp_all add: stamp_def Let_def IsDirectory_def)

lemma file_view_stamp:
  assumes v: "file_view N nx c va d path p xs f" and N: "node_lib_ok N" and l: "\<And>x. length (c x) = 512"
  shows "file_view N nx (c(fst p := put_node N (c (fst p)) (snd p) (stamp now b f))) va d path p xs (stamp now b f)"
    "file_bytes (c(fst p := put_node N (c (fst p)) (snd p) (stamp now b f))) xs (stamp now b f) = file_bytes c xs f"
proof -
  let ?f = "stamp now b f"
  let ?c = "c(fst p := put_node N (c (fst p)) (snd p) ?f)"
  note f = file_viewD[OF v]
  have g: "get_node N (?c (fst p)) k = (if k = snd p then ?f else get_node N (c (fst p)) k)" if "k < 7" for k
    using node_lib_okD(2)[OF N l f(17) that, of ?f] f(9) by simp
  have "leads N nx ?c (\<lambda>x. va x \<and> x \<notin> set xs) d (path_tokens path) p"
  proof (rule leads_file_changed[OF f(5)])
    show "\<not> IsDirectory N (get_node N (c (fst p)) (snd p))" unfolding f(7) by (rule f(8))
    show "get_node N (?c x) k = get_node N (c x) k" if "va x \<and> x \<notin> set xs" "k < 7" "(x, k) \<noteq> p" for x k
    proof (cases "x = fst p")
      case True
      then show ?thesis using g[OF that(2)] that(3) by (auto simp: prod_eq_iff)
    qed simp
    show "same_name (get_node N (?c (fst p)) (snd p)) (get_node N (c (fst p)) (snd p))"
      unfolding f(7) using g[OF f(17)] by (simp add: same_name_def)
  qed
  then show "file_view N nx ?c va d path p xs ?f"
    using f g[OF f(17)] by (simp add: file_view_def)
  have "bytes ?c xs = bytes c xs" using f(16) by (auto simp: bytes_def intro!: arg_cong[of _ _ concat] map_cong)
  then show "file_bytes ?c xs ?f = file_bytes c xs f" by (simp add: file_bytes_def)
qed

lemma file_view_write:
  assumes v: "file_view N nx c va d path p xs f" and l: "\<And>x. length (c x) = 512" "\<And>x. length (c' x) = 512"
    and w: "placed (off + length data < unat (nodeSize f)) off data xs c c'" "off + length data \<le> unat (nodeSize f)"
  shows "file_view N nx c' va d path p xs f"
    "file_bytes c' xs f = take off (file_bytes c xs f) @ data @ drop (off + length data) (file_bytes c xs f)"
proof -
  note f = file_viewD[OF v]
  have out: "c' x = c x" if "x \<notin> set xs" for x using w(1) that by (simp add: placed_def)
  have "leads N nx c' (\<lambda>x. va x \<and> x \<notin> set xs) d (path_tokens path) p"
    by (rule leads_file_changed[OF f(5)]) (use f(7,8,16) out in \<open>simp_all add: same_name_def\<close>)
  then show "file_view N nx c' va d path p xs f" using f out[OF f(16)] by (simp add: file_view_def)
  let ?n = "unat (nodeSize f)" and ?e = "off + length data"
  note n = f(13)
  have bl: "length (bytes c xs) = 512 * length xs" "length (bytes c' xs) = 512 * length xs" using l by (simp_all add: length_bytes)
  have hd: "take ?e (bytes c' xs) = take off (bytes c xs) @ data" using w(1) by (simp add: placed_def)
  have tl: "take (?n - ?e) (drop ?e (bytes c' xs)) = take (?n - ?e) (drop ?e (bytes c xs))"
    using w by (cases "?e < ?n") (simp_all add: placed_def)
  have "take ?n (bytes c' xs) = take ?e (bytes c' xs) @ take (?n - ?e) (drop ?e (bytes c' xs))"
    using w(2) by (metis le_add_diff_inverse take_add)
  then show "file_bytes c' xs f = take off (file_bytes c xs f) @ data @ drop ?e (file_bytes c xs f)"
    using hd tl w(2) by (simp add: file_bytes_def drop_take min_absorb1)
qed

section \<open>What reading and writing keep of a descriptor\<close>

definition keeps_file :: "FileDescriptor \<Rightarrow> 'd fstate \<Rightarrow> bool" where
  "keeps_file fd s \<longleftrightarrow> (desc s)\<lparr>lastReadSectorIndex := 0, lastReadSectorNo := 0\<rparr> = fd\<lparr>lastReadSectorIndex := 0, lastReadSectorNo := 0\<rparr>"

lemma keeps_file_on_vol [inv_intros]: "keeps (keeps_file fd) (on_vol m)"
  by (auto simp: keeps_def keeps_file_def on_vol_def split: prod.splits)

lemma keeps_file_SetLast [inv_intros]: "keeps (keeps_file fd) (Directory_SetLastReadSectorDetails i x)"
  by (auto simp: keeps_def SetLast_run keeps_file_def)

lemma keeps_case_prod [inv_intros]: "(\<And>x y. keeps I (f x y)) \<Longrightarrow> keeps I (case z of (x, y) \<Rightarrow> f x y)"
  by (cases z) simp

lemma keeps_case_prod_app [inv_intros]: "(\<And>x y. keeps I (f x y)) \<Longrightarrow> keeps I (\<lambda>s. case z of (x, y) \<Rightarrow> f x y s)"
  by (cases z) simp

lemma keeps_Let [inv_intros]: "keeps I (f x) \<Longrightarrow> keeps I (let y = x in f y)"
  by simp

lemma keeps_skip [inv_intros]: "keeps (keeps_file fd) (skip_sectors E n cur)"
  by (induction n arbitrary: cur) (auto intro!: inv_intros)

lemma keeps_run [inv_intros]: "keeps (keeps_file fd) (sector_run E n pos rem cnt cur)"
  by (induction n arbitrary: pos rem cnt cur) (auto simp: Let_def intro!: inv_intros)

lemma keeps_rounds [inv_intros]: "keeps (keeps_file fd) (read_rounds E n pos rem i x cnt cur)"
  by (induction n arbitrary: pos rem i x cnt cur) (auto simp: Let_def intro!: inv_intros)

text \<open>A computation that looks at its descriptor before it starts.\<close>

lemma keeps_descI:
  assumes "\<And>d. keeps I (g d)" "\<And>s. m s = g (desc s) s"
  shows "keeps I m"
proof -
  have "I (snd (m s))" if "I s" for s unfolding assms(2) by (rule keepsD[OF assms(1) that])
  then show ?thesis by (simp only: keeps_def) blast
qed

lemma keeps_FileRead: "keeps (keeps_file fd) (Directory_FileRead N E cwd n)"
  by (rule keeps_descI[rotated], rule Directory_FileRead_def[unfolded Let_def], intro inv_intros)

lemma keeps_buffered [inv_intros]: "keeps (keeps_file fd) (Directory_BufferedWrite E x b w)" "keeps (keeps_file fd) (buffer_flush E w)"
  unfolding Directory_BufferedWrite_def buffer_flush_def Let_def by (intro inv_intros)+

lemma keeps_seek_sectors [inv_intros]: "keeps (keeps_file fd) (seek_sectors E n i prev cur)"
  by (induction n arbitrary: i prev cur) (auto intro!: inv_intros)

lemma keeps_append_sectors [inv_intros]: "keeps (keeps_file fd) (append_sectors E n f i prev)"
  by (induction n arbitrary: f i prev) (auto simp: append_sector_def intro!: inv_intros)

lemma keeps_write_rounds [inv_intros]: "keeps (keeps_file fd) (write_rounds E inside rem b prev cur al w)"
proof (induction E inside rem b prev cur al w rule: write_rounds.induct)
  case (1 E inside rem b prev cur al w)
  show ?case by (subst write_rounds.simps) (auto intro!: inv_intros 1)
qed

lemma keeps_write_from [inv_intros]: "keeps (keeps_file fd) (write_from E inside pos data b prev cur)"
  unfolding write_from_def Let_def by (intro inv_intros)

lemma keeps_ActualFileWrite [inv_intros]: "keeps (keeps_file fd) (Directory_ActualFileWrite E junk data f)"
  by (rule keeps_descI[rotated], rule Directory_ActualFileWrite_def[unfolded Let_def], intro inv_intros)

lemma keeps_FileWrite: "keeps (keeps_file fd) (Directory_FileWrite N E junk cwd data)"
  by (rule keeps_descI[rotated], rule Directory_FileWrite_def[unfolded Let_def], intro inv_intros)

lemma keeps_fileD:
  assumes "keeps (keeps_file (desc s)) m" "m s = (r, t)"
  shows "fileName (desc t) = fileName (desc s)" "offset (desc t) = offset (desc s)" "driveID (desc t) = driveID (desc s)"
    "fdMode (desc t) = fdMode (desc s)" "fileSize (desc t) = fileSize (desc s)"
proof -
  have "keeps_file (desc s) s" by (simp add: keeps_file_def)
  then have "keeps_file (desc s) t" using keepsD[OF assms(1)] assms(2) by (metis snd_conv)
  then have "(desc t)\<lparr>lastReadSectorIndex := 0, lastReadSectorNo := 0\<rparr> = (desc s)\<lparr>lastReadSectorIndex := 0, lastReadSectorNo := 0\<rparr>"
    by (simp add: keeps_file_def)
  then show "fileName (desc t) = fileName (desc s)" "offset (desc t) = offset (desc s)" "driveID (desc t) = driveID (desc s)"
    "fdMode (desc t) = fdMode (desc s)" "fileSize (desc t) = fileSize (desc s)"
    by (cases "desc t"; cases "desc s"; simp)+
qed

section \<open>Reading, writing and stamping a file on a volume\<close>

definition on_view ::
    "node_lib \<Rightarrow> ('d volume \<Rightarrow> u32 \<Rightarrow> u32) \<Rightarrow> ('d volume \<Rightarrow> u32 \<Rightarrow> sector) \<Rightarrow> ('d volume \<Rightarrow> u32 \<Rightarrow> bool) \<Rightarrow> string \<Rightarrow> u32 list \<Rightarrow>
     'd volume \<Rightarrow> u8 list \<Rightarrow> bool" where
  "on_view N nxt content valid path xs v F \<longleftrightarrow>
     path \<noteq> [] \<and> hd path = CHR ''/'' \<and>
     (\<exists>p f. file_view N (nxt v) (content v) (valid v) (DirEntry (FSpwd v)) path p xs f \<and> F = file_bytes (content v) xs f)"

lemma take_file: "n \<le> m \<Longrightarrow> take n (drop k (take m ys)) = take (min n (m - k)) (drop k ys)"
  by (simp add: drop_take min_def)

context bulk_volume
begin

lemma view_same: "same v w \<Longrightarrow> on_view N nxt content valid path xs w F = on_view N nxt content valid path xs v F"
  by (simp add: on_view_def same_volume_def)

lemma view_entry:
  assumes "I v" "file_view N (nxt v) (content v) (valid v) (DirEntry (FSpwd v)) path p xs f" "hd path = CHR ''/''"
  obtains w where "Directory_ReadDirEntryInfo N E cwd path v = (Inr (fst p, word_of_nat (snd p), content v (fst p)), w)" "same v w"
    "slot_node N (fst p, word_of_nat (snd p), content v (fst p)) = f" "unat (word_of_nat (snd p) :: u8) = snd p"
proof -
  note f = file_viewD[OF assms(2)]
  have "leads N (nxt v) (content v) (valid v) (DirEntry (if hd path = CHR ''/'' then FSpwd v else cwd)) (path_tokens path) p"
    using f(6) assms(3) by simp
  from ReadDirEntryInfo[OF assms(1) f(1-4) this] obtain w where
    "Directory_ReadDirEntryInfo N E cwd path v = (Inr (fst p, word_of_nat (snd p), content v (fst p)), w)" "same v w" by blast
  moreover have u: "unat (word_of_nat (snd p) :: u8) = snd p" using f(17) by (simp add: unat_of_nat)
  ultimately show ?thesis using that f(7) by (simp add: slot_node_def)
qed

lemma update_time_view:
  assumes "I v" "on_view N nxt content valid path xs v F" "node_lib_ok N"
  shows "\<exists>t. update_time N E now cwd path b v = (Inr (), t) \<and> I t \<and> valid t = valid v \<and> nxt t = nxt v \<and> FSpwd t = FSpwd v \<and>
    on_view N nxt content valid path xs t F"
proof -
  obtain p f where v: "file_view N (nxt v) (content v) (valid v) (DirEntry (FSpwd v)) path p xs f" "F = file_bytes (content v) xs f"
      "hd path = CHR ''/''" using assms(2) by (auto simp: on_view_def)
  note f = file_viewD[OF v(1)]
  obtain w where w: "Directory_ReadDirEntryInfo N E cwd path v = (Inr (fst p, word_of_nat (snd p), content v (fst p)), w)" "same v w"
      "unat (word_of_nat (snd p) :: u8) = snd p"
    using view_entry[OF assms(1) v(1,3)] by metis
  have iw: "I w" "valid w (fst p)" "content w = content v" "nxt w = nxt v" "valid w = valid v" "FSpwd w = FSpwd v"
    using w(2) f(15) by (simp_all add: same_volume_def)
  let ?b = "put_node N (content v (fst p)) (snd p) (stamp now b f)"
  have "length ?b = 512" using node_lib_okD(1)[OF assms(3) content_length[OF assms(1)] f(17) f(17), of "stamp now b f"] f(9) by simp
  from write1_law[OF iw(1,2) this] obtain t where t: "xWrite E (fst p) [?b] w = (Inr (), t)" "I t" "nxt t = nxt v"
      "content t = (content v)(fst p := ?b)" "valid t = valid v" "FSpwd t = FSpwd v" using iw by auto
  have "update_time N E now cwd path b v = (Inr (), t)"
    using w(1,3) t(1) f(7) by (simp add: update_time_def andThen_def)
  moreover have "on_view N nxt content valid path xs t F"
    unfolding on_view_def t(3-6) using file_view_stamp[OF v(1) assms(3) content_length[OF assms(1)], of now b] v(2,3) f(1) by metis
  ultimately show ?thesis using t(2,3,5,6) by blast
qed

lemma read_view:
  assumes "I (vol s)" "on_view N nxt content valid (fileName (desc s)) xs (vol s) F" "on_chain xs (desc s)" "n \<noteq> 0"
  shows "\<exists>t. Directory_FileRead N E cwd n s = (Inr (take (unat n) (drop (unat (offset (desc s))) F)), t) \<and> same (vol s) (vol t) \<and>
    on_chain xs (desc t)"
proof -
  obtain p f where v: "file_view N (nxt (vol s)) (content (vol s)) (valid (vol s)) (DirEntry (FSpwd (vol s))) (fileName (desc s)) p xs f"
      "F = file_bytes (content (vol s)) xs f" "hd (fileName (desc s)) = CHR ''/''" using assms(2) by (auto simp: on_view_def)
  note f = file_viewD[OF v(1)]
  obtain w where w: "Directory_ReadDirEntryInfo N E cwd (fileName (desc s)) (vol s) =
        (Inr (fst p, word_of_nat (snd p), content (vol s) (fst p)), w)" "same (vol s) w"
      "slot_node N (fst p, word_of_nat (snd p), content (vol s) (fst p)) = f"
    using view_entry[OF assms(1) v(1,3)] by metis
  let ?o = "unat (offset (desc s))" and ?z = "unat (nodeSize f)"
  have z: "?z < 2 ^ 31" using f(13,14) by simp
  show ?thesis
  proof (cases "offset (desc s) < nodeSize f")
    case True
    have "min (unat n) (?z - ?o) = (if unat n \<le> ?z - ?o then unat n else ?z - ?o)" by (simp add: min_def)
    moreover have "take (unat n) (drop ?o F) = take (min (unat n) (?z - ?o)) (drop ?o (bytes (content (vol s)) xs))"
      using v(2) by (simp add: file_bytes_def drop_take min.commute)
    ultimately show ?thesis
      using FileRead[OF assms(1) w(1,2), unfolded w(3), OF f(8) f(10) f(12) f(13) assms(3) True z, of n] assms(4) by auto
  next
    case False
    then have "drop ?o F = []" using v(2) by (simp add: file_bytes_def word_le_nat_alt not_less)
    moreover have "Directory_FileRead N E cwd n s = (Inr [], s\<lparr>vol := w\<rparr>)"
      using w(1,3) f(8) False by (simp add: Directory_FileRead_def Let_def on_vol_Inr andThen_InrI not_less)
    ultimately show ?thesis using w(2) assms(3) by auto
  qed
qed

lemma write_view:
  assumes "I (vol s)" "on_view N nxt content valid (fileName (desc s)) xs (vol s) F" "on_chain xs (desc s)" "data \<noteq> []"
    and "unat (offset (desc s)) + length data \<le> length F" "length junk = 512"
  shows "\<exists>t. Directory_FileWrite N E junk cwd data s = (Inr (), t) \<and> I (vol t) \<and> valid (vol t) = valid (vol s) \<and> nxt (vol t) = nxt (vol s) \<and>
    FSpwd (vol t) = FSpwd (vol s) \<and> on_chain xs (desc t) \<and> on_view N nxt content valid (fileName (desc s)) xs (vol t)
      (take (unat (offset (desc s))) F @ data @ drop (unat (offset (desc s)) + length data) F)"
proof -
  obtain p f where v: "file_view N (nxt (vol s)) (content (vol s)) (valid (vol s)) (DirEntry (FSpwd (vol s))) (fileName (desc s)) p xs f"
      "F = file_bytes (content (vol s)) xs f" "hd (fileName (desc s)) = CHR ''/''" using assms(2) by (auto simp: on_view_def)
  note f = file_viewD[OF v(1)]
  obtain w where w: "Directory_ReadDirEntryInfo N E cwd (fileName (desc s)) (vol s) =
        (Inr (fst p, word_of_nat (snd p), content (vol s) (fst p)), w)" "same (vol s) w" "unat (word_of_nat (snd p) :: u8) = snd p"
    using view_entry[OF assms(1) v(1,3)] by metis
  have sw: "I w" "nxt w = nxt (vol s)" "content w = content (vol s)" "valid w = valid (vol s)" "FSpwd w = FSpwd (vol s)"
    using w(2) by (simp_all add: same_volume_def)
  let ?o = "unat (offset (desc s))" and ?z = "unat (nodeSize f)" and ?s = "s\<lparr>vol := w\<rparr>"
  have "length (bytes (content (vol s)) xs) = 512 * length xs" using content_length[OF assms(1)] by (simp add: length_bytes)
  then have lF: "length F = ?z" using v(2) f(13) by (simp add: file_bytes_def)
  have fit: "?o + length data \<le> 512 * length xs" "512 * length xs < 2 ^ 32" using assms(5) lF f(13,14) by simp_all
  obtain t c where t: "Directory_ActualFileWrite E junk data f ?s = (Inr f, t)" "I (vol t)" "nxt (vol t) = nxt (vol s)"
      "valid (vol t) = valid (vol s)" "FSpwd (vol t) = FSpwd (vol s)" "content (vol t) = c" "on_chain xs (desc t)"
      "placed (?o + length data < ?z) ?o data xs (content (vol s)) c"
    using ActualFileWrite[of ?s f xs data junk] sw f(10-12) assms(3,4,6) fit by auto
  have "unat (offset (desc s) + word_of_nat (length data)) = ?o + length data"
    using fit by (simp add: unat_word_ariths unat_of_nat mod_simps)
  then have ne: "\<not> nodeSize f < offset (desc s) + word_of_nat (length data)" using assms(5) lF by (simp add: word_less_nat_alt)
  have "Directory_FileWrite N E junk cwd data s = (Inr (), t)"
    using w(1,3) f(7,8) t(1) ne assms(4) by (simp add: Directory_FileWrite_def Let_def on_vol_Inr andThen_InrI)
  moreover have "on_view N nxt content valid (fileName (desc s)) xs (vol t) (take ?o F @ data @ drop (?o + length data) F)"
    using file_view_write[OF v(1) content_length[OF assms(1)] _ t(8)] content_length[OF t(2)] t(3-6) v(2,3) f(1) assms(5) lF
    unfolding on_view_def by metis
  ultimately show ?thesis using t by blast
qed

end

section \<open>An open file of the process\<close>

definition opened ::
    "node_lib \<Rightarrow> ('d volume \<Rightarrow> bool) \<Rightarrow> ('d volume \<Rightarrow> u32 \<Rightarrow> u32) \<Rightarrow> ('d volume \<Rightarrow> u32 \<Rightarrow> sector) \<Rightarrow> ('d volume \<Rightarrow> u32 \<Rightarrow> bool) \<Rightarrow>
     int \<times> int \<Rightarrow> u8 \<Rightarrow> 'd session \<Rightarrow> u8 list \<Rightarrow> u32 \<Rightarrow> bool" where
  "opened N I nxt content valid r m s F off \<longleftrightarrow>
     fst r = procId (curProc s) \<and>
     (\<exists>fd d xs. file_at r s = Some fd \<and> drive_of (driveID fd) s = Some d \<and> Mounted d \<and>
        driveID fd \<noteq> ROOT_DRIVE N \<and> driveID fd \<noteq> CURRENT_DRIVE N \<and> I (volume d) \<and> on_chain xs fd \<and>
        on_view N nxt content valid (fileName fd) xs (volume d) F \<and> offset fd = off \<and> fdMode fd = m)"

lemma drive_of_Id: "drive_of i s = Some d \<Longrightarrow> Id d = i"
  by (auto simp: drive_of_def find_Some_iff)

lemma drive_of_put [simp]:
  assumes "\<And>d. Id (g d) = Id d"
  shows "drive_of j (put_drive i g s) = (if j = i then map_option g (drive_of i s) else drive_of j s)"
proof -
  have "find (\<lambda>d. Id d = j) (map (\<lambda>d. if Id d = i then g d else d) ds) =
      (if j = i then map_option g (find (\<lambda>d. Id d = i) ds) else find (\<lambda>d. Id d = j) ds)" for ds
    using assms by (induction ds) auto
  then show ?thesis by (simp add: drive_of_def put_drive_def)
qed

lemma put_drive_frame [simp]: "curProc (put_drive i g s) = curProc s" "iods (put_drive i g s) = iods s"
  by (simp_all add: put_drive_def)

lemma file_at_put [simp]: "file_at r (put_drive i g s) = file_at r s"
  by (simp add: file_at_def)

lemma set_file_frame [simp]: "curProc (set_file r fd s) = curProc s" "drive_of i (set_file r fd s) = drive_of i s"
  by (simp_all add: set_file_def drive_of_def split: option.splits)

lemma add_offset_frame: "fileName (add_offset n fd) = fileName fd" "driveID (add_offset n fd) = driveID fd"
  by (simp_all add: add_offset_def)

lemma file_at_set: "file_at r s \<noteq> None \<Longrightarrow> file_at r (set_file r fd s) = Some fd"
  by (auto simp: file_at_def set_file_def split: option.splits)

lemma GetByID_run:
  assumes "i \<noteq> ROOT_DRIVE N" "i \<noteq> CURRENT_DRIVE N" "drive_of i s = Some d" "Mounted d \<or> \<not> b"
  shows "GetByID N i b s = (Inr d, s)"
proof -
  have "find (\<lambda>d. Id d = i \<and> (Mounted d \<or> \<not> b)) ds = Some d" if "find (\<lambda>d. Id d = i) ds = Some d" for ds
    using that assms(4) by (induction ds) (auto split: if_splits)
  then show ?thesis using assms by (simp add: GetByID_def drive_of_def)
qed

lemma drive_and_dir_run:
  assumes "i \<noteq> ROOT_DRIVE N" "i \<noteq> CURRENT_DRIVE N" "drive_of i s = Some d" "Mounted d"
  shows "drive_and_dir N i s = (Inr (i, start_dir i i s), s)"
  using GetByID_run[OF assms(1-3), of True] assms(4) drive_of_Id[OF assms(3)] by (simp add: drive_and_dir_def andThen_def)

lemma on_file_run:
  assumes "file_at r s = Some fd" "drive_of i s = Some d" "m \<lparr>vol = volume d, desc = fd\<rparr> = (Inr x, t)"
  shows "on_file r i m s = (Inr x, set_file r (desc t) (put_drive i (\<lambda>d. d\<lparr>volume := vol t\<rparr>) s))"
  using assms by (simp add: on_file_def lift_error_def)

lemma on_drive_run:
  assumes "drive_of i s = Some d" "m (volume d) = (Inr x, v)"
  shows "on_drive i m s = (Inr x, put_drive i (\<lambda>d. d\<lparr>volume := v\<rparr>) s)"
  using assms by (simp add: on_drive_def lift_error_def)

text \<open>The descriptor of a file is its own real descriptor.\<close>

lemma real_fd_file:
  assumes "file_at r s = Some fd" "fst r = procId (curProc s)"
  shows "real_fd (snd r) s = (Inr r, s)"
proof -
  obtain d where "lookup_fd (iods s) (procId (curProc s)) (snd r) = Some d" "dKind d = FileD fd"
    using assms by (auto simp: file_at_def split: option.splits dkind.splits)
  then have "real_of (iods s) (procId (curProc s)) (snd r) = Some (Inr r)"
    using assms(2) by (subst real_of.simps) (simp add: prod_eq_iff)
  then show ?thesis by (simp add: real_fd_def on_iods_def getRealNonDupped_def lift_error_def)
qed

context bulk_volume
begin

abbreviation opens :: "node_lib \<Rightarrow> int \<times> int \<Rightarrow> u8 \<Rightarrow> 'a session \<Rightarrow> u8 list \<Rightarrow> u32 \<Rightarrow> bool" where
  "opens N \<equiv> opened N I nxt content valid"

lemma UpdateTime_opened:
  assumes "opens N r m s F off" "file_at r s = Some fd" "node_lib_ok N"
  obtains t where "FileOperations_UpdateTime N E now (fileName fd) (driveID fd) b s = (Inr (), t)" "opens N r m t F off" "file_at r t = Some fd"
proof -
  obtain d xs where d: "drive_of (driveID fd) s = Some d" "Mounted d" "driveID fd \<noteq> ROOT_DRIVE N" "driveID fd \<noteq> CURRENT_DRIVE N"
      "I (volume d)" "on_chain xs fd" "on_view N nxt content valid (fileName fd) xs (volume d) F" "offset fd = off" "fdMode fd = m"
      "fst r = procId (curProc s)"
    using assms(1,2) by (auto simp: opened_def)
  let ?cwd = "start_dir (driveID fd) (driveID fd) s"
  obtain v where v: "update_time N E now ?cwd (fileName fd) b (volume d) = (Inr (), v)" "I v"
      "on_view N nxt content valid (fileName fd) xs v F"
    using update_time_view[OF d(5,7) assms(3)] by blast
  let ?t = "put_drive (driveID fd) (\<lambda>d. d\<lparr>volume := v\<rparr>) s"
  have "FileOperations_UpdateTime N E now (fileName fd) (driveID fd) b s = (Inr (), ?t)"
    using drive_and_dir_run[OF d(3,4,1,2)] on_drive_run[where m = "update_time N E now ?cwd (fileName fd) b", OF d(1) v(1)] d(4) by (simp add: FileOperations_UpdateTime_def andThen_def)
  moreover have "opens N r m ?t F off"
    unfolding opened_def using d assms(2) v(2,3) by auto
  ultimately show ?thesis using that assms(2) by simp
qed

lemma advance_opened:
  assumes "opens N r m s F off"
  shows "opens N r m (advance r n s) F (off + n)"
  using assms by (auto simp: opened_def advance_def file_at_set add_offset_def on_chain_def)

lemma on_file_opened:
  assumes o: "opens N r m s F off" "file_at r s = Some fd"
    and run: "\<And>d xs. drive_of (driveID fd) s = Some d \<Longrightarrow> I (volume d) \<Longrightarrow> on_chain xs fd \<Longrightarrow>
        on_view N nxt content valid (fileName fd) xs (volume d) F \<Longrightarrow>
      \<exists>t. c \<lparr>vol = volume d, desc = fd\<rparr> = (Inr x, t) \<and> I (vol t) \<and> on_chain xs (desc t) \<and>
        on_view N nxt content valid (fileName fd) xs (vol t) G"
    and k: "\<And>fd. keeps (keeps_file fd) c"
  obtains t fd' where "on_file r (driveID fd) c s = (Inr x, t)" "opens N r m t G off" "file_at r t = Some fd'"
    "fileName fd' = fileName fd" "driveID fd' = driveID fd"
proof -
  obtain d xs where d: "drive_of (driveID fd) s = Some d" "Mounted d" "driveID fd \<noteq> ROOT_DRIVE N" "driveID fd \<noteq> CURRENT_DRIVE N"
      "I (volume d)" "on_chain xs fd" "on_view N nxt content valid (fileName fd) xs (volume d) F" "offset fd = off" "fdMode fd = m"
      "fst r = procId (curProc s)"
    using o by (auto simp: opened_def)
  obtain t where t: "c \<lparr>vol = volume d, desc = fd\<rparr> = (Inr x, t)" "I (vol t)" "on_chain xs (desc t)"
      "on_view N nxt content valid (fileName fd) xs (vol t) G"
    using run[OF d(1,5,6,7)] by blast
  have same: "fileName (desc t) = fileName fd" "offset (desc t) = off" "driveID (desc t) = driveID fd" "fdMode (desc t) = m"
    using keeps_fileD[OF k t(1)] d(8,9) by simp_all
  let ?t = "set_file r (desc t) (put_drive (driveID fd) (\<lambda>d. d\<lparr>volume := vol t\<rparr>) s)"
  have f: "file_at r ?t = Some (desc t)" using o(2) by (simp add: file_at_set)
  have "opens N r m ?t G off" unfolding opened_def using d t same f by auto
  then show ?thesis using that on_file_run[where m = c, OF o(2) d(1) t(1)] f same by blast
qed

text \<open>The three promises.\<close>

lemma read_opened:
  assumes o: "opens N r m s F off" and N: "node_lib_ok N" and n: "n \<noteq> 0"
  obtains t where "FileDescriptor_read N E now r n s = (Inr (take (unat n) (drop (unat off) F)), t)"
    "opens N r m t F (off + word_of_nat (length (take (unat n) (drop (unat off) F))))"
proof -
  let ?bs = "take (unat n) (drop (unat off) F)"
  obtain fd d where fd: "file_at r s = Some fd" "offset fd = off" "drive_of (driveID fd) s = Some d" "Mounted d"
      "driveID fd \<noteq> ROOT_DRIVE N" "driveID fd \<noteq> CURRENT_DRIVE N" using o by (auto simp: opened_def)
  let ?cwd = "start_dir (driveID fd) (driveID fd) s"
  have run: "\<exists>t. Directory_FileRead N E ?cwd n \<lparr>vol = volume d, desc = fd\<rparr> = (Inr ?bs, t) \<and> I (vol t) \<and> on_chain xs (desc t) \<and>
      on_view N nxt content valid (fileName fd) xs (vol t) F"
    if a: "I (volume d)" "on_chain xs fd" "on_view N nxt content valid (fileName fd) xs (volume d) F" for d xs
  proof -
    obtain t where "Directory_FileRead N E ?cwd n \<lparr>vol = volume d, desc = fd\<rparr> = (Inr ?bs, t)" "same (volume d) (vol t)" "on_chain xs (desc t)"
      using read_view[of "\<lparr>vol = volume d, desc = fd\<rparr>" N xs F n ?cwd] a n fd(2) by auto
    then show ?thesis using a(3) view_same by (metis same_volume_def)
  qed
  obtain t fd' where t: "on_file r (driveID fd) (Directory_FileRead N E ?cwd n) s = (Inr ?bs, t)" "opens N r m t F off"
      "file_at r t = Some fd'" "fileName fd' = fileName fd" "driveID fd' = driveID fd"
    using on_file_opened[OF o fd(1) run keeps_FileRead] by blast
  obtain u where u: "FileOperations_UpdateTime N E now (fileName fd) (driveID fd) DIR_ACCESS_TIME t = (Inr (), u)" "opens N r m u F off"
    using UpdateTime_opened[OF t(2,3) N] t(4,5) by metis
  have "FileDescriptor_read N E now r n s = (Inr ?bs, advance r (word_of_nat (length ?bs)) u)"
    using fd(1) drive_and_dir_run[OF fd(5,6,3,4)] t(1) u(1) by (simp add: FileDescriptor_read_def andThen_def modify_def)
  then show ?thesis using that advance_opened[OF u(2)] by blast
qed

lemma seek_opened:
  assumes "opens N r m s F off" "seek_target k x fd = Inr y" "file_at r s = Some fd"
  obtains t where "FileDescriptor_seek r k x s = (Inr (), t)" "opens N r m t F y"
proof -
  have "FileDescriptor_seek r k x s = (Inr (), set_file r (fd\<lparr>offset := y\<rparr>) s)"
    using assms(2,3) by (simp add: FileDescriptor_seek_def)
  moreover have "opens N r m (set_file r (fd\<lparr>offset := y\<rparr>) s) F y"
    using assms(1,3) by (auto simp: opened_def file_at_set on_chain_def)
  ultimately show ?thesis using that by blast
qed

lemma write_opened:
  assumes o: "opens N r m s F off" and N: "node_lib_ok N"
    and m: "m AND O_WRONLY N \<noteq> 0 \<or> m AND O_RDWR N \<noteq> 0 \<or> m AND O_APPEND N \<noteq> 0"
    and w: "data \<noteq> []" "length data \<le> WRITE_LIMIT" "unat off + length data \<le> length F" "length junk = 512"
  obtains t where "FileDescriptor_write N E junk now r data s = (Inr (length data), t)"
    "opens N r m t (take (unat off) F @ data @ drop (unat off + length data) F) (off + word_of_nat (length data))"
proof -
  let ?G = "take (unat off) F @ data @ drop (unat off + length data) F"
  obtain fd d where fd: "file_at r s = Some fd" "offset fd = off" "drive_of (driveID fd) s = Some d" "Mounted d"
      "driveID fd \<noteq> ROOT_DRIVE N" "driveID fd \<noteq> CURRENT_DRIVE N" "fdMode fd = m" using o by (auto simp: opened_def)
  let ?cwd = "start_dir (driveID fd) (driveID fd) s"
  have run: "\<exists>t. Directory_FileWrite N E junk ?cwd data \<lparr>vol = volume d, desc = fd\<rparr> = (Inr (), t) \<and> I (vol t) \<and> on_chain xs (desc t) \<and>
      on_view N nxt content valid (fileName fd) xs (vol t) ?G"
    if "I (volume d)" "on_chain xs fd" "on_view N nxt content valid (fileName fd) xs (volume d) F" for d xs
    using write_view[of "\<lparr>vol = volume d, desc = fd\<rparr>" N xs F data junk ?cwd] that w fd(2) by auto
  obtain t fd' where t: "on_file r (driveID fd) (Directory_FileWrite N E junk ?cwd data) s = (Inr (), t)" "opens N r m t ?G off"
      "file_at r t = Some fd'" "fileName fd' = fileName fd" "driveID fd' = driveID fd"
    using on_file_opened[OF o fd(1) run keeps_FileWrite] by blast
  let ?t = "advance r (word_of_nat (length data)) t"
  have at: "opens N r m ?t ?G (off + word_of_nat (length data))" by (rule advance_opened[OF t(2)])
  have ft: "file_at r ?t = Some (add_offset (word_of_nat (length data)) fd')" using t(3) by (simp add: advance_def file_at_set)
  have p: "write_portions N E junk ?cwd data r (driveID fd) (length data) s = (Inr (), ?t)"
    by (subst write_portions.simps) (use w(2) t(1) in \<open>simp add: Let_def andThen_def modify_def\<close>)
  obtain u where u: "FileOperations_UpdateTime N E now (fileName fd) (driveID fd) (DIR_ACCESS_TIME OR DIR_MODIFIED_TIME) ?t = (Inr (), u)"
      "opens N r m u ?G (off + word_of_nat (length data))"
    using UpdateTime_opened[OF at ft N] t(4,5) by (metis add_offset_frame)
  have "FileDescriptor_write N E junk now r data s = (Inr (length data), u)"
    using fd(1,7) m drive_and_dir_run[OF fd(5,6,3,4)] p u(1) by (auto simp: FileDescriptor_write_def andThen_def)
  then show ?thesis using that u(2) by blast
qed

end

end
