(* ===== verification/SessionProperties.thy ===== *)
theory SessionProperties
  imports FileSession
begin

text \<open>
  What users of open files rely on: a write is read back, \<open>BufferedReader\<close> reads what the file holds, and lines are
  read one by one, with the cases where the code does otherwise.
\<close>

section \<open>The contract of an open file\<close>


section \<open>Lines\<close>












section \<open>Open files of a drive without cache\<close>







section \<open>A session with an open file\<close>






section \<open>Properties\<close>







end
