(* ===== verification/AddressSpace.thy ===== *)
theory AddressSpace
  imports PageProperties
begin

text \<open>
  The address space of a user process, \<open>process/UserProcess.cpp\<close> and \<open>SchedulableProcess::Common\<close> in
  \<open>process/SchedulableProcess.cpp\<close>: its page directory, the page tables and pages of its image, its stack and its
  libraries, on top of the page manager of \<open>PageMap\<close>.

  The code reaches a physical address through a pointer \<open>address - GLOBAL_DATA_SEGMENT_BASE\<close>; a pointer from which the
  base has not been subtracted reaches the address plus the base. Bytes are the parts of the words of \<open>phys\<close>.
\<close>

section \<open>Constants and words in memory\<close>

definition PROCESS_SPACE_FOR_OS :: nat where "PROCESS_SPACE_FOR_OS = 32"
definition PROCESS_BASE :: u32 where "PROCESS_BASE = 0x8000000"
definition PROCESS_CG_STACK_PAGES :: nat where "PROCESS_CG_STACK_PAGES = 8"
definition NO_OF_PAGES_FOR_STARTUP_ARGS :: nat where "NO_OF_PAGES_FOR_STARTUP_ARGS = 1"
definition PROCESS_STACK_TOP_ADDRESS :: u32 where "PROCESS_STACK_TOP_ADDRESS = (PROCESS_STACK_PDE_ID + 1) * PAGE_SIZE * 1024"
definition MAX_PAGES_PER_PROCESS :: u32 where "MAX_PAGES_PER_PROCESS = 0x400000"

definition GetProcessSizeInPages :: "u32 \<Rightarrow> u32" where
  "GetProcessSizeInPages uiSizeInBytes = (uiSizeInBytes - 1) div PAGE_SIZE + 1"

definition GetPTESizeInPages :: "u32 \<Rightarrow> u32" where
  "GetPTESizeInPages uiSizeInPages = (uiSizeInPages - 1) div 1024 + 1"

definition poke :: "u32 \<Rightarrow> u32 \<Rightarrow> mem_manager \<Rightarrow> mem_manager" where
  "poke a v s = s\<lparr>phys := (phys s)(a := v)\<rparr>"

definition frame :: "nat \<Rightarrow> u32" where "frame uiPageNo = word_of_nat uiPageNo * PAGE_SIZE AND 0xFFFFF000"

definition entry_at :: "u32 \<Rightarrow> nat \<Rightarrow> mem_manager \<Rightarrow> u32" where "entry_at table i s = phys s (table + 4 * word_of_nat i)"

definition set_entry :: "u32 \<Rightarrow> nat \<Rightarrow> u32 \<Rightarrow> mem_manager \<Rightarrow> mem_manager" where
  "set_entry table i v = poke (table + 4 * word_of_nat i) v"

definition modify_mem :: "(mem_manager \<Rightarrow> mem_manager) \<Rightarrow> (mem_manager, mem_fault, unit) comp" where
  "modify_mem f s = (Inr (), f s)"

text \<open>A page table without entries: every one is 2.\<close>

definition clear_table :: "u32 \<Rightarrow> mem_manager \<Rightarrow> mem_manager" where
  "clear_table table = fold (\<lambda>j. set_entry table j 2) [0..<PAGE_TABLE_ENTRIES]"

section \<open>The process\<close>

record ProcessDLLInfo =
  dllId :: int
  rawLoadAddress :: u32
  dllNoOfPages :: u32

definition loadAddressForKernel :: "u32 \<Rightarrow> ProcessDLLInfo \<Rightarrow> u32" where
  "loadAddressForKernel GLOBAL_DATA_SEGMENT_BASE d = rawLoadAddress d - GLOBAL_DATA_SEGMENT_BASE"

definition loadAddressForProcess :: "ProcessDLLInfo \<Rightarrow> u32" where
  "loadAddressForProcess d = rawLoadAddress d - PROCESS_BASE"

definition elfSectionHeaderAddress :: "u32 \<Rightarrow> ProcessDLLInfo \<Rightarrow> u32" where
  "elfSectionHeaderAddress GLOBAL_DATA_SEGMENT_BASE d =
     loadAddressForKernel GLOBAL_DATA_SEGMENT_BASE d + (dllNoOfPages d - 1) * PAGE_SIZE"

record user_process =
  processBase :: u32
  noOfPagesForProcess :: nat
  noOfPagesForPTE :: nat
  noOfPagesForDLLPTE :: nat
  totalNoOfPagesForDLL :: nat
  startPDEForDLL :: nat
  stackPTEAddress :: u32
  CR3_PDBR :: u32
  loadedDLLs :: "string list"
  dllInfoMap :: "(string \<times> ProcessDLLInfo) list"

section \<open>Building an address space\<close>

definition AllocatePDE :: "(mem_manager, mem_fault, u32) comp" where
  "AllocatePDE = andThen AllocatePhysicalPage (\<lambda>p.
     andThen (modify_mem (clear_table (word_of_nat p * PAGE_SIZE))) (\<lambda>_. ret (word_of_nat p * PAGE_SIZE)))"

definition AllocatePTEForStack :: "(mem_manager, mem_fault, u32) comp" where
  "AllocatePTEForStack = andThen AllocatePhysicalPage (\<lambda>p.
     andThen (modify_mem (clear_table (word_of_nat p * PAGE_SIZE))) (\<lambda>_. ret (word_of_nat p * PAGE_SIZE)))"

definition UpdatePDEWithStackPTE :: "u32 \<Rightarrow> u32 \<Rightarrow> mem_manager \<Rightarrow> mem_manager" where
  "UpdatePDEWithStackPTE pdeAddress stackPTE =
     set_entry pdeAddress (unat PROCESS_STACK_PDE_ID) (stackPTE AND 0xFFFFF000 OR 7)"

text \<open>Directory entries and positions in the tables for the pages of the image.\<close>

definition pdeBase :: "u32 \<Rightarrow> nat" where "pdeBase base = unat base div 4096 div 1024"
definition pageBase :: "u32 \<Rightarrow> nat" where "pageBase base = unat base div 4096 mod 1024"

definition image_pde :: "u32 \<Rightarrow> nat \<Rightarrow> nat" where
  "image_pde base i = (pageBase base + i) div PAGE_TABLE_ENTRIES + pdeBase base + PROCESS_SPACE_FOR_OS"

definition image_pte :: "u32 \<Rightarrow> nat \<Rightarrow> nat" where "image_pte base i = (pageBase base + i) mod PAGE_TABLE_ENTRIES"

definition table_slot :: "u32 \<Rightarrow> nat \<Rightarrow> nat" where
  "table_slot base i = (if i < PROCESS_SPACE_FOR_OS then i else i + pdeBase base)"

definition table_of :: "u32 \<Rightarrow> nat \<Rightarrow> mem_manager \<Rightarrow> u32" where "table_of c i s = entry_at c i s AND 0xFFFFF000"

fun pte_loop :: "u32 \<Rightarrow> u32 \<Rightarrow> nat \<Rightarrow> nat \<Rightarrow> (mem_manager, mem_fault, unit) comp" where
  "pte_loop c base i 0 = ret ()"
| "pte_loop c base i (Suc n) =
     andThen AllocatePhysicalPage (\<lambda>p.
     andThen (modify_mem (clear_table (word_of_nat p * PAGE_SIZE))) (\<lambda>_.
     andThen (modify_mem (set_entry c (table_slot base i) (frame p OR 7))) (\<lambda>_.
     pte_loop c base (Suc i) n)))"

text \<open>The first directory entry for libraries is behind the last one of the image.\<close>

definition AllocatePTE :: "u32 \<Rightarrow> user_process \<Rightarrow> (mem_manager, mem_fault, user_process) comp" where
  "AllocatePTE uiPDEAddress u =
     andThen (pte_loop uiPDEAddress (processBase u) 0 (noOfPagesForPTE u)) (\<lambda>_.
     andThen AllocatePTEForStack (\<lambda>st.
     ret (u\<lparr>startPDEForDLL := (if noOfPagesForPTE u \<le> PROCESS_SPACE_FOR_OS then 0
             else table_slot (processBase u) (noOfPagesForPTE u - 1)) + 1,
           stackPTEAddress := st\<rparr>)))"

text \<open>The kernel's page tables lie one behind the other, so entry \<open>j\<close> of table \<open>i\<close> is one of \<open>m_uiPTEBase\<close>.\<close>

definition os_table :: "u32 \<Rightarrow> nat \<Rightarrow> mem_manager \<Rightarrow> mem_manager" where
  "os_table table i s =
     fold (\<lambda>j t. set_entry table j (m_uiPTEBase t (i * PAGE_TABLE_ENTRIES + j) AND 0xFFFFF000 OR 5) t) [0..<PAGE_TABLE_ENTRIES] s"

definition InitializeProcessSpaceForOS :: "u32 \<Rightarrow> mem_manager \<Rightarrow> mem_manager" where
  "InitializeProcessSpaceForOS uiPDEAddress = fold (\<lambda>i s. os_table (table_of uiPDEAddress i s) i s) [0..<PROCESS_SPACE_FOR_OS]"

fun image_loop :: "u32 \<Rightarrow> u32 \<Rightarrow> nat \<Rightarrow> nat \<Rightarrow> (mem_manager, mem_fault, unit) comp" where
  "image_loop c base i 0 = ret ()"
| "image_loop c base i (Suc n) =
     andThen AllocatePhysicalPage (\<lambda>p.
     andThen (modify_mem (\<lambda>s. set_entry (table_of c (image_pde base i) s) (image_pte base i) (frame p OR 7) s)) (\<lambda>_.
     image_loop c base (Suc i) n))"

text \<open>The pages of the stack from the top: those of the call gate belong to the kernel.\<close>

fun stack_loop :: "u32 \<Rightarrow> nat \<Rightarrow> nat \<Rightarrow> (mem_manager, mem_fault, unit) comp" where
  "stack_loop st i 0 = ret ()"
| "stack_loop st i (Suc n) =
     andThen AllocatePhysicalPage (\<lambda>p.
     andThen (modify_mem (set_entry st (PAGE_TABLE_ENTRIES - 1 - i) (frame p OR (if i > PROCESS_CG_STACK_PAGES - 1 then 7 else 3)))) (\<lambda>_.
     stack_loop st (Suc i) n))"

definition AllocateStackSpace :: "u32 \<Rightarrow> (mem_manager, mem_fault, unit) comp" where
  "AllocateStackSpace st = stack_loop st 0 (PROCESS_CG_STACK_PAGES + NO_OF_PAGES_FOR_STARTUP_ARGS)"

definition InitializeProcessSpaceForProcess :: "u32 \<Rightarrow> user_process \<Rightarrow> (mem_manager, mem_fault, unit) comp" where
  "InitializeProcessSpaceForProcess c u =
     andThen (image_loop c (processBase u) 0 (noOfPagesForProcess u)) (\<lambda>_. AllocateStackSpace (stackPTEAddress u))"

text \<open>The directory becomes that of the process when its task state is built.\<close>

definition AllocateAddressSpace :: "user_process \<Rightarrow> (mem_manager, mem_fault, u32 \<times> user_process) comp" where
  "AllocateAddressSpace u =
     andThen AllocatePDE (\<lambda>c.
     andThen (AllocatePTE c u) (\<lambda>u'.
     andThen (modify_mem (InitializeProcessSpaceForOS c)) (\<lambda>_.
     andThen (InitializeProcessSpaceForProcess c u') (\<lambda>_. ret (c, u')))))"

definition UserProcess_onLoad :: "user_process \<Rightarrow> mem_manager \<Rightarrow> mem_manager" where
  "UserProcess_onLoad u = UpdatePDEWithStackPTE (CR3_PDBR u) (stackPTEAddress u)"

section \<open>Giving it back\<close>

definition page_of :: "u32 \<Rightarrow> nat" where "page_of e = unat ((e AND 0xFFFFF000) div PAGE_SIZE)"

definition DeAllocateStackSpace :: "u32 \<Rightarrow> (mem_manager, mem_fault, unit) comp" where
  "DeAllocateStackSpace st =
     for_each (\<lambda>i s. let e = entry_at st i s in
       if e AND 1 \<noteq> 0 \<and> e AND 0xFFFFF000 \<noteq> 0 then DeAllocatePhysicalPage (page_of e) s else ret () s) [0..<PAGE_TABLE_ENTRIES]"

definition DeAllocateProcessSpace :: "user_process \<Rightarrow> (mem_manager, mem_fault, unit) comp" where
  "DeAllocateProcessSpace u =
     andThen (for_each (\<lambda>i s. DeAllocatePhysicalPage
         (page_of (entry_at (table_of (CR3_PDBR u) (image_pde (processBase u) i) s) (image_pte (processBase u) i) s)) s)
       [0..<noOfPagesForProcess u]) (\<lambda>_. DeAllocateStackSpace (stackPTEAddress u))"

definition DeAllocatePTE :: "user_process \<Rightarrow> (mem_manager, mem_fault, unit) comp" where
  "DeAllocatePTE u =
     andThen (for_each (\<lambda>i s. DeAllocatePhysicalPage (page_of (entry_at (CR3_PDBR u) (table_slot (processBase u) i) s)) s)
       [0..<noOfPagesForPTE u]) (\<lambda>_. DeAllocatePhysicalPage (unat (stackPTEAddress u div PAGE_SIZE)))"

definition DeAllocateAddressSpace :: "user_process \<Rightarrow> (mem_manager, mem_fault, unit) comp" where
  "DeAllocateAddressSpace u =
     andThen (DeAllocateProcessSpace u) (\<lambda>_.
     andThen (DeAllocatePTE u) (\<lambda>_. DeAllocatePhysicalPage (unat (CR3_PDBR u div PAGE_SIZE))))"

section \<open>Libraries\<close>

definition getDLLInfo :: "string \<Rightarrow> user_process \<Rightarrow> ProcessDLLInfo option" where
  "getDLLInfo dllName u = map_of (dllInfoMap u) dllName"

definition getDLLInfo_id :: "int \<Rightarrow> user_process \<Rightarrow> ProcessDLLInfo option" where
  "getDLLInfo_id i u = (if i < 0 \<or> i \<ge> int (length (loadedDLLs u)) then None else getDLLInfo (loadedDLLs u ! nat i) u)"

text \<open>The new page tables are not cleared. A name that is in the map stays with its old entry.\<close>

definition dll_tables :: "u32 \<Rightarrow> nat \<Rightarrow> nat list \<Rightarrow> (mem_manager, mem_fault, unit) comp" where
  "dll_tables c start = for_each (\<lambda>i. andThen AllocatePhysicalPage (\<lambda>p. modify_mem (set_entry c (start + i) (frame p OR 7))))"

definition dll_pages :: "u32 \<Rightarrow> nat \<Rightarrow> nat \<Rightarrow> nat list \<Rightarrow> (mem_manager, mem_fault, unit) comp" where
  "dll_pages c start have = for_each (\<lambda>i. andThen AllocatePhysicalPage (\<lambda>p. modify_mem (\<lambda>s.
     set_entry (table_of c ((i + have) div PAGE_TABLE_ENTRIES + start) s) ((i + have) mod PAGE_TABLE_ENTRIES) (frame p OR 7) s)))"

definition MapDLLPagesToProcess :: "nat \<Rightarrow> string \<Rightarrow> user_process \<Rightarrow> (mem_manager, mem_fault, user_process) comp" where
  "MapDLLPagesToProcess noOfPagesForDLL dllName u =
     (let n = unat (GetPTESizeInPages (word_of_nat (totalNoOfPagesForDLL u + noOfPagesForDLL)));
          info = \<lparr>dllId = int (length (loadedDLLs u)),
            rawLoadAddress = word_of_nat (startPDEForDLL u) * PAGE_SIZE * 1024 + word_of_nat (totalNoOfPagesForDLL u) * PAGE_SIZE,
            dllNoOfPages = word_of_nat noOfPagesForDLL\<rparr>
      in andThen (dll_tables (CR3_PDBR u) (startPDEForDLL u) [noOfPagesForDLLPTE u..<n]) (\<lambda>_.
         andThen (dll_pages (CR3_PDBR u) (startPDEForDLL u) (totalNoOfPagesForDLL u) [0..<noOfPagesForDLL]) (\<lambda>_.
         ret (u\<lparr>loadedDLLs := loadedDLLs u @ [dllName],
           dllInfoMap := (if dllName \<in> fst ` set (dllInfoMap u) then dllInfoMap u else dllInfoMap u @ [(dllName, info)]),
           noOfPagesForDLLPTE := n, totalNoOfPagesForDLL := totalNoOfPagesForDLL u + noOfPagesForDLL\<rparr>))))"

text \<open>The pages of one table, and the number of pages that are left; the table is read without subtracting the base.\<close>

fun dll_free :: "u32 \<Rightarrow> u32 \<Rightarrow> nat \<Rightarrow> nat \<Rightarrow> nat \<Rightarrow> (mem_manager, mem_fault, nat) comp" where
  "dll_free GLOBAL_DATA_SEGMENT_BASE table k 0 left s = ret left s"
| "dll_free GLOBAL_DATA_SEGMENT_BASE table k (Suc n) left s =
     (if left = 0 then ret left s
      else let e = entry_at (table + GLOBAL_DATA_SEGMENT_BASE) k s in
           andThen (if e AND 1 \<noteq> 0 \<and> e AND 0xFFFFF000 \<noteq> 0 then DeAllocatePhysicalPage (page_of e) else ret ()) (\<lambda>_.
           dll_free GLOBAL_DATA_SEGMENT_BASE table (Suc k) n (left - 1)) s)"

fun dll_free_tables :: "u32 \<Rightarrow> user_process \<Rightarrow> nat \<Rightarrow> nat \<Rightarrow> nat \<Rightarrow> (mem_manager, mem_fault, unit) comp" where
  "dll_free_tables GLOBAL_DATA_SEGMENT_BASE u i 0 left s = ret () s"
| "dll_free_tables GLOBAL_DATA_SEGMENT_BASE u i (Suc n) left s =
     (let e = entry_at (CR3_PDBR u) (i + startPDEForDLL u) s in
      if e AND 1 \<noteq> 0 \<and> e AND 0xFFFFF000 \<noteq> 0
      then andThen (dll_free GLOBAL_DATA_SEGMENT_BASE (e AND 0xFFFFF000) 0 PAGE_TABLE_ENTRIES left) (\<lambda>left'.
           andThen (DeAllocatePhysicalPage (page_of e)) (\<lambda>_. dll_free_tables GLOBAL_DATA_SEGMENT_BASE u (Suc i) n left')) s
      else dll_free_tables GLOBAL_DATA_SEGMENT_BASE u (Suc i) n left s)"

definition DeAllocateDLLPages :: "u32 \<Rightarrow> user_process \<Rightarrow> (mem_manager, mem_fault, unit) comp" where
  "DeAllocateDLLPages GLOBAL_DATA_SEGMENT_BASE u =
     dll_free_tables GLOBAL_DATA_SEGMENT_BASE u 0 (noOfPagesForDLLPTE u) (totalNoOfPagesForDLL u)"

section \<open>Bytes in memory\<close>

definition peek8 :: "mem_manager \<Rightarrow> u32 \<Rightarrow> u8" where
  "peek8 s a = ucast (drop_bit (8 * unat (a AND 3)) (phys s (a AND NOT 3)))"

definition poke8 :: "u32 \<Rightarrow> u8 \<Rightarrow> mem_manager \<Rightarrow> mem_manager" where
  "poke8 a b s =
     (let w = phys s (a AND NOT 3); k = 8 * unat (a AND 3)
      in poke (a AND NOT 3) (take_bit k w OR push_bit k (ucast b) OR push_bit (k + 8) (drop_bit (k + 8) w)) s)"

fun poke_bytes :: "u32 \<Rightarrow> u8 list \<Rightarrow> mem_manager \<Rightarrow> mem_manager" where
  "poke_bytes a [] s = s"
| "poke_bytes a (b # bs) s = poke_bytes (a + 1) bs (poke8 a b s)"

definition le_bytes :: "u32 \<Rightarrow> u8 list" where
  "le_bytes w = [ucast w, ucast (drop_bit 8 w), ucast (drop_bit 16 w), ucast (drop_bit 24 w)]"

section \<open>The image and the arguments of a program\<close>

fun copy_loop :: "u32 \<Rightarrow> u32 \<Rightarrow> nat \<Rightarrow> nat \<Rightarrow> u8 list \<Rightarrow> mem_manager \<Rightarrow> mem_manager" where
  "copy_loop c base i 0 bs s = s"
| "copy_loop c base i (Suc n) bs s =
     (let page = entry_at (table_of c (image_pde base i) s) (image_pte base i) s AND 0xFFFFF000;
          t = poke_bytes page (take (unat PAGE_SIZE) bs) s
      in if length bs \<le> unat PAGE_SIZE then t else copy_loop c base (Suc i) n (drop (unat PAGE_SIZE) bs) t)"

definition CopyElfImage :: "u32 \<Rightarrow> user_process \<Rightarrow> u8 list \<Rightarrow> mem_manager \<Rightarrow> mem_manager" where
  "CopyElfImage uiPDEAddr u bProcessImage =
     copy_loop uiPDEAddr (processBase u) 0 (unat (GetProcessSizeInPages (word_of_nat (length bProcessImage)))) bProcessImage"

text \<open>
  The addresses and the characters of the arguments, one after the other: \<open>ptrs\<close> is where the next address goes, \<open>argv\<close> the
  value that \<open>argv\<close> points to, \<open>strs\<close> where the characters start and \<open>n\<close> how many there are already.
\<close>

fun push_args :: "u32 \<Rightarrow> u32 \<Rightarrow> u32 \<Rightarrow> u32 \<Rightarrow> u8 list list \<Rightarrow> mem_manager \<Rightarrow> mem_manager" where
  "push_args ptrs argv strs n [] s = s"
| "push_args ptrs argv strs n (x # xs) s =
     push_args (ptrs + 4) argv strs (n + word_of_nat (length x + 1)) xs
       (poke_bytes (strs + n) (x @ [0]) (poke_bytes ptrs (le_bytes (argv + n)) s))"

definition entry_stack_size :: "u8 list list \<Rightarrow> nat" where
  "entry_stack_size args = 8 + 4 * length args + sum_list (map (\<lambda>x. length x + 1) args)"

definition USER_STACK_TOP :: u32 where
  "USER_STACK_TOP = PROCESS_STACK_TOP_ADDRESS - word_of_nat PROCESS_CG_STACK_PAGES * PAGE_SIZE - PROCESS_BASE"

definition PushProgramInitStackData :: "user_process \<Rightarrow> u8 list list \<Rightarrow> (mem_manager, mem_fault, u32) comp" where
  "PushProgramInitStackData u args s =
     (let page = entry_at (stackPTEAddress u) (PAGE_TABLE_ENTRIES - PROCESS_CG_STACK_PAGES - NO_OF_PAGES_FOR_STARTUP_ARGS) s AND 0xFFFFF000;
          n = word_of_nat (length args); sz = word_of_nat (entry_stack_size args);
          a = page + PAGE_SIZE - sz; argv = USER_STACK_TOP - sz + 8
      in if sz > word_of_nat NO_OF_PAGES_FOR_STARTUP_ARGS * PAGE_SIZE then throw StartupArgsTooLarge s
         else (Inr sz, push_args (a + 8) (argv + 4 * n) (a + 8 + 4 * n) 0 args
                (poke_bytes (a + 4) (le_bytes argv) (poke_bytes a (le_bytes n) s))))"

end
