(* ===== verification/AddressProperties.thy ===== *)
theory AddressProperties
  imports AddressSpace
begin

text \<open>
  What the address space of a process promises: building it takes fresh pages only and maps every page of the image to
  one of its own, giving it back frees exactly these pages, the image is where the process sees it, and the startup
  arguments are laid out behind one another on the stack.
\<close>

section \<open>Bytes of words\<close>

lemma split_word: "(a AND NOT 3) OR (a AND 3) = (a :: u32)"
  by (rule bit_word_eqI) (auto simp: bit_simps)

lemma same_byte: "a AND NOT 3 = x AND NOT 3 \<Longrightarrow> unat (a AND 3) = unat (x AND 3) \<Longrightarrow> a = (x :: u32)"
  by (metis split_word word_unat_eq_iff)

lemma byte_offset: "unat (a AND 3 :: u32) < 4"
proof -
  have "a AND 3 \<le> 3" by (rule word_and_le1)
  then show ?thesis by (simp add: word_le_nat_alt)
qed

lemma bit_peek8: "bit (peek8 s a) k \<longleftrightarrow> k < 8 \<and> bit (phys s (a AND NOT 3)) (8 * unat (a AND 3) + k)"
  by (auto simp: peek8_def bit_simps)

lemma peek8_poke8: "peek8 (poke8 a b s) x = (if x = a then b else peek8 s x)"
proof (rule bit_word_eqI)
  fix k assume "k < LENGTH(8)"
  then have k: "k < 8" by simp
  let ?o = "unat (a AND 3)" and ?q = "unat (x AND 3)"
  show "bit (peek8 (poke8 a b s) x) k \<longleftrightarrow> bit (if x = a then b else peek8 s x) k"
  proof (cases "x AND NOT 3 = a AND NOT 3")
    case True
    have l: "8 * ?q + k < 32" using byte_offset[of x] k by linarith
    have b: "bit b j \<Longrightarrow> j < 8" for j using bit_imp_le_length[of b j] by simp
    have far: "\<not> (8 * ?o \<le> 8 * ?q + k \<and> 8 * ?q + k - 8 * ?o < 8)" if "?q \<noteq> ?o"
    proof -
      consider "?q + 1 \<le> ?o" | "?o + 1 \<le> ?q" using \<open>?q \<noteq> ?o\<close> by linarith
      then show ?thesis using k by cases linarith+
    qed
    have "bit (phys (poke8 a b s) (x AND NOT 3)) (8 * ?q + k) \<longleftrightarrow>
        bit (phys s (x AND NOT 3)) (8 * ?q + k) \<and> \<not> (8 * ?o \<le> 8 * ?q + k \<and> 8 * ?q + k - 8 * ?o < 8) \<or>
        8 * ?o \<le> 8 * ?q + k \<and> bit b (8 * ?q + k - 8 * ?o)"
      using True l by (auto simp: poke8_def poke_def Let_def bit_simps dest: b)
    then have "bit (phys (poke8 a b s) (x AND NOT 3)) (8 * ?q + k) \<longleftrightarrow>
        (if ?q = ?o then bit b k else bit (phys s (x AND NOT 3)) (8 * ?q + k))"
      using far b k by (auto)
    then show ?thesis using True same_byte[of x a] k by (auto simp: bit_peek8)
  next
    case False
    then show ?thesis by (auto simp: bit_peek8 poke8_def poke_def Let_def)
  qed
qed

lemma length_le_bytes [simp]: "length (le_bytes w) = 4"
  by (simp add: le_bytes_def)

text \<open>What a block of bytes does to the memory.\<close>

lemma peek_poke_bytes:
  assumes "length bs \<le> 2 ^ 32"
  shows "peek8 (poke_bytes a bs s) x = (if unat (x - a) < length bs then bs ! unat (x - a) else peek8 s x)"
  using assms
proof (induction bs arbitrary: a s)
  case (Cons b bs)
  have IH: "peek8 (poke_bytes (a + 1) bs (poke8 a b s)) x =
      (if unat (x - (a + 1)) < length bs then bs ! unat (x - (a + 1)) else peek8 (poke8 a b s) x)"
    using Cons by simp
  show ?case
  proof (cases "x = a")
    case True
    have "x - (a + 1) = - 1" using True by simp
    then have "unat (x - (a + 1)) = 2 ^ 32 - 1" by (simp only: unsigned_minus_1_eq_mask) (simp add: mask_eq_exp_minus_1)
    then show ?thesis using IH True Cons.prems by (simp add: peek8_poke8)
  next
    case False
    then have "x - a \<noteq> 0" by simp
    then have "unat (x - a - 1) = unat (x - a) - 1" by (rule unat_minus_one)
    moreover have "0 < unat (x - a)" using \<open>x - a \<noteq> 0\<close> by (metis unat_gt_0)
    ultimately have "unat (x - a) = Suc (unat (x - a - 1))" by simp
    then have "unat (x - a) = Suc (unat (x - (a + 1)))" by (simp add: diff_diff_eq)
    then show ?thesis using IH False by (simp add: peek8_poke8)
  qed
qed simp

section \<open>Pages and entries\<close>

definition page_no :: "u32 \<Rightarrow> u32" where "page_no a = drop_bit 12 a"

text \<open>The word of entry \<open>j\<close> in the table on page \<open>p\<close>.\<close>

definition slot_at :: "nat \<Rightarrow> nat \<Rightarrow> u32" where "slot_at p j = word_of_nat p * PAGE_SIZE + 4 * word_of_nat j"

lemma unat_slot: "p < 2 ^ 20 \<Longrightarrow> j < 1024 \<Longrightarrow> unat (slot_at p j) = p * 4096 + 4 * j"
  by (simp add: slot_at_def PAGE_SIZE_def unat_word_ariths unat_of_nat)

lemma slot_page: "p < 2 ^ 20 \<Longrightarrow> j < 1024 \<Longrightarrow> page_no (slot_at p j) = word_of_nat p"
proof -
  assume a: "p < 2 ^ 20" "j < 1024"
  then have "unat (page_no (slot_at p j)) = p" by (simp add: page_no_def drop_bit_eq_div unat_div unat_slot)
  then show ?thesis by (metis unat_page word_unat_eq_iff a(1))
qed

lemma slot_inj: "p < 2 ^ 20 \<Longrightarrow> q < 2 ^ 20 \<Longrightarrow> i < 1024 \<Longrightarrow> j < 1024 \<Longrightarrow> slot_at p i = slot_at q j \<longleftrightarrow> p = q \<and> i = j"
proof -
  assume a: "p < 2 ^ 20" "q < 2 ^ 20" "i < 1024" "j < 1024"
  have "p = q \<and> i = j" if "p * 4096 + 4 * i = q * 4096 + 4 * j"
  proof -
    have "(p * 4096 + 4 * i) div 4096 = p" "(q * 4096 + 4 * j) div 4096 = q" using a by simp_all
    then show ?thesis using that by simp
  qed
  then show ?thesis using unat_slot[OF a(1,3)] unat_slot[OF a(2,4)] by metis
qed

lemma page_word_inj: "p < 2 ^ 20 \<Longrightarrow> q < 2 ^ 20 \<Longrightarrow> (word_of_nat p :: u32) = word_of_nat q \<longleftrightarrow> p = q"
  by (metis unat_page)

lemma frame_alt: "p < 2 ^ 20 \<Longrightarrow> frame p = word_of_nat p * PAGE_SIZE"
  by (simp add: frame_def frame_push)

lemma page_of_entry: "p < 2 ^ 20 \<Longrightarrow> f = 7 \<or> f = 3 \<Longrightarrow> page_of (frame p OR f) = p \<and> (frame p OR f) AND 0xFFFFF000 = word_of_nat p * PAGE_SIZE \<and>
    (frame p OR f) AND 1 \<noteq> 0"
proof -
  assume p: "p < 2 ^ 20" and f: "f = 7 \<or> f = (3 :: u32)"
  have m: "f AND 0xFFFFF000 = 0" "f AND 1 = 1" using f by auto
  have "(frame p OR f) AND 0xFFFFF000 = frame p" unfolding frame_alt[OF p] frame_push bit.conj_disj_distrib2 m by simp
  moreover have "(frame p OR f) AND 1 = 1" unfolding frame_alt[OF p] frame_push bit.conj_disj_distrib2 m
    by (rule bit_word_eqI) (auto simp: bit_simps)
  moreover have "frame p div PAGE_SIZE = word_of_nat p"
    by (rule word_unat_eq_iff[THEN iffD2]) (use p in \<open>simp add: frame_alt PAGE_SIZE_def unat_div unat_word_ariths unat_of_nat\<close>)
  ultimately show ?thesis by (simp add: page_of_def unat_page[OF p] frame_alt[OF p])
qed

text \<open>The entries of a table after a write to memory, and after the table has been cleared.\<close>

lemma entry_at_slot: "entry_at (word_of_nat p * PAGE_SIZE) j s = phys s (slot_at p j)"
  by (simp add: entry_at_def slot_at_def)

lemma set_entry_phys: "phys (set_entry (word_of_nat p * PAGE_SIZE) j v s) = (phys s)(slot_at p j := v)"
  by (simp add: set_entry_def poke_def slot_at_def)

lemma set_entry_frame [simp]: "m_uiPageMap (set_entry t j v s) = m_uiPageMap s" "m_uiResvSize (set_entry t j v s) = m_uiResvSize s"
  "m_uiPageMapSize (set_entry t j v s) = m_uiPageMapSize s" "m_uiPTEBase (set_entry t j v s) = m_uiPTEBase s"
  "mem_wf (set_entry t j v s) = mem_wf s" "allocatable (set_entry t j v s) = allocatable s"
  by (auto simp: set_entry_def poke_def mem_wf_def allocatable_def fun_eq_iff)

text \<open>Filling a table entry by entry, with values that may depend on the kernel's page tables.\<close>

definition fill_entries :: "((nat \<Rightarrow> u32) \<Rightarrow> nat \<Rightarrow> u32) \<Rightarrow> nat \<Rightarrow> nat list \<Rightarrow> mem_manager \<Rightarrow> mem_manager" where
  "fill_entries G p = fold (\<lambda>j t. set_entry (word_of_nat p * PAGE_SIZE) j (G (m_uiPTEBase t) j) t)"

lemma fill_frame [simp]: "m_uiPageMap (fill_entries G p js s) = m_uiPageMap s" "m_uiResvSize (fill_entries G p js s) = m_uiResvSize s"
  "m_uiPageMapSize (fill_entries G p js s) = m_uiPageMapSize s" "m_uiPTEBase (fill_entries G p js s) = m_uiPTEBase s"
  "mem_wf (fill_entries G p js s) = mem_wf s" "allocatable (fill_entries G p js s) = allocatable s"
  by (induction js arbitrary: s) (auto simp: fill_entries_def)

lemma fill_other: "(\<And>j. j \<in> set js \<Longrightarrow> a \<noteq> slot_at p j) \<Longrightarrow> phys (fill_entries G p js s) a = phys s a"
  by (induction js arbitrary: s) (auto simp: fill_entries_def set_entry_phys)

lemma fill_slot:
  assumes "p < 2 ^ 20" "set js \<subseteq> {..<1024}" "j \<in> set js"
  shows "phys (fill_entries G p js s) (slot_at p j) = G (m_uiPTEBase s) j"
  using assms(2,3)
proof (induction js arbitrary: s)
  case (Cons k js)
  let ?s = "set_entry (word_of_nat p * PAGE_SIZE) k (G (m_uiPTEBase s) k) s"
  have st: "fill_entries G p (k # js) s = fill_entries G p js ?s" by (simp add: fill_entries_def)
  show ?case
  proof (cases "j \<in> set js")
    case True
    then show ?thesis using Cons.IH[of ?s] Cons.prems st by simp
  next
    case False
    then have "j = k" using Cons.prems by simp
    moreover have "phys (fill_entries G p js ?s) (slot_at p j) = phys ?s (slot_at p j)"
      by (rule fill_other) (use False Cons.prems assms(1) slot_inj[of p p j] in auto)
    ultimately show ?thesis unfolding st by (simp add: set_entry_phys)
  qed
qed simp

lemma clear_table_fill: "clear_table (word_of_nat p * PAGE_SIZE) s = fill_entries (\<lambda>_ _. 2) p [0..<1024] s"
  by (simp add: clear_table_def fill_entries_def PAGE_TABLE_ENTRIES_def)

lemma os_table_fill: "os_table (word_of_nat p * PAGE_SIZE) i s =
    fill_entries (\<lambda>P j. P (i * PAGE_TABLE_ENTRIES + j) AND 0xFFFFF000 OR 5) p [0..<1024] s"
  by (simp add: os_table_def fill_entries_def PAGE_TABLE_ENTRIES_def)

text \<open>A fill changes its own page only.\<close>

lemma fill_page: "p < 2 ^ 20 \<Longrightarrow> page_no a \<noteq> word_of_nat p \<Longrightarrow> phys (fill_entries G p [0..<1024] s) a = phys s a"
  by (rule fill_other) (auto simp: slot_page)

section \<open>Taking pages\<close>

definition takes :: "mem_manager \<Rightarrow> nat list \<Rightarrow> mem_manager \<Rightarrow> bool" where
  "takes s ps t \<longleftrightarrow> mem_wf t \<and> distinct ps \<and> (\<forall>p \<in> set ps. allocatable s p) \<and>
     (\<forall>q. page_used (m_uiPageMap t) q \<longleftrightarrow> page_used (m_uiPageMap s) q \<or> q \<in> set ps) \<and>
     m_uiResvSize t = m_uiResvSize s \<and> m_uiPageMapSize t = m_uiPageMapSize s \<and> m_uiPTEBase t = m_uiPTEBase s"

lemma allocatable_small: "allocatable s p \<Longrightarrow> mem_wf s \<Longrightarrow> p < 2 ^ 20"
  by (auto simp: allocatable_def mem_wf_def)

lemma takes_nil: "mem_wf s \<Longrightarrow> takes s [] s"
  by (simp add: takes_def)

lemma takes_trans: "takes s ps t \<Longrightarrow> takes t qs u \<Longrightarrow> takes s (ps @ qs) u"
  by (auto simp: takes_def allocatable_def)

lemma takes_page: "AllocatePhysicalPage s = (Inr p, t) \<Longrightarrow> mem_wf s \<Longrightarrow> takes s [p] t \<and> phys t = phys s"
  using AllocatePhysicalPage_Inr[of s p t] AllocatePhysicalPage_used[of s p t] mem_wf_alloc[of s "Inr p" t] by (simp add: takes_def)

lemma takes_fields: "takes s ps t \<Longrightarrow> m_uiPageMap u = m_uiPageMap t \<Longrightarrow> m_uiResvSize u = m_uiResvSize t \<Longrightarrow>
    m_uiPageMapSize u = m_uiPageMapSize t \<Longrightarrow> m_uiPTEBase u = m_uiPTEBase t \<Longrightarrow> mem_wf u = mem_wf t \<Longrightarrow> takes s ps u"
  by (simp add: takes_def)

text \<open>
  All tables are built by one kind of loop: take a page, prepare it, and write it with flags into a slot. \<open>slot_of\<close> finds
  the slot in the state; it may look at the pages \<open>D\<close>, which the loop does not change.
\<close>

fun alloc_loop :: "(nat \<Rightarrow> mem_manager \<Rightarrow> mem_manager) \<Rightarrow> (nat \<Rightarrow> mem_manager \<Rightarrow> u32) \<Rightarrow> (nat \<Rightarrow> u32) \<Rightarrow> nat \<Rightarrow> nat \<Rightarrow>
    (mem_manager, mem_fault, unit) comp" where
  "alloc_loop pre slot_of flags i 0 = ret ()"
| "alloc_loop pre slot_of flags i (Suc n) =
     andThen AllocatePhysicalPage (\<lambda>p.
     andThen (modify_mem (\<lambda>s. poke (slot_of i (pre p s)) (frame p OR flags i) (pre p s))) (\<lambda>_.
     alloc_loop pre slot_of flags (Suc i) n))"

lemma modify_mem_fuse: "andThen (modify_mem f) (\<lambda>_. andThen (modify_mem g) h) = andThen (modify_mem (\<lambda>s. g (f s))) h"
  by (simp add: modify_mem_def andThen_def fun_eq_iff)

lemma pte_loop_alloc: "pte_loop c base i n = alloc_loop (\<lambda>p. clear_table (word_of_nat p * PAGE_SIZE))
    (\<lambda>i s. c + 4 * word_of_nat (table_slot base i)) (\<lambda>_. 7) i n"
  by (induction n arbitrary: i) (simp_all add: modify_mem_fuse set_entry_def)

lemma image_loop_alloc: "image_loop c base i n = alloc_loop (\<lambda>_ s. s)
    (\<lambda>i s. table_of c (image_pde base i) s + 4 * word_of_nat (image_pte base i)) (\<lambda>_. 7) i n"
  by (induction n arbitrary: i) (simp_all add: set_entry_def)

lemma stack_loop_alloc: "stack_loop st i n = alloc_loop (\<lambda>_ s. s)
    (\<lambda>i s. st + 4 * word_of_nat (PAGE_TABLE_ENTRIES - 1 - i)) (\<lambda>i. if i > PROCESS_CG_STACK_PAGES - 1 then 7 else 3) i n"
  by (induction n arbitrary: i) (simp_all add: set_entry_def)

text \<open>A preparation of the page that is taken.\<close>

definition prepares :: "bool \<Rightarrow> (nat \<Rightarrow> mem_manager \<Rightarrow> mem_manager) \<Rightarrow> bool" where
  "prepares clr pre \<longleftrightarrow> (\<forall>p s. p < 2 ^ 20 \<longrightarrow>
     m_uiPageMap (pre p s) = m_uiPageMap s \<and> m_uiResvSize (pre p s) = m_uiResvSize s \<and> m_uiPageMapSize (pre p s) = m_uiPageMapSize s \<and>
     m_uiPTEBase (pre p s) = m_uiPTEBase s \<and> mem_wf (pre p s) = mem_wf s \<and>
     (\<forall>a. page_no a \<noteq> word_of_nat p \<longrightarrow> phys (pre p s) a = phys s a) \<and> (clr \<longrightarrow> (\<forall>j < 1024. phys (pre p s) (slot_at p j) = 2)))"

lemma prepares_clear: "prepares True (\<lambda>p. clear_table (word_of_nat p * PAGE_SIZE))"
proof -
  have "phys (fill_entries (\<lambda>_ _. 2) p [0..<1024] s) (slot_at p j) = 2" if "p < 2 ^ 20" "j < 1024" for p j s
    by (rule fill_slot) (use that in auto)
  then show ?thesis by (simp add: prepares_def clear_table_fill fill_page)
qed

lemma prepares_id: "prepares False (\<lambda>_ s. s)"
  by (simp add: prepares_def)

lemma alloc_loop_takes:
  assumes run: "alloc_loop pre slot_of flags i n s = (Inr (), t)" and wf: "mem_wf s" and pre: "prepares clr pre"
    and H: "\<And>k u. i \<le> k \<Longrightarrow> k < i + n \<Longrightarrow> (\<And>a d. d \<in> D \<Longrightarrow> page_no a = word_of_nat d \<Longrightarrow> phys u a = phys s a) \<Longrightarrow>
        slot_of k u = slot_at (T k) (J k)"
    and T: "\<And>k. i \<le> k \<Longrightarrow> k < i + n \<Longrightarrow> T k < 2 ^ 20 \<and> J k < 1024 \<and> page_used (m_uiPageMap s) (T k) \<and> T k \<notin> D"
    and D: "\<And>d. d \<in> D \<Longrightarrow> d < 2 ^ 20 \<and> page_used (m_uiPageMap s) d"
    and inj: "inj_on (\<lambda>k. (T k, J k)) {i..<i + n}"
  shows "\<exists>ps. length ps = n \<and> takes s ps t \<and>
    (\<forall>k < n. phys t (slot_at (T (i + k)) (J (i + k))) = frame (ps ! k) OR flags (i + k)) \<and>
    (\<forall>a. page_no a \<notin> word_of_nat ` set ps \<and> (\<forall>k < n. a \<noteq> slot_at (T (i + k)) (J (i + k))) \<longrightarrow> phys t a = phys s a) \<and>
    (clr \<longrightarrow> (\<forall>k < n. \<forall>j < 1024. phys t (slot_at (ps ! k) j) = 2))"
  using run wf H T D inj
proof (induction n arbitrary: i s)
  case 0
  then show ?case by (auto simp: takes_nil)
next
  case (Suc n)
  obtain p s1 where a: "AllocatePhysicalPage s = (Inr p, s1)"
      and r: "alloc_loop pre slot_of flags (Suc i) n (poke (slot_of i (pre p s1)) (frame p OR flags i) (pre p s1)) = (Inr (), t)"
    using Suc.prems(1) by (auto simp: andThen_Inr_iff modify_mem_def)
  have t1: "takes s [p] s1" "phys s1 = phys s" using takes_page[OF a Suc.prems(2)] by blast+
  then have p: "p < 2 ^ 20" "\<not> page_used (m_uiPageMap s) p" "mem_wf s1"
    using allocatable_small[of s p] Suc.prems(2) by (auto simp: takes_def allocatable_def)
  let ?q = "pre p s1" let ?a = "slot_at (T i) (J i)"
  have pq: "m_uiPageMap ?q = m_uiPageMap s1" "m_uiResvSize ?q = m_uiResvSize s1" "m_uiPageMapSize ?q = m_uiPageMapSize s1"
      "m_uiPTEBase ?q = m_uiPTEBase s1" "mem_wf ?q" "\<And>a. page_no a \<noteq> word_of_nat p \<Longrightarrow> phys ?q a = phys s a"
      "clr \<Longrightarrow> j < 1024 \<Longrightarrow> phys ?q (slot_at p j) = 2" for j
    using pre p t1(2) by (auto simp: prepares_def)
  have Ti: "T i < 2 ^ 20" "J i < 1024" "page_used (m_uiPageMap s) (T i)" "T i \<notin> D" using Suc.prems(4)[of i] by simp_all
  have dp: "d \<noteq> p \<and> d < 2 ^ 20" if "d \<in> D" for d using Suc.prems(5)[OF that] p(2) by auto
  have sl: "slot_of i ?q = ?a"
  proof (rule Suc.prems(3))
    show "phys ?q a = phys s a" if "d \<in> D" "page_no a = word_of_nat d" for a d
      using pq(6)[of a] dp[OF that(1)] that(2) p(1) page_word_inj[of d p] by auto
  qed simp_all
  let ?s = "poke ?a (frame p OR flags i) ?q"
  have ph: "phys ?s a = phys s a" if "page_no a \<noteq> word_of_nat p" "a \<noteq> ?a" for a using pq(6) that by (simp add: poke_def)
  have Tp: "T i \<noteq> p" using Ti(3) p(2) by auto
  have used: "page_used (m_uiPageMap ?s) q \<longleftrightarrow> page_used (m_uiPageMap s) q \<or> q = p" for q
    using t1(1) pq(1) by (simp add: poke_def takes_def)
  have tk: "takes s [p] ?s"
    by (rule takes_fields[OF t1(1)]) (use pq p in \<open>simp_all add: poke_def mem_wf_def\<close>)
  have wfs: "mem_wf ?s" using tk by (simp add: takes_def)
  have IH: "\<exists>ps. length ps = n \<and> takes ?s ps t \<and>
    (\<forall>k < n. phys t (slot_at (T (Suc i + k)) (J (Suc i + k))) = frame (ps ! k) OR flags (Suc i + k)) \<and>
    (\<forall>a. page_no a \<notin> word_of_nat ` set ps \<and> (\<forall>k < n. a \<noteq> slot_at (T (Suc i + k)) (J (Suc i + k))) \<longrightarrow> phys t a = phys ?s a) \<and>
    (clr \<longrightarrow> (\<forall>k < n. \<forall>j < 1024. phys t (slot_at (ps ! k) j) = 2))"
  proof (rule Suc.IH[OF r[unfolded sl] wfs])
    fix k and u :: mem_manager assume k: "Suc i \<le> k" "k < Suc i + n" and u: "\<And>a d. d \<in> D \<Longrightarrow> page_no a = word_of_nat d \<Longrightarrow> phys u a = phys ?s a"
    show "slot_of k u = slot_at (T k) (J k)"
    proof (rule Suc.prems(3))
      show "phys u a = phys s a" if "d \<in> D" "page_no a = word_of_nat d" for a d
      proof -
        have "page_no a \<noteq> word_of_nat p" using dp[OF that(1)] that(2) p(1) page_word_inj[of d p] by auto
        moreover have "a \<noteq> ?a" using that Ti slot_page[OF Ti(1,2)] page_word_inj[of d "T i"] dp[OF that(1)] by auto
        ultimately show ?thesis using u[OF that] ph by simp
      qed
    qed (use k in simp_all)
  next
    fix k assume "Suc i \<le> k" "k < Suc i + n"
    then show "T k < 2 ^ 20 \<and> J k < 1024 \<and> page_used (m_uiPageMap ?s) (T k) \<and> T k \<notin> D" using Suc.prems(4)[of k] used by simp
  next
    show "d < 2 ^ 20 \<and> page_used (m_uiPageMap ?s) d" if "d \<in> D" for d using Suc.prems(5)[OF that] used by simp
  next
    show "inj_on (\<lambda>k. (T k, J k)) {Suc i..<Suc i + n}" by (rule inj_on_subset[OF Suc.prems(6)]) auto
  qed
  then obtain ps where ps: "length ps = n" "takes ?s ps t"
    "\<And>k. k < n \<Longrightarrow> phys t (slot_at (T (Suc i + k)) (J (Suc i + k))) = frame (ps ! k) OR flags (Suc i + k)"
    "\<And>a. page_no a \<notin> word_of_nat ` set ps \<Longrightarrow> (\<And>k. k < n \<Longrightarrow> a \<noteq> slot_at (T (Suc i + k)) (J (Suc i + k))) \<Longrightarrow> phys t a = phys ?s a"
    "\<And>k j. clr \<Longrightarrow> k < n \<Longrightarrow> j < 1024 \<Longrightarrow> phys t (slot_at (ps ! k) j) = 2" by blast
  have small: "q < 2 ^ 20 \<and> \<not> page_used (m_uiPageMap ?s) q" if "q \<in> set ps" for q
    using ps(2) that wfs allocatable_small[of ?s q] by (auto simp: takes_def allocatable_def)
  have Tk: "T (Suc i + k) < 2 ^ 20" "J (Suc i + k) < 1024" "T (Suc i + k) \<noteq> p" "T (Suc i + k) \<notin> set ps"
      "(T (Suc i + k), J (Suc i + k)) \<noteq> (T i, J i)" if "k < n" for k
    using Suc.prems(4)[of "Suc i + k"] that p(2) small[of "T (Suc i + k)"] used inj_onD[OF Suc.prems(6), of "Suc i + k" i] by auto
  have first: "phys t ?a = frame p OR flags i"
  proof -
    have "page_no ?a \<notin> word_of_nat ` set ps"
      using slot_page[OF Ti(1,2)] small used Ti(1,3) page_word_inj[of "T i"] by auto
    moreover have "?a \<noteq> slot_at (T (Suc i + k)) (J (Suc i + k))" if "k < n" for k
      using slot_inj[OF Ti(1) Tk(1)[OF that] Ti(2) Tk(2)[OF that]] Tk(5)[OF that] by auto
    ultimately show ?thesis using ps(4)[of ?a] by (simp add: poke_def)
  qed
  have mine: "phys t (slot_at p j) = 2" if "clr" "j < 1024" for j
  proof -
    have "page_no (slot_at p j) \<notin> word_of_nat ` set ps"
      using slot_page[OF p(1) that(2)] small used p(1) page_word_inj[of p] by auto
    moreover have "slot_at p j \<noteq> slot_at (T (Suc i + k)) (J (Suc i + k))" if "k < n" for k
      using slot_inj[OF p(1) Tk(1)[OF that] _ Tk(2)[OF that], of j] Tk(3)[OF that] \<open>j < 1024\<close> by auto
    moreover have "slot_at p j \<noteq> ?a" using slot_inj[OF p(1) Ti(1) that(2) Ti(2)] Tp by auto
    ultimately show ?thesis using ps(4)[of "slot_at p j"] pq(7)[OF that] by (simp add: poke_def)
  qed
  show ?case
  proof (intro exI[of _ "p # ps"] conjI allI impI)
    show "length (p # ps) = Suc n" using ps(1) by simp
    show "takes s (p # ps) t" using takes_trans[OF tk ps(2)] by simp
    fix k assume "k < Suc n"
    then show "phys t (slot_at (T (i + k)) (J (i + k))) = frame ((p # ps) ! k) OR flags (i + k)"
      using first ps(3)[of "k - 1"] by (cases k) auto
  next
    fix a assume a: "page_no a \<notin> word_of_nat ` set (p # ps) \<and> (\<forall>k < Suc n. a \<noteq> slot_at (T (i + k)) (J (i + k)))"
    have "a \<noteq> slot_at (T (Suc i + k)) (J (Suc i + k))" if "k < n" for k using a that by (metis Suc_mono add_Suc_shift)
    moreover have "a \<noteq> ?a" using a by (metis add_0_right zero_less_Suc)
    ultimately show "phys t a = phys s a" using a ps(4)[of a] ph[of a] by auto
  next
    fix k j assume "clr" "k < Suc n" "j < (1024 :: nat)"
    then show "phys t (slot_at ((p # ps) ! k) j) = 2" using mine ps(5)[of "k - 1" j] by (cases k) auto
  qed
qed

section \<open>A built address space\<close>

text \<open>
  The page tables reach the whole image and fit the directory: \<open>Load\<close> chooses the number of page tables so.
\<close>

definition image_fits :: "user_process \<Rightarrow> bool" where
  "image_fits u \<longleftrightarrow> PROCESS_SPACE_FOR_OS \<le> noOfPagesForPTE u \<and> pdeBase (processBase u) + noOfPagesForPTE u \<le> 1021 \<and>
     (\<forall>i < noOfPagesForProcess u. image_pde (processBase u) i < pdeBase (processBase u) + noOfPagesForPTE u)"

definition image_table :: "u32 \<Rightarrow> nat \<Rightarrow> nat" where "image_table base i = image_pde base i - pdeBase base"

text \<open>\<open>pc\<close> holds the directory, \<open>ts\<close> the page tables, \<open>st\<close> the one of the stack, \<open>qs\<close> the image and \<open>ks\<close> the stack.\<close>

definition built :: "mem_manager \<Rightarrow> user_process \<Rightarrow> mem_manager \<Rightarrow> nat \<Rightarrow> nat list \<Rightarrow> nat \<Rightarrow> nat list \<Rightarrow> nat list \<Rightarrow> bool" where
  "built s u t pc ts st qs ks \<longleftrightarrow>
     takes s (pc # ts @ st # qs @ ks) t \<and> length ts = noOfPagesForPTE u \<and> length qs = noOfPagesForProcess u \<and> length ks = 9 \<and>
     (\<forall>k < noOfPagesForPTE u. phys t (slot_at pc (table_slot (processBase u) k)) = frame (ts ! k) OR 7) \<and>
     (\<forall>i < noOfPagesForProcess u. phys t (slot_at (ts ! image_table (processBase u) i) (image_pte (processBase u) i)) = frame (qs ! i) OR 7) \<and>
     (\<forall>i < 9. phys t (slot_at st (1023 - i)) = frame (ks ! i) OR (if i > 7 then 7 else 3)) \<and>
     (\<forall>j < 1015. phys t (slot_at st j) = 2) \<and>
     (\<forall>a. page_no a \<notin> word_of_nat ` set (pc # ts @ st # qs @ ks) \<longrightarrow> phys t a = phys s a)"

lemma new_table:
  assumes "andThen AllocatePhysicalPage (\<lambda>p. andThen (modify_mem (clear_table (word_of_nat p * PAGE_SIZE)))
      (\<lambda>_. ret (word_of_nat p * PAGE_SIZE))) s = (Inr c, t)" "mem_wf s"
  obtains p where "c = word_of_nat p * PAGE_SIZE" "takes s [p] t" "\<And>j. j < 1024 \<Longrightarrow> phys t (slot_at p j) = 2"
    "\<And>a. page_no a \<noteq> word_of_nat p \<Longrightarrow> phys t a = phys s a" "p < 2 ^ 20"
proof -
  obtain p s1 where a: "AllocatePhysicalPage s = (Inr p, s1)" and t: "t = clear_table (word_of_nat p * PAGE_SIZE) s1" "c = word_of_nat p * PAGE_SIZE"
    using assms(1) by (auto simp: andThen_Inr_iff modify_mem_def)
  have tk: "takes s [p] s1" "phys s1 = phys s" using takes_page[OF a assms(2)] by blast+
  have p: "p < 2 ^ 20" using tk assms(2) allocatable_small[of s p] by (simp add: takes_def)
  show ?thesis
  proof (rule that[OF t(2)])
    show "takes s [p] t" unfolding t(1) clear_table_fill by (rule takes_fields[OF tk(1)]) simp_all
    show "phys t (slot_at p j) = 2" if "j < 1024" for j
      unfolding t(1) clear_table_fill by (rule fill_slot) (use p that in auto)
    show "phys t a = phys s a" if "page_no a \<noteq> word_of_nat p" for a
      unfolding t(1) clear_table_fill using fill_page[OF p that] tk(2) by simp
    show "p < 2 ^ 20" by (rule p)
  qed
qed

text \<open>The kernel's part of the tables.\<close>

lemma InitOS_frame:
  assumes c: "c = word_of_nat pc * PAGE_SIZE" and pc: "pc < 2 ^ 20" and ns: "set ns \<subseteq> {..<1024}"
    and ts: "\<And>k. k \<in> set ns \<Longrightarrow> phys s (slot_at pc k) = frame (f k) OR 7 \<and> f k < 2 ^ 20 \<and> f k \<noteq> pc"
  defines "F \<equiv> fold (\<lambda>i s. os_table (table_of c i s) i s)"
  shows "m_uiPageMap (F ns s) = m_uiPageMap s \<and> m_uiResvSize (F ns s) = m_uiResvSize s \<and> m_uiPageMapSize (F ns s) = m_uiPageMapSize s \<and>
    m_uiPTEBase (F ns s) = m_uiPTEBase s \<and> mem_wf (F ns s) = mem_wf s \<and>
    (\<forall>a. page_no a \<notin> (\<lambda>k. word_of_nat (f k)) ` set ns \<longrightarrow> phys (F ns s) a = phys s a)"
  using ns ts
proof (induction ns arbitrary: s)
  case (Cons k ns)
  have k: "f k < 2 ^ 20" "f k \<noteq> pc" "k < 1024" using Cons.prems by simp_all
  have e: "table_of c k s = word_of_nat (f k) * PAGE_SIZE"
    using Cons.prems(2)[of k] page_of_entry[OF k(1), of 7] by (simp add: table_of_def c entry_at_slot)
  define u where "u = os_table (table_of c k s) k s"
  have u: "u = fill_entries (\<lambda>P j. P (k * PAGE_TABLE_ENTRIES + j) AND 0xFFFFF000 OR 5) (f k) [0..<1024] s"
    unfolding u_def e by (rule os_table_fill)
  have same: "phys u a = phys s a" if "page_no a \<noteq> word_of_nat (f k)" for a
    unfolding u by (rule fill_page[OF k(1) that])
  have "phys u (slot_at pc i) = phys s (slot_at pc i)" if "i < 1024" for i
    by (rule same) (use slot_page[OF pc that] page_word_inj[OF pc k(1)] k(2) in simp)
  then have "phys u (slot_at pc i) = frame (f i) OR 7 \<and> f i < 2 ^ 20 \<and> f i \<noteq> pc" if "i \<in> set ns" for i
    using Cons.prems that by auto
  then have "m_uiPageMap (F ns u) = m_uiPageMap u \<and> m_uiResvSize (F ns u) = m_uiResvSize u \<and> m_uiPageMapSize (F ns u) = m_uiPageMapSize u \<and>
    m_uiPTEBase (F ns u) = m_uiPTEBase u \<and> mem_wf (F ns u) = mem_wf u \<and>
    (\<forall>a. page_no a \<notin> (\<lambda>k. word_of_nat (f k)) ` set ns \<longrightarrow> phys (F ns u) a = phys u a)"
    by (intro Cons.IH) (use Cons.prems in auto)
  moreover have "F (k # ns) s = F ns u" by (simp add: F_def u_def)
  ultimately show ?case using same by (auto simp: u)
qed (simp add: F_def)

text \<open>Where the tables and the pages of the image are entered.\<close>

lemma table_slot_bound: "image_fits u \<Longrightarrow> k < noOfPagesForPTE u \<Longrightarrow> table_slot (processBase u) k < 1021"
  by (auto simp: image_fits_def table_slot_def)

lemma table_slot_inj: "table_slot base j = table_slot base k \<longleftrightarrow> j = k"
  by (auto simp: table_slot_def)

lemma image_table_bound: "image_fits u \<Longrightarrow> i < noOfPagesForProcess u \<Longrightarrow>
    image_table (processBase u) i < noOfPagesForPTE u \<and> table_slot (processBase u) (image_table (processBase u) i) = image_pde (processBase u) i"
  by (auto simp: image_fits_def image_table_def image_pde_def table_slot_def PROCESS_SPACE_FOR_OS_def)

lemma image_pte_bound: "image_pte base i < 1024"
  by (simp add: image_pte_def PAGE_TABLE_ENTRIES_def)

lemma image_slot_inj: "image_table base i = image_table base j \<Longrightarrow> image_pte base i = image_pte base j \<Longrightarrow> i = j"
proof -
  assume a: "image_table base i = image_table base j" "image_pte base i = image_pte base j"
  then have "(pageBase base + i) div PAGE_TABLE_ENTRIES = (pageBase base + j) div PAGE_TABLE_ENTRIES"
    by (simp add: image_table_def image_pde_def)
  then have "pageBase base + i = pageBase base + j"
    using a(2) by (metis image_pte_def div_mult_mod_eq)
  then show ?thesis by simp
qed

lemma takes_new: "takes s ps t \<Longrightarrow> mem_wf s \<Longrightarrow> p \<in> set ps \<Longrightarrow> p < 2 ^ 20 \<and> \<not> page_used (m_uiPageMap s) p \<and> page_used (m_uiPageMap t) p"
  using allocatable_small[of s p] by (auto simp: takes_def allocatable_def)

lemma not_on_page: "p < 2 ^ 20 \<Longrightarrow> (\<And>q. q \<in> set ps \<Longrightarrow> q < 2 ^ 20) \<Longrightarrow> j < 1024 \<Longrightarrow> p \<notin> set ps \<Longrightarrow>
    page_no (slot_at p j) \<notin> word_of_nat ` set ps"
  using page_word_inj[of p] by (auto simp: slot_page)

text \<open>The directory and the tables.\<close>

lemma tables_built:
  assumes a: "AllocatePDE s = (Inr c, s1)" and b: "pte_loop c (processBase u) 0 (noOfPagesForPTE u) s1 = (Inr (), s2)"
    and d: "AllocatePTEForStack s2 = (Inr sa, s3)" and wf: "mem_wf s" and fit: "image_fits u"
  obtains pc ts st where "c = word_of_nat pc * PAGE_SIZE" "sa = word_of_nat st * PAGE_SIZE" "takes s (pc # ts @ [st]) s3"
    "length ts = noOfPagesForPTE u"
    "\<And>k. k < noOfPagesForPTE u \<Longrightarrow> phys s3 (slot_at pc (table_slot (processBase u) k)) = frame (ts ! k) OR 7"
    "\<And>j. j < 1024 \<Longrightarrow> phys s3 (slot_at st j) = 2"
    "\<And>a. page_no a \<notin> word_of_nat ` set (pc # ts @ [st]) \<Longrightarrow> phys s3 a = phys s a"
proof -
  obtain pc where pc: "c = word_of_nat pc * PAGE_SIZE" "takes s [pc] s1" "\<And>j. j < 1024 \<Longrightarrow> phys s1 (slot_at pc j) = 2"
    "\<And>a. page_no a \<noteq> word_of_nat pc \<Longrightarrow> phys s1 a = phys s a" "pc < 2 ^ 20"
    using new_table[OF a[unfolded AllocatePDE_def] wf] by blast
  have wf1: "mem_wf s1" using pc(2) by (simp add: takes_def)
  let ?J = "table_slot (processBase u)"
  have J: "?J k < 1024" if "k < noOfPagesForPTE u" for k using table_slot_bound[OF fit that] by simp
  have "\<exists>ps. length ps = noOfPagesForPTE u \<and> takes s1 ps s2 \<and>
    (\<forall>k < noOfPagesForPTE u. phys s2 (slot_at pc (?J (0 + k))) = frame (ps ! k) OR 7) \<and>
    (\<forall>a. page_no a \<notin> word_of_nat ` set ps \<and> (\<forall>k < noOfPagesForPTE u. a \<noteq> slot_at pc (?J (0 + k))) \<longrightarrow> phys s2 a = phys s1 a) \<and>
    (True \<longrightarrow> (\<forall>k < noOfPagesForPTE u. \<forall>j < 1024. phys s2 (slot_at (ps ! k) j) = 2))"
    by (rule alloc_loop_takes[where D = "{}", OF b[unfolded pte_loop_alloc] wf1 prepares_clear])
      (use pc takes_new[OF pc(2) wf] J in \<open>auto simp: slot_at_def inj_on_def table_slot_inj\<close>)
  then obtain ts where ts: "length ts = noOfPagesForPTE u" "takes s1 ts s2"
    "\<And>k. k < noOfPagesForPTE u \<Longrightarrow> phys s2 (slot_at pc (?J k)) = frame (ts ! k) OR 7"
    "\<And>a. page_no a \<notin> word_of_nat ` set ts \<Longrightarrow> (\<And>k. k < noOfPagesForPTE u \<Longrightarrow> a \<noteq> slot_at pc (?J k)) \<Longrightarrow> phys s2 a = phys s1 a"
    by auto
  have wf2: "mem_wf s2" using ts(2) by (simp add: takes_def)
  obtain st where st: "sa = word_of_nat st * PAGE_SIZE" "takes s2 [st] s3" "\<And>j. j < 1024 \<Longrightarrow> phys s3 (slot_at st j) = 2"
    "\<And>a. page_no a \<noteq> word_of_nat st \<Longrightarrow> phys s3 a = phys s2 a" "st < 2 ^ 20"
    using new_table[OF d[unfolded AllocatePTEForStack_def] wf2] by blast
  have all: "takes s (pc # ts @ [st]) s3" using takes_trans[OF takes_trans[OF pc(2) ts(2)] st(2)] by simp
  have ne: "pc \<noteq> st" using all by (simp add: takes_def)
  show ?thesis
  proof (rule that[OF pc(1) st(1) all ts(1) _ st(3)])
    fix k assume k: "k < noOfPagesForPTE u"
    have "page_no (slot_at pc (?J k)) \<noteq> word_of_nat st" using slot_page[OF pc(5) J[OF k]] page_word_inj[OF pc(5) st(5)] ne by simp
    then show "phys s3 (slot_at pc (?J k)) = frame (ts ! k) OR 7" using st(4) ts(3)[OF k] by simp
  next
    fix a assume x: "page_no a \<notin> word_of_nat ` set (pc # ts @ [st])"
    have "a \<noteq> slot_at pc (?J k)" if "k < noOfPagesForPTE u" for k using x slot_page[OF pc(5) J[OF that]] by auto
    then show "phys s3 a = phys s a" using x st(4)[of a] ts(4)[of a] pc(4)[of a] by simp
  qed
qed

text \<open>The image, then the stack.\<close>

lemma image_built:
  assumes r: "image_loop c (processBase u) 0 (noOfPagesForProcess u) s = (Inr (), t)" and wf: "mem_wf s" and fit: "image_fits u"
    and c: "c = word_of_nat pc * PAGE_SIZE" and pc: "pc < 2 ^ 20" "page_used (m_uiPageMap s) pc" "pc \<notin> set ts"
    and ts: "length ts = noOfPagesForPTE u" "distinct ts" "\<And>p. p \<in> set ts \<Longrightarrow> p < 2 ^ 20 \<and> page_used (m_uiPageMap s) p"
    and e: "\<And>k. k < noOfPagesForPTE u \<Longrightarrow> phys s (slot_at pc (table_slot (processBase u) k)) = frame (ts ! k) OR 7"
  obtains qs where "takes s qs t" "length qs = noOfPagesForProcess u"
    "\<And>i. i < noOfPagesForProcess u \<Longrightarrow>
      phys t (slot_at (ts ! image_table (processBase u) i) (image_pte (processBase u) i)) = frame (qs ! i) OR 7"
    "\<And>a. page_no a \<notin> word_of_nat ` set (ts @ qs) \<Longrightarrow> phys t a = phys s a"
proof -
  define b where "b = processBase u"
  let ?T = "\<lambda>i. ts ! image_table b i" and ?J = "image_pte b"
  have tb: "image_table b i < noOfPagesForPTE u" "table_slot b (image_table b i) = image_pde b i" if "i < noOfPagesForProcess u" for i
    using image_table_bound[OF fit that] by (simp_all add: b_def)
  have T: "?T i \<in> set ts" if "i < noOfPagesForProcess u" for i using tb[OF that] ts(1) by simp
  have slot: "table_of c (image_pde b k) v + 4 * word_of_nat (?J k) = slot_at (?T k) (?J k)"
    if k: "k < noOfPagesForProcess u" and v: "\<And>a d. d \<in> {pc} \<Longrightarrow> page_no a = word_of_nat d \<Longrightarrow> phys v a = phys s a" for k v
  proof -
    have k': "table_slot b (image_table b k) < 1024" using table_slot_bound[OF fit tb(1)[OF k]] by (simp add: b_def)
    have "phys v (slot_at pc (image_pde b k)) = frame (?T k) OR 7"
      using v[of pc "slot_at pc (image_pde b k)"] slot_page[OF pc(1) k'] e[OF tb(1)[OF k]] tb(2)[OF k] by (simp add: b_def)
    then have "table_of c (image_pde b k) v = word_of_nat (?T k) * PAGE_SIZE"
      using page_of_entry[of "?T k" 7] ts(3)[OF T[OF k]] by (simp add: table_of_def c entry_at_slot)
    then show ?thesis by (simp add: slot_at_def)
  qed
  have inj: "inj_on (\<lambda>k. (?T k, ?J k)) {0..<0 + noOfPagesForProcess u}"
  proof (rule inj_onI)
    fix x y assume x: "x \<in> {0..<0 + noOfPagesForProcess u}" and y: "y \<in> {0..<0 + noOfPagesForProcess u}" and eq: "(?T x, ?J x) = (?T y, ?J y)"
    have "image_table b x = image_table b y"
      using eq nth_eq_iff_index_eq[OF ts(2), of "image_table b x" "image_table b y"] tb(1) x y ts(1) by simp
    then show "x = y" using eq image_slot_inj by blast
  qed
  have "\<exists>ps. length ps = noOfPagesForProcess u \<and> takes s ps t \<and>
    (\<forall>k < noOfPagesForProcess u. phys t (slot_at (?T (0 + k)) (?J (0 + k))) = frame (ps ! k) OR 7) \<and>
    (\<forall>a. page_no a \<notin> word_of_nat ` set ps \<and> (\<forall>k < noOfPagesForProcess u. a \<noteq> slot_at (?T (0 + k)) (?J (0 + k))) \<longrightarrow> phys t a = phys s a) \<and>
    (False \<longrightarrow> (\<forall>k < noOfPagesForProcess u. \<forall>j < 1024. phys t (slot_at (ps ! k) j) = 2))"
  proof (rule alloc_loop_takes[where D = "{pc}", OF r[unfolded image_loop_alloc, folded b_def] wf prepares_id])
    show "table_of c (image_pde b k) v + 4 * word_of_nat (?J k) = slot_at (?T k) (?J k)"
      if "0 \<le> k" "k < 0 + noOfPagesForProcess u" "\<And>a d. d \<in> {pc} \<Longrightarrow> page_no a = word_of_nat d \<Longrightarrow> phys v a = phys s a" for k v
      by (rule slot) (use that in auto)
    show "?T k < 2 ^ 20 \<and> ?J k < 1024 \<and> page_used (m_uiPageMap s) (?T k) \<and> ?T k \<notin> {pc}" if "0 \<le> k" "k < 0 + noOfPagesForProcess u" for k
      using T[of k] ts(3)[of "?T k"] pc(3) that image_pte_bound by auto
    show "d < 2 ^ 20 \<and> page_used (m_uiPageMap s) d" if "d \<in> {pc}" for d using that pc by simp
  qed (rule inj)
  then obtain qs where qs: "length qs = noOfPagesForProcess u" "takes s qs t"
    "\<And>k. k < noOfPagesForProcess u \<Longrightarrow> phys t (slot_at (?T k) (?J k)) = frame (qs ! k) OR 7"
    "\<And>a. page_no a \<notin> word_of_nat ` set qs \<Longrightarrow> (\<And>k. k < noOfPagesForProcess u \<Longrightarrow> a \<noteq> slot_at (?T k) (?J k)) \<Longrightarrow> phys t a = phys s a"
    by auto
  show ?thesis
  proof (rule that[OF qs(2,1)])
    show "phys t (slot_at (ts ! image_table (processBase u) i) (image_pte (processBase u) i)) = frame (qs ! i) OR 7"
      if "i < noOfPagesForProcess u" for i using qs(3)[OF that] by (simp add: b_def)
    fix a assume a: "page_no a \<notin> word_of_nat ` set (ts @ qs)"
    have "a \<noteq> slot_at (?T k) (?J k)" if "k < noOfPagesForProcess u" for k
      using a slot_page[of "?T k" "?J k"] image_pte_bound T[OF that] ts(3)[OF T[OF that]] by auto
    then show "phys t a = phys s a" using qs(4)[of a] a by (auto simp: image_Un)
  qed
qed

lemma stack_built:
  assumes r: "AllocateStackSpace sa s = (Inr (), t)" and wf: "mem_wf s"
    and sa: "sa = word_of_nat st * PAGE_SIZE" "st < 2 ^ 20" "page_used (m_uiPageMap s) st"
    and e: "\<And>j. j < 1024 \<Longrightarrow> phys s (slot_at st j) = 2"
  obtains ks where "takes s ks t" "length ks = 9"
    "\<And>i. i < 9 \<Longrightarrow> phys t (slot_at st (1023 - i)) = frame (ks ! i) OR (if i > 7 then 7 else 3)"
    "\<And>j. j < 1015 \<Longrightarrow> phys t (slot_at st j) = 2"
    "\<And>a. page_no a \<notin> word_of_nat ` set (st # ks) \<Longrightarrow> phys t a = phys s a"
proof -
  have run: "alloc_loop (\<lambda>_ s. s) (\<lambda>i s. sa + 4 * word_of_nat (PAGE_TABLE_ENTRIES - 1 - i))
      (\<lambda>i. if i > PROCESS_CG_STACK_PAGES - 1 then 7 else 3) 0 9 s = (Inr (), t)"
    using r by (simp add: AllocateStackSpace_def stack_loop_alloc PROCESS_CG_STACK_PAGES_def NO_OF_PAGES_FOR_STARTUP_ARGS_def)
  have "\<exists>ps. length ps = 9 \<and> takes s ps t \<and>
    (\<forall>k < 9. phys t (slot_at st (PAGE_TABLE_ENTRIES - 1 - (0 + k))) = frame (ps ! k) OR (if 0 + k > PROCESS_CG_STACK_PAGES - 1 then 7 else 3)) \<and>
    (\<forall>a. page_no a \<notin> word_of_nat ` set ps \<and> (\<forall>k < 9. a \<noteq> slot_at st (PAGE_TABLE_ENTRIES - 1 - (0 + k))) \<longrightarrow> phys t a = phys s a) \<and>
    (False \<longrightarrow> (\<forall>k < 9. \<forall>j < 1024. phys t (slot_at (ps ! k) j) = 2))"
    by (rule alloc_loop_takes[where D = "{}" and T = "\<lambda>_. st", OF run wf prepares_id])
      (use sa in \<open>auto simp: PROCESS_CG_STACK_PAGES_def slot_at_def PAGE_TABLE_ENTRIES_def inj_on_def\<close>)
  then obtain ks where ks: "length ks = 9" "takes s ks t"
    "\<And>k. k < 9 \<Longrightarrow> phys t (slot_at st (1023 - k)) = frame (ks ! k) OR (if k > 7 then 7 else 3)"
    "\<And>a. page_no a \<notin> word_of_nat ` set ks \<Longrightarrow> (\<And>k. k < 9 \<Longrightarrow> a \<noteq> slot_at st (1023 - k)) \<Longrightarrow> phys t a = phys s a"
    by (auto simp: PAGE_TABLE_ENTRIES_def PROCESS_CG_STACK_PAGES_def)
  show ?thesis
  proof (rule that[OF ks(2,1,3)])
    fix j assume j: "j < (1015 :: nat)"
    have "st \<notin> set ks" using takes_new[OF ks(2) wf, of st] sa(3) by auto
    then have "page_no (slot_at st j) \<notin> word_of_nat ` set ks"
      by (intro not_on_page) (use sa(2) j takes_new[OF ks(2) wf] in auto)
    moreover have "slot_at st j \<noteq> slot_at st (1023 - k)" if "k < 9" for k using slot_inj[OF sa(2) sa(2), of j "1023 - k"] that j by simp
    ultimately show "phys t (slot_at st j) = 2" using ks(4) e[of j] j by simp
  next
    fix a assume a: "page_no a \<notin> word_of_nat ` set (st # ks)"
    then have "a \<noteq> slot_at st (1023 - k)" for k using slot_page[OF sa(2), of "1023 - k"] by (simp add: less_imp_diff_less) (metis)
    then show "phys t a = phys s a" using ks(4)[of a] a by simp
  qed
qed

lemma AllocateAddressSpace_built:
  assumes r: "AllocateAddressSpace u s = (Inr (c, u'), t)" and wf: "mem_wf s" and fit: "image_fits u"
  obtains pc ts st qs ks where "built s u t pc ts st qs ks" "c = word_of_nat pc * PAGE_SIZE" "stackPTEAddress u' = word_of_nat st * PAGE_SIZE"
    "processBase u' = processBase u" "noOfPagesForProcess u' = noOfPagesForProcess u" "noOfPagesForPTE u' = noOfPagesForPTE u"
proof -
  obtain s1 s2 s3 sa s5 where a: "AllocatePDE s = (Inr c, s1)" and b: "pte_loop c (processBase u) 0 (noOfPagesForPTE u) s1 = (Inr (), s2)"
      and d: "AllocatePTEForStack s2 = (Inr sa, s3)"
      and im: "image_loop c (processBase u) 0 (noOfPagesForProcess u) (InitializeProcessSpaceForOS c s3) = (Inr (), s5)"
      and sl: "AllocateStackSpace sa s5 = (Inr (), t)"
      and u': "stackPTEAddress u' = sa" "processBase u' = processBase u" "noOfPagesForProcess u' = noOfPagesForProcess u" "noOfPagesForPTE u' = noOfPagesForPTE u"
    using r by (auto simp: AllocateAddressSpace_def AllocatePTE_def InitializeProcessSpaceForProcess_def andThen_Inr_iff modify_mem_def)
  obtain pc st ts where T: "c = word_of_nat pc * PAGE_SIZE" "sa = word_of_nat st * PAGE_SIZE" "takes s (pc # ts @ [st]) s3"
    "length ts = noOfPagesForPTE u"
    "\<And>k. k < noOfPagesForPTE u \<Longrightarrow> phys s3 (slot_at pc (table_slot (processBase u) k)) = frame (ts ! k) OR 7"
    "\<And>j. j < 1024 \<Longrightarrow> phys s3 (slot_at st j) = 2"
    "\<And>a. page_no a \<notin> word_of_nat ` set (pc # ts @ [st]) \<Longrightarrow> phys s3 a = phys s a"
    by (rule tables_built[OF a b d wf fit]) (rule that, assumption+)
  have new: "p < 2 ^ 20 \<and> page_used (m_uiPageMap s3) p" if "p \<in> set (pc # ts @ [st])" for p using takes_new[OF T(3) wf that] by simp
  have dist: "distinct (pc # ts @ [st])" using T(3) by (simp add: takes_def)
  have n32: "PROCESS_SPACE_FOR_OS \<le> noOfPagesForPTE u" using fit by (simp add: image_fits_def)
  define s4 where "s4 = InitializeProcessSpaceForOS c s3"
  have I: "m_uiPageMap s4 = m_uiPageMap s3 \<and> m_uiResvSize s4 = m_uiResvSize s3 \<and> m_uiPageMapSize s4 = m_uiPageMapSize s3 \<and>
    m_uiPTEBase s4 = m_uiPTEBase s3 \<and> mem_wf s4 = mem_wf s3 \<and>
    (\<forall>a. page_no a \<notin> (\<lambda>k. word_of_nat (ts ! k)) ` set [0..<PROCESS_SPACE_FOR_OS] \<longrightarrow> phys s4 a = phys s3 a)"
    unfolding s4_def InitializeProcessSpaceForOS_def
  proof (rule InitOS_frame[OF T(1)])
    show "pc < 2 ^ 20" using new[of pc] by simp
    show "set [0..<PROCESS_SPACE_FOR_OS] \<subseteq> {..<1024}" by (auto simp: PROCESS_SPACE_FOR_OS_def)
    fix k assume "k \<in> set [0..<PROCESS_SPACE_FOR_OS]"
    then have k: "k < PROCESS_SPACE_FOR_OS" "k < noOfPagesForPTE u" using n32 by simp_all
    then show "phys s3 (slot_at pc k) = frame (ts ! k) OR 7 \<and> ts ! k < 2 ^ 20 \<and> ts ! k \<noteq> pc"
      using T(5)[OF k(2)] new[of "ts ! k"] dist T(4) nth_mem[of k ts] by (auto simp: table_slot_def)
  qed
  have same: "phys s4 a = phys s3 a" if "page_no a \<notin> word_of_nat ` set ts" for a
    using I that n32 T(4) by (auto simp: image_iff)
  have tk4: "takes s (pc # ts @ [st]) s4" by (rule takes_fields[OF T(3)]) (use I in simp_all)
  have wf4: "mem_wf s4" using tk4 by (simp add: takes_def)
  have off: "page_no (slot_at p j) \<notin> word_of_nat ` set ts" if "p \<in> {pc, st}" "j < 1024" for p j
    by (rule not_on_page) (use that new dist in auto)
  obtain qs where Q: "takes s4 qs s5" "length qs = noOfPagesForProcess u"
    "\<And>i. i < noOfPagesForProcess u \<Longrightarrow>
      phys s5 (slot_at (ts ! image_table (processBase u) i) (image_pte (processBase u) i)) = frame (qs ! i) OR 7"
    "\<And>a. page_no a \<notin> word_of_nat ` set (ts @ qs) \<Longrightarrow> phys s5 a = phys s4 a"
  proof (rule image_built[OF im[folded s4_def] wf4 fit T(1) _ _ _ T(4)])
    show "pc < 2 ^ 20" "page_used (m_uiPageMap s4) pc" "pc \<notin> set ts" "distinct ts" using new[of pc] I dist by simp_all
    show "p < 2 ^ 20 \<and> page_used (m_uiPageMap s4) p" if "p \<in> set ts" for p using new[of p] I that by simp
    show "phys s4 (slot_at pc (table_slot (processBase u) k)) = frame (ts ! k) OR 7" if "k < noOfPagesForPTE u" for k
      using same[OF off[of pc]] T(5)[OF that] table_slot_bound[OF fit that] by simp
  qed (rule that, assumption+)
  have newq: "q < 2 ^ 20 \<and> \<not> page_used (m_uiPageMap s4) q \<and> page_used (m_uiPageMap s5) q" if "q \<in> set qs" for q by (rule takes_new[OF Q(1) wf4 that])
  have used4: "page_used (m_uiPageMap s4) p" if "p \<in> set (pc # ts @ [st])" for p using new[OF that] I by simp
  have off5: "page_no (slot_at p j) \<notin> word_of_nat ` set (ts @ qs)" if "p \<in> {pc, st}" "j < 1024" for p j
    by (rule not_on_page) (use that new dist newq used4 in auto)
  have wf5: "mem_wf s5" and tk5: "takes s ((pc # ts @ [st]) @ qs) s5" using Q(1) takes_trans[OF tk4 Q(1)] by (simp_all add: takes_def)
  have used5: "page_used (m_uiPageMap s5) p" if "p \<in> set ((pc # ts @ [st]) @ qs)" for p using takes_new[OF tk5 wf that] by simp
  obtain ks where K: "takes s5 ks t" "length ks = 9"
    "\<And>i. i < 9 \<Longrightarrow> phys t (slot_at st (1023 - i)) = frame (ks ! i) OR (if i > 7 then 7 else 3)"
    "\<And>j. j < 1015 \<Longrightarrow> phys t (slot_at st j) = 2"
    "\<And>a. page_no a \<notin> word_of_nat ` set (st # ks) \<Longrightarrow> phys t a = phys s5 a"
  proof (rule stack_built[OF sl wf5 T(2)])
    show "st < 2 ^ 20" "page_used (m_uiPageMap s5) st" using new[of st] used5[of st] by simp_all
    show "phys s5 (slot_at st j) = 2" if "j < 1024" for j
      using Q(4)[OF off5[OF _ that]] same[OF off[OF _ that]] T(6)[OF that] by simp
  qed (rule that, assumption+)
  have newk: "q < 2 ^ 20 \<and> \<not> page_used (m_uiPageMap s5) q" if "q \<in> set ks" for q using takes_new[OF K(1) wf5 that] by simp
  have off6: "page_no (slot_at p j) \<notin> word_of_nat ` set (st # ks)" if "p \<in> set (pc # ts)" "j < 1024" for p j
    by (rule not_on_page) (use that new dist newk used5 in auto)
  have tk: "takes s (pc # ts @ st # qs @ ks) t" using takes_trans[OF tk5 K(1)] by simp
  have B: "built s u t pc ts st qs ks"
    unfolding built_def
  proof (intro conjI allI impI)
    show "phys t (slot_at pc (table_slot (processBase u) k)) = frame (ts ! k) OR 7" if "k < noOfPagesForPTE u" for k
      using table_slot_bound[OF fit that] K(5)[OF off6[of pc]] Q(4)[OF off5[of pc]] same[OF off[of pc]] T(5)[OF that] by simp
    show "phys t (slot_at (ts ! image_table (processBase u) i) (image_pte (processBase u) i)) = frame (qs ! i) OR 7" if "i < noOfPagesForProcess u" for i
      using image_table_bound[OF fit that] T(4) K(5)[OF off6[OF _ image_pte_bound]] Q(3)[OF that] by simp
    show "phys t a = phys s a" if "page_no a \<notin> word_of_nat ` set (pc # ts @ st # qs @ ks)" for a
      using that K(5)[of a] Q(4)[of a] same[of a] T(7)[of a] by (simp add: image_Un)
  qed (use tk T(4) Q(2) K in simp_all)
  show ?thesis by (rule that[OF B T(1)]) (use u' T(2) in simp_all)
qed

section \<open>The image in its pages\<close>

lemma page_no_align: "page_no (a AND NOT 3) = page_no a"
proof -
  have m: "NOT (3 :: u32) = NOT (mask 2)" by (simp add: mask_eq_exp_minus_1)
  have "bit (drop_bit 12 (a AND NOT (mask 2))) k \<longleftrightarrow> bit (drop_bit 12 a) k" for k
  proof (cases "12 + k < 32")
    case True
    then show ?thesis by (simp only: bit_drop_bit_eq bit_and_iff bit_not_iff bit_mask_iff) (simp add: bit_simps)
  next
    case False
    then have "\<not> bit a (12 + k)" "\<not> bit (a AND NOT (mask 2)) (12 + k)"
      using bit_imp_le_length[of a "12 + k"] bit_imp_le_length[of "a AND NOT (mask 2)" "12 + k"] by auto
    then show ?thesis by (simp only: bit_drop_bit_eq o_apply)
  qed
  then show ?thesis unfolding page_no_def m by (intro bit_eqI) simp
qed

lemma page_offset: "p < 2 ^ 20 \<Longrightarrow> j < 4096 \<Longrightarrow> unat (word_of_nat p * PAGE_SIZE + word_of_nat j :: u32) = p * 4096 + j"
  by (simp add: PAGE_SIZE_def unat_word_ariths unat_of_nat)

lemma offset_page: "p < 2 ^ 20 \<Longrightarrow> j < 4096 \<Longrightarrow> page_no (word_of_nat p * PAGE_SIZE + word_of_nat j) = word_of_nat p"
proof -
  assume a: "p < 2 ^ 20" "j < 4096"
  then have "unat (page_no (word_of_nat p * PAGE_SIZE + word_of_nat j)) = p"
    by (simp add: page_no_def drop_bit_eq_div unat_div page_offset)
  then show ?thesis by (metis unat_page word_unat_eq_iff a(1))
qed

lemma poke_bytes_fields [simp]: "m_uiPageMap (poke_bytes a bs s) = m_uiPageMap s" "m_uiPageMapSize (poke_bytes a bs s) = m_uiPageMapSize s"
  by (induction bs arbitrary: a s) (auto simp: poke8_def poke_def Let_def)

text \<open>A block that stays within a page changes that page only.\<close>

lemma poke_bytes_page:
  assumes "p < 2 ^ 20" "j + length bs \<le> 4096" "page_no x \<noteq> word_of_nat p"
  shows "phys (poke_bytes (word_of_nat p * PAGE_SIZE + word_of_nat j) bs s) x = phys s x"
  using assms(2)
proof (induction bs arbitrary: j s)
  case (Cons b bs)
  have "page_no ((word_of_nat p * PAGE_SIZE + word_of_nat j) AND NOT 3) = word_of_nat p"
    using Cons.prems assms(1) by (simp only: page_no_align) (simp add: offset_page)
  then have "phys (poke8 (word_of_nat p * PAGE_SIZE + word_of_nat j) b s) x = phys s x"
    using assms(3) by (auto simp: poke8_def poke_def Let_def)
  moreover have "word_of_nat p * PAGE_SIZE + word_of_nat j + 1 = (word_of_nat p * PAGE_SIZE + word_of_nat (j + 1) :: u32)" by simp
  ultimately show ?case using Cons.IH[of "j + 1"] Cons.prems by (simp only: poke_bytes.simps) simp
qed simp

lemma peek8_phys: "phys s (x AND NOT 3) = phys t (x AND NOT 3) \<Longrightarrow> peek8 s x = peek8 t x"
  by (simp add: peek8_def)

lemma peek8_page: "(\<And>a. page_no a = page_no x \<Longrightarrow> phys s a = phys t a) \<Longrightarrow> peek8 s x = peek8 t x"
  by (rule peek8_phys) (use page_no_align in blast)

lemma copy_loop_pages:
  assumes H: "\<And>k v. k < N \<Longrightarrow> (\<And>a. page_no a \<notin> word_of_nat ` Q ` {..<N} \<Longrightarrow> phys v a = phys s0 a) \<Longrightarrow>
      entry_at (table_of c (image_pde b k) v) (image_pte b k) v AND 0xFFFFF000 = word_of_nat (Q k) * PAGE_SIZE"
    and Q: "\<And>k. k < N \<Longrightarrow> Q k < 2 ^ 20" "inj_on Q {..<N}"
    and s: "\<And>a. page_no a \<notin> word_of_nat ` Q ` {..<N} \<Longrightarrow> phys s a = phys s0 a"
    and len: "length bs \<le> (N - i) * 4096" "length bs \<le> n * 4096"
  shows "(\<forall>a. page_no a \<notin> word_of_nat ` Q ` {i..<N} \<longrightarrow> phys (copy_loop c b i n bs s) a = phys s a) \<and>
    (\<forall>k < length bs. peek8 (copy_loop c b i n bs s) (word_of_nat (Q (i + k div 4096)) * PAGE_SIZE + word_of_nat (k mod 4096)) = bs ! k) \<and>
    m_uiPageMap (copy_loop c b i n bs s) = m_uiPageMap s"
  using s len
proof (induction n arbitrary: i bs s)
  case (Suc n)
  show ?case
  proof (cases "i < N")
    case False
    then have "bs = []" using Suc.prems(2) by simp
    then show ?thesis by simp
  next
    case i: True
    define P where "P = word_of_nat (Q i) * PAGE_SIZE"
    have pg: "entry_at (table_of c (image_pde b i) s) (image_pte b i) s AND 0xFFFFF000 = P"
      unfolding P_def by (rule H[OF i]) (use Suc.prems(1) in auto)
    define t where "t = poke_bytes P (take 4096 bs) s"
    define r where "r = copy_loop c b i (Suc n) bs s"
    have r: "r = (if length bs \<le> 4096 then t else copy_loop c b (Suc i) n (drop 4096 bs) t)"
      by (simp add: r_def t_def pg Let_def PAGE_SIZE_def)
    have here: "phys t a = phys s a" if "page_no a \<noteq> word_of_nat (Q i)" for a
      unfolding t_def P_def using poke_bytes_page[OF Q(1)[OF i], of 0 "take 4096 bs" a s] that by simp
    have bytes: "peek8 t (P + word_of_nat k) = bs ! k" if "k < length bs" "k < 4096" for k
      unfolding t_def using peek_poke_bytes[of "take 4096 bs" P s "P + word_of_nat k"] that by (simp add: unat_of_nat)
    have map: "m_uiPageMap t = m_uiPageMap s" by (simp add: t_def)
    show ?thesis unfolding r_def[symmetric]
    proof (cases "length bs \<le> 4096")
      case True
      have "phys r a = phys s a" if "page_no a \<notin> word_of_nat ` Q ` {i..<N}" for a
      proof -
        have "(word_of_nat (Q i) :: u32) \<in> word_of_nat ` Q ` {i..<N}" using i by simp
        then have "page_no a \<noteq> word_of_nat (Q i)" using that by metis
        then show ?thesis using here r True by simp
      qed
      moreover have "peek8 r (word_of_nat (Q (i + k div 4096)) * PAGE_SIZE + word_of_nat (k mod 4096)) = bs ! k" if "k < length bs" for k
        using bytes[of k] that True r by (simp add: P_def)
      ultimately show "(\<forall>a. page_no a \<notin> word_of_nat ` Q ` {i..<N} \<longrightarrow> phys r a = phys s a) \<and>
          (\<forall>k < length bs. peek8 r (word_of_nat (Q (i + k div 4096)) * PAGE_SIZE + word_of_nat (k mod 4096)) = bs ! k) \<and>
          m_uiPageMap r = m_uiPageMap s"
        using r True map by auto
    next
      case False
      have re: "r = copy_loop c b (Suc i) n (drop 4096 bs) t" using r False by simp
      have "(\<forall>a. page_no a \<notin> word_of_nat ` Q ` {Suc i..<N} \<longrightarrow> phys r a = phys t a) \<and>
          (\<forall>k < length (drop 4096 bs). peek8 r (word_of_nat (Q (Suc i + k div 4096)) * PAGE_SIZE + word_of_nat (k mod 4096)) = drop 4096 bs ! k) \<and>
          m_uiPageMap r = m_uiPageMap t"
        unfolding re
      proof (rule Suc.IH)
        show "phys t a = phys s0 a" if "page_no a \<notin> word_of_nat ` Q ` {..<N}" for a
          using here[of a] Suc.prems(1)[OF that] that i by auto
        have "(N - i) * 4096 = 4096 + (N - Suc i) * 4096" using i by (metis Suc_diff_Suc mult_Suc)
        then show "length (drop 4096 bs) \<le> (N - Suc i) * 4096" using Suc.prems(2) by simp
        show "length (drop 4096 bs) \<le> n * 4096" using Suc.prems(3) by simp
      qed
      then have IH: "\<And>a. page_no a \<notin> word_of_nat ` Q ` {Suc i..<N} \<Longrightarrow> phys r a = phys t a"
          "\<And>k. k < length bs - 4096 \<Longrightarrow> peek8 r (word_of_nat (Q (Suc i + k div 4096)) * PAGE_SIZE + word_of_nat (k mod 4096)) = bs ! (4096 + k)"
          "m_uiPageMap r = m_uiPageMap t" by auto
      have first: "word_of_nat (Q i) \<notin> (word_of_nat ` Q ` {Suc i..<N} :: u32 set)"
      proof
        assume "word_of_nat (Q i) \<in> (word_of_nat ` Q ` {Suc i..<N} :: u32 set)"
        then obtain j where j: "Suc i \<le> j" "j < N" "(word_of_nat (Q i) :: u32) = word_of_nat (Q j)" by auto
        then have "Q i = Q j" using page_word_inj[OF Q(1)[OF i] Q(1)[OF j(2)]] by simp
        then show False using inj_onD[OF Q(2), of i j] i j by simp
      qed
      have "peek8 r (word_of_nat (Q (i + k div 4096)) * PAGE_SIZE + word_of_nat (k mod 4096)) = bs ! k" if k: "k < length bs" for k
      proof (cases "k < 4096")
        case True
        have "peek8 r (P + word_of_nat k) = peek8 t (P + word_of_nat k)"
        proof (rule peek8_page)
          fix a assume "page_no a = page_no (P + word_of_nat k)"
          then have "page_no a = word_of_nat (Q i)" using offset_page[OF Q(1)[OF i] True] by (simp add: P_def)
          then show "phys r a = phys t a" using IH(1)[of a] first by simp
        qed
        then show ?thesis using bytes[OF k True] True by (simp add: P_def)
      next
        case False
        then obtain l where l: "k = 4096 + l" by (metis le_add_diff_inverse not_less)
        have "k div 4096 = Suc (l div 4096)" "k mod 4096 = l mod 4096" by (simp_all add: l)
        then show ?thesis using IH(2)[of l] k l by simp
      qed
      moreover have "phys r a = phys s a" if "page_no a \<notin> word_of_nat ` Q ` {i..<N}" for a
      proof -
        have "(word_of_nat (Q i) :: u32) \<in> word_of_nat ` Q ` {i..<N}" using i by simp
        then have "page_no a \<noteq> word_of_nat (Q i)" using that by metis
        moreover have "word_of_nat ` Q ` {Suc i..<N} \<subseteq> (word_of_nat ` Q ` {i..<N} :: u32 set)" by (intro image_mono) auto
        then have "page_no a \<notin> word_of_nat ` Q ` {Suc i..<N}" using that by (rule contra_subsetD)
        ultimately show ?thesis using here[of a] IH(1)[of a] by simp
      qed
      ultimately show "(\<forall>a. page_no a \<notin> word_of_nat ` Q ` {i..<N} \<longrightarrow> phys r a = phys s a) \<and>
          (\<forall>k < length bs. peek8 r (word_of_nat (Q (i + k div 4096)) * PAGE_SIZE + word_of_nat (k mod 4096)) = bs ! k) \<and>
          m_uiPageMap r = m_uiPageMap s"
        using IH(3) map by simp
    qed
  qed
qed simp

text \<open>Where a process finds byte \<open>k\<close> of its image: its segment starts at \<open>PROCESS_BASE\<close>.\<close>

lemma image_address:
  assumes fit: "image_fits u" and al: "unat (processBase u) mod 4096 = 0" and k: "k < noOfPagesForProcess u * 4096"
  defines "v \<equiv> processBase u + PROCESS_BASE + word_of_nat k"
  shows "pde_index v = word_of_nat (image_pde (processBase u) (k div 4096)) \<and>
    pte_index v = word_of_nat (image_pte (processBase u) (k div 4096)) \<and> v AND 0xFFF = word_of_nat (k mod 4096)"
proof -
  define b where "b = unat (processBase u) div 4096"
  define i where "i = k div 4096"
  have b: "unat (processBase u) = b * 4096" using al by (simp add: b_def) (metis div_mult_mod_eq add_0_right)
  have kk: "k = i * 4096 + k mod 4096" by (simp add: i_def)
  have i: "i < noOfPagesForProcess u" using k by (simp add: i_def)
  have pb: "pdeBase (processBase u) = b div 1024" "pageBase (processBase u) = b mod 1024" by (simp_all add: pdeBase_def pageBase_def b_def)
  have e: "image_pde (processBase u) i = (b + i + 32768) div 1024" "image_pte (processBase u) i = (b + i + 32768) mod 1024"
  proof -
    have "b + i + 32768 = (b mod 1024 + i) + (b div 1024 + 32) * 1024" by simp
    then have "(b + i + 32768) div 1024 = (b mod 1024 + i) div 1024 + (b div 1024 + 32)" "(b + i + 32768) mod 1024 = (b mod 1024 + i) mod 1024"
      by (simp_all only: div_mult_self1 mod_mult_self1)
    then show "image_pde (processBase u) i = (b + i + 32768) div 1024" "image_pte (processBase u) i = (b + i + 32768) mod 1024"
      by (simp_all add: image_pde_def image_pte_def pb PAGE_TABLE_ENTRIES_def PROCESS_SPACE_FOR_OS_def)
  qed
  have "image_pde (processBase u) i < 1024" using image_table_bound[OF fit i] table_slot_bound[OF fit, of "image_table (processBase u) i"] by simp
  then have lt: "b + i + 32768 < 1024 * 1024" using e(1) by simp
  have v: "unat v = (b + i + 32768) * 4096 + k mod 4096"
  proof -
    have "v = word_of_nat ((b + i + 32768) * 4096 + k mod 4096)"
    proof -
      have "processBase u = word_of_nat (b * 4096)" using b by (metis of_nat_unat ucast_id)
      then have "v = word_of_nat (b * 4096 + 32768 * 4096 + k)" by (simp add: v_def PROCESS_BASE_def)
      also have "b * 4096 + 32768 * 4096 + k = (b + i + 32768) * 4096 + k mod 4096" using kk by simp
      finally show ?thesis .
    qed
    moreover have "(b + i + 32768) * 4096 + k mod 4096 < 2 ^ 32" using lt mod_less_divisor[of 4096 k] by simp
    ultimately show ?thesis by (simp only: unat_of_nat) simp
  qed
  have m: "unat (x AND 0x3FF) = unat x mod 1024" "unat (x AND 0xFFF) = unat x mod 4096" for x :: u32
    unfolding word_masks by (simp_all add: take_bit_eq_mask[symmetric] unsigned_take_bit_eq take_bit_eq_mod unat_mod)
  have d: "unat v div 4096 = b + i + 32768" unfolding v by simp
  have "unat (pde_index v) = image_pde (processBase u) i"
  proof -
    have "unat v div 4194304 = unat v div 4096 div 1024" by (simp add: div_mult2_eq[symmetric])
    then show ?thesis using lt by (simp add: pde_index_def m drop_bit_eq_div unat_div d e)
  qed
  moreover have "unat (pte_index v) = image_pte (processBase u) i" by (simp add: pte_index_def m drop_bit_eq_div unat_div d e)
  moreover have "unat (v AND 0xFFF) = k mod 4096" unfolding m v by (simp only: mod_mult_self3 mod_mod_trivial)
  moreover have "unat w = n \<Longrightarrow> w = word_of_nat n" for w :: u32 and n by auto
  ultimately show ?thesis unfolding i_def by blast
qed

text \<open>What the tables of a built space say.\<close>

lemma built_pages:
  assumes B: "built s u t pc ts st qs ks" and wf: "mem_wf s"
  shows "distinct (pc # ts @ st # qs @ ks)" "\<And>p. p \<in> set (pc # ts @ st # qs @ ks) \<Longrightarrow> p < 2 ^ 20"
    "length ts = noOfPagesForPTE u" "length qs = noOfPagesForProcess u" "takes s (pc # ts @ st # qs @ ks) t"
proof -
  show tk: "takes s (pc # ts @ st # qs @ ks) t" and "length ts = noOfPagesForPTE u" "length qs = noOfPagesForProcess u"
    using B by (simp_all add: built_def)
  show "distinct (pc # ts @ st # qs @ ks)" using tk unfolding takes_def by blast
  show "p < 2 ^ 20" if "p \<in> set (pc # ts @ st # qs @ ks)" for p using takes_new[OF tk wf that] by blast
qed

lemma built_image_entry:
  assumes B: "built s u t pc ts st qs ks" and wf: "mem_wf s" and fit: "image_fits u" and c: "c = word_of_nat pc * PAGE_SIZE"
    and i: "i < noOfPagesForProcess u" and same: "\<And>p j. p \<in> set (pc # ts) \<Longrightarrow> j < 1021 \<or> p \<noteq> pc \<and> j < 1024 \<Longrightarrow> phys v (slot_at p j) = phys t (slot_at p j)"
  shows "entry_at c (image_pde (processBase u) i) v = frame (ts ! image_table (processBase u) i) OR 7"
    "table_of c (image_pde (processBase u) i) v = word_of_nat (ts ! image_table (processBase u) i) * PAGE_SIZE"
    "entry_at (word_of_nat (ts ! image_table (processBase u) i) * PAGE_SIZE) (image_pte (processBase u) i) v = frame (qs ! i) OR 7"
    "(frame (qs ! i) OR 7) AND 0xFFFFF000 = word_of_nat (qs ! i) * PAGE_SIZE" "page_of (frame (qs ! i) OR 7) = qs ! i"
proof -
  note P = built_pages[OF B wf]
  have k: "image_table (processBase u) i < noOfPagesForPTE u" "table_slot (processBase u) (image_table (processBase u) i) = image_pde (processBase u) i"
    using image_table_bound[OF fit i] by simp_all
  let ?p = "ts ! image_table (processBase u) i"
  have p: "?p \<in> set ts" "?p < 2 ^ 20" "?p \<noteq> pc" using k(1) P(1-3) nth_mem[of "image_table (processBase u) i" ts] by auto
  have "image_pde (processBase u) i < 1021" using table_slot_bound[OF fit k(1)] k(2) by simp
  then show e: "entry_at c (image_pde (processBase u) i) v = frame ?p OR 7"
    using B k same[of pc] by (auto simp: built_def c entry_at_slot)
  then show "table_of c (image_pde (processBase u) i) v = word_of_nat ?p * PAGE_SIZE"
    using page_of_entry[of ?p 7] p(2) by (simp add: table_of_def)
  show "entry_at (word_of_nat ?p * PAGE_SIZE) (image_pte (processBase u) i) v = frame (qs ! i) OR 7"
    using B i p same[of ?p "image_pte (processBase u) i"] image_pte_bound by (auto simp: built_def entry_at_slot)
  have "qs ! i < 2 ^ 20" using P(2,4) i nth_mem[of i qs] by simp
  then show "(frame (qs ! i) OR 7) AND 0xFFFFF000 = word_of_nat (qs ! i) * PAGE_SIZE" "page_of (frame (qs ! i) OR 7) = qs ! i"
    using page_of_entry[of "qs ! i" 7] by simp_all
qed

lemma off_pages: "q < 2 ^ 20 \<Longrightarrow> (\<And>p. p \<in> A \<Longrightarrow> p < 2 ^ 20) \<Longrightarrow> q \<notin> A \<Longrightarrow> (word_of_nat q :: u32) \<notin> word_of_nat ` A"
  using page_word_inj by auto

text \<open>Copying the image changes its pages only, and every byte is found where the process looks for it.\<close>

lemma image_copied:
  assumes B: "built s u t pc ts st qs ks" and wf: "mem_wf s" and fit: "image_fits u" and c: "c = word_of_nat pc * PAGE_SIZE"
    and u': "processBase u' = processBase u" and len: "length bs \<le> noOfPagesForProcess u * 4096"
    and small: "length bs < 2 ^ 32"
  shows "(\<forall>a. page_no a \<notin> word_of_nat ` set qs \<longrightarrow> phys (CopyElfImage c u' bs t) a = phys t a) \<and>
    (\<forall>k < length bs. peek8 (CopyElfImage c u' bs t) (word_of_nat (qs ! (k div 4096)) * PAGE_SIZE + word_of_nat (k mod 4096)) = bs ! k) \<and>
    m_uiPageMap (CopyElfImage c u' bs t) = m_uiPageMap t"
proof -
  note P = built_pages[OF B wf]
  define n where "n = unat (GetProcessSizeInPages (word_of_nat (length bs)))"
  have nn: "length bs \<le> n * 4096"
  proof (cases "length bs = 0")
    case False
    then have "unat (word_of_nat (length bs) :: u32) = length bs" "0 < length bs" using small by (simp_all add: unat_of_nat)
    then have "unat (word_of_nat (length bs) - 1 :: u32) = length bs - 1" by (metis unat_gt_0 unat_minus_one)
    moreover have "(length bs - 1) div 4096 + 1 < 2 ^ 32" using small by simp
    ultimately have "n = (length bs - 1) div 4096 + 1"
      by (simp add: n_def GetProcessSizeInPages_def PAGE_SIZE_def unat_word_ariths unat_div)
    then show ?thesis using dividend_less_div_times[of 4096 "length bs - 1"] by simp
  qed simp
  have im: "(\<lambda>k. qs ! k) ` {..<noOfPagesForProcess u} = set qs" using P(4) by (auto simp: set_conv_nth)
  have "(\<forall>a. page_no a \<notin> word_of_nat ` (\<lambda>k. qs ! k) ` {0..<noOfPagesForProcess u} \<longrightarrow> phys (copy_loop c (processBase u) 0 n bs t) a = phys t a) \<and>
    (\<forall>k < length bs. peek8 (copy_loop c (processBase u) 0 n bs t) (word_of_nat (qs ! (0 + k div 4096)) * PAGE_SIZE + word_of_nat (k mod 4096)) = bs ! k) \<and>
    m_uiPageMap (copy_loop c (processBase u) 0 n bs t) = m_uiPageMap t"
  proof (rule copy_loop_pages)
    fix k and v :: mem_manager assume k: "k < noOfPagesForProcess u"
      and v: "\<And>a. page_no a \<notin> word_of_nat ` (\<lambda>k. qs ! k) ` {..<noOfPagesForProcess u} \<Longrightarrow> phys v a = phys t a"
    have same: "phys v (slot_at p j) = phys t (slot_at p j)" if "p \<in> set (pc # ts)" "j < 1021 \<or> p \<noteq> pc \<and> j < 1024" for p j
    proof (rule v)
      have p: "p < 2 ^ 20" "p \<notin> set qs" "j < 1024" using that P(1,2) by auto
      show "page_no (slot_at p j) \<notin> word_of_nat ` (\<lambda>k. qs ! k) ` {..<noOfPagesForProcess u}"
        unfolding im slot_page[OF p(1,3)] by (rule off_pages) (use p P(2) in auto)
    qed
    show "entry_at (table_of c (image_pde (processBase u) k) v) (image_pte (processBase u) k) v AND 0xFFFFF000 = word_of_nat (qs ! k) * PAGE_SIZE"
      using built_image_entry[OF B wf fit c k same] by simp
  next
    show "qs ! k < 2 ^ 20" if "k < noOfPagesForProcess u" for k using P(2,4) that nth_mem[of k qs] by simp
    show "inj_on (\<lambda>k. qs ! k) {..<noOfPagesForProcess u}" using P(1,4) by (auto simp: inj_on_def nth_eq_iff_index_eq)
  qed (use len nn in auto)
  then show ?thesis using im by (simp add: CopyElfImage_def u' n_def atLeast0LessThan)
qed

lemma built_size: "built s u t pc ts st qs ks \<Longrightarrow> mem_wf s \<Longrightarrow> noOfPagesForProcess u < 2 ^ 20"
proof -
  assume B: "built s u t pc ts st qs ks" and wf: "mem_wf s"
  note P = built_pages[OF B wf]
  have "set (pc # qs) \<subseteq> {..<2 ^ 20}" using P(2) by auto
  then have "card (set (pc # qs)) \<le> 2 ^ 20" by (metis card_lessThan card_mono finite_lessThan)
  moreover have "card (set (pc # qs)) = Suc (noOfPagesForProcess u)" using P(1,4) by (simp add: distinct_card)
  ultimately show ?thesis by simp
qed

lemma old_page: "takes s ps t \<Longrightarrow> mem_wf s \<Longrightarrow> page_used (m_uiPageMap s) (unat (page_no a)) \<Longrightarrow> page_no a \<notin> word_of_nat ` set ps"
  using takes_new[of s ps t] by (auto simp: unat_page)

text \<open>C9: Where the loader puts a program. After \<open>AllocateAddressSpace\<close> and \<open>CopyElfImage\<close> the process finds byte \<open>k\<close> of its image
  behind its load address, through its own page directory, and no byte of a page that was in use before has changed.
\<close>

theorem process_image_in_place:
  assumes "AllocateAddressSpace u s = (Inr (c, u'), t)" "mem_wf s" "image_fits u" "unat (processBase u) mod 4096 = 0"
    and "length bs \<le> noOfPagesForProcess u * 4096"
  shows "(\<forall>k < length bs. peek8 (CopyElfImage c u' bs t)
        (GetFlatAddress c (processBase u + PROCESS_BASE + word_of_nat k) (CopyElfImage c u' bs t)) = bs ! k) \<and>
    (\<forall>a. page_used (m_uiPageMap s) (unat (page_no a)) \<longrightarrow> peek8 (CopyElfImage c u' bs t) a = peek8 s a)"
proof -
  obtain pc ts st qs ks where B: "built s u t pc ts st qs ks" and c: "c = word_of_nat pc * PAGE_SIZE" and u': "processBase u' = processBase u"
    using AllocateAddressSpace_built[OF assms(1-3)] by metis
  note P = built_pages[OF B assms(2)]
  have small: "length bs < 2 ^ 32" using assms(5) built_size[OF B assms(2)] by simp
  define m where "m = CopyElfImage c u' bs t"
  have M: "\<And>a. page_no a \<notin> word_of_nat ` set qs \<Longrightarrow> phys m a = phys t a"
    "\<And>k. k < length bs \<Longrightarrow> peek8 m (word_of_nat (qs ! (k div 4096)) * PAGE_SIZE + word_of_nat (k mod 4096)) = bs ! k"
    using image_copied[OF B assms(2,3) c u' assms(5) small] by (simp_all add: m_def)
  have same: "phys m (slot_at p j) = phys t (slot_at p j)" if "p \<in> set (pc # ts)" "j < 1021 \<or> p \<noteq> pc \<and> j < 1024" for p j
  proof (rule M)
    have p: "p < 2 ^ 20" "p \<notin> set qs" "j < 1024" using that P(1,2) by auto
    show "page_no (slot_at p j) \<notin> word_of_nat ` set qs"
      unfolding slot_page[OF p(1,3)] by (rule off_pages) (use p P(2) in auto)
  qed
  have "peek8 m (GetFlatAddress c (processBase u + PROCESS_BASE + word_of_nat k) m) = bs ! k" if k: "k < length bs" for k
  proof -
    have i: "k div 4096 < noOfPagesForProcess u" using k assms(5) by (simp add: less_mult_imp_div_less)
    note a = image_address[OF assms(3,4), of k] and e = built_image_entry[OF B assms(2,3) c i same]
    have "GetFlatAddress c (processBase u + PROCESS_BASE + word_of_nat k) m =
        word_of_nat (qs ! (k div 4096)) * PAGE_SIZE + word_of_nat (k mod 4096)"
      using a e k assms(5) entry_present(1) by (simp add: GetFlatAddress_def entry_at_def table_of_def Let_def)
    then show ?thesis using M(2)[OF k] by simp
  qed
  moreover have "peek8 m a = peek8 s a" if "page_used (m_uiPageMap s) (unat (page_no a))" for a
  proof (rule peek8_page)
    fix x assume "page_no x = page_no a"
    then have x: "page_no x \<notin> word_of_nat ` set (pc # ts @ st # qs @ ks)" using old_page[OF P(5) assms(2)] that by metis
    then show "phys m x = phys s x" using M(1)[of x] B by (auto simp: built_def)
  qed
  ultimately show ?thesis by (simp add: m_def)
qed

section \<open>Giving the pages back\<close>

lemma for_each_free:
  assumes "\<And>i (v :: mem_manager). i \<in> set is \<Longrightarrow> phys v = phys s \<Longrightarrow> f i v = (if A i then DeAllocatePhysicalPage (g i) v else ret () v)"
    and "\<And>i. i \<in> set is \<Longrightarrow> A i \<Longrightarrow> g i div 32 < length (m_uiPageMap s)" "phys v = phys s" "length (m_uiPageMap v) = length (m_uiPageMap s)"
  obtains t where "for_each f is v = (Inr (), t)" "phys t = phys s" "length (m_uiPageMap t) = length (m_uiPageMap s)"
    "\<And>q. page_used (m_uiPageMap t) q \<longleftrightarrow> page_used (m_uiPageMap v) q \<and> q \<notin> g ` {i \<in> set is. A i}"
proof -
  have "\<exists>t. for_each f is v = (Inr (), t) \<and> phys t = phys s \<and> length (m_uiPageMap t) = length (m_uiPageMap s) \<and>
      (\<forall>q. page_used (m_uiPageMap t) q \<longleftrightarrow> page_used (m_uiPageMap v) q \<and> q \<notin> g ` {i \<in> set is. A i})"
    using assms
  proof (induction "is" arbitrary: v)
    case (Cons i "is")
    have "\<exists>w. f i v = (Inr (), w) \<and> phys w = phys s \<and> length (m_uiPageMap w) = length (m_uiPageMap s) \<and>
        (\<forall>q. page_used (m_uiPageMap w) q \<longleftrightarrow> page_used (m_uiPageMap v) q \<and> \<not> (A i \<and> q = g i))"
    proof (cases "A i")
      case True
      then have "f i v = DeAllocatePhysicalPage (g i) v" "g i div 32 < length (m_uiPageMap v)" using Cons.prems by simp_all
      then obtain w where w: "f i v = (Inr (), w)" "DeAllocatePhysicalPage (g i) v = (Inr (), w)" "phys w = phys v"
          "length (m_uiPageMap w) = length (m_uiPageMap v)"
        by (auto simp: DeAllocatePhysicalPage_def Let_def clear_page_bit_def)
      then show ?thesis using True DeAllocatePhysicalPage_used[OF w(2)] Cons.prems(3,4) by auto
    next
      case False
      then show ?thesis using Cons.prems by simp
    qed
    then obtain w where w: "f i v = (Inr (), w)" "phys w = phys s" "length (m_uiPageMap w) = length (m_uiPageMap s)"
        "\<And>q. page_used (m_uiPageMap w) q \<longleftrightarrow> page_used (m_uiPageMap v) q \<and> \<not> (A i \<and> q = g i)" by blast
    have "\<exists>t. for_each f is w = (Inr (), t) \<and> phys t = phys s \<and> length (m_uiPageMap t) = length (m_uiPageMap s) \<and>
        (\<forall>q. page_used (m_uiPageMap t) q \<longleftrightarrow> page_used (m_uiPageMap w) q \<and> q \<notin> g ` {i \<in> set is. A i})"
      by (rule Cons.IH[OF _ _ w(2,3)]) (use Cons.prems(1,2) in auto)
    then show ?case using w by (auto simp: andThen_Inr_iff)
  qed simp
  then show ?thesis using that by blast
qed

lemma free_page:
  assumes "p div 32 < length (m_uiPageMap v)"
  obtains t where "DeAllocatePhysicalPage p v = (Inr (), t)" "phys t = phys v" "length (m_uiPageMap t) = length (m_uiPageMap v)"
    "\<And>q. page_used (m_uiPageMap t) q \<longleftrightarrow> page_used (m_uiPageMap v) q \<and> q \<noteq> p"
proof -
  obtain t where "DeAllocatePhysicalPage p v = (Inr (), t)" "phys t = phys v" "length (m_uiPageMap t) = length (m_uiPageMap v)"
    using assms by (auto simp: DeAllocatePhysicalPage_def Let_def clear_page_bit_def)
  then show ?thesis using that DeAllocatePhysicalPage_used by blast
qed

lemma page_address: "p < 2 ^ 20 \<Longrightarrow> unat (word_of_nat p * PAGE_SIZE div PAGE_SIZE :: u32) = p"
  by (simp add: PAGE_SIZE_def unat_div unat_word_ariths unat_of_nat)

lemma nth_image_all: "(\<lambda>i. xs ! i) ` {i. i < length xs} = set xs"
  by (auto simp: set_conv_nth)

lemma taken_nonzero: "takes s ps t \<Longrightarrow> mem_wf s \<Longrightarrow> p \<in> set ps \<Longrightarrow> p \<noteq> 0"
  by (auto simp: takes_def allocatable_def mem_wf_def)

lemma stack_entries:
  assumes B: "built s u t pc ts st qs ks" and wf: "mem_wf s" and j: "j < 1024"
    and v: "phys v (slot_at st j) = phys t (slot_at st j)"
  shows "let e = entry_at (word_of_nat st * PAGE_SIZE) j v in
    (e AND 1 \<noteq> 0 \<and> e AND 0xFFFFF000 \<noteq> 0 \<longleftrightarrow> 1015 \<le> j) \<and> (1015 \<le> j \<longrightarrow> page_of e = ks ! (1023 - j))"
proof (cases "1015 \<le> j")
  case False
  then have "entry_at (word_of_nat st * PAGE_SIZE) j v = 2" using B v by (simp add: built_def entry_at_slot)
  then show ?thesis using False by (simp add: Let_def)
next
  case True
  define f :: u32 where "f = (if 1023 - j > 7 then 7 else 3)"
  have k: "1023 - j < 9" "1023 - (1023 - j) = j" using True j by simp_all
  then have e: "entry_at (word_of_nat st * PAGE_SIZE) j v = frame (ks ! (1023 - j)) OR f"
    using B v unfolding built_def entry_at_slot f_def by (metis (mono_tags, lifting))
  have "length ks = 9" using B by (simp add: built_def)
  then have m: "ks ! (1023 - j) \<in> set (pc # ts @ st # qs @ ks)" using k by simp
  then have p: "ks ! (1023 - j) < 2 ^ 20" "ks ! (1023 - j) \<noteq> 0"
    using built_pages(2)[OF B wf m] taken_nonzero[OF built_pages(5)[OF B wf] wf m] by simp_all
  have "unat (word_of_nat (ks ! (1023 - j)) * PAGE_SIZE :: u32) \<noteq> 0"
    using page_offset[OF p(1), of 0] p(2) by simp
  then have "word_of_nat (ks ! (1023 - j)) * PAGE_SIZE \<noteq> (0 :: u32)" by auto
  then show ?thesis using True page_of_entry[OF p(1), of f] by (simp add: e Let_def) (simp add: f_def)
qed

lemma DeAllocateAddressSpace_frees:
  assumes B: "built s u t pc ts st qs ks" and wf: "mem_wf s" and fit: "image_fits u"
    and same: "\<And>p j. p \<in> set (pc # ts @ [st]) \<Longrightarrow> j < 1021 \<or> p \<noteq> pc \<and> j < 1024 \<Longrightarrow> phys v (slot_at p j) = phys t (slot_at p j)"
    and map: "m_uiPageMap v = m_uiPageMap t"
    and w: "CR3_PDBR w = word_of_nat pc * PAGE_SIZE" "stackPTEAddress w = word_of_nat st * PAGE_SIZE"
      "processBase w = processBase u" "noOfPagesForProcess w = noOfPagesForProcess u" "noOfPagesForPTE w = noOfPagesForPTE u"
  obtains r where "DeAllocateAddressSpace w v = (Inr (), r)" "\<And>q. page_used (m_uiPageMap r) q \<longleftrightarrow> page_used (m_uiPageMap s) q"
proof -
  note P = built_pages[OF B wf]
  have new: "p < 2 ^ 20 \<and> p div 32 < length (m_uiPageMap v) \<and> \<not> page_used (m_uiPageMap s) p" if "p \<in> set (pc # ts @ st # qs @ ks)" for p
  proof -
    have "p < m_uiPageMapSize t * 32" "m_uiPageMapSize t \<le> length (m_uiPageMap t)"
      using P(5) that by (auto simp: takes_def allocatable_def mem_wf_def)
    then show ?thesis using takes_new[OF P(5) wf that] map by simp
  qed
  have ne: "st \<noteq> pc" "st \<notin> set ts" "pc \<notin> set ts" and lk: "length ks = 9" using P(1) B by (auto simp: built_def)
  define b where "b = processBase u"
  obtain r1 where r1: "for_each (\<lambda>i s. DeAllocatePhysicalPage
         (page_of (entry_at (table_of (CR3_PDBR w) (image_pde (processBase w) i) s) (image_pte (processBase w) i) s)) s)
       [0..<noOfPagesForProcess w] v = (Inr (), r1)" "phys r1 = phys v" "length (m_uiPageMap r1) = length (m_uiPageMap v)"
    "\<And>q. page_used (m_uiPageMap r1) q \<longleftrightarrow> page_used (m_uiPageMap v) q \<and> q \<notin> (\<lambda>i. qs ! i) ` {i \<in> set [0..<noOfPagesForProcess w]. True}"
  proof (rule for_each_free[where A = "\<lambda>_. True" and g = "\<lambda>i. qs ! i" and s = v])
    fix i and x :: mem_manager assume i: "i \<in> set [0..<noOfPagesForProcess w]" and x: "phys x = phys v"
    have "i < noOfPagesForProcess u" using i w(4) by simp
    moreover have "phys x (slot_at p j) = phys t (slot_at p j)" if "p \<in> set (pc # ts)" "j < 1021 \<or> p \<noteq> pc \<and> j < 1024" for p j
      using same[of p j] that x by auto
    ultimately have "page_of (entry_at (table_of (CR3_PDBR w) (image_pde (processBase w) i) x) (image_pte (processBase w) i) x) = qs ! i"
      using built_image_entry[OF B wf fit refl, of i x] w by simp
    then show "DeAllocatePhysicalPage (page_of (entry_at (table_of (CR3_PDBR w) (image_pde (processBase w) i) x) (image_pte (processBase w) i) x)) x =
        (if True then DeAllocatePhysicalPage (qs ! i) x else ret () x)" by simp
  qed (use new P(4) w(4) in auto)
  obtain r2 where r2: "DeAllocateStackSpace (stackPTEAddress w) r1 = (Inr (), r2)" "phys r2 = phys v"
      "length (m_uiPageMap r2) = length (m_uiPageMap v)"
      "\<And>q. page_used (m_uiPageMap r2) q \<longleftrightarrow> page_used (m_uiPageMap r1) q \<and> q \<notin> (\<lambda>j. ks ! (1023 - j)) ` {j \<in> set [0..<1024]. 1015 \<le> j}"
    unfolding DeAllocateStackSpace_def PAGE_TABLE_ENTRIES_def
  proof (rule for_each_free[where A = "\<lambda>j. 1015 \<le> j" and g = "\<lambda>j. ks ! (1023 - j)" and s = v and v = r1])
    fix j and x :: mem_manager assume j: "j \<in> set [0..<1024]" and x: "phys x = phys v"
    have "phys x (slot_at st j) = phys t (slot_at st j)" using same[of st j] x j ne by simp
    then show "(let e = entry_at (stackPTEAddress w) j x in
        if e AND 1 \<noteq> 0 \<and> e AND 0xFFFFF000 \<noteq> 0 then DeAllocatePhysicalPage (page_of e) x else ret () x) =
        (if 1015 \<le> j then DeAllocatePhysicalPage (ks ! (1023 - j)) x else ret () x)"
      using stack_entries[OF B wf, of j x] j w(2) by (simp add: Let_def split: if_splits)
  next
    show "ks ! (1023 - j) div 32 < length (m_uiPageMap v)" if "1015 \<le> j" "j \<in> set [0..<1024]" for j
      using new[of "ks ! (1023 - j)"] that lk by simp
  qed (use r1 in auto)
  obtain r3 where r3: "for_each (\<lambda>i s. DeAllocatePhysicalPage (page_of (entry_at (CR3_PDBR w) (table_slot (processBase w) i) s)) s)
       [0..<noOfPagesForPTE w] r2 = (Inr (), r3)" "phys r3 = phys v" "length (m_uiPageMap r3) = length (m_uiPageMap v)"
    "\<And>q. page_used (m_uiPageMap r3) q \<longleftrightarrow> page_used (m_uiPageMap r2) q \<and> q \<notin> (\<lambda>i. ts ! i) ` {i \<in> set [0..<noOfPagesForPTE w]. True}"
  proof (rule for_each_free[where A = "\<lambda>_. True" and g = "\<lambda>i. ts ! i" and s = v and v = r2])
    fix i and x :: mem_manager assume i: "i \<in> set [0..<noOfPagesForPTE w]" and x: "phys x = phys v"
    have i': "i < noOfPagesForPTE u" using i w(5) by simp
    have "ts ! i < 2 ^ 20" using P(2,3) i' nth_mem[of i ts] by simp
    moreover have "entry_at (CR3_PDBR w) (table_slot (processBase w) i) x = frame (ts ! i) OR 7"
      using B i' same[of pc "table_slot (processBase u) i"] table_slot_bound[OF fit i'] x w by (simp add: built_def entry_at_slot)
    ultimately have "page_of (entry_at (CR3_PDBR w) (table_slot (processBase w) i) x) = ts ! i" using page_of_entry[of "ts ! i" 7] by simp
    then show "DeAllocatePhysicalPage (page_of (entry_at (CR3_PDBR w) (table_slot (processBase w) i) x)) x =
        (if True then DeAllocatePhysicalPage (ts ! i) x else ret () x)" by simp
  qed (use new P(3) w(5) r2 in auto)
  have st: "unat (stackPTEAddress w div PAGE_SIZE) = st" "unat (CR3_PDBR w div PAGE_SIZE) = pc"
    using w(1,2) page_address new[of st] new[of pc] by simp_all
  obtain r4 where r4: "DeAllocatePhysicalPage st r3 = (Inr (), r4)" "length (m_uiPageMap r4) = length (m_uiPageMap r3)"
      "\<And>q. page_used (m_uiPageMap r4) q \<longleftrightarrow> page_used (m_uiPageMap r3) q \<and> q \<noteq> st"
    using free_page[of st r3] new[of st] r3(3) by auto
  obtain r5 where r5: "DeAllocatePhysicalPage pc r4 = (Inr (), r5)"
      "\<And>q. page_used (m_uiPageMap r5) q \<longleftrightarrow> page_used (m_uiPageMap r4) q \<and> q \<noteq> pc"
    using free_page[of pc r4] new[of pc] r3(3) r4(2) by auto
  have "(\<lambda>i. qs ! i) ` {i \<in> set [0..<noOfPagesForProcess w]. True} = set qs" "(\<lambda>i. ts ! i) ` {i \<in> set [0..<noOfPagesForPTE w]. True} = set ts"
    using P(3,4) w(4,5) nth_image_all[of qs] nth_image_all[of ts] by simp_all
  moreover have "(\<lambda>j. ks ! (1023 - j)) ` {j \<in> set [0..<1024]. 1015 \<le> j} = set ks"
  proof -
    have "ks ! i \<in> (\<lambda>j. ks ! (1023 - j)) ` {j \<in> set [0..<1024]. 1015 \<le> j}" if "i < 9" for i
      by (rule image_eqI[of _ _ "1023 - i"]) (use that in auto)
    then show ?thesis using lk by (auto simp: set_conv_nth)
  qed
  moreover have "page_used (m_uiPageMap v) q \<longleftrightarrow> page_used (m_uiPageMap s) q \<or> q \<in> set (pc # ts @ st # qs @ ks)" for q
    using P(5) map by (simp add: takes_def)
  ultimately have "page_used (m_uiPageMap r5) q \<longleftrightarrow> page_used (m_uiPageMap s) q" for q
    using r1(4) r2(4) r3(4) r4(3) r5(2) new[of q] by auto
  moreover have "DeAllocateAddressSpace w v = (Inr (), r5)"
    using r1(1) r2(1) r3(1) r4(1) r5(1) by (simp add: DeAllocateAddressSpace_def DeAllocateProcessSpace_def DeAllocatePTE_def andThen_Inr_iff st)
  ultimately show ?thesis using that by blast
qed

text \<open>C10: The life of an address space. Building it, copying the image, installing the stack's table and giving it back, as
  \<open>Load\<close>, \<open>onLoad\<close> and \<open>Release\<close> do, never fails once the pages could be taken and leaves the page map as it was.
\<close>

theorem address_space_returned:
  assumes "AllocateAddressSpace u s = (Inr (c, u'), t)" "mem_wf s" "image_fits u" "length bs \<le> noOfPagesForProcess u * 4096"
  defines "w \<equiv> u'\<lparr>CR3_PDBR := c\<rparr>"
  shows "\<exists>r. DeAllocateAddressSpace w (UserProcess_onLoad w (CopyElfImage c u' bs t)) = (Inr (), r) \<and>
    (\<forall>q. page_used (m_uiPageMap r) q \<longleftrightarrow> page_used (m_uiPageMap s) q)"
proof -
  obtain pc ts st qs ks where B: "built s u t pc ts st qs ks" and c: "c = word_of_nat pc * PAGE_SIZE"
      and u': "stackPTEAddress u' = word_of_nat st * PAGE_SIZE" "processBase u' = processBase u"
        "noOfPagesForProcess u' = noOfPagesForProcess u" "noOfPagesForPTE u' = noOfPagesForPTE u"
    using AllocateAddressSpace_built[OF assms(1-3)] by metis
  note P = built_pages[OF B assms(2)]
  have small: "length bs < 2 ^ 32" using assms(4) built_size[OF B assms(2)] by simp
  define v where "v = UserProcess_onLoad w (CopyElfImage c u' bs t)"
  note M = image_copied[OF B assms(2,3) c u'(2) assms(4) small]
  have m: "m_uiPageMap v = m_uiPageMap t" using M by (simp add: v_def UserProcess_onLoad_def UpdatePDEWithStackPTE_def)
  have "phys v (slot_at p j) = phys t (slot_at p j)" if p: "p \<in> set (pc # ts @ [st])" "j < 1021 \<or> p \<noteq> pc \<and> j < 1024" for p j
  proof -
    have p': "p < 2 ^ 20" "p \<notin> set qs" "j < 1024" "pc < 2 ^ 20" using p P(1,2) by auto
    have "phys (CopyElfImage c u' bs t) (slot_at p j) = phys t (slot_at p j)"
      by (rule M[THEN conjunct1, rule_format], unfold slot_page[OF p'(1,3)], rule off_pages) (use p' P(2) in auto)
    moreover have "slot_at p j \<noteq> slot_at pc 1022" using slot_inj[OF p'(1,4,3), of 1022] p(2) by auto
    ultimately show ?thesis
      by (simp add: v_def UserProcess_onLoad_def UpdatePDEWithStackPTE_def w_def c set_entry_phys PROCESS_STACK_PDE_ID_def)
  qed
  then obtain r where "DeAllocateAddressSpace w v = (Inr (), r)" "\<And>q. page_used (m_uiPageMap r) q \<longleftrightarrow> page_used (m_uiPageMap s) q"
    using DeAllocateAddressSpace_frees[OF B assms(2,3) _ m, of w] c u' by (auto simp: w_def)
  then show ?thesis by (auto simp: v_def)
qed

section \<open>Enough pages\<close>

definition free_pages :: "mem_manager \<Rightarrow> nat set" where "free_pages s = {p. allocatable s p}"

lemma free_pages_finite: "finite (free_pages s)"
  by (rule finite_subset[of _ "{..<m_uiPageMapSize s * 32}"]) (auto simp: free_pages_def allocatable_def)

text \<open>A step that leaves the page map alone.\<close>

definition keeps_map :: "(mem_manager \<Rightarrow> mem_manager) \<Rightarrow> bool" where
  "keeps_map f \<longleftrightarrow> (\<forall>s. m_uiPageMap (f s) = m_uiPageMap s \<and> m_uiResvSize (f s) = m_uiResvSize s \<and>
     m_uiPageMapSize (f s) = m_uiPageMapSize s \<and> mem_wf (f s) = mem_wf s)"

lemma keeps_set_entry: "keeps_map (set_entry a i v)" "keeps_map (\<lambda>s. set_entry (f s) i v s)"
  by (simp_all add: keeps_map_def)

lemma keeps_id: "keeps_map (\<lambda>s. s)"
  by (simp add: keeps_map_def)

lemma keeps_fold: "(\<And>x. keeps_map (g x)) \<Longrightarrow> keeps_map (fold g xs)"
  by (induction xs) (auto simp: keeps_map_def)

lemma keeps_clear: "keeps_map (clear_table a)"
  unfolding clear_table_def by (rule keeps_fold) (rule keeps_set_entry)

lemma keeps_os: "keeps_map (InitializeProcessSpaceForOS c)"
proof -
  have "keeps_map (fold (\<lambda>j t. set_entry a j (h t j) t) xs)" for a xs and h :: "mem_manager \<Rightarrow> nat \<Rightarrow> u32"
    by (rule keeps_fold) (simp add: keeps_map_def)
  then have "keeps_map (os_table a i)" for a i by (simp add: keeps_map_def os_table_def)
  then show ?thesis unfolding InitializeProcessSpaceForOS_def by (intro keeps_fold) (simp add: keeps_map_def)
qed

lemma keeps_free: "keeps_map f \<Longrightarrow> free_pages (f s) = free_pages s"
  by (simp add: keeps_map_def free_pages_def allocatable_def)

text \<open>A computation that takes exactly \<open>n\<close> pages; when there are fewer it fails, and has taken all of them.\<close>

definition needs :: "nat \<Rightarrow> (mem_manager, mem_fault, 'a) comp \<Rightarrow> bool" where
  "needs n f \<longleftrightarrow> (\<forall>s. mem_wf s \<longrightarrow>
     (if n \<le> card (free_pages s) then \<exists>x t. f s = (Inr x, t) \<and> mem_wf t \<and> card (free_pages t) = card (free_pages s) - n
      else \<exists>t. f s = (Inl OutOfMemoryPages, t) \<and> mem_wf t \<and> free_pages t = {}))"

lemma needs_page: "needs 1 AllocatePhysicalPage"
  unfolding needs_def
proof (intro allI impI)
  fix s assume wf: "mem_wf s"
  show "if 1 \<le> card (free_pages s) then \<exists>x t. AllocatePhysicalPage s = (Inr x, t) \<and> mem_wf t \<and> card (free_pages t) = card (free_pages s) - 1
      else \<exists>t. AllocatePhysicalPage s = (Inl OutOfMemoryPages, t) \<and> mem_wf t \<and> free_pages t = {}"
  proof (cases "AllocatePhysicalPage s")
    case (Pair r t)
    show ?thesis
    proof (cases r)
      case (Inl e)
      then have "\<not> allocatable s p" "e = OutOfMemoryPages" "t = s" for p using Pair AllocatePhysicalPage_Inl[of s e t] by auto
      then have "free_pages s = {}" by (auto simp: free_pages_def)
      then show ?thesis using Pair Inl \<open>e = _\<close> \<open>t = s\<close> wf by simp
    next
      case (Inr p)
      note a = Pair[unfolded Inr]
      have "free_pages t = free_pages s - {p}"
        using AllocatePhysicalPage_used[OF a wf] AllocatePhysicalPage_Inr[OF a wf] by (auto simp: free_pages_def allocatable_def)
      moreover have "p \<in> free_pages s" using AllocatePhysicalPage_Inr[OF a wf] by (simp add: free_pages_def)
      ultimately have "card (free_pages t) = card (free_pages s) - 1" "0 < card (free_pages s)"
        using free_pages_finite[of s] by (auto simp: card_gt_0_iff)
      then show ?thesis using a mem_wf_alloc[OF a wf] by simp
    qed
  qed
qed

lemma needs_modify: "keeps_map f \<Longrightarrow> needs 0 (modify_mem f)"
  using keeps_free[of f] by (simp add: needs_def modify_mem_def keeps_map_def)

lemma needs_ret: "needs 0 (ret x)"
  by (simp add: needs_def ret_def)

lemma needs_andThen:
  assumes f: "needs m f" and g: "\<And>x. needs n (g x)"
  shows "needs (m + n) (andThen f g)"
  unfolding needs_def
proof (intro allI impI)
  fix s assume wf: "mem_wf s"
  let ?c = "\<lambda>s. card (free_pages s)"
  show "if m + n \<le> ?c s then \<exists>x t. andThen f g s = (Inr x, t) \<and> mem_wf t \<and> ?c t = ?c s - (m + n)
      else \<exists>t. andThen f g s = (Inl OutOfMemoryPages, t) \<and> mem_wf t \<and> free_pages t = {}"
  proof (cases "m \<le> ?c s")
    case False
    then obtain t where "f s = (Inl OutOfMemoryPages, t)" "mem_wf t" "free_pages t = {}" using f wf by (metis needs_def)
    then show ?thesis using False by (simp add: andThen_def)
  next
    case True
    then obtain x u where u: "f s = (Inr x, u)" "mem_wf u" "?c u = ?c s - m" using f wf by (metis needs_def)
    then have "andThen f g s = g x u" by (simp add: andThen_def)
    then show ?thesis using g[of x] u(2,3) True by (auto simp: needs_def split: if_splits)
  qed
qed

lemma needs_pte_loop: "needs n (pte_loop c b i n)"
proof (induction n arbitrary: i)
  case (Suc n)
  have "needs (1 + (0 + (0 + n))) (pte_loop c b i (Suc n))" unfolding pte_loop.simps
    by (intro needs_andThen needs_page needs_modify keeps_clear keeps_set_entry Suc.IH)
  then show ?case by simp
qed (simp add: needs_ret)

lemma needs_image_loop: "needs n (image_loop c b i n)"
proof (induction n arbitrary: i)
  case (Suc n)
  have "needs (1 + (0 + n)) (image_loop c b i (Suc n))" unfolding image_loop.simps
    by (intro needs_andThen needs_page needs_modify keeps_set_entry Suc.IH)
  then show ?case by simp
qed (simp add: needs_ret)

lemma needs_stack_loop: "needs n (stack_loop st i n)"
proof (induction n arbitrary: i)
  case (Suc n)
  have "needs (1 + (0 + n)) (stack_loop st i (Suc n))" unfolding stack_loop.simps
    by (intro needs_andThen needs_page needs_modify keeps_set_entry Suc.IH)
  then show ?case by simp
qed (simp add: needs_ret)

lemma AllocateAddressSpace_needs: "needs (noOfPagesForPTE u + noOfPagesForProcess u + 11) (AllocateAddressSpace u)"
proof -
  have assoc: "andThen (andThen f g) h = andThen f (\<lambda>x. andThen (g x) h)"
    for f :: "(mem_manager, mem_fault, 'a) comp" and g :: "'a \<Rightarrow> (mem_manager, mem_fault, 'b) comp" and h :: "'b \<Rightarrow> (mem_manager, mem_fault, 'c) comp"
    by (auto simp: fun_eq_iff andThen_def split: prod.splits sum.splits)
  have "needs (1 + (0 + 0)) AllocatePDE" "needs (1 + (0 + 0)) AllocatePTEForStack"
    unfolding AllocatePDE_def AllocatePTEForStack_def by (intro needs_andThen needs_page needs_modify keeps_clear needs_ret)+
  then have tab: "needs 1 AllocatePDE" "needs 1 AllocatePTEForStack" by simp_all
  have im: "needs (noOfPagesForProcess v + 9) (InitializeProcessSpaceForProcess c v)" for c v
    unfolding InitializeProcessSpaceForProcess_def AllocateStackSpace_def PROCESS_CG_STACK_PAGES_def NO_OF_PAGES_FOR_STARTUP_ARGS_def
    using needs_stack_loop[of 9] by (intro needs_andThen needs_image_loop) simp
  have "needs (1 + (noOfPagesForPTE u + (1 + (0 + ((noOfPagesForProcess u + 9) + 0))))) (AllocateAddressSpace u)"
    unfolding AllocateAddressSpace_def AllocatePTE_def assoc andThen_ret
    by (intro needs_andThen tab needs_pte_loop needs_modify keeps_os needs_ret)
      (use im[of "u\<lparr>startPDEForDLL := x, stackPTEAddress := y\<rparr>" for x y] in simp)
  moreover have "1 + (noOfPagesForPTE u + (1 + (0 + ((noOfPagesForProcess u + 9) + 0)))) = noOfPagesForPTE u + noOfPagesForProcess u + 11"
    by simp
  ultimately show ?thesis by (simp only:)
qed

text \<open>C12: Building an address space takes as many pages as it has tables and pages, no more. With fewer free it throws, and
  the ones it had taken stay taken: not a single page is left to anybody.
\<close>

theorem AllocateAddressSpace_pages:
  fixes u :: user_process and s :: mem_manager
  assumes "mem_wf s"
  defines "n \<equiv> noOfPagesForPTE u + noOfPagesForProcess u + 11"
  shows "if n \<le> card {p. allocatable s p}
    then \<exists>c u' t. AllocateAddressSpace u s = (Inr (c, u'), t) \<and> mem_wf t \<and> card {p. allocatable t p} = card {p. allocatable s p} - n
    else \<exists>t. AllocateAddressSpace u s = (Inl OutOfMemoryPages, t) \<and> {p. allocatable t p} = {}"
  using AllocateAddressSpace_needs[of u] assms(1) unfolding needs_def free_pages_def n_def by (auto split: if_splits)

text \<open>A machine with 96 pages, 64 of them free, and a program with two pages at \<open>PROCESS_BASE\<close>, for the examples.\<close>

definition demo_space :: mem_manager where
  "demo_space = demo_mem\<lparr>m_uiPageMap := [0xFFFFFFFF, 0, 0], m_uiPageMapSize := 3\<rparr>"

definition demo_program :: user_process where
  "demo_program = \<lparr>processBase = PROCESS_BASE, noOfPagesForProcess = 2, noOfPagesForPTE = 33, noOfPagesForDLLPTE = 0,
     totalNoOfPagesForDLL = 0, startPDEForDLL = 0, stackPTEAddress = 0, CR3_PDBR = 0, loadedDLLs = [], dllInfoMap = []\<rparr>"

lemma demo_program_fits: "image_fits demo_program" "unat (processBase demo_program) mod 4096 = 0" "mem_wf demo_space"
proof -
  have i: "i = 0 \<or> i = 1" if "i < 2" for i :: nat using that by auto
  show "image_fits demo_program"
    by (auto simp: image_fits_def demo_program_def PROCESS_SPACE_FOR_OS_def pdeBase_def pageBase_def image_pde_def PROCESS_BASE_def
        PAGE_TABLE_ENTRIES_def dest!: i)
qed (simp_all add: demo_program_def PROCESS_BASE_def demo_space_def demo_mem_def mem_wf_def)

lemma demo_space_free: "{p. allocatable demo_space p} = {32..<96}"
proof -
  have "\<not> page_used (m_uiPageMap demo_space) p" if "32 \<le> p" "p < 96" for p
  proof -
    have "p div 32 = 1 \<or> p div 32 = 2" using that by auto
    then show ?thesis by (auto simp: page_used_def demo_space_def)
  qed
  then show ?thesis by (auto simp: allocatable_def demo_space_def demo_mem_def)
qed

lemma demo_built: obtains c u' t where "AllocateAddressSpace demo_program demo_space = (Inr (c, u'), t)"
proof -
  have "card (free_pages demo_space) = 64" by (simp add: free_pages_def demo_space_free)
  moreover have "needs 46 (AllocateAddressSpace demo_program)" using AllocateAddressSpace_needs[of demo_program] by (simp add: demo_program_def)
  ultimately have "\<exists>x t. AllocateAddressSpace demo_program demo_space = (Inr x, t)"
    using demo_program_fits(3) unfolding needs_def by fastforce
  then show ?thesis using that by (metis surj_pair)
qed

lemma process_image_in_place_witness:
  "\<exists>c u' t. AllocateAddressSpace demo_program demo_space = (Inr (c, u'), t) \<and>
     peek8 (CopyElfImage c u' [1, 2, 3] t) (GetFlatAddress c (PROCESS_BASE + PROCESS_BASE + 2) (CopyElfImage c u' [1, 2, 3] t)) = 3"
proof -
  obtain c u' t where a: "AllocateAddressSpace demo_program demo_space = (Inr (c, u'), t)" by (rule demo_built)
  have "length [1, 2, 3 :: u8] \<le> noOfPagesForProcess demo_program * 4096" by (simp add: demo_program_def)
  from process_image_in_place[OF a demo_program_fits(3,1,2) this, THEN conjunct1, rule_format, of 2]
  show ?thesis using a by (auto simp: demo_program_def)
qed

lemma address_space_returned_witness:
  "\<exists>c u' t r. AllocateAddressSpace demo_program demo_space = (Inr (c, u'), t) \<and>
     DeAllocateAddressSpace (u'\<lparr>CR3_PDBR := c\<rparr>) (UserProcess_onLoad (u'\<lparr>CR3_PDBR := c\<rparr>) (CopyElfImage c u' [1, 2, 3] t)) = (Inr (), r) \<and>
     \<not> page_used (m_uiPageMap r) 32"
proof -
  obtain c u' t where a: "AllocateAddressSpace demo_program demo_space = (Inr (c, u'), t)" by (rule demo_built)
  have l: "length [1, 2, 3 :: u8] \<le> noOfPagesForProcess demo_program * 4096" by (simp add: demo_program_def)
  have "32 \<in> {p. allocatable demo_space p}" unfolding demo_space_free by simp
  then have "\<not> page_used (m_uiPageMap demo_space) 32" by (simp add: allocatable_def)
  then show ?thesis using address_space_returned[OF a demo_program_fits(3,1) l] a by blast
qed

lemma AllocateAddressSpace_pages_witness:
  "\<exists>t. AllocateAddressSpace (demo_program\<lparr>noOfPagesForProcess := 64\<rparr>) demo_space = (Inl OutOfMemoryPages, t) \<and> {p. allocatable t p} = {}"
  using AllocateAddressSpace_pages[OF demo_program_fits(3), of "demo_program\<lparr>noOfPagesForProcess := 64\<rparr>"]
  by (simp add: demo_space_free demo_program_def)

section \<open>The arguments of a program\<close>

text \<open>What lies on the stack when a program starts: \<open>argc\<close>, \<open>argv\<close>, the addresses of the arguments, their characters.\<close>

fun argument_addresses :: "u32 \<Rightarrow> u8 list list \<Rightarrow> u32 list" where
  "argument_addresses p [] = []"
| "argument_addresses p (x # xs) = p # argument_addresses (p + word_of_nat (length x + 1)) xs"

definition startup_block :: "u32 \<Rightarrow> u8 list list \<Rightarrow> u8 list" where
  "startup_block argv args =
     le_bytes (word_of_nat (length args)) @ le_bytes argv @
     concat (map le_bytes (argument_addresses (argv + 4 * word_of_nat (length args)) args)) @ concat (map (\<lambda>x. x @ [0]) args)"

lemma length_addresses: "length (concat (map le_bytes (argument_addresses p xs))) = 4 * length xs"
  by (induction xs arbitrary: p) auto

lemma length_strings: "length (concat (map (\<lambda>x. x @ [0]) xs)) = sum_list (map (\<lambda>x. length x + 1) xs)"
  by (induction xs) auto

lemma length_startup_block: "length (startup_block argv args) = entry_stack_size args"
  by (simp add: startup_block_def length_addresses length_strings entry_stack_size_def)

lemma peek_at:
  assumes "i < 4096" "off + length bs \<le> 4096"
  shows "peek8 (poke_bytes (a + word_of_nat off) bs s) (a + word_of_nat i) =
    (if off \<le> i \<and> i < off + length bs then bs ! (i - off) else peek8 s (a + word_of_nat i))"
proof -
  have "unat (a + word_of_nat i - (a + word_of_nat off)) = (if off \<le> i then i - off else 2 ^ 32 + i - off)"
  proof (cases "off \<le> i")
    case True
    then have "a + word_of_nat i - (a + word_of_nat off) = (word_of_nat (i - off) :: u32)" by (simp add: of_nat_diff)
    moreover have "unat (word_of_nat (i - off) :: u32) = i - off" using assms by (simp only: unat_of_nat) simp
    ultimately show ?thesis using True by simp
  next
    case False
    have "a + word_of_nat i - (a + word_of_nat off) = (word_of_nat (2 ^ 32 + i - off) :: u32)"
      using False assms by (simp add: of_nat_diff)
    moreover have "unat (word_of_nat (2 ^ 32 + i - off) :: u32) = 2 ^ 32 + i - off"
      using False assms by (simp only: unat_of_nat) simp
    ultimately show ?thesis using False by (simp only:) simp
  qed
  then show ?thesis using assms peek_poke_bytes[of bs "a + word_of_nat off" s "a + word_of_nat i"] by auto
qed

lemma push_args_bytes:
  assumes "i < 4096" "po + 4 * length xs \<le> so + k" "so + k + length (concat (map (\<lambda>x. x @ [0]) xs)) \<le> 4096"
  shows "peek8 (push_args (a + word_of_nat po) argv (a + word_of_nat so) (word_of_nat k) xs s) (a + word_of_nat i) =
    (if po \<le> i \<and> i < po + 4 * length xs then concat (map le_bytes (argument_addresses (argv + word_of_nat k) xs)) ! (i - po)
     else if so + k \<le> i \<and> i < so + k + length (concat (map (\<lambda>x. x @ [0]) xs)) then concat (map (\<lambda>x. x @ [0]) xs) ! (i - so - k)
     else peek8 s (a + word_of_nat i))"
  using assms
proof (induction xs arbitrary: po k s)
  case (Cons x xs)
  define s1 where "s1 = poke_bytes (a + word_of_nat po) (le_bytes (argv + word_of_nat k)) s"
  define s2 where "s2 = poke_bytes (a + word_of_nat (so + k)) (x @ [0]) s1"
  let ?i = "a + word_of_nat i"
  have 1: "peek8 s1 ?i = (if po \<le> i \<and> i < po + 4 then le_bytes (argv + word_of_nat k) ! (i - po) else peek8 s ?i)"
    unfolding s1_def by (subst peek_at) (use Cons.prems in auto)
  have 2: "peek8 s2 ?i = (if so + k \<le> i \<and> i < so + k + (length x + 1) then (x @ [0]) ! (i - (so + k)) else peek8 s1 ?i)"
    unfolding s2_def by (subst peek_at) (use Cons.prems in auto)
  have st: "push_args (a + word_of_nat po) argv (a + word_of_nat so) (word_of_nat k) (x # xs) s =
      push_args (a + word_of_nat (po + 4)) argv (a + word_of_nat so) (word_of_nat (k + (length x + 1))) xs s2"
    by (simp add: s1_def s2_def ac_simps)
  have len: "length (concat (map (\<lambda>x. x @ [0 :: u8]) (x # xs))) = length x + 1 + length (concat (map (\<lambda>x. x @ [0 :: u8]) xs))" by simp
  have IH: "peek8 (push_args (a + word_of_nat (po + 4)) argv (a + word_of_nat so) (word_of_nat (k + (length x + 1))) xs s2) ?i =
    (if po + 4 \<le> i \<and> i < po + 4 + 4 * length xs
     then concat (map le_bytes (argument_addresses (argv + word_of_nat (k + (length x + 1))) xs)) ! (i - (po + 4))
     else if so + (k + (length x + 1)) \<le> i \<and> i < so + (k + (length x + 1)) + length (concat (map (\<lambda>x. x @ [0]) xs))
     then concat (map (\<lambda>x. x @ [0]) xs) ! (i - so - (k + (length x + 1)))
     else peek8 s2 ?i)"
    by (rule Cons.IH) (use Cons.prems in auto)
  have ad: "argument_addresses (argv + word_of_nat k) (x # xs) =
      (argv + word_of_nat k) # argument_addresses (argv + word_of_nat (k + (length x + 1))) xs"
    by (simp add: ac_simps)
  have sp: "concat (map (\<lambda>x. x @ [0 :: u8]) (x # xs)) = (x @ [0]) @ concat (map (\<lambda>x. x @ [0]) xs)" by simp
  consider "po \<le> i \<and> i < po + 4" | "po + 4 \<le> i \<and> i < po + 4 + 4 * length xs"
    | "so + k \<le> i \<and> i < so + k + (length x + 1)" | "so + k + (length x + 1) \<le> i \<and> i < so + k + (length x + 1) + length (concat (map (\<lambda>x. x @ [0 :: u8]) xs))"
    | "\<not> (po \<le> i \<and> i < po + 4 * length (x # xs))" "\<not> (so + k \<le> i \<and> i < so + k + length (concat (map (\<lambda>x. x @ [0 :: u8]) (x # xs))))"
    unfolding len by atomize_elim (simp only: list.size, arith)
  then show ?case
  proof cases
    case 1
    then have "i - po < 4" by linarith
    then show ?thesis unfolding st IH ad sp using 1 Cons.prems(2) \<open>peek8 s1 ?i = _\<close> \<open>peek8 s2 ?i = _\<close> by (simp add: nth_append)
  next
    case 2
    moreover obtain l where "i = po + 4 + l" using 2 by (auto simp: le_iff_add)
    ultimately show ?thesis unfolding st IH ad sp by (simp add: nth_append)
  next
    case 3
    moreover obtain l where "i = so + k + l" using 3 by (auto simp: le_iff_add)
    ultimately show ?thesis unfolding st IH ad sp using Cons.prems(2) \<open>peek8 s2 ?i = _\<close> by (simp add: nth_append)
  next
    case 4
    moreover obtain l where "i = so + k + (length x + 1) + l" using 4 by (auto simp: le_iff_add)
    ultimately show ?thesis unfolding st IH ad sp using Cons.prems(2) by (simp add: nth_append)
  next
    case 5
    then show ?thesis unfolding st IH using \<open>peek8 s1 ?i = _\<close> \<open>peek8 s2 ?i = _\<close> by auto
  qed
qed auto

text \<open>C11: How a program receives its arguments. When they fit a page, the top of the startup page holds \<open>argc\<close>, \<open>argv\<close>, the
  addresses of the arguments and their characters, each closed by a zero byte; the rest of the page keeps its bytes.
\<close>

theorem startup_arguments:
  fixes s :: mem_manager
  assumes "PushProgramInitStackData u args s = (Inr sz, t)" "entry_stack_size args < 2 ^ 32"
    and "page = entry_at (stackPTEAddress u) (PAGE_TABLE_ENTRIES - PROCESS_CG_STACK_PAGES - NO_OF_PAGES_FOR_STARTUP_ARGS) s AND 0xFFFFF000"
  shows "unat sz = entry_stack_size args \<and> entry_stack_size args \<le> 4096 \<and>
    (\<forall>i < 4096. peek8 t (page + word_of_nat i) =
      (if i < 4096 - entry_stack_size args then peek8 s (page + word_of_nat i)
       else startup_block (USER_STACK_TOP - sz + 8) args ! (i - (4096 - entry_stack_size args))))"
proof -
  define n where "n = length args"
  define m where "m = entry_stack_size args"
  define argv where "argv = USER_STACK_TOP - sz + 8"
  let ?s1 = "poke_bytes (page + PAGE_SIZE - sz + 4) (le_bytes argv) (poke_bytes (page + PAGE_SIZE - sz) (le_bytes (word_of_nat n)) s)"
  have sz: "sz = word_of_nat m" "sz \<le> PAGE_SIZE"
      and t: "t = push_args (page + PAGE_SIZE - sz + 8) (argv + 4 * word_of_nat n) (page + PAGE_SIZE - sz + 8 + 4 * word_of_nat n) 0 args ?s1"
    using assms(1) by (auto simp: PushProgramInitStackData_def Let_def n_def m_def argv_def assms(3) NO_OF_PAGES_FOR_STARTUP_ARGS_def split: if_splits)
  have "unat sz = m" using assms(2) by (simp add: sz(1) m_def unat_of_nat)
  then have m: "m \<le> 4096" using sz(2) by (simp add: PAGE_SIZE_def word_le_nat_alt)
  define o0 where "o0 = 4096 - m"
  have a: "page + PAGE_SIZE - sz = page + word_of_nat o0" using m by (simp add: o0_def sz(1) PAGE_SIZE_def of_nat_diff)
  have mm: "m = 8 + 4 * n + length (concat (map (\<lambda>x. x @ [0 :: u8]) args))" by (simp add: m_def n_def entry_stack_size_def length_strings)
  have off: "page + word_of_nat o0 + 4 = page + word_of_nat (o0 + 4)" "page + word_of_nat o0 + 8 = page + word_of_nat (o0 + 8)"
      "page + word_of_nat (o0 + 8) + 4 * word_of_nat n = page + word_of_nat (o0 + 8 + 4 * n)" by simp_all
  let ?s2 = "poke_bytes (page + word_of_nat (o0 + 4)) (le_bytes argv) (poke_bytes (page + word_of_nat o0) (le_bytes (word_of_nat n)) s)"
  have t': "t = push_args (page + word_of_nat (o0 + 8)) (argv + 4 * word_of_nat n) (page + word_of_nat (o0 + 8 + 4 * n)) (word_of_nat 0) args ?s2"
    unfolding t a off by simp
  have "peek8 t (page + word_of_nat i) = (if i < o0 then peek8 s (page + word_of_nat i) else startup_block argv args ! (i - o0))"
    if i: "i < 4096" for i
  proof -
    let ?i = "page + word_of_nat i"
    let ?A = "concat (map le_bytes (argument_addresses (argv + 4 * word_of_nat n) args))" and ?S = "concat (map (\<lambda>x. x @ [0 :: u8]) args)"
    have B1: "peek8 ?s2 ?i = (if o0 + 4 \<le> i \<and> i < o0 + 8 then le_bytes argv ! (i - (o0 + 4))
        else if o0 \<le> i \<and> i < o0 + 4 then le_bytes (word_of_nat n) ! (i - o0) else peek8 s ?i)"
    proof -
      have "o0 + 4 + length (le_bytes argv) \<le> 4096" "o0 + length (le_bytes (word_of_nat n)) \<le> 4096" using m mm by (simp_all add: o0_def)
      then show ?thesis by (simp only: peek_at[OF i] length_le_bytes) (auto)
    qed
    have T: "peek8 t ?i = (if o0 + 8 \<le> i \<and> i < o0 + 8 + 4 * length args then ?A ! (i - (o0 + 8))
        else if o0 + 8 + 4 * n + 0 \<le> i \<and> i < o0 + 8 + 4 * n + 0 + length ?S then ?S ! (i - (o0 + 8 + 4 * n) - 0) else peek8 ?s2 ?i)"
      unfolding t' by (subst push_args_bytes) (use m mm i n_def in \<open>auto simp: o0_def\<close>)
    have lA: "length ?A = 4 * n" by (simp add: length_addresses n_def)
    have b: "startup_block argv args = le_bytes (word_of_nat n) @ le_bytes argv @ ?A @ ?S" by (simp add: startup_block_def n_def)
    consider "i < o0" | "o0 \<le> i \<and> i < o0 + 4" | "o0 + 4 \<le> i \<and> i < o0 + 8" | "o0 + 8 \<le> i \<and> i < o0 + 8 + 4 * n" | "o0 + 8 + 4 * n \<le> i"
      by linarith
    then show ?thesis
    proof cases
      case 2
      moreover obtain l where "i = o0 + l" using 2 by (auto simp: le_iff_add)
      ultimately show ?thesis using T B1 unfolding b by (simp add: nth_append n_def)
    next
      case 3
      moreover obtain l where "i = o0 + 4 + l" using 3 by (auto simp: le_iff_add)
      ultimately show ?thesis using T B1 unfolding b by (simp add: nth_append n_def)
    next
      case 4
      moreover obtain l where "i = o0 + 8 + l" using 4 by (auto simp: le_iff_add)
      ultimately show ?thesis using T lA unfolding b by (simp add: nth_append n_def)
    next
      case 5
      then have "i < o0 + 8 + 4 * n + length ?S" using i m mm by (simp add: o0_def)
      moreover obtain l where "i = o0 + 8 + 4 * n + l" using 5 by (auto simp: le_iff_add)
      ultimately show ?thesis using T lA unfolding b n_def[symmetric] by (simp add: nth_append)
    qed (use T B1 in \<open>simp add: n_def\<close>)
  qed
  then show ?thesis using \<open>unat sz = m\<close> m by (simp add: m_def argv_def o0_def)
qed

lemma startup_arguments_witness:
  "\<exists>sz t. PushProgramInitStackData demo_program [[0x6C, 0x73], [0x2F]] demo_space = (Inr sz, t) \<and> sz = 21 \<and>
     peek8 t 4075 = 2 \<and> peek8 t 4091 = 0x6C \<and> peek8 t 4094 = 0x2F"
proof -
  define args :: "u8 list list" where "args = [[0x6C, 0x73], [0x2F]]"
  have e: "entry_stack_size args = 21" by (simp add: entry_stack_size_def args_def)
  have z: "entry_at (stackPTEAddress demo_program) (PAGE_TABLE_ENTRIES - PROCESS_CG_STACK_PAGES - NO_OF_PAGES_FOR_STARTUP_ARGS) demo_space AND 0xFFFFF000 = 0"
    by (simp add: entry_at_def demo_space_def demo_mem_def)
  obtain sz t where p: "PushProgramInitStackData demo_program args demo_space = (Inr sz, t)"
    by (simp add: PushProgramInitStackData_def Let_def e NO_OF_PAGES_FOR_STARTUP_ARGS_def PAGE_SIZE_def)
  note S = startup_arguments[OF p _ z[symmetric]]
  have sz: "unat sz = 21" using S e by simp
  have B: "peek8 t (word_of_nat i) = startup_block (USER_STACK_TOP - sz + 8) args ! (i - 4075)" if "4075 \<le> i" "i < 4096" for i
    using S e that by simp
  have "sz = 21" using sz by (metis of_nat_unat ucast_id of_nat_numeral)
  moreover have "peek8 t 4075 = 2" using B[of 4075] by (simp add: startup_block_def args_def le_bytes_def)
  moreover have "peek8 t 4091 = 0x6C" using B[of 4091] by (simp add: startup_block_def args_def le_bytes_def)
  moreover have "peek8 t 4094 = 0x2F" using B[of 4094] by (simp add: startup_block_def args_def le_bytes_def)
  ultimately show ?thesis using p by (auto simp: args_def)
qed

end
