(* ===== verification/UserHeap.thy ===== *)
theory UserHeap
  imports KernelHeap AddressProperties
begin

text \<open>
  The heap of a user process, \<open>DMM_Allocate\<close>, \<open>DMM_DeAllocate\<close> and \<open>DMM_GetAllocSize\<close> in \<open>memory/DMM.cpp\<close>, with the
  trackers of \<open>KernelHeap\<close> but without their checksums, and the release of its pages.

  A page of the heap is mapped by the page fault of its first access, which is served only while the process' allocator is
  running (\<open>AllocatePage\<close> of \<open>PageMap\<close>); so the allocator reads every page of a block before it hands the block out. The
  model keeps the addresses of these reads. \<open>umem\<close> is the memory as the process sees it through its tables.
\<close>

section \<open>The operations\<close>

definition PROCESS_HEAP_SIZE :: u32 where "PROCESS_HEAP_SIZE = 0x40000000"

record user_heap =
  umem :: bytes
  userAUTAddress :: u32
  dmmFlag :: bool

definition PROCESS_VIRTUAL_ALLOCATED_ADDRESS :: "u32 \<Rightarrow> u32 \<Rightarrow> u32" where
  "PROCESS_VIRTUAL_ALLOCATED_ADDRESS GLOBAL_DATA_SEGMENT_BASE RealAddress = RealAddress + GLOBAL_DATA_SEGMENT_BASE - PROCESS_BASE"


definition user_heap_start :: "u32 \<Rightarrow> u32" where
  "user_heap_start GLOBAL_DATA_SEGMENT_BASE = PROCESS_HEAP_START_ADDRESS - GLOBAL_DATA_SEGMENT_BASE"

definition user_init_heap :: "u32 \<Rightarrow> user_heap \<Rightarrow> user_heap" where
  "user_init_heap GLOBAL_DATA_SEGMENT_BASE h =
     (if userAUTAddress h = 0
      then let p = user_heap_start GLOBAL_DATA_SEGMENT_BASE
           in h\<lparr>umem := set_uiNextAUTAddress p 0 (set_uiReturnAddress p 0 (set_uiSize p PROCESS_HEAP_SIZE
                  (set_uiAllocatedAddress p p (umem h)))),
                userAUTAddress := p\<rparr>
      else h)"

definition user_link_prev :: "u32 \<Rightarrow> u32 \<Rightarrow> user_heap \<Rightarrow> user_heap" where
  "user_link_prev prevAut next h =
     (if prevAut = 0 then h\<lparr>userAUTAddress := next\<rparr> else h\<lparr>umem := set_uiNextAUTAddress prevAut next (umem h)\<rparr>)"

definition user_carve :: "u32 \<Rightarrow> u32 \<Rightarrow> u32 \<Rightarrow> u32 \<Rightarrow> u32 \<Rightarrow> u32 \<Rightarrow> user_heap \<Rightarrow> user_heap" where
  "user_carve prevAut uiAddress uiMaxSize uiNext stuff sz h =
     (let allocAUT = uiAddress + stuff;
          h1 = h\<lparr>umem := set_uiNextAUTAddress allocAUT stuff (set_uiSize allocAUT sz
                 (set_uiReturnAddress allocAUT (uiAddress + sizeof_AUT + stuff)
                 (set_uiAllocatedAddress allocAUT uiAddress (umem h))))\<rparr>;
          uiRemaining = uiMaxSize - sz
      in if uiRemaining > sizeof_AUT + 1
         then let freeAUT = uiAddress + sz;
                  m = set_uiNextAUTAddress freeAUT uiNext (set_uiSize freeAUT uiRemaining (set_uiReturnAddress freeAUT 0
                        (set_uiAllocatedAddress freeAUT freeAUT (umem h1))))
              in user_link_prev prevAut (uiAllocatedAddress m freeAUT) (h1\<lparr>umem := m\<rparr>)
         else user_link_prev prevAut uiNext
                (h1\<lparr>umem := set_uiSize allocAUT (uiSize (umem h1) allocAUT + uiRemaining) (umem h1)\<rparr>))"

text \<open>
  The reads of \<open>DMM_Allocate\<close>: one byte in steps of a page, then the last one. They go by the tracker of the free block,
  \<open>aut\<close>, which is the tracker of the new block unless bytes are stuffed.
\<close>

partial_function (option) touch_loop :: "u32 \<Rightarrow> u32 \<Rightarrow> u32 list option" where
  "touch_loop addr stop =
     (if addr < stop then Option.bind (touch_loop (addr + PAGE_SIZE) stop) (\<lambda>xs. Some (addr # xs)) else Some [])"

definition touched :: "u32 \<Rightarrow> u32 \<Rightarrow> user_heap \<Rightarrow> u32 list option" where
  "touched uiAddress aut h =
     Option.bind (touch_loop (uiAddress + sizeof_AUT) (uiAddress + uiSize (umem h) aut)) (\<lambda>xs.
       Some (xs @ [uiAddress + uiSize (umem h) aut - 1]))"

partial_function (option) user_walk ::
    "u32 \<Rightarrow> u32 \<Rightarrow> u32 \<Rightarrow> u32 \<Rightarrow> u32 \<Rightarrow> user_heap \<Rightarrow> ((dmm_error + u32 \<times> u32 list) \<times> user_heap) option" where
  "user_walk GLOBAL_DATA_SEGMENT_BASE uiSizeInBytes uiAlignNumber aut prevAut h =
     (if aut \<noteq> 0
      then let uiAddress = uiAllocatedAddress (umem h) aut;
               uiMaxSize = uiSize (umem h) aut;
               uiNext = uiNextAUTAddress (umem h) aut;
               stuff = DMM_GetByteStuffForAlign (uiAddress + sizeof_AUT) uiAlignNumber;
               sz = uiSizeInBytes + sizeof_AUT + stuff
           in if sz \<le> uiMaxSize
              then let t = user_carve prevAut uiAddress uiMaxSize uiNext stuff sz h
                   in Option.bind (touched uiAddress aut t) (\<lambda>reads.
                        Some (Inr (PROCESS_VIRTUAL_ALLOCATED_ADDRESS GLOBAL_DATA_SEGMENT_BASE (uiReturnAddress (umem t) aut), reads),
                              t\<lparr>dmmFlag := False\<rparr>))
              else user_walk GLOBAL_DATA_SEGMENT_BASE uiSizeInBytes uiAlignNumber uiNext aut h
      else Some (Inl OutOfMemory, h))"

definition DMM_Allocate :: "u32 \<Rightarrow> u32 \<Rightarrow> u32 \<Rightarrow> user_heap \<Rightarrow> ((dmm_error + u32 \<times> u32 list) \<times> user_heap) option" where
  "DMM_Allocate GLOBAL_DATA_SEGMENT_BASE uiSizeInBytes uiAlignNumber h =
     (if \<not> DMM_CheckAlignNumber uiAlignNumber then Some (Inl BadAlign, h)
      else let h1 = user_init_heap GLOBAL_DATA_SEGMENT_BASE (h\<lparr>dmmFlag := True\<rparr>)
           in user_walk GLOBAL_DATA_SEGMENT_BASE uiSizeInBytes uiAlignNumber (userAUTAddress h1) 0 h1)"



section \<open>Giving the pages of the heap back\<close>

text \<open>Both walks stop at the first entry that is not present.\<close>

fun free_heap_pages :: "u32 \<Rightarrow> nat \<Rightarrow> nat \<Rightarrow> (mem_manager, mem_fault, unit) comp" where
  "free_heap_pages table j 0 s = ret () s"
| "free_heap_pages table j (Suc n) s =
     (let e = entry_at table j s in
      if e AND 1 \<noteq> 0 \<and> page_of e \<noteq> 0
      then andThen (DeAllocatePhysicalPage (page_of e)) (\<lambda>_. free_heap_pages table (Suc j) n) s
      else ret () s)"

fun free_heap_tables :: "u32 \<Rightarrow> nat \<Rightarrow> nat \<Rightarrow> nat \<Rightarrow> (mem_manager, mem_fault, unit) comp" where
  "free_heap_tables c i first 0 s = ret () s"
| "free_heap_tables c i first (Suc n) s =
     (let e = entry_at c i s in
      if e AND 1 \<noteq> 0 \<and> e AND 0xFFFFF000 \<noteq> 0
      then andThen (free_heap_pages (e AND 0xFFFFF000) first (PAGE_TABLE_ENTRIES - first)) (\<lambda>_.
           andThen (DeAllocatePhysicalPage (page_of e)) (\<lambda>_. free_heap_tables c (Suc i) 0 n)) s
      else ret () s)"

definition DMM_DeAllocatePhysicalPages :: "u32 \<Rightarrow> (mem_manager, mem_fault, unit) comp" where
  "DMM_DeAllocatePhysicalPages pdbr =
     (let i = unat (pde_index PROCESS_HEAP_START_ADDRESS)
      in free_heap_tables pdbr i (unat (pte_index PROCESS_HEAP_START_ADDRESS)) (PAGE_TABLE_ENTRIES - i))"

section \<open>The reads\<close>

text \<open>What the loop reads when the block ends a page before the end of memory.\<close>

function page_steps :: "nat \<Rightarrow> nat \<Rightarrow> nat list" where
  "page_steps a e = (if a < e then a # page_steps (a + 4096) e else [])"
  by pat_completeness auto

termination by (relation "measure (\<lambda>(a, e). e - a)") auto

declare page_steps.simps [simp del]

lemma touch_loop_steps:
  "unat a + 4096 < 2 ^ 32 \<or> e \<le> a \<Longrightarrow> unat e + 4096 \<le> 2 ^ 32 \<Longrightarrow> touch_loop a e = Some (map word_of_nat (page_steps (unat a) (unat e)))"
proof (induction "unat e - unat a" arbitrary: a rule: less_induct)
  case less
  show ?case
  proof (cases "a < e")
    case True
    then have l: "unat a < unat e" by (simp add: word_less_nat_alt)
    then have u: "unat (a + PAGE_SIZE) = unat a + 4096" using less.prems(2) by (simp add: PAGE_SIZE_def unat_word_ariths)
    have "touch_loop (a + PAGE_SIZE) e = Some (map word_of_nat (page_steps (unat (a + PAGE_SIZE)) (unat e)))"
    proof (rule less.hyps[OF _ _ less.prems(2)])
      show "unat e - unat (a + PAGE_SIZE) < unat e - unat a" unfolding u using l by linarith
      show "unat (a + PAGE_SIZE) + 4096 < 2 ^ 32 \<or> e \<le> a + PAGE_SIZE" unfolding u word_le_nat_alt using less.prems(2) by linarith
    qed
    then show ?thesis using True l by (subst touch_loop.simps, subst page_steps.simps) (simp add: u)
  next
    case False
    then show ?thesis by (subst touch_loop.simps, subst page_steps.simps) (simp add: word_less_nat_alt)
  qed
qed

lemma page_steps_set: "x \<in> set (page_steps a e) \<longleftrightarrow> x < e \<and> a \<le> x \<and> (x - a) mod 4096 = 0"
proof (induction a e rule: page_steps.induct)
  case (1 a e)
  show ?case
  proof (cases "a < e")
    case True
    have "x = a \<or> x < e \<and> a + 4096 \<le> x \<and> (x - (a + 4096)) mod 4096 = 0 \<longleftrightarrow> x < e \<and> a \<le> x \<and> (x - a) mod 4096 = 0"
    proof (cases "a + 4096 \<le> x")
      case True
      then obtain k where "x = a + 4096 + k" by (auto simp: le_iff_add)
      then show ?thesis by simp
    next
      case False
      then show ?thesis using True by (auto simp: not_le) 
    qed
    then show ?thesis using 1[OF True] True by (subst page_steps.simps) auto
  next
    case False
    then show ?thesis by (subst page_steps.simps) auto
  qed
qed

text \<open>With its first and its last byte they meet every page of the block.\<close>

lemma reads_cover:
  fixes a e x :: nat
  assumes x: "a \<le> x" "x < e" and e: "a + 20 \<le> e"
  shows "\<exists>y \<in> insert a (set (page_steps (a + 20) e @ [e - 1])). y div 4096 = x div 4096"
proof -
  define j where "j = (x - (a + 20)) div 4096"
  define y where "y = a + 20 + 4096 * j"
  consider "x < a + 20" | "a + 20 \<le> x" by linarith
  then show ?thesis
  proof cases
    case 1
    show ?thesis
    proof (cases "x div 4096 = a div 4096")
      case False
      then have "(a + 20) div 4096 = x div 4096 \<and> (a + 19) div 4096 = x div 4096" using 1 x(1) by linarith
      then show ?thesis using e by (cases "a + 20 < e") (auto simp: page_steps_set intro: bexI[of _ "a + 20"])
    qed auto
  next
    case 2
    have "x - (a + 20) = 4096 * j + (x - (a + 20)) mod 4096" by (simp add: j_def)
    then have y: "y \<le> x" "x < y + 4096" using 2 mod_less_divisor[of 4096 "x - (a + 20)"] by (simp_all add: y_def)
    have my: "y \<in> set (page_steps (a + 20) e)" using y(1) x(2) by (simp add: page_steps_set y_def)
    show ?thesis
    proof (cases "x div 4096 = y div 4096")
      case False
      then have n: "x div 4096 = y div 4096 + 1" using y by linarith
      show ?thesis
      proof (cases "y + 4096 < e")
        case True
        then have "y + 4096 \<in> set (page_steps (a + 20) e)" by (simp add: page_steps_set y_def)
        then show ?thesis using n by (intro bexI[of _ "y + 4096"]) auto
      next
        case False
        then have "(e - 1) div 4096 = x div 4096" using n x(2) y by linarith
        then show ?thesis by auto
      qed
    qed (use my in auto)
  qed
qed

section \<open>Blocks of a fresh heap\<close>


text \<open>The byte at every address of the block lies on a page that was read, or on the one with its tracker.\<close>

definition maps_block :: "nat \<Rightarrow> nat \<Rightarrow> u32 list \<Rightarrow> bool" where
  "maps_block a k reads \<longleftrightarrow> (\<forall>x. a \<le> x \<and> x < a + k \<longrightarrow>
     (\<exists>y \<in> insert (word_of_nat a) (set reads). page_no y = page_no (word_of_nat x)))"


lemma page_no_nat: "x < 2 ^ 32 \<Longrightarrow> unat (page_no (word_of_nat x)) = x div 4096"
  by (simp add: page_no_def drop_bit_eq_div unat_div unat_of_nat)

lemma touched_block:
  assumes "0 < a" "a + k + 4096 \<le> 2 ^ 32" "20 \<le> k" "uiSize (umem h) (word_of_nat a) = word_of_nat k"
  obtains reads where "touched (word_of_nat a) (word_of_nat a) h = Some reads" "maps_block a k reads"
proof -
  let ?e = "word_of_nat (a + k) :: u32" and ?s = "word_of_nat (a + 20) :: u32"
  have u: "unat ?s = a + 20" "unat ?e = a + k" using assms(2,3) by (simp_all only: unat_of_nat) simp_all
  have "touch_loop ?s ?e = Some (map word_of_nat (page_steps (a + 20) (a + k)))"
    using touch_loop_steps[of ?s ?e] assms(2,3) unfolding u word_le_nat_alt by linarith
  moreover have "word_of_nat a + sizeof_AUT = ?s" "word_of_nat a + uiSize (umem h) (word_of_nat a) = ?e"
    using assms(4) by (simp_all add: sizeof_AUT_def add.commute)
  moreover have "?e - 1 = word_of_nat (a + k - 1)" using assms(1) by (simp add: of_nat_diff)
  ultimately have t: "touched (word_of_nat a) (word_of_nat a) h = Some (map word_of_nat (page_steps (a + 20) (a + k) @ [a + k - 1]))"
    by (simp add: touched_def)
  have "maps_block a k (map word_of_nat (page_steps (a + 20) (a + k) @ [a + k - 1]))"
    unfolding maps_block_def
  proof (intro allI impI)
    fix x assume x: "a \<le> x \<and> x < a + k"
    then obtain y where y: "y \<in> insert a (set (page_steps (a + 20) (a + k) @ [a + k - 1]))" "y div 4096 = x div 4096"
      using reads_cover[of a x "a + k"] assms(3) by auto
    have "y < 2 ^ 32" using y(1) assms(2,3) by (auto simp: page_steps_set)
    then have "unat (page_no (word_of_nat y)) = unat (page_no (word_of_nat x))" using y(2) x assms(2) by (simp add: page_no_nat)
    then have "page_no (word_of_nat y) = page_no (word_of_nat x)" by (simp add: word_unat_eq_iff)
    then show "\<exists>z \<in> insert (word_of_nat a) (set (map word_of_nat (page_steps (a + 20) (a + k) @ [a + k - 1]))). page_no z = page_no (word_of_nat x)"
      using y(1) by auto
  qed
  then show ?thesis using that t by blast
qed








section \<open>Freeing and stuffing\<close>






text \<open>Alignment in the heap of a process. A request that needs a tracker's length or more of stuffing on a fresh heap gets no
  usable address: the result is the one of address 0, and the allocator has read a byte of every page of the whole heap.\<close>

theorem aligned_user_request_lost:
  assumes "userAUTAddress h = 0" "unat G \<le> 0x40000000" "DMM_CheckAlignNumber al"
    and "stuff = unat (DMM_GetByteStuffForAlign (user_heap_start G + sizeof_AUT) al)" "20 \<le> stuff" "n + 41 + stuff < 0x40000000"
  shows "\<exists>reads t. DMM_Allocate G (word_of_nat n) al h = Some (Inr (PROCESS_VIRTUAL_ALLOCATED_ADDRESS G 0, reads), t) \<and>
    maps_block (unat (user_heap_start G)) 0x40000000 reads"
proof -
  define a where "a = unat (user_heap_start G)"
  define A :: u32 where "A = word_of_nat a"
  define st :: u32 where "st = DMM_GetByteStuffForAlign (A + sizeof_AUT) al"
  have A: "A = user_heap_start G" by (simp add: A_def a_def)
  have "unat (user_heap_start G) = 0x80000000 - unat G"
    using assms(2) by (simp add: user_heap_start_def PROCESS_HEAP_START_ADDRESS_def unat_sub word_le_nat_alt)
  then have a: "0 < a" "a + 0x40000000 + 4096 \<le> 2 ^ 32" using assms(2) by (simp_all add: a_def)
  have st: "st = word_of_nat stuff" using assms(4) by (simp add: st_def A)
  have sz: "word_of_nat n + sizeof_AUT + st = (word_of_nat (n + 20 + stuff) :: u32)" by (simp add: sizeof_AUT_def st)
  define B :: u32 where "B = word_of_nat (a + stuff)"
  define F :: u32 where "F = word_of_nat (a + (n + 20 + stuff))"
  have BF: "A + st = B" "A + word_of_nat (n + 20 + stuff) = F" by (simp_all add: A_def B_def F_def st add.assoc)
  have far: "far B A" "far F A" using far_nat[of a "a + stuff"] far_nat[of a "a + (n + 20 + stuff)"] a assms(5,6) by (simp_all add: A_def B_def F_def)
  have le: "word_of_nat (n + 20 + stuff) \<le> PROCESS_HEAP_SIZE"
  proof -
    have "unat (word_of_nat (n + 20 + stuff) :: u32) = n + 20 + stuff" using assms(6) by (intro unat_w32) simp
    then show ?thesis using assms(6) by (simp add: PROCESS_HEAP_SIZE_def word_le_nat_alt)
  qed
  have rem: "PROCESS_HEAP_SIZE - word_of_nat (n + 20 + stuff) = (word_of_nat (0x40000000 - (n + 20 + stuff)) :: u32)"
    using assms(6) w32_diff[of "n + 20 + stuff" "0x40000000"] by (simp add: PROCESS_HEAP_SIZE_def)
  have big: "(word_of_nat (0x40000000 - (n + 20 + stuff)) :: u32) > sizeof_AUT + 1"
  proof -
    have "unat (word_of_nat (0x40000000 - (n + 20 + stuff)) :: u32) = 0x40000000 - (n + 20 + stuff)" by (intro unat_w32) simp
    then show ?thesis using assms(6) by (simp add: sizeof_AUT_def word_less_nat_alt)
  qed
  define h1 where "h1 = user_init_heap G (h\<lparr>dmmFlag := True\<rparr>)"
  have h1: "userAUTAddress h1 = A" "uiAllocatedAddress (umem h1) A = A" "uiSize (umem h1) A = PROCESS_HEAP_SIZE"
      "uiNextAUTAddress (umem h1) A = 0" "uiReturnAddress (umem h1) A = 0"
    using assms(1) by (simp_all add: h1_def user_init_heap_def Let_def A)
  define t where "t = user_carve 0 A PROCESS_HEAP_SIZE 0 st (word_of_nat (n + 20 + stuff)) h1"
  have T: "uiSize (umem t) A = PROCESS_HEAP_SIZE" "uiReturnAddress (umem t) A = 0"
    using far big h1 by (simp_all add: t_def user_carve_def Let_def rem BF user_link_prev_def del: of_nat_add)
  obtain reads where rd: "touched A A t = Some reads" "maps_block a 0x40000000 reads"
    using touched_block[of a "0x40000000" t] a T(1) by (auto simp: A_def PROCESS_HEAP_SIZE_def)
  have "A \<noteq> 0" using a unat_of_nat[of a, where ?'a = 32] by (auto simp: A_def dest!: arg_cong[of _ _ unat])
  then have "DMM_Allocate G (word_of_nat n) al h = Some (Inr (PROCESS_VIRTUAL_ALLOCATED_ADDRESS G 0, reads), t\<lparr>dmmFlag := False\<rparr>)"
    using h1 le rd(1) T(2) assms(3)
    by (simp add: DMM_Allocate_def h1_def[symmetric] user_walk.simps[of _ _ _ A] Let_def st_def[symmetric] sz t_def[symmetric] del: of_nat_add)
  then show ?thesis using rd(2) by (auto simp: a_def)
qed

lemma aligned_user_request_lost_witness:
  "\<exists>reads t. DMM_Allocate 0 100 4096 \<lparr>umem = (\<lambda>_. 0), userAUTAddress = 0, dmmFlag = False\<rparr> = Some (Inr (PROCESS_VIRTUAL_ALLOCATED_ADDRESS 0 0, reads), t) \<and>
     maps_block 0x80000000 0x40000000 reads"
proof -
  have "DMM_CheckAlignNumber 4096" by (simp add: DMM_CheckAlignNumber_def IsPowerOfTwo_def)
  moreover have "unat (DMM_GetByteStuffForAlign (user_heap_start 0 + sizeof_AUT) 4096) = 4076"
    by (simp add: DMM_GetByteStuffForAlign_def user_heap_start_def PROCESS_HEAP_START_ADDRESS_def sizeof_AUT_def)
  ultimately show ?thesis
    using aligned_user_request_lost[of "\<lparr>umem = (\<lambda>_. 0), userAUTAddress = 0, dmmFlag = False\<rparr>" 0 4096 4076 100]
    by (simp add: user_heap_start_def PROCESS_HEAP_START_ADDRESS_def)
qed

end
