(* ===== verification/Spec2Isabelle.thy ===== *)
theory Spec2Isabelle
  imports CalendarProperties PageProperties KernelHeap DiskProperties FatProperties FileTheorems SchedulerProperties PartitionProperties SessionProperties UserHeap
begin

text \<open>
  The core of the Upanix kernel (\<open>src/\<close>) and what makes it correct.

  \<^bold>\<open>The parts and how they interact.\<close> A process is created by \<open>ProcessManager\<close>, which gives it an address space made of
  pages of \<open>MemManager\<close> and schedules it; it allocates memory with the calls of \<open>DMM.cpp\<close>, whose pages are mapped by page
  faults that \<open>MemManager\<close> serves. It works with files through descriptors (\<open>IODescriptorTable\<close>), whose operations
  (\<open>FileOperations\<close>, \<open>FileDescriptor\<close>, \<open>BufferedReader\<close>) go to a mounted drive, where \<open>Directory.cpp\<close> finds entries and
  transfers the bytes of files along chains of sectors; the chains are in the allocation table of \<open>FileSystem.cpp\<close>, with
  its cache of table blocks, and all sectors go through the write-back cache of the drive (\<open>DeviceDrive.cpp\<close>,
  \<open>DiskCache.cpp\<close>). Where a drive lies on a disk is said by the partition tables (\<open>PartitionManager.cpp\<close>).

  \<^bold>\<open>How code is modelled.\<close> A function that changes state and may throw is a function from the state to a result and a state
  (\<open>comp\<close> of \<open>Prelude\<close>): \<open>Inr\<close> is a return, \<open>Inl\<close> an exception, and the state is what the code leaves behind in both cases.
  Machine integers keep their width; a read outside a table is a value of its own. A loop that may not end is a
  \<open>partial_function (option)\<close>, where \<open>None\<close> says that it does not end, or has fuel and the error \<open>NoReturn\<close>. Locks and
  interrupt guards are left out where the code holds them for the whole function.

  \<^bold>\<open>Which theory models what.\<close>
  \<^item> \<open>Prelude\<close>: machine types, tables with checked reads, computations that may throw and their rules, loops over ranges.
  \<^item> \<open>Calendar\<close>, \<open>CalendarProperties\<close>: the dates of \<open>libmcpp/cal/mdate.cpp\<close>, function by function. Adding and subtracting days
    is arithmetic on day numbers; the faults of the arithmetic with months are stated as such.
  \<^item> \<open>PageMap\<close>, \<open>PageProperties\<close>: \<open>memory/MemManager.cpp\<close>: the bitmaps of physical pages and of the kernel's page pool, kernel
    stacks, page faults and the translation of addresses. \<open>mem_manager\<close> has the fields of the class, and physical memory
    as words. The two allocators are instances of one interface, the locale \<open>page_pool\<close>.
  \<^item> \<open>KernelHeap\<close>: the kernel heap of \<open>memory/DMM.cpp\<close> with its trackers as bytes of memory. The invariant says which blocks are
    live and free and that they tile the heap; the locale \<open>allocator\<close> gives from it that live blocks never overlap. Double
    frees, exhausted heaps and requests that wrap around are theorems about what goes wrong.
  \<^item> \<open>AddressSpace\<close>, \<open>AddressProperties\<close>: \<open>process/UserProcess.cpp\<close> and \<open>SchedulableProcess::Common\<close>: the directory, tables, image,
    stack and libraries of a process, its startup arguments, and the release of all of it. One lemma about loops that take a
    page and enter it (\<open>alloc_loop_takes\<close>) carries the three loops; \<open>built\<close> says which page is where, and from it come the image in
    place, the exact release, and the number of pages needed (\<open>needs\<close>).
  \<^item> \<open>UserHeap\<close>: the heap of a process (\<open>DMM_Allocate\<close>, \<open>DMM_DeAllocate\<close>, \<open>DMM_GetAllocSize\<close>, \<open>DMM_DeAllocatePhysicalPages\<close>), and
    the reads by which the allocator has the pages of a block mapped.
  \<^item> \<open>DiskStore\<close>, \<open>DiskProperties\<close>: \<open>drivers/DeviceDrive.cpp\<close> and \<open>drivers/DiskCache.cpp\<close>: sector transfers through the cache,
    replacement, flushing. The container of the cache is \<open>cache_lib\<close>. The locale \<open>sector_store\<close> is what users of a drive
    rely on: a sector reads as it was last written; the stale pointers of a full cache break it and are a theorem.
  \<^item> \<open>FatTable\<close>, \<open>FatProperties\<close>: \<open>filesystem/FileSystem.cpp\<close>: boot block, formatting, table cache, free pool, allocation of
    sectors. The locale \<open>fat_store\<close> over \<open>sector_store\<close> shows that the table refines a map from sectors to entries.
  \<^item> \<open>Volume\<close>, \<open>Directory\<close>, \<open>FileData\<close>: \<open>filesystem/Directory.cpp\<close> and the nodes of \<open>FileSystem.h\<close>: searching, creating and
    deleting entries, paths, reading and writing the contents of files.
  \<^item> \<open>VolumeStore\<close>, \<open>FileProperties\<close>, \<open>DirProperties\<close>, \<open>FileWriting\<close>, \<open>NodeLayout\<close>, \<open>FileTheorems\<close>: the contracts of a volume (locales
    \<open>volume_store\<close>, \<open>bulk_volume\<close>, derived from \<open>fat_store\<close> by \<open>sublocale\<close>), the content of a chain of sectors, search of a directory
    as search of the list of its slots, writes as an update of the bytes; a concrete layout of entries for the examples.
  \<^item> \<open>Session\<close>, \<open>FileOps\<close>, \<open>FileSession\<close>, \<open>SessionProperties\<close>: drives and their numbers, mounting (\<open>kernel/MountManager.cpp\<close>),
    environment variables (\<open>process/ProcessEnv.cpp\<close>), path prefixes, every operation of \<open>FileOperations.cpp\<close> and \<open>FileDescriptor.cpp\<close>,
    and \<open>BufferedReader.cpp\<close>. The locale \<open>file_contents\<close> is what a reader of an open file relies on.
  \<^item> \<open>IoTable\<close>, \<open>IoProperties\<close>: \<open>io/\<close>: descriptor tables, redirection, reference counts, streams. Reachable tables have exact
    counts as long as no redirected descriptor is redirected again.
  \<^item> \<open>Scheduler\<close>, \<open>SchedulerProperties\<close>: \<open>process/ProcessManager.cpp\<close>, \<open>SchedulableProcess.cpp\<close>, \<open>AutonomousProcess.cpp\<close>,
    \<open>ProcessGroup.cpp\<close>, \<open>kernel/PIT.cpp\<close>, \<open>IrqManager.cpp\<close>, \<open>ResourceMutex.cpp\<close>. The code of a process is the interface
    \<open>process_code\<close>, interpreted on processes that make the calls of the kernel.
  \<^item> \<open>Partition\<close>, \<open>PartitionProperties\<close>: \<open>drivers/PartitionManager.cpp\<close>: boot records, chains of extended partitions, GUID tables.
\<close>

text \<open>
  \<^bold>\<open>Parameters.\<close> What the sources only call is an argument of the model, with laws that state its documented behaviour:
  \<open>cache_lib\<close> (the B-tree of cached sectors and its key lists, \<open>lib_ok\<close>, instance \<open>plain_lib\<close>), \<open>fs_env\<close> (the drive as the file
  system sees it, instance \<open>drive_env\<close>), \<open>node_lib\<close> (the layout of directory entries in a sector, \<open>node_lib_ok\<close>, instance
  \<open>layout_lib\<close>), the stream buffers of \<open>IoTable\<close>, the processor of \<open>Scheduler\<close>, and \<open>GLOBAL_DATA_SEGMENT_BASE\<close>, which is set at boot.
  Properties that use a law are applied to these instances in their examples.

  \<^bold>\<open>Bounds and fuel.\<close> \<open>loop_bound\<close> bounds the walks along a chain of sectors or the parents of a directory: properties ask for
  a chain shorter than it, so that \<open>NoReturn\<close> does not occur. The loops of \<open>Partition\<close> over extended partitions have fuel
  because the code may walk a cycle, which \<open>zero_extended_partition_hangs\<close> shows; \<open>read_chunks\<close> is bounded by the length of the file, which
  every round shortens. The walks of the free lists and the reads of an allocation are \<open>partial_function\<close>s, and the properties
  show their results, so that they end.

  \<^bold>\<open>Not modelled.\<close> Drivers of devices (\<open>drivers/usb\<close>, \<open>ide\<close>, \<open>floppy\<close>, \<open>net\<close>, \<open>video\<close>, \<open>bus\<close>), whose behaviour is that of
  registers; boot code and assembly; the console and its commands, which print and call other parts; the ELF parser and the
  dynamic linker, which read files that the linker of the host has written; the graphical interface. The heap, the
  containers and the strings of \<open>libcpp\<close> are not in the repository. Printing is left out everywhere, and a program that
  waits is an error value that says on what it waits.
\<close>

end
